(* ===== verification/Prelude.thy ===== *)
theory Prelude
  imports Main "HOL-Library.Word"
begin

unbundle bit_operations_syntax

text \<open>
  What every component of the library shares: the machine integers of the protocol and
  their little-endian object representation, statements over a mutable object that can
  throw (a state-and-exception monad with its run rules and the rules for invariants it preserves), and reachable
  states of a step system.
\<close>

section \<open>Collections\<close>

named_theorems prog_run \<open>how a statement runs in a given state\<close>
named_theorems hoare \<open>introduction rules for preserved invariants\<close>
named_theorems codec \<open>encoding and decoding facts\<close>

section \<open>Machine integers and their bytes\<close>

type_synonym u8 = "8 word"
type_synonym u16 = "16 word"
type_synonym bytes = "u8 list"

text \<open>
  The code reads and writes a \<^verbatim>\<open>uint16_t\<close> through a \<^verbatim>\<open>reinterpret_cast\<close> of its address,
  so the order of the two bytes is the host's. The development fixes a little-endian
  host: the low byte comes first.
\<close>

definition u16_le :: "u16 \<Rightarrow> bytes" where
  "u16_le w = [ucast w, ucast (drop_bit 8 w)]"

definition le_u16 :: "u8 \<Rightarrow> u8 \<Rightarrow> u16" where
  "le_u16 lo hi = push_bit 8 (ucast hi) OR ucast lo"

lemma length_u16_le [simp, codec]: "length (u16_le w) = 2"
  by (simp add: u16_le_def)

lemma le_u16_u16_le [simp, codec]: "le_u16 (ucast w) (ucast (drop_bit 8 w)) = w"
  unfolding le_u16_def
  by (rule bit_word_eqI) (auto simp: bit_simps)

lemma ucast_le_u16_lo [simp]: "(ucast (le_u16 a b) :: u8) = a"
  unfolding le_u16_def by (rule bit_word_eqI) (auto simp: bit_simps)

lemma ucast_le_u16_hi [simp]: "(ucast (drop_bit 8 (le_u16 a b)) :: u8) = b"
  unfolding le_u16_def by (rule bit_word_eqI) (auto simp: bit_simps dest: bit_imp_le_length)

lemma le_u16_eq_iff [simp]: "le_u16 a b = le_u16 c d \<longleftrightarrow> a = c \<and> b = d"
  by (metis ucast_le_u16_lo ucast_le_u16_hi)

lemma u16_le_eq_iff [simp]: "u16_le v = u16_le w \<longleftrightarrow> v = w"
  unfolding u16_le_def by (metis le_u16_u16_le list.inject)

text \<open>A size that is stored in a 16-bit field is read back when it fits.\<close>

lemma unat_of_nat_u16 [simp]: "n < 65536 \<Longrightarrow> unat (of_nat n :: u16) = n"
  by (simp add: unat_of_nat take_bit_nat_eq_self)

lemma unat_of_nat_u8 [simp]: "n < 256 \<Longrightarrow> unat (of_nat n :: u8) = n"
  by (simp add: unat_of_nat take_bit_nat_eq_self)

lemma unat_u16_less: "unat (w :: u16) < 65536"
  by (rule order_less_le_trans [OF unsigned_less]) simp

lemma unat_u8_less: "unat (w :: u8) < 256"
  by (rule order_less_le_trans [OF unsigned_less]) simp

section \<open>Statements over an object that can throw\<close>

text \<open>
  A member function that mutates its object, may throw and returns a value runs from the
  object's state to the thrown exception (\<open>Inl\<close>) or the returned value (\<open>Inr\<close>), together
  with the state it leaves: an exception does not undo what was written before it.
\<close>

type_synonym ('s, 'e, 'a) prog = "'s \<Rightarrow> ('e + 'a) \<times> 's"

definition retE :: "'a \<Rightarrow> ('s, 'e, 'a) prog" where
  "retE x = (\<lambda>s. (Inr x, s))"

definition throwE :: "'e \<Rightarrow> ('s, 'e, 'a) prog" where
  "throwE e = (\<lambda>s. (Inl e, s))"

definition bindE :: "('s, 'e, 'a) prog \<Rightarrow> ('a \<Rightarrow> ('s, 'e, 'b) prog) \<Rightarrow> ('s, 'e, 'b) prog" where
  "bindE m f = (\<lambda>s. case m s of (Inl e, t) \<Rightarrow> (Inl e, t) | (Inr x, t) \<Rightarrow> f x t)"

text \<open>A block of statements, run in order.\<close>

fun blockE :: "('s, 'e, unit) prog list \<Rightarrow> ('s, 'e, unit) prog" where
  "blockE [] = retE ()"
| "blockE (m # ms) = bindE m (\<lambda>_. blockE ms)"

definition modifyE :: "('s \<Rightarrow> 's) \<Rightarrow> ('s, 'e, unit) prog" where
  "modifyE f = (\<lambda>s. (Inr (), f s))"

text \<open>A statement that reads the state before it is chosen.\<close>

definition withE :: "('s \<Rightarrow> ('s, 'e, 'a) prog) \<Rightarrow> ('s, 'e, 'a) prog" where
  "withE f = (\<lambda>s. f s s)"

text \<open>A call that only computes a value or an exception.\<close>

definition liftE :: "'e + 'a \<Rightarrow> ('s, 'e, 'a) prog" where
  "liftE r = (\<lambda>s. (r, s))"

definition whenE :: "bool \<Rightarrow> ('s, 'e, unit) prog \<Rightarrow> ('s, 'e, unit) prog" where
  "whenE b m = (if b then m else retE ())"

text \<open>\<^verbatim>\<open>try { m } catch (e) { h(e) }\<close>.\<close>

definition catchE :: "('s, 'e, 'a) prog \<Rightarrow> ('e \<Rightarrow> ('s, 'e, 'a) prog) \<Rightarrow> ('s, 'e, 'a) prog" where
  "catchE m h = (\<lambda>s. case m s of (Inl e, t) \<Rightarrow> h e t | (Inr x, t) \<Rightarrow> (Inr x, t))"

text \<open>A call on a member object, which only sees and writes its own part of the state.\<close>

definition zoomE :: "('s \<Rightarrow> 't) \<Rightarrow> ('t \<Rightarrow> 's \<Rightarrow> 's) \<Rightarrow> ('t, 'e, 'a) prog \<Rightarrow> ('s, 'e, 'a) prog" where
  "zoomE get put m = (\<lambda>s. case m (get s) of (r, t) \<Rightarrow> (r, put t s))"

text \<open>\<^verbatim>\<open>for (auto& x: xs) body(x)\<close>.\<close>

fun foreachE :: "('x \<Rightarrow> ('s, 'e, unit) prog) \<Rightarrow> 'x list \<Rightarrow> ('s, 'e, unit) prog" where
  "foreachE body [] = retE ()"
| "foreachE body (x # xs) = bindE (body x) (\<lambda>_. foreachE body xs)"

lemma run_retE [prog_run]: "retE x s = (Inr x, s)"
  by (simp add: retE_def)

lemma run_throwE [prog_run]: "throwE e s = (Inl e, s)"
  by (simp add: throwE_def)

lemma run_bindE [prog_run]:
  "bindE m f s = (case m s of (Inl e, t) \<Rightarrow> (Inl e, t) | (Inr x, t) \<Rightarrow> f x t)"
  by (simp add: bindE_def)

lemma run_modifyE [prog_run]: "modifyE f s = (Inr (), f s)"
  by (simp add: modifyE_def)

lemma run_withE [prog_run]: "withE f s = f s s"
  by (simp add: withE_def)

lemma run_liftE [prog_run]: "liftE r s = (r, s)"
  by (simp add: liftE_def)

lemma run_whenE [prog_run]: "whenE b m s = (if b then m s else (Inr (), s))"
  by (simp add: whenE_def retE_def)

lemma run_catchE [prog_run]:
  "catchE m h s = (case m s of (Inl e, t) \<Rightarrow> h e t | (Inr x, t) \<Rightarrow> (Inr x, t))"
  by (simp add: catchE_def)

lemma run_zoomE [prog_run]:
  "zoomE get put m s = (case m (get s) of (r, t) \<Rightarrow> (r, put t s))"
  by (simp add: zoomE_def)

lemma bindE_assoc: "bindE (bindE m f) g = bindE m (\<lambda>x. bindE (f x) g)"
  by (rule ext) (auto simp: bindE_def split: prod.splits sum.splits)

lemma bindE_retE [simp]: "bindE (retE x) f = f x"
  by (rule ext) (simp add: bindE_def retE_def)

lemma bindE_throwE [simp]: "bindE (throwE e) f = throwE e"
  by (rule ext) (simp add: bindE_def throwE_def)

lemma foreachE_append:
  "foreachE b (xs @ ys) = bindE (foreachE b xs) (\<lambda>_. foreachE b ys)"
  by (induction xs) (simp_all add: bindE_assoc)

subsection \<open>Preserved invariants\<close>

text \<open>
  \<open>preserves I m\<close>: whatever \<open>m\<close> does, by returning or by throwing, it keeps \<open>I\<close>. Every
  statement of the model ends, so nothing is hidden by a run that does not return.
\<close>

definition preserves :: "('s \<Rightarrow> bool) \<Rightarrow> ('s, 'e, 'a) prog \<Rightarrow> bool" where
  "preserves I m \<longleftrightarrow> (\<forall>s. I s \<longrightarrow> I (snd (m s)))"

lemma preservesI: "(\<And>s. I s \<Longrightarrow> I (snd (m s))) \<Longrightarrow> preserves I m"
  by (simp add: preserves_def)

lemma preservesD: "preserves I m \<Longrightarrow> I s \<Longrightarrow> I (snd (m s))"
  by (simp add: preserves_def)

lemma preserves_run: "preserves I m \<Longrightarrow> I s \<Longrightarrow> m s = (r, t) \<Longrightarrow> I t"
  using preservesD by fastforce

lemma preserves_retE [hoare, intro!]: "preserves I (retE x)"
  by (simp add: preserves_def retE_def)

lemma preserves_throwE [hoare, intro!]: "preserves I (throwE e)"
  by (simp add: preserves_def throwE_def)

lemma preserves_liftE [hoare, intro!]: "preserves I (liftE r)"
  by (simp add: preserves_def liftE_def)

lemma preserves_bindE [hoare]:
  assumes "preserves I m" and "\<And>x. preserves I (f x)"
  shows "preserves I (bindE m f)"
proof (rule preservesI)
  fix s assume "I s"
  then have t: "I (snd (m s))" by (rule preservesD [OF assms(1)])
  show "I (snd (bindE m f s))"
    using t preservesD [OF assms(2) t]
    by (cases "m s"; cases "fst (m s)") (auto simp: bindE_def)
qed

text \<open>What holds after the first of two statements is kept by the second.\<close>

lemma preserves_after:
  "I (snd (m s)) \<Longrightarrow> (\<And>x. preserves I (f x)) \<Longrightarrow> I (snd (bindE m f s))"
  by (cases "m s"; cases "fst (m s)") (auto simp: bindE_def preserves_def)

lemma preserves_modifyE [hoare]: "(\<And>s. I s \<Longrightarrow> I (f s)) \<Longrightarrow> preserves I (modifyE f)"
  by (simp add: preserves_def modifyE_def)

lemma preserves_withE [hoare]: "(\<And>s. preserves I (f s)) \<Longrightarrow> preserves I (withE f)"
  by (simp add: preserves_def withE_def)

lemma preserves_whenE [hoare]: "(b \<Longrightarrow> preserves I m) \<Longrightarrow> preserves I (whenE b m)"
  by (simp add: preserves_def whenE_def retE_def)

lemma preserves_catchE [hoare]:
  assumes "preserves I m" and "\<And>e. preserves I (h e)"
  shows "preserves I (catchE m h)"
proof (rule preservesI)
  fix s assume "I s"
  then have t: "I (snd (m s))" by (rule preservesD [OF assms(1)])
  show "I (snd (catchE m h s))"
    using t preservesD [OF assms(2) t]
    by (cases "m s"; cases "fst (m s)") (auto simp: catchE_def)
qed

lemma preserves_foreachE [hoare]: "(\<And>x. preserves I (b x)) \<Longrightarrow> preserves I (foreachE b xs)"
  by (induction xs) (simp_all add: preserves_retE preserves_bindE)

lemma preserves_block_Nil [hoare]: "preserves I (blockE [])"
  by (simp add: preserves_retE)

lemma preserves_block_Cons [hoare]:
  "preserves I m \<Longrightarrow> preserves I (blockE ms) \<Longrightarrow> preserves I (blockE (m # ms))"
  by (simp add: preserves_bindE)

lemma preserves_if [hoare]:
  "(b \<Longrightarrow> preserves I m) \<Longrightarrow> (\<not> b \<Longrightarrow> preserves I n) \<Longrightarrow> preserves I (if b then m else n)"
  by simp

lemma preserves_zoomE [hoare]:
  assumes "\<And>s. I s \<Longrightarrow> I (put (snd (m (get s))) s)"
  shows "preserves I (zoomE get put m)"
  by (rule preservesI) (use assms in \<open>simp add: zoomE_def split: prod.split, metis snd_conv\<close>)

section \<open>Step systems\<close>

text \<open>
  The states a component can reach, and the rule that an invariant of the first state kept
  by every step holds in all of them. A component states its steps as an \<open>inductive\<close>
  relation, proves the two laws, and takes its invariant from the interpretation.
\<close>

inductive reach :: "('s \<Rightarrow> bool) \<Rightarrow> ('s \<Rightarrow> 's \<Rightarrow> bool) \<Rightarrow> 's \<Rightarrow> bool" for init step where
  reach_init: "init s \<Longrightarrow> reach init step s"
| reach_step: "reach init step s \<Longrightarrow> step s t \<Longrightarrow> reach init step t"

lemma reach_steps:
  assumes "reach init step s" and "step\<^sup>*\<^sup>* s t"
  shows "reach init step t"
  using assms(2,1) by (induction rule: rtranclp_induct) (auto intro: reach_step)

locale invariant_system =
  fixes init :: "'s \<Rightarrow> bool" and step :: "'s \<Rightarrow> 's \<Rightarrow> bool" and inv :: "'s \<Rightarrow> bool"
  assumes inv_init: "init s \<Longrightarrow> inv s"
    and inv_step: "inv s \<Longrightarrow> step s t \<Longrightarrow> inv t"
begin

lemma reach_inv: "reach init step s \<Longrightarrow> inv s"
  by (induction rule: reach.induct) (auto intro: inv_init inv_step)

lemma steps_inv: "step\<^sup>*\<^sup>* s t \<Longrightarrow> inv s \<Longrightarrow> inv t"
  by (induction rule: rtranclp.induct) (auto intro: inv_step)

end

end
