(* ===== verification/Checksum.thy ===== *)
theory Checksum
  imports Prelude
begin

text \<open>
  \<^verbatim>\<open>Packet::compute_crc\<close> (\<^verbatim>\<open>src/packet.cpp\<close>): the 8-bit Fletcher sum that protects headers
  and payloads. What it computes in closed form, and which corruptions it tells apart.
\<close>

section \<open>The loop\<close>

text \<open>Both sums are \<^verbatim>\<open>uint8_t\<close>, so every addition wraps at 256.\<close>

fun crc_loop :: "u8 \<Rightarrow> u8 \<Rightarrow> bytes \<Rightarrow> u8 \<times> u8" where
  "crc_loop crca crcb [] = (crca, crcb)"
| "crc_loop crca crcb (c # v) = crc_loop (crca + c) (crcb + (crca + c)) v"

definition compute_crc :: "bytes \<Rightarrow> u16" where
  "compute_crc v = (case crc_loop 0 0 v of (crca, crcb) \<Rightarrow> push_bit 8 (ucast crca) OR ucast crcb)"

lemma compute_crc_eq: "compute_crc v = le_u16 (snd (crc_loop 0 0 v)) (fst (crc_loop 0 0 v))"
  by (simp add: compute_crc_def le_u16_def split_beta)

lemma compute_crc_eq_iff: "compute_crc v = compute_crc w \<longleftrightarrow> crc_loop 0 0 v = crc_loop 0 0 w"
  by (auto simp: compute_crc_eq prod_eq_iff)

section \<open>Closed form\<close>

text \<open>
  The first sum adds the bytes, the second weights each byte with its distance from the
  end of the buffer.
\<close>

fun weighted_sum :: "bytes \<Rightarrow> u8" where
  "weighted_sum [] = 0"
| "weighted_sum (c # v) = of_nat (Suc (length v)) * c + weighted_sum v"

lemma crc_loop_sums:
  "crc_loop a b v = (a + sum_list v, b + of_nat (length v) * a + weighted_sum v)"
  by (induction v arbitrary: a b) (simp_all add: algebra_simps)

lemma crc_loop_append:
  "crc_loop a b (v @ w) = crc_loop (fst (crc_loop a b v)) (snd (crc_loop a b v)) w"
  by (induction v arbitrary: a b) simp_all

lemma weighted_sum_append:
  "weighted_sum (v @ w) = weighted_sum v + of_nat (length w) * sum_list v + weighted_sum w"
  by (induction v) (simp_all add: algebra_simps)

lemma compute_crc_sums: "compute_crc v = le_u16 (weighted_sum v) (sum_list v)"
  by (simp add: compute_crc_eq crc_loop_sums)

section \<open>What it tells apart\<close>

lemma crc_substitution:
  "x \<noteq> y \<Longrightarrow> compute_crc (u @ x # w) \<noteq> compute_crc (u @ y # w)"
  by (simp add: compute_crc_sums)

lemma crc_update:
  assumes "i < length v" and "b \<noteq> v ! i"
  shows "compute_crc (v[i := b]) \<noteq> compute_crc v"
proof -
  have "v = take i v @ v ! i # drop (Suc i) v"
    using assms(1) by (rule id_take_nth_drop)
  moreover have "v[i := b] = take i v @ b # drop (Suc i) v"
    using assms(1) by (rule upd_conv_take_nth_drop)
  ultimately show ?thesis using crc_substitution [OF assms(2)] by metis
qed

lemma crc_transposition:
  assumes "x \<noteq> y"
  shows "compute_crc (u @ x # y # w) \<noteq> compute_crc (u @ y # x # w)"
proof
  assume "compute_crc (u @ x # y # w) = compute_crc (u @ y # x # w)"
  then have "weighted_sum (u @ x # y # w) = weighted_sum (u @ y # x # w)"
    by (simp add: compute_crc_sums)
  then have "x = y" by (simp add: weighted_sum_append algebra_simps)
  with assms show False by simp
qed

text \<open>
  What it does not tell apart: zero bytes appended in multiples of 256 change neither sum.
\<close>

lemma weighted_sum_zeros [simp]: "weighted_sum (replicate n 0) = 0"
  by (induction n) simp_all

lemma crc_zeros:
  assumes "256 dvd n"
  shows "compute_crc (v @ replicate n 0) = compute_crc v"
proof -
  have "(of_nat n :: u8) = 0"
    using assms by (simp add: word_of_nat_eq_0_iff)
  then show ?thesis
    by (simp add: compute_crc_sums weighted_sum_append sum_list_replicate)
qed

end
