(* ===== verification/Errors.thy ===== *)
theory Errors
  imports Prelude
begin

text \<open>
  The error codes of the three layers (\<^verbatim>\<open>src/packet_error.*\<close>, \<^verbatim>\<open>src/application_error.*\<close>,
  \<^verbatim>\<open>src/transport_error.*\<close>), their message tables, \<^verbatim>\<open>std::error_code\<close> as the code uses it,
  and the exceptions that reach the handlers (\<^verbatim>\<open>src/exception.h\<close>).
\<close>

section \<open>Enumerations\<close>

datatype packet_errc =
    Sop_not_found
  | Invalid_buffer_size
  | Invalid_header_crc
  | Invalid_payload_crc
  | Invalid_protocol_version
  | Invalid_packet_type
  | Invalid_number_of_block
  | Payload_exceed_max_size

datatype appli_errc =
    Ka_timeout
  | Dip_timeout
  | Request_overrun
  | Request_not_found
  | Invalid_cmd_ack_format
  | Data_too_big
  | Write_while_disconnected
  | Connection_failed

datatype transport_errc =
    Write_queue_full
  | Read_queue_full
  | Write_while_closed
  | Internal
  | Other

text \<open>The numbers C++ gives the enumerators: the first is 1, each next one more.\<close>

fun packet_errc_value :: "packet_errc \<Rightarrow> int" where
  "packet_errc_value Sop_not_found = 1"
| "packet_errc_value Invalid_buffer_size = 2"
| "packet_errc_value Invalid_header_crc = 3"
| "packet_errc_value Invalid_payload_crc = 4"
| "packet_errc_value Invalid_protocol_version = 5"
| "packet_errc_value Invalid_packet_type = 6"
| "packet_errc_value Invalid_number_of_block = 7"
| "packet_errc_value Payload_exceed_max_size = 8"

fun appli_errc_value :: "appli_errc \<Rightarrow> int" where
  "appli_errc_value Ka_timeout = 1"
| "appli_errc_value Dip_timeout = 2"
| "appli_errc_value Request_overrun = 3"
| "appli_errc_value Request_not_found = 4"
| "appli_errc_value Invalid_cmd_ack_format = 5"
| "appli_errc_value Data_too_big = 6"
| "appli_errc_value Write_while_disconnected = 7"
| "appli_errc_value Connection_failed = 8"

fun transport_errc_value :: "transport_errc \<Rightarrow> int" where
  "transport_errc_value Write_queue_full = 1"
| "transport_errc_value Read_queue_full = 2"
| "transport_errc_value Write_while_closed = 3"
| "transport_errc_value Internal = 4"
| "transport_errc_value Other = 5"

section \<open>Message tables\<close>

text \<open>
  \<^verbatim>\<open>ErrorCategory::message(int e)\<close>: a \<^verbatim>\<open>switch\<close> on the number, with a default.
\<close>

definition unknown_error_code :: string where
  "unknown_error_code = ''unknown error code''"

definition packet_message :: "int \<Rightarrow> string" where
  "packet_message e =
    (if e = packet_errc_value Sop_not_found then ''start of packet not found in buffer''
     else if e = packet_errc_value Invalid_buffer_size then ''invalid buffer size''
     else if e = packet_errc_value Invalid_header_crc then ''invalid header crc''
     else if e = packet_errc_value Invalid_payload_crc then ''invalid payload crc''
     else if e = packet_errc_value Invalid_protocol_version then ''invalid protocol version''
     else if e = packet_errc_value Invalid_packet_type then ''invalid packet type''
     else if e = packet_errc_value Invalid_number_of_block then ''invalid number of blocks''
     else if e = packet_errc_value Payload_exceed_max_size
       then ''payload exceed max allowed size''
     else unknown_error_code)"

definition appli_message :: "int \<Rightarrow> string" where
  "appli_message e =
    (if e = appli_errc_value Ka_timeout then ''keepalive timeout''
     else if e = appli_errc_value Dip_timeout then ''device identification packet timeout''
     else if e = appli_errc_value Request_overrun then ''request overrun''
     else if e = appli_errc_value Request_not_found then ''request not found''
     else if e = appli_errc_value Invalid_cmd_ack_format then ''invalid command ack format''
     else if e = appli_errc_value Data_too_big then ''data too big''
     else if e = appli_errc_value Write_while_disconnected
       then ''writing is not permitted while disconnected''
     else if e = appli_errc_value Connection_failed then ''connection failed''
     else unknown_error_code)"

definition transport_message :: "int \<Rightarrow> string" where
  "transport_message e =
    (if e = transport_errc_value Write_queue_full then ''write queue full''
     else if e = transport_errc_value Read_queue_full then ''read queue full''
     else if e = transport_errc_value Write_while_closed
       then ''write is not permitted while transport closed''
     else if e = transport_errc_value Internal then ''internal''
     else if e = transport_errc_value Other then ''other''
     else unknown_error_code)"

section \<open>Error codes\<close>

text \<open>
  \<^verbatim>\<open>std::error_code\<close> is a number and a category; \<^verbatim>\<open>std::error_code()\<close> is 0 in the system
  category. The codes Boost.Asio hands to completion handlers are told apart only as the
  handlers tell them apart: success, an aborted operation, end of file, anything else.
\<close>

datatype category =
  System_category | Packet_category | Appli_category | Transport_category | Usb_category

datatype asio_ec = Asio_success | Asio_operation_aborted | Asio_eof | Asio_other int

datatype error_code = Error_code int category | Asio_code asio_ec

definition no_error_code :: error_code where
  "no_error_code = Error_code 0 System_category"

definition make_packet_code :: "packet_errc \<Rightarrow> error_code" where
  "make_packet_code e = Error_code (packet_errc_value e) Packet_category"

definition make_appli_code :: "appli_errc \<Rightarrow> error_code" where
  "make_appli_code e = Error_code (appli_errc_value e) Appli_category"

definition make_transport_code :: "transport_errc \<Rightarrow> error_code" where
  "make_transport_code e = Error_code (transport_errc_value e) Transport_category"

text \<open>
  \<^verbatim>\<open>error_code::message()\<close> asks the category. The tables of the system category, of libusb
  (\<^verbatim>\<open>libusb_error_name\<close>) and of Boost.Asio are not in this repository: they are parameters.
\<close>

fun code_message ::
  "(int \<Rightarrow> string) \<Rightarrow> (int \<Rightarrow> string) \<Rightarrow> (asio_ec \<Rightarrow> string) \<Rightarrow> error_code \<Rightarrow> string" where
  "code_message sys usb asio (Error_code e System_category) = sys e"
| "code_message sys usb asio (Error_code e Packet_category) = packet_message e"
| "code_message sys usb asio (Error_code e Appli_category) = appli_message e"
| "code_message sys usb asio (Error_code e Transport_category) = transport_message e"
| "code_message sys usb asio (Error_code e Usb_category) = usb e"
| "code_message sys usb asio (Asio_code ec) = asio ec"

section \<open>Exceptions\<close>

text \<open>
  The exceptions of the library are the classes derived from \<^verbatim>\<open>hdcp_error\<close>; the others are
  exceptions of the standard library, of Boost and of user callbacks, which the handlers
  see as \<^verbatim>\<open>std::exception\<close>, and objects of no known class (\<^verbatim>\<open>catch (...)\<close>). The text an
  exception carries besides its code is only logged and is left out.
  \<open>Undefined_behaviour\<close> is no exception of the language: it marks a run that has no defined
  continuation, and no handler catches it.
\<close>

datatype std_exn = Out_of_range | Bad_alloc | System_error | User_exception nat

datatype exn =
    Packet_error packet_errc
  | Application_error appli_errc
  | Transport_error transport_errc
  | Libusb_error int
  | Asio_error asio_ec
  | Std_exception std_exn
  | Unknown_exception
  | Undefined_behaviour

text \<open>\<^verbatim>\<open>hdcp_error::code()\<close>; \<open>None\<close> where the exception is no \<^verbatim>\<open>hdcp_error\<close>.\<close>

fun exn_code :: "exn \<Rightarrow> error_code option" where
  "exn_code (Packet_error e) = Some (make_packet_code e)"
| "exn_code (Application_error e) = Some (make_appli_code e)"
| "exn_code (Transport_error e) = Some (make_transport_code e)"
| "exn_code (Libusb_error e) = Some (Error_code e Usb_category)"
| "exn_code (Asio_error ec) = Some (Asio_code ec)"
| "exn_code _ = None"

text \<open>Which \<^verbatim>\<open>catch\<close> clauses match.\<close>

definition is_hdcp_error :: "exn \<Rightarrow> bool" where
  "is_hdcp_error e \<longleftrightarrow> exn_code e \<noteq> None"

fun is_std_exception :: "exn \<Rightarrow> bool" where
  "is_std_exception Unknown_exception = False"
| "is_std_exception Undefined_behaviour = False"
| "is_std_exception _ = True"

lemma hdcp_error_std [simp]: "is_hdcp_error e \<Longrightarrow> is_std_exception e"
  by (cases e) (simp_all add: is_hdcp_error_def)

type_synonym ('s, 'a) stmt = "('s, exn, 'a) prog"

section \<open>The tables name every code\<close>

lemma packet_errc_value_inj: "packet_errc_value a = packet_errc_value b \<Longrightarrow> a = b"
  by (cases a; cases b) simp_all

lemma appli_errc_value_inj: "appli_errc_value a = appli_errc_value b \<Longrightarrow> a = b"
  by (cases a; cases b) simp_all

lemma transport_errc_value_inj: "transport_errc_value a = transport_errc_value b \<Longrightarrow> a = b"
  by (cases a; cases b) simp_all

text \<open>The entry of each enumerator, and what the rest of the integers get.\<close>

lemma packet_message_table:
  "packet_message 1 = ''start of packet not found in buffer''"
  "packet_message 2 = ''invalid buffer size''"
  "packet_message 3 = ''invalid header crc''"
  "packet_message 4 = ''invalid payload crc''"
  "packet_message 5 = ''invalid protocol version''"
  "packet_message 6 = ''invalid packet type''"
  "packet_message 7 = ''invalid number of blocks''"
  "packet_message 8 = ''payload exceed max allowed size''"
  by (simp_all add: packet_message_def)

lemma appli_message_table:
  "appli_message 1 = ''keepalive timeout''"
  "appli_message 2 = ''device identification packet timeout''"
  "appli_message 3 = ''request overrun''"
  "appli_message 4 = ''request not found''"
  "appli_message 5 = ''invalid command ack format''"
  "appli_message 6 = ''data too big''"
  "appli_message 7 = ''writing is not permitted while disconnected''"
  "appli_message 8 = ''connection failed''"
  by (simp_all add: appli_message_def)

lemma transport_message_table:
  "transport_message 1 = ''write queue full''"
  "transport_message 2 = ''read queue full''"
  "transport_message 3 = ''write is not permitted while transport closed''"
  "transport_message 4 = ''internal''"
  "transport_message 5 = ''other''"
  by (simp_all add: transport_message_def)

lemmas message_tables = packet_message_table appli_message_table transport_message_table

lemma packet_message_inj:
  "packet_message (packet_errc_value a) = packet_message (packet_errc_value b) \<longleftrightarrow> a = b"
  by (cases a; cases b) (simp_all add: message_tables)

lemma appli_message_inj:
  "appli_message (appli_errc_value a) = appli_message (appli_errc_value b) \<longleftrightarrow> a = b"
  by (cases a; cases b) (simp_all add: message_tables)

lemma transport_message_inj:
  "transport_message (transport_errc_value a) = transport_message (transport_errc_value b)
     \<longleftrightarrow> a = b"
  by (cases a; cases b) (simp_all add: message_tables)

lemma packet_message_known: "packet_message (packet_errc_value c) \<noteq> unknown_error_code"
  by (cases c) (simp_all add: message_tables unknown_error_code_def)

lemma appli_message_known: "appli_message (appli_errc_value c) \<noteq> unknown_error_code"
  by (cases c) (simp_all add: message_tables unknown_error_code_def)

lemma transport_message_known: "transport_message (transport_errc_value c) \<noteq> unknown_error_code"
  by (cases c) (simp_all add: message_tables unknown_error_code_def)

text \<open>
  The codes of the three layers never collide, and code and exception determine each other.
\<close>

lemma make_code_inj:
  "make_packet_code a = make_packet_code b \<Longrightarrow> a = b"
  "make_appli_code c = make_appli_code d \<Longrightarrow> c = d"
  "make_transport_code x = make_transport_code y \<Longrightarrow> x = y"
  by (simp_all add: make_packet_code_def make_appli_code_def make_transport_code_def
      packet_errc_value_inj appli_errc_value_inj transport_errc_value_inj)

lemma exn_code_inj:
  assumes "exn_code e = Some c" and "exn_code f = Some c"
  shows "e = f"
  using assms
  by (cases e; cases f)
    (auto dest: make_code_inj
      simp: make_packet_code_def make_appli_code_def make_transport_code_def
        packet_errc_value_inj appli_errc_value_inj transport_errc_value_inj)

end
