(* ===== verification/Packet_Format.thy ===== *)
theory Packet_Format
  imports Checksum Errors
begin

text \<open>
  The wire format of \<^verbatim>\<open>src/packet.h\<close>: the packed header, the blocks of a payload, how the
  code lays them out and how it reads them back. One locale states what a fixed-width field
  group promises; headers and block headers are its instances.
\<close>

section \<open>Constants and types\<close>

datatype packet_type = Hip | Dip | Ka | Ka_ack | Cmd | Cmd_ack | Data

fun type_code :: "packet_type \<Rightarrow> u8" where
  "type_code Hip = 0x01"
| "type_code Dip = 0x41"
| "type_code Ka = 0x02"
| "type_code Ka_ack = 0x42"
| "type_code Cmd = 0x03"
| "type_code Cmd_ack = 0x43"
| "type_code Data = 0x44"

text \<open>The labels a \<^verbatim>\<open>switch\<close> on a type byte can reach; \<open>None\<close> is its default.\<close>

definition type_of_code :: "u8 \<Rightarrow> packet_type option" where
  "type_of_code c = List.find (\<lambda>t. type_code t = c) [Hip, Dip, Ka, Ka_ack, Cmd, Cmd_ack, Data]"

lemma type_of_type_code [simp]: "type_of_code (type_code t) = Some t"
  by (cases t) (simp_all add: type_of_code_def)

lemma type_of_code_SomeD: "type_of_code c = Some t \<Longrightarrow> type_code t = c"
  by (auto simp: type_of_code_def split: if_splits)

definition sop :: u16 where "sop = 0xCAFE"
definition ver :: u8 where "ver = 0x01"
definition max_size :: nat where "max_size = 2048"

text \<open>\<^verbatim>\<open>sizeof\<close> of the packed structs \<^verbatim>\<open>Header\<close> and \<^verbatim>\<open>BHeader\<close>.\<close>

definition header_size :: nat where "header_size = 13"
definition bheader_size :: nat where "bheader_size = 4"

definition max_pl_size :: nat where "max_pl_size = max_size - header_size"

text \<open>The block types of the two identification packets (\<^verbatim>\<open>ReservedBlockType\<close>).\<close>

definition name_block :: u16 where "name_block = 0x0001"
definition serial_number_block :: u16 where "serial_number_block = 0x0002"
definition hw_version_block :: u16 where "hw_version_block = 0x0003"
definition sw_version_block :: u16 where "sw_version_block = 0x0004"

lemmas format_sizes = header_size_def bheader_size_def max_size_def max_pl_size_def

section \<open>Header\<close>

record header =
  h_sop :: u16
  h_ver :: u8
  h_len :: u16
  h_id :: u16
  h_type :: u8
  h_n_block :: u8
  h_p_crc :: u16
  h_h_crc :: u16

text \<open>The object representation of the packed struct.\<close>

definition header_bytes :: "header \<Rightarrow> bytes" where
  "header_bytes h =
     u16_le (h_sop h) @ [h_ver h] @ u16_le (h_len h) @ u16_le (h_id h)
     @ [h_type h, h_n_block h] @ u16_le (h_p_crc h) @ u16_le (h_h_crc h)"

text \<open>
  \<^verbatim>\<open>reinterpret_cast<const Header*>(v.data())\<close>: reads the first 13 bytes, which its callers
  have made sure of.
\<close>

definition read_header :: "bytes \<Rightarrow> header" where
  "read_header v =
     \<lparr>h_sop = le_u16 (v ! 0) (v ! 1), h_ver = v ! 2, h_len = le_u16 (v ! 3) (v ! 4),
      h_id = le_u16 (v ! 5) (v ! 6), h_type = v ! 7, h_n_block = v ! 8,
      h_p_crc = le_u16 (v ! 9) (v ! 10), h_h_crc = le_u16 (v ! 11) (v ! 12)\<rparr>"

section \<open>Blocks\<close>

record block =
  b_type :: u16
  b_data :: bytes

record bheader =
  bh_type :: u16
  bh_len :: u16

definition bheader_bytes :: "bheader \<Rightarrow> bytes" where
  "bheader_bytes b = u16_le (bh_type b) @ u16_le (bh_len b)"

definition read_bheader :: "bytes \<Rightarrow> bheader" where
  "read_bheader v = \<lparr>bh_type = le_u16 (v ! 0) (v ! 1), bh_len = le_u16 (v ! 2) (v ! 3)\<rparr>"

text \<open>\<^verbatim>\<open>Block::size()\<close> and \<^verbatim>\<open>BlockView::size()\<close>.\<close>

definition block_size :: "block \<Rightarrow> nat" where
  "block_size b = length (b_data b) + bheader_size"

text \<open>\<^verbatim>\<open>make_block(BlockView)\<close>: the length is narrowed to 16 bits, the data is appended whole.\<close>

definition make_block :: "block \<Rightarrow> bytes" where
  "make_block b = u16_le (b_type b) @ u16_le (of_nat (length (b_data b))) @ b_data b"

text \<open>\<^verbatim>\<open>make_block(BlockType, const std::string&)\<close>.\<close>

definition make_block_of :: "u16 \<Rightarrow> bytes \<Rightarrow> bytes" where
  "make_block_of type data = make_block \<lparr>b_type = type, b_data = data\<rparr>"

text \<open>
  \<^verbatim>\<open>blocks(payload)\<close>: reads block after block and stops silently at the first one whose
  header or data does not fit in what is left.
\<close>

function blocks :: "bytes \<Rightarrow> block list" where
  "blocks payload =
     (if length payload < bheader_size then []
      else let header = read_bheader payload;
               rest = drop bheader_size payload
           in if length rest < unat (bh_len header) then []
              else \<lparr>b_type = bh_type header, b_data = take (unat (bh_len header)) rest\<rparr>
                   # blocks (drop (unat (bh_len header)) rest))"
  by pat_completeness auto
termination
  by (relation "measure length") (auto simp: bheader_size_def)

declare blocks.simps [simp del]

section \<open>Fixed-width groups of fields\<close>

locale fixed_codec =
  fixes enc :: "'r \<Rightarrow> bytes" and dec :: "bytes \<Rightarrow> 'r" and width :: nat
  assumes width_enc: "length (enc r) = width"
    and dec_enc: "dec (enc r @ w) = r"
    and enc_dec: "length v = width \<Longrightarrow> enc (dec v) = v"
    and dec_take: "width \<le> length v \<Longrightarrow> dec (take width v) = dec v"
begin

lemma enc_inj: "enc r = enc s \<Longrightarrow> r = s"
  using dec_enc [of r "[]"] dec_enc [of s "[]"] by simp

lemma take_enc: "take width (enc r @ w) = enc r"
  by (simp add: width_enc)

lemma drop_enc: "drop width (enc r @ w) = w"
  by (simp add: width_enc)

lemma enc_dec_take: "width \<le> length v \<Longrightarrow> enc (dec v) = take width v"
  using enc_dec [of "take width v"] dec_take [of v] by simp

lemma dec_inj: "length v = width \<Longrightarrow> length w = width \<Longrightarrow> dec v = dec w \<Longrightarrow> v = w"
  using enc_dec by metis

lemma enc_split: "width \<le> length v \<Longrightarrow> v = enc (dec v) @ drop width v"
  by (simp add: enc_dec_take)

end

lemma length_4E:
  assumes "length v = 4" obtains a b c d where "v = [a, b, c, d]"
  using assms by (auto simp: numeral_eq_Suc length_Suc_conv)

lemma length_13E:
  assumes "length v = 13"
  obtains a b c d e f g h i j k l m where "v = [a, b, c, d, e, f, g, h, i, j, k, l, m]"
  using assms by (auto simp: numeral_eq_Suc length_Suc_conv)

interpretation hdr: fixed_codec header_bytes read_header header_size
proof unfold_locales
  fix v :: bytes assume "length v = header_size"
  then show "header_bytes (read_header v) = v"
    by (auto simp: header_size_def header_bytes_def read_header_def u16_le_def elim!: length_13E)
qed (simp_all add: header_size_def header_bytes_def read_header_def u16_le_def nth_append)

interpretation bhdr: fixed_codec bheader_bytes read_bheader bheader_size
proof unfold_locales
  fix v :: bytes assume "length v = bheader_size"
  then show "bheader_bytes (read_bheader v) = v"
    by (auto simp: bheader_size_def bheader_bytes_def read_bheader_def u16_le_def elim!: length_4E)
qed (simp_all add: bheader_size_def bheader_bytes_def read_bheader_def u16_le_def nth_append)

lemmas codec_laws [codec] = hdr.width_enc hdr.dec_enc hdr.take_enc hdr.drop_enc
  bhdr.width_enc bhdr.dec_enc bhdr.take_enc bhdr.drop_enc

section \<open>Payloads are read back\<close>

definition fits :: "block \<Rightarrow> bool" where
  "fits b \<longleftrightarrow> length (b_data b) < 65536"

lemma make_block_bheader:
  "make_block b =
     bheader_bytes \<lparr>bh_type = b_type b, bh_len = of_nat (length (b_data b))\<rparr> @ b_data b"
  by (simp add: make_block_def bheader_bytes_def)

lemma bheader_collapse [simp]: "\<lparr>bh_type = bh_type h, bh_len = bh_len h\<rparr> = (h :: bheader)"
  by (cases h) simp

lemma fits_take [simp]: "fits \<lparr>b_type = t, b_data = take (unat (l :: u16)) w\<rparr>"
  by (simp add: fits_def min.strict_coboundedI2 unat_u16_less)

lemma length_make_block [simp]: "length (make_block b) = block_size b"
  by (simp add: make_block_bheader block_size_def codec)

lemma blocks_short: "length v < bheader_size \<Longrightarrow> blocks v = []"
  by (simp add: blocks.simps)

lemma blocks_Nil [simp]: "blocks [] = []"
  by (simp add: blocks_short bheader_size_def)

lemma blocks_make_block:
  assumes "fits b" shows "blocks (make_block b @ w) = b # blocks w"
  using assms
  by (subst blocks.simps) (simp add: make_block_bheader codec fits_def Let_def)

lemma blocks_concat:
  "list_all fits bs \<Longrightarrow> blocks (concat (map make_block bs) @ w) = bs @ blocks w"
  by (induction bs) (simp_all add: blocks_make_block)

lemma blocks_concat_all [simp]:
  "list_all fits bs \<Longrightarrow> blocks (concat (map make_block bs)) = bs"
  using blocks_concat [of bs "[]"] by simp

text \<open>Whatever the payload is, the blocks read from it are a prefix of it.\<close>

lemma blocks_prefix: "\<exists>w. payload = concat (map make_block (blocks payload)) @ w"
proof (induction payload rule: blocks.induct)
  case (1 payload)
  let ?h = "read_bheader payload" and ?rest = "drop bheader_size payload"
  show ?case
  proof (cases "length payload < bheader_size \<or> length ?rest < unat (bh_len ?h)")
    case True
    then show ?thesis by (subst blocks.simps) (auto simp: Let_def)
  next
    case False
    let ?b = "\<lparr>b_type = bh_type ?h, b_data = take (unat (bh_len ?h)) ?rest\<rparr>"
    let ?next = "drop (unat (bh_len ?h)) ?rest"
    obtain w where w: "?next = concat (map make_block (blocks ?next)) @ w"
      using 1 False by (auto simp: Let_def)
    have "make_block ?b = bheader_bytes ?h @ take (unat (bh_len ?h)) ?rest"
      using False by (simp add: make_block_bheader)
    then have "make_block ?b @ ?next = bheader_bytes ?h @ ?rest"
      by (simp only: append_assoc append_take_drop_id)
    then have p: "payload = make_block ?b @ ?next"
      using bhdr.enc_split [of payload] False by simp
    have b: "blocks payload = ?b # blocks ?next"
      using False by (subst blocks.simps) (simp add: Let_def)
    have "concat (map make_block (blocks payload)) @ w = payload"
      unfolding b by (simp only: list.map concat.simps append_assoc w [symmetric] p [symmetric])
    then show ?thesis by metis
  qed
qed

lemma blocks_size: "sum_list (map block_size (blocks v)) \<le> length v"
proof -
  obtain w where "v = concat (map make_block (blocks v)) @ w"
    using blocks_prefix by blast
  then have "length v = length (concat (map make_block (blocks v))) + length w"
    by (metis length_append)
  then show ?thesis by (simp add: length_concat o_def)
qed

lemma blocks_fit: "list_all fits (blocks v)"
proof (induction v rule: blocks.induct)
  case (1 payload)
  then show ?case
    by (subst blocks.simps) (simp add: Let_def)
qed

lemma length_blocks: "4 * length (blocks v) \<le> length v"
proof -
  have "4 * length bs \<le> sum_list (map block_size bs)" for bs
    by (induction bs) (simp_all add: block_size_def bheader_size_def)
  then show ?thesis using blocks_size le_trans by blast
qed

end
