(* ===== verification/Application.thy ===== *)
theory Application
  imports Prelude "HOL-Library.Signed_Division"
begin

text \<open>
  \<^verbatim>\<open>src/application.h\<close>: the identification two peers exchange, and the times and counts of
  the protocol, in milliseconds; and the tick of \<^verbatim>\<open>src/transport.h\<close> they are divided by.
\<close>

record identification =
  id_name :: bytes
  id_serial_number :: bytes
  id_hw_version :: bytes
  id_sw_version :: bytes

text \<open>\<^verbatim>\<open>Identification()\<close>: four empty strings.\<close>

definition no_identification :: identification where
  "no_identification =
     \<lparr>id_name = [], id_serial_number = [], id_hw_version = [], id_sw_version = []\<rparr>"

definition connecting_timeout :: int where "connecting_timeout = 1000"
definition command_timeout :: int where "command_timeout = 1000"
definition keepalive_timeout :: int where "keepalive_timeout = 3000"
definition keepalive_interval :: int where "keepalive_interval = 1000"
definition max_connection_attempts :: nat where "max_connection_attempts = 3"

definition time_base_ms :: int where "time_base_ms = 100"

text \<open>\<^verbatim>\<open>timeout.count() / time_base_ms.count()\<close>: a division of \<^verbatim>\<open>int64_t\<close>, towards zero.\<close>

definition ticks :: "int \<Rightarrow> int" where
  "ticks timeout = timeout sdiv time_base_ms"

lemma ticks_values [simp]:
  "ticks connecting_timeout = 10" "ticks command_timeout = 10"
  "ticks keepalive_timeout = 30" "ticks keepalive_interval = 10"
  by (simp_all add: ticks_def time_base_ms_def connecting_timeout_def command_timeout_def
      keepalive_timeout_def keepalive_interval_def signed_divide_int_def)

text \<open>\<^verbatim>\<open>Slave::State\<close> and \<^verbatim>\<open>Master::State\<close>: two enumerations with the same names.\<close>

datatype app_state = Init | Disconnected | Connecting | Connected

end
