(* ===== verification/Packet.thy ===== *)
theory Packet
  imports Packet_Format Application
begin

text \<open>
  Class \<^verbatim>\<open>Packet\<close> (\<^verbatim>\<open>src/packet.h\<close>, \<^verbatim>\<open>src/packet.cpp\<close>): the constructor that finds and checks
  a packet in a buffer, the accessors, and the factories of the seven kinds of packet.
\<close>

section \<open>The object\<close>

text \<open>
  The only member is the array \<^verbatim>\<open>data_\<close> of 2048 bytes. No constructor initialises it, so the
  bytes a constructor does not write keep the value the storage had: that value is the
  argument \<open>mem\<close> of every function that constructs a packet.
\<close>

record packet =
  p_data :: bytes

definition storage :: "bytes \<Rightarrow> bool" where
  "storage mem \<longleftrightarrow> length mem = max_size"

text \<open>\<^verbatim>\<open>std::copy(first, last, data_.begin())\<close> of the bytes \<open>w\<close>.\<close>

definition overwrite :: "bytes \<Rightarrow> bytes \<Rightarrow> bytes" where
  "overwrite mem w = w @ drop (length w) mem"

definition p_header :: "packet \<Rightarrow> header" where
  "p_header p = read_header (p_data p)"

definition packet_id :: "packet \<Rightarrow> u16" where
  "packet_id p = h_id (p_header p)"

definition packet_version :: "packet \<Rightarrow> u8" where
  "packet_version p = h_ver (p_header p)"

text \<open>The type byte as the \<^verbatim>\<open>switch\<close> statements of the handlers see it.\<close>

definition packet_type :: "packet \<Rightarrow> packet_type option" where
  "packet_type p = type_of_code (h_type (p_header p))"

definition nb_block :: "packet \<Rightarrow> u8" where
  "nb_block p = h_n_block (p_header p)"

definition payload_len :: "packet \<Rightarrow> nat" where
  "payload_len p = unat (h_len (p_header p))"

text \<open>\<^verbatim>\<open>size()\<close>: the payload length of the header plus the header's own size.\<close>

definition packet_size :: "packet \<Rightarrow> nat" where
  "packet_size p = payload_len p + header_size"

text \<open>
  \<^verbatim>\<open>payload()\<close>: a view of \<open>payload_len\<close> bytes behind the header. These are all the bytes of
  the view while it stays inside \<^verbatim>\<open>data_\<close>; the functions that read it say so otherwise.
\<close>

definition payload :: "packet \<Rightarrow> bytes" where
  "payload p = take (payload_len p) (drop header_size (p_data p))"

definition packet_blocks :: "packet \<Rightarrow> block list" where
  "packet_blocks p = blocks (payload p)"

text \<open>The bytes a transport sends: \<^verbatim>\<open>size()\<close> bytes from \<^verbatim>\<open>data()\<close>.\<close>

definition packet_bytes :: "packet \<Rightarrow> bytes" where
  "packet_bytes p = take (packet_size p) (p_data p)"

section \<open>Checks\<close>

text \<open>\<^verbatim>\<open>static parse_header(std::string_view)\<close>.\<close>

definition parse_header_view :: "bytes \<Rightarrow> exn + header" where
  "parse_header_view v =
    (if length v \<noteq> header_size then Inl (Packet_error Invalid_buffer_size)
     else let h = read_header v in
       if compute_crc (take (length v - 2) v) \<noteq> h_h_crc h
         then Inl (Packet_error Invalid_header_crc)
       else if h_sop h \<noteq> sop then Inl (Packet_error Sop_not_found)
       else if h_ver h \<noteq> ver then Inl (Packet_error Invalid_protocol_version)
       else if type_of_code (h_type h) = None then Inl (Packet_error Invalid_packet_type)
       else if unat (h_len h) > max_size - header_size
         then Inl (Packet_error Payload_exceed_max_size)
       else Inr h)"

text \<open>\<^verbatim>\<open>static parse_payload(std::string_view, const Header*)\<close>.\<close>

definition parse_payload_view :: "bytes \<Rightarrow> header \<Rightarrow> exn + unit" where
  "parse_payload_view v h =
    (if unat (h_len h) \<noteq> length v then Inl (Packet_error Invalid_buffer_size)
     else if h_p_crc h \<noteq> compute_crc v then Inl (Packet_error Invalid_payload_crc)
     else if unat (h_n_block h) \<noteq> length (blocks v)
       then Inl (Packet_error Invalid_number_of_block)
     else Inr ())"

text \<open>
  The member functions, which a transport calls on a packet it has read into place. The
  payload check reads \<open>payload_len\<close> bytes wherever they are, past the end of \<^verbatim>\<open>data_\<close> when
  the header was not checked before.
\<close>

definition parse_header :: "packet \<Rightarrow> exn + unit" where
  "parse_header p =
    (case parse_header_view (take header_size (p_data p)) of
       Inl e \<Rightarrow> Inl e
     | Inr _ \<Rightarrow> Inr ())"

definition parse_payload :: "packet \<Rightarrow> exn + unit" where
  "parse_payload p =
    (if header_size + payload_len p > max_size then Inl Undefined_behaviour
     else parse_payload_view (payload p) (p_header p))"

section \<open>The constructor\<close>

text \<open>\<^verbatim>\<open>std::string_view::find\<close> of a non-empty pattern: the first position it occurs at.\<close>

fun find_bytes :: "bytes \<Rightarrow> bytes \<Rightarrow> nat option" where
  "find_bytes pat [] = None"
| "find_bytes pat (c # v) =
     (if take (length pat) (c # v) = pat then Some 0 else map_option Suc (find_bytes pat v))"

text \<open>
  The copy at the end starts at the beginning of the buffer, whatever position the start of
  packet was found at.
\<close>

definition packet_of_view :: "bytes \<Rightarrow> bytes \<Rightarrow> exn + packet" where
  "packet_of_view mem v =
    (case find_bytes (u16_le sop) v of
       None \<Rightarrow> Inl (Packet_error Sop_not_found)
     | Some pos \<Rightarrow>
         if pos + header_size > length v then Inl (Packet_error Invalid_buffer_size)
         else case parse_header_view (take header_size (drop pos v)) of
           Inl e \<Rightarrow> Inl e
         | Inr h \<Rightarrow>
             if pos + header_size + unat (h_len h) > length v
               then Inl (Packet_error Invalid_buffer_size)
             else case parse_payload_view
                         (take (unat (h_len h)) (drop (pos + header_size) v)) h of
               Inl e \<Rightarrow> Inl e
             | Inr _ \<Rightarrow> Inr \<lparr>p_data = overwrite mem (take (header_size + unat (h_len h)) v)\<rparr>)"

section \<open>The factories\<close>

text \<open>
  \<^verbatim>\<open>make_header\<close>: the payload size is narrowed to 16 bits, the header checksum is computed
  over everything before it.
\<close>

definition make_header :: "u16 \<Rightarrow> packet_type \<Rightarrow> u8 \<Rightarrow> bytes \<Rightarrow> bytes" where
  "make_header pid type n_block pl =
    (let h = \<lparr>h_sop = sop, h_ver = ver, h_len = of_nat (length pl), h_id = pid,
              h_type = type_code type, h_n_block = n_block,
              h_p_crc = compute_crc pl, h_h_crc = 0\<rparr>;
         h_crc = compute_crc (take (header_size - 2) (header_bytes h))
     in header_bytes (h\<lparr>h_h_crc := h_crc\<rparr>))"

definition make_command :: "bytes \<Rightarrow> u16 \<Rightarrow> u16 \<Rightarrow> bytes \<Rightarrow> exn + packet" where
  "make_command mem pid type data =
    (let pl = make_block_of type data; hd = make_header pid Cmd 1 pl
     in packet_of_view mem (hd @ pl))"

definition make_cmd_ack :: "bytes \<Rightarrow> u16 \<Rightarrow> u16 \<Rightarrow> u16 \<Rightarrow> exn + packet" where
  "make_cmd_ack mem pid type cmd_id =
    (let data = u16_le cmd_id; pl = make_block_of type data; hd = make_header pid Cmd_ack 1 pl
     in packet_of_view mem (hd @ pl))"

text \<open>Both overloads; the number of blocks is narrowed to 8 bits by the call.\<close>

definition make_data :: "bytes \<Rightarrow> u16 \<Rightarrow> block list \<Rightarrow> exn + packet" where
  "make_data mem pid bs =
    (let pl = foldl (\<lambda>pl b. pl @ make_block b) [] bs;
         hd = make_header pid Data (of_nat (length bs)) pl
     in packet_of_view mem (hd @ pl))"

definition make_keepalive :: "bytes \<Rightarrow> u16 \<Rightarrow> exn + packet" where
  "make_keepalive mem pid = (let pl = []; hd = make_header pid Ka 0 pl in packet_of_view mem (hd @ pl))"

definition make_keepalive_ack :: "bytes \<Rightarrow> u16 \<Rightarrow> exn + packet" where
  "make_keepalive_ack mem pid =
    (let pl = []; hd = make_header pid Ka_ack 0 pl in packet_of_view mem (hd @ pl))"

definition identification_payload :: "identification \<Rightarrow> bytes" where
  "identification_payload i =
     make_block_of name_block (id_name i)
     @ make_block_of serial_number_block (id_serial_number i)
     @ make_block_of hw_version_block (id_hw_version i)
     @ make_block_of sw_version_block (id_sw_version i)"

definition make_hip :: "bytes \<Rightarrow> u16 \<Rightarrow> identification \<Rightarrow> exn + packet" where
  "make_hip mem pid host_id =
    (let pl = identification_payload host_id; hd = make_header pid Hip 4 pl
     in packet_of_view mem (hd @ pl))"

definition make_dip :: "bytes \<Rightarrow> u16 \<Rightarrow> identification \<Rightarrow> exn + packet" where
  "make_dip mem pid dev_id =
    (let pl = identification_payload dev_id; hd = make_header pid Dip 4 pl
     in packet_of_view mem (hd @ pl))"

section \<open>Finding the start of a packet\<close>

lemma find_bytes_Some:
  "find_bytes pat v = Some i \<Longrightarrow>
     i < length v \<and> take (length pat) (drop i v) = pat
     \<and> (\<forall>j<i. take (length pat) (drop j v) \<noteq> pat)"
proof (induction v arbitrary: i)
  case Nil
  then show ?case by simp
next
  case (Cons c v)
  show ?case
  proof (cases "take (length pat) (c # v) = pat")
    case True
    with Cons.prems show ?thesis by simp
  next
    case False
    with Cons.prems obtain k where k: "find_bytes pat v = Some k" and i: "i = Suc k" by auto
    have "take (length pat) (drop j (c # v)) \<noteq> pat" if "j < i" for j
      using Cons.IH [OF k] False that i by (cases j) auto
    with Cons.IH [OF k] i show ?thesis by simp
  qed
qed

lemma find_bytes_None:
  "find_bytes pat v = None \<Longrightarrow> i < length v \<Longrightarrow> take (length pat) (drop i v) \<noteq> pat"
proof (induction v arbitrary: i)
  case Nil
  then show ?case by simp
next
  case (Cons c v)
  then show ?case by (cases i) (auto split: if_splits)
qed

lemma find_bytes_short: "length v < length pat \<Longrightarrow> find_bytes pat v = None"
proof (induction v)
  case Nil
  then show ?case by simp
next
  case (Cons c v)
  then have "take (length pat) (c # v) \<noteq> pat"
    by (metis length_take min.strict_order_iff min.commute)
  with Cons show ?case by simp
qed

lemma find_bytes_start:
  "take (length pat) v = pat \<Longrightarrow> v \<noteq> [] \<Longrightarrow> find_bytes pat v = Some 0"
  by (cases v) simp_all

lemma find_bytes_here [simp]: "pat \<noteq> [] \<Longrightarrow> find_bytes pat (pat @ v) = Some 0"
  by (cases pat) simp_all

section \<open>Headers that are made are accepted\<close>

definition made_header :: "u16 \<Rightarrow> packet_type \<Rightarrow> u8 \<Rightarrow> bytes \<Rightarrow> header" where
  "made_header pid type n pl =
     (let h = \<lparr>h_sop = sop, h_ver = ver, h_len = of_nat (length pl), h_id = pid,
              h_type = type_code type, h_n_block = n, h_p_crc = compute_crc pl, h_h_crc = 0\<rparr>
      in h\<lparr>h_h_crc := compute_crc (take (header_size - 2) (header_bytes h))\<rparr>)"

lemma make_header_bytes: "make_header pid type n pl = header_bytes (made_header pid type n pl)"
  by (simp add: make_header_def made_header_def Let_def)

lemma made_header_fields [simp]:
  "h_sop (made_header pid type n pl) = sop" "h_ver (made_header pid type n pl) = ver"
  "h_len (made_header pid type n pl) = of_nat (length pl)" "h_id (made_header pid type n pl) = pid"
  "h_type (made_header pid type n pl) = type_code type"
  "h_n_block (made_header pid type n pl) = n"
  "h_p_crc (made_header pid type n pl) = compute_crc pl"
  by (simp_all add: made_header_def Let_def)

text \<open>The checksum field does not take part in the bytes it is computed over.\<close>

lemma header_crc_bytes:
  "take (header_size - 2) (header_bytes (h\<lparr>h_h_crc := c\<rparr>)) = take (header_size - 2) (header_bytes h)"
  by (simp add: header_bytes_def header_size_def u16_le_def)

lemma made_header_crc:
  "h_h_crc (made_header pid type n pl)
     = compute_crc (take (header_size - 2) (header_bytes (made_header pid type n pl)))"
proof -
  have "h_h_crc (h\<lparr>h_h_crc := compute_crc (take (header_size - 2) (header_bytes h))\<rparr>)
    = compute_crc (take (header_size - 2)
        (header_bytes (h\<lparr>h_h_crc := compute_crc (take (header_size - 2) (header_bytes h))\<rparr>)))"
    for h :: header
    by (simp add: header_crc_bytes)
  then show ?thesis unfolding made_header_def Let_def by blast
qed

lemma length_make_header [simp]: "length (make_header pid type n pl) = header_size"
  by (simp add: make_header_bytes codec)

lemma read_make_header [simp]: "read_header (make_header pid type n pl @ w) = made_header pid type n pl"
  by (simp add: make_header_bytes codec)

lemma read_make_header_all [simp]: "read_header (make_header pid type n pl) = made_header pid type n pl"
  using read_make_header [of pid type n pl "[]"] by simp

lemma make_header_sop: "\<exists>w. make_header pid type n pl = u16_le sop @ w"
  by (simp add: make_header_bytes header_bytes_def)

lemma find_sop_make_header [simp]:
  "find_bytes (u16_le sop) (make_header pid type n pl @ w) = Some 0"
proof -
  obtain u where "make_header pid type n pl = u16_le sop @ u"
    using make_header_sop by blast
  moreover have "u16_le sop \<noteq> []" by (simp add: u16_le_def)
  ultimately show ?thesis by simp
qed

lemma parse_make_header:
  "parse_header_view (make_header pid type n pl) =
     (if unat (of_nat (length pl) :: u16) > max_pl_size
      then Inl (Packet_error Payload_exceed_max_size) else Inr (made_header pid type n pl))"
  by (simp add: parse_header_view_def Let_def made_header_crc make_header_bytes [symmetric]
      max_pl_size_def)

text \<open>
  What a factory returns for the payload \<open>pl\<close> and the block count \<open>n\<close> it writes, errors
  included.
\<close>

lemma packet_of_made:
  assumes "length pl < 65536"
  shows "packet_of_view mem (make_header pid type n pl @ pl) =
    (if length pl > max_pl_size then Inl (Packet_error Payload_exceed_max_size)
     else if unat n \<noteq> length (blocks pl) then Inl (Packet_error Invalid_number_of_block)
     else Inr \<lparr>p_data = overwrite mem (make_header pid type n pl @ pl)\<rparr>)"
  using assms
  by (simp add: packet_of_view_def parse_make_header parse_payload_view_def)

section \<open>Packets that are made are read back\<close>

lemma length_overwrite: "length w \<le> length mem \<Longrightarrow> length (overwrite mem w) = length mem"
  by (simp add: overwrite_def)

text \<open>The packet whose storage starts with a header and its payload.\<close>

definition holds :: "packet \<Rightarrow> u16 \<Rightarrow> packet_type \<Rightarrow> u8 \<Rightarrow> bytes \<Rightarrow> bool" where
  "holds p pid type n pl \<longleftrightarrow>
     (\<exists>w. p_data p = make_header pid type n pl @ pl @ w) \<and> length pl < 65536"

lemma holds_made:
  assumes "packet_of_view mem (make_header pid type n pl @ pl) = Inr p" and "length pl < 65536"
  shows "holds p pid type n pl"
  using assms by (auto simp: packet_of_made holds_def overwrite_def split: if_splits)

lemma holds_fields:
  assumes "holds p pid type n pl"
  shows "packet_id p = pid" "packet_type p = Some type" "packet_version p = ver"
    "nb_block p = n" "payload_len p = length pl" "payload p = pl"
    "packet_size p = header_size + length pl" "packet_blocks p = blocks pl"
    "packet_bytes p = make_header pid type n pl @ pl"
proof -
  obtain w where w: "p_data p = make_header pid type n pl @ pl @ w" and l: "length pl < 65536"
    using assms by (auto simp: holds_def)
  have h: "p_header p = made_header pid type n pl"
    by (simp add: p_header_def w)
  show len: "payload_len p = length pl"
    by (simp add: payload_len_def h l)
  show pl: "payload p = pl"
    by (simp add: payload_def len w)
  show "packet_id p = pid" "packet_type p = Some type" "packet_version p = ver" "nb_block p = n"
    by (simp_all add: packet_id_def packet_type_def packet_version_def nb_block_def h)
  show sz: "packet_size p = header_size + length pl"
    by (simp add: packet_size_def len)
  show "packet_blocks p = blocks pl"
    by (simp add: packet_blocks_def pl)
  show "packet_bytes p = make_header pid type n pl @ pl"
    by (simp add: packet_bytes_def sz w)
qed

lemma foldl_blocks: "foldl (\<lambda>pl b. pl @ make_block b) acc bs = acc @ concat (map make_block bs)"
  by (induction bs arbitrary: acc) simp_all

lemma length_concat_blocks [simp]:
  "length (concat (map make_block bs)) = sum_list (map block_size bs)"
  by (simp add: length_concat o_def)

lemma fits_small: "sum_list (map block_size bs) \<le> n \<Longrightarrow> n < 65536 \<Longrightarrow> list_all fits bs"
  by (induction bs) (auto simp: fits_def block_size_def)

end
