(* ===== verification/Packet_Laws.thy ===== *)
theory Packet_Laws
  imports Packet
begin

text \<open>
  What class \<^verbatim>\<open>Packet\<close> promises: the factories build packets that pass the class's own
  checks and are read back field by field, the constructor accepts nothing else at the start
  of a buffer, corrupted bytes are refused, and where the sizes do not fit the factories throw.
  The places where the code breaks its own promise are stated as such.
\<close>

section \<open>Helper facts\<close>

text \<open>A packet that passes both checks the transports run on it.\<close>

definition valid_packet :: "packet \<Rightarrow> bool" where
  "valid_packet p \<longleftrightarrow> storage (p_data p) \<and> parse_header p = Inr () \<and> parse_payload p = Inr ()"

lemma parse_header_view_InrD:
  assumes "parse_header_view v = Inr h"
  shows "length v = header_size" "h = read_header v" "h_sop h = sop" "h_ver h = ver"
    "type_of_code (h_type h) \<noteq> None" "unat (h_len h) \<le> max_pl_size"
    "h_h_crc h = compute_crc (take (header_size - 2) v)"
  using assms
  by (auto simp: parse_header_view_def Let_def max_pl_size_def split: if_splits)

lemma parse_header_view_read:
  "header_size \<le> length v \<Longrightarrow> parse_header_view (take header_size v) = Inr h \<Longrightarrow> h = read_header v"
  using parse_header_view_InrD(2) hdr.dec_take by metis

lemma parse_payload_view_InrD:
  assumes "parse_payload_view v h = Inr u"
  shows "unat (h_len h) = length v" "h_p_crc h = compute_crc v"
    "unat (h_n_block h) = length (blocks v)"
  using assms by (auto simp: parse_payload_view_def split: if_splits)

text \<open>An accepted buffer, taken apart.\<close>

lemma packet_of_view_InrE:
  assumes "packet_of_view mem v = Inr p"
  obtains pos h where "find_bytes (u16_le sop) v = Some pos"
    "parse_header_view (take header_size (drop pos v)) = Inr h"
    "pos + header_size + unat (h_len h) \<le> length v"
    "parse_payload_view (take (unat (h_len h)) (drop (pos + header_size) v)) h = Inr ()"
    "p = \<lparr>p_data = overwrite mem (take (header_size + unat (h_len h)) v)\<rparr>"
  using assms unfolding packet_of_view_def
  by (auto split: option.splits if_splits sum.splits)

text \<open>The length field counts at most as many bytes as the storage has room for.\<close>

lemma header_fits: "unat (l :: u16) \<le> max_pl_size \<Longrightarrow> header_size + unat l \<le> max_size"
  by (simp add: format_sizes)

lemma read_header_overwrite:
  assumes "header_size \<le> n" and "n \<le> length v"
  shows "read_header (overwrite mem (take n v)) = read_header v"
proof -
  have "take header_size (overwrite mem (take n v)) = take header_size v"
    using assms by (simp add: overwrite_def min_absorb1)
  moreover have "header_size \<le> length (overwrite mem (take n v))"
    using assms by (simp add: overwrite_def)
  ultimately show ?thesis
    using assms hdr.dec_take by (metis le_trans)
qed

text \<open>A buffer that starts with the packet: the stored packet is the buffer's first bytes.\<close>

lemma accepted_at_start:
  assumes mem: "storage mem" and acc: "packet_of_view mem v = Inr p"
    and start: "find_bytes (u16_le sop) v = Some 0"
  shows "valid_packet p" "packet_bytes p = take (packet_size p) v"
    "p_header p = read_header v" "packet_size p \<le> length v"
proof -
  obtain h where h: "parse_header_view (take header_size v) = Inr h"
    and fits: "header_size + unat (h_len h) \<le> length v"
    and pl: "parse_payload_view (take (unat (h_len h)) (drop header_size v)) h = Inr ()"
    and p: "p = \<lparr>p_data = overwrite mem (take (header_size + unat (h_len h)) v)\<rparr>"
    using acc start by (auto elim!: packet_of_view_InrE)
  let ?n = "header_size + unat (h_len h)"
  have room: "?n \<le> max_size" "?n \<le> length mem"
    using header_fits parse_header_view_InrD(6) [OF h] mem by (auto simp: storage_def)
  have rd: "h = read_header v"
    using parse_header_view_read [of v h] h fits by simp
  have hd: "p_header p = h"
    using fits rd by (simp add: p_header_def p read_header_overwrite)
  have sz: "packet_size p = ?n"
    by (simp add: packet_size_def payload_len_def hd)
  have pre: "take ?n (p_data p) = take ?n v"
    using fits by (simp add: p overwrite_def)
  have len: "length (p_data p) = max_size"
    using mem room fits by (simp add: p storage_def length_overwrite)
  have "take header_size (p_data p) = take header_size v"
    using pre by (metis min.absorb1 le_add1 take_take)
  then have ph: "parse_header p = Inr ()"
    by (simp add: parse_header_def h)
  have "payload p = take (unat (h_len h)) (drop header_size v)"
    using pre by (simp add: payload_def payload_len_def hd take_drop add.commute)
  then have "parse_payload p = Inr ()"
    using pl room by (simp add: parse_payload_def payload_len_def hd)
  with ph len show "valid_packet p"
    by (simp add: valid_packet_def storage_def)
  show "packet_bytes p = take (packet_size p) v"
    by (simp add: packet_bytes_def sz pre)
  show "p_header p = read_header v" using hd rd by simp
  show "packet_size p \<le> length v" using sz fits by simp
qed

lemma packet_of_made_ok:
  assumes "length pl \<le> max_pl_size" and "unat n = length (blocks pl)"
  shows "packet_of_view mem (make_header pid type n pl @ pl)
     = Inr \<lparr>p_data = overwrite mem (make_header pid type n pl @ pl)\<rparr>"
  using assms by (simp add: packet_of_made format_sizes)

text \<open>Everything a caller reads from a packet that a factory returned.\<close>

lemma made_packet:
  assumes mem: "storage mem" and len: "length pl \<le> max_pl_size"
    and n: "unat n = length (blocks pl)"
  shows "\<exists>p. packet_of_view mem (make_header pid type n pl @ pl) = Inr p
    \<and> valid_packet p \<and> packet_id p = pid \<and> packet_type p = Some type
    \<and> packet_version p = ver \<and> packet_blocks p = blocks pl
    \<and> packet_size p = header_size + length pl
    \<and> packet_bytes p = make_header pid type n pl @ pl"
proof -
  let ?p = "\<lparr>p_data = overwrite mem (make_header pid type n pl @ pl)\<rparr>"
  have ok: "packet_of_view mem (make_header pid type n pl @ pl) = Inr ?p"
    using len n by (rule packet_of_made_ok)
  have "length pl < 65536" using len by (simp add: format_sizes)
  with ok have h: "holds ?p pid type n pl" by (rule holds_made)
  have "valid_packet ?p"
    using mem ok by (rule accepted_at_start) simp
  with ok h show ?thesis by (auto simp: holds_fields [OF h])
qed

section \<open>Factories\<close>

lemma make_data_eq:
  "make_data mem pid bs =
     (let pl = concat (map make_block bs)
      in packet_of_view mem (make_header pid Data (of_nat (length bs)) pl @ pl))"
  by (simp add: make_data_def foldl_blocks Let_def)

lemma make_data_ok:
  assumes "storage mem" and "sum_list (map block_size bs) \<le> max_pl_size" and "length bs < 256"
  shows "\<exists>p. make_data mem pid bs = Inr p \<and> valid_packet p \<and> packet_id p = pid
    \<and> packet_type p = Some Data \<and> packet_blocks p = bs
    \<and> packet_size p = header_size + sum_list (map block_size bs)"
proof -
  have "list_all fits bs"
    using assms(2) by (rule fits_small) (simp add: format_sizes)
  then show ?thesis
    using made_packet [of mem "concat (map make_block bs)" "of_nat (length bs)" pid Data] assms
    by (auto simp: make_data_eq Let_def)
qed

lemma make_data_many:
  assumes "sum_list (map block_size bs) \<le> max_pl_size" and "256 \<le> length bs"
  shows "make_data mem pid bs = Inl (Packet_error Invalid_number_of_block)"
proof -
  have fit: "list_all fits bs"
    using assms(1) by (rule fits_small) (simp add: format_sizes)
  have "unat (of_nat (length bs) :: u8) < length bs"
    using assms(2) unat_u8_less [of "of_nat (length bs)"] by simp
  with fit assms show ?thesis
    by (simp add: make_data_eq Let_def packet_of_made format_sizes)
qed

lemma make_data_InrD:
  assumes "storage mem" and "sum_list (map block_size bs) \<le> max_pl_size"
    and "make_data mem pid bs = Inr p"
  shows "valid_packet p" "packet_id p = pid" "packet_type p = Some Data" "packet_blocks p = bs"
proof -
  have "length bs < 256"
    using make_data_many [OF assms(2), of mem pid] assms(3) by (cases "256 \<le> length bs") auto
  from make_data_ok [OF assms(1,2) this, of pid] assms(3)
  show "valid_packet p" "packet_id p = pid" "packet_type p = Some Data" "packet_blocks p = bs"
    by auto
qed

text \<open>
  A data packet made from blocks that fit (2035 bytes with their headers, fewer than 256
  of them) passes the checks of the receiving side, and the receiver reads back the packet
  identifier and exactly the blocks that were given, in their order.
\<close>

theorem make_data_roundtrip:
  assumes "storage mem" and "sum_list (map block_size bs) \<le> max_pl_size" and "length bs < 256"
  shows "\<exists>p. make_data mem pid bs = Inr p \<and> valid_packet p \<and> packet_id p = pid
    \<and> packet_type p = Some Data \<and> packet_blocks p = bs
    \<and> packet_size p = header_size + sum_list (map block_size bs)"
  using assms by (rule make_data_ok)

theorem make_data_roundtrip_witness:
  "\<exists>p. make_data (replicate 2048 0) 7
        [\<lparr>b_type = 0x2854, b_data = [97, 98]\<rparr>, \<lparr>b_type = 1, b_data = []\<rparr>] = Inr p
     \<and> valid_packet p \<and> packet_id p = 7 \<and> packet_type p = Some Data
     \<and> packet_blocks p = [\<lparr>b_type = 0x2854, b_data = [97, 98]\<rparr>, \<lparr>b_type = 1, b_data = []\<rparr>]
     \<and> packet_size p = header_size + 10"
  using make_data_roundtrip [of "replicate 2048 0"
      "[\<lparr>b_type = 0x2854, b_data = [97, 98]\<rparr>, \<lparr>b_type = 1, b_data = []\<rparr>]" 7]
  by (simp add: storage_def format_sizes block_size_def)

text \<open>
  The number of blocks is stored in one byte, and nothing before the final check limits
  it: from 256 blocks on, however short they are, no data packet can be made.
\<close>

theorem make_data_too_many_blocks:
  assumes "sum_list (map block_size bs) \<le> max_pl_size" and "256 \<le> length bs"
  shows "make_data mem pid bs = Inl (Packet_error Invalid_number_of_block)"
  using assms by (rule make_data_many)

theorem make_data_too_many_blocks_witness:
  "make_data (replicate 2048 0) 1 (replicate 300 \<lparr>b_type = 5, b_data = []\<rparr>)
     = Inl (Packet_error Invalid_number_of_block)"
  using make_data_too_many_blocks [of "replicate 300 \<lparr>b_type = 5, b_data = []\<rparr>" "replicate 2048 0" 1]
  by (simp add: format_sizes block_size_def sum_list_replicate)

lemma make_block_of_fits: "length data < 65536 \<Longrightarrow> fits \<lparr>b_type = type, b_data = data\<rparr>"
  by (simp add: fits_def)

lemma blocks_make_block_of [simp]:
  "length data < 65536 \<Longrightarrow>
     blocks (make_block_of type data @ w) = \<lparr>b_type = type, b_data = data\<rparr> # blocks w"
  by (simp add: make_block_of_def blocks_make_block make_block_of_fits)

lemma blocks_make_block_of_all [simp]:
  "length data < 65536 \<Longrightarrow> blocks (make_block_of type data) = [\<lparr>b_type = type, b_data = data\<rparr>]"
  using blocks_make_block_of [of data type "[]"] by simp

lemma length_make_block_of [simp]: "length (make_block_of type data) = length data + bheader_size"
  by (simp add: make_block_of_def block_size_def)

lemma make_command_ok:
  assumes "storage mem" and "length data \<le> 2031"
  shows "\<exists>p. make_command mem pid type data = Inr p \<and> valid_packet p \<and> packet_id p = pid
    \<and> packet_type p = Some Cmd \<and> packet_blocks p = [\<lparr>b_type = type, b_data = data\<rparr>]"
  using assms made_packet [of mem "make_block_of type data" 1 pid Cmd]
  by (auto simp: make_command_def Let_def format_sizes)

lemma make_command_too_big:
  assumes "2031 < length data" and "length data < 65532"
  shows "make_command mem pid type data = Inl (Packet_error Payload_exceed_max_size)"
  using assms by (simp add: make_command_def Let_def packet_of_made format_sizes)

lemma make_cmd_ack_ok:
  assumes "storage mem"
  shows "\<exists>p. make_cmd_ack mem pid type cmd_id = Inr p \<and> valid_packet p \<and> packet_id p = pid
    \<and> packet_type p = Some Cmd_ack
    \<and> packet_blocks p = [\<lparr>b_type = type, b_data = u16_le cmd_id\<rparr>]"
  using assms made_packet [of mem "make_block_of type (u16_le cmd_id)" 1 pid Cmd_ack]
  by (auto simp: make_cmd_ack_def Let_def format_sizes)



text \<open>
  The size checks look at lengths that have been cut to 16 bits. A command with 65536
  zero bytes of data is accepted, and what is sent is a command with no data at all: both
  checksums agree, because 65536 further zero bytes do not change them.
\<close>

theorem make_command_silent_truncation:
  "\<exists>p. make_command mem pid type (replicate 65536 0) = Inr p
     \<and> packet_id p = pid \<and> packet_blocks p = [\<lparr>b_type = type, b_data = []\<rparr>]"
proof -
  let ?short = "make_block_of type []" and ?zeros = "replicate 65536 (0 :: u8)"
  have pl: "make_block_of type ?zeros = ?short @ ?zeros"
    by (simp add: make_block_of_def make_block_def)
  have len: "(65540 :: u16) = 4" by simp
  have hd: "make_header pid Cmd 1 (?short @ ?zeros) = make_header pid Cmd 1 ?short"
    by (simp add: make_header_def crc_zeros bheader_size_def len)
  have short: "unat (1 :: u8) = length (blocks ?short)" "length ?short = 4"
    by (simp_all add: bheader_size_def)
  have parse: "parse_header_view (make_header pid Cmd 1 ?short) = Inr (made_header pid Cmd 1 ?short)"
    using short(2) by (simp add: parse_make_header format_sizes)
  let ?data = "overwrite mem (make_header pid Cmd 1 ?short @ ?short)"
  have ok: "packet_of_view mem (make_header pid Cmd 1 ?short @ ?short @ ?zeros)
      = Inr \<lparr>p_data = ?data\<rparr>"
    using short by (simp add: packet_of_view_def parse parse_payload_view_def)
  have "holds \<lparr>p_data = ?data\<rparr> pid Cmd 1 ?short"
    using short(2) by (simp add: holds_def overwrite_def)
  then show ?thesis
    using ok by (simp add: make_command_def Let_def pl hd holds_fields)
qed

text \<open>
  A command acknowledgement carries the acknowledged packet identifier as its only data:
  the two bytes of the block give that identifier back.
\<close>

theorem make_cmd_ack_roundtrip:
  assumes "storage mem"
  shows "\<exists>p. make_cmd_ack mem pid type cmd_id = Inr p \<and> valid_packet p \<and> packet_id p = pid
    \<and> packet_type p = Some Cmd_ack
    \<and> (\<exists>b. packet_blocks p = [b] \<and> b_type b = type \<and> length (b_data b) = 2
         \<and> le_u16 (b_data b ! 0) (b_data b ! 1) = cmd_id)"
  using make_cmd_ack_ok [OF assms, of pid type cmd_id] by (auto simp: u16_le_def)

theorem make_cmd_ack_roundtrip_witness:
  "\<exists>p. make_cmd_ack (replicate 2048 0) 1 2 515 = Inr p \<and> packet_id p = 1
     \<and> (\<exists>b. packet_blocks p = [b] \<and> le_u16 (b_data b ! 0) (b_data b ! 1) = 515)"
  using make_cmd_ack_roundtrip [of "replicate 2048 0" 1 2 515]
  by (auto simp: storage_def format_sizes)

definition identification_blocks :: "identification \<Rightarrow> block list" where
  "identification_blocks i =
     [\<lparr>b_type = name_block, b_data = id_name i\<rparr>,
      \<lparr>b_type = serial_number_block, b_data = id_serial_number i\<rparr>,
      \<lparr>b_type = hw_version_block, b_data = id_hw_version i\<rparr>,
      \<lparr>b_type = sw_version_block, b_data = id_sw_version i\<rparr>]"

lemma identification_payload_eq:
  "identification_payload i = concat (map make_block (identification_blocks i))"
  by (simp add: identification_payload_def identification_blocks_def make_block_of_def)

definition identification_size :: "identification \<Rightarrow> nat" where
  "identification_size i = length (id_name i) + length (id_serial_number i)
     + length (id_hw_version i) + length (id_sw_version i)"

lemma identification_blocks_size:
  "sum_list (map block_size (identification_blocks i)) = identification_size i + 16"
  by (simp add: identification_blocks_def identification_size_def block_size_def bheader_size_def)

lemma made_identification:
  assumes "storage mem" and "identification_size i \<le> 2019"
  shows "\<exists>p. packet_of_view mem (make_header pid type 4 (identification_payload i)
        @ identification_payload i) = Inr p
    \<and> valid_packet p \<and> packet_id p = pid \<and> packet_type p = Some type
    \<and> packet_blocks p = identification_blocks i"
proof -
  have sz: "sum_list (map block_size (identification_blocks i)) \<le> max_pl_size"
    using assms(2) by (simp add: identification_blocks_size format_sizes)
  then have "list_all fits (identification_blocks i)"
    by (rule fits_small) (simp add: format_sizes)
  moreover have "length (identification_blocks i) = 4" by (simp add: identification_blocks_def)
  ultimately show ?thesis
    using made_packet [of mem "concat (map make_block (identification_blocks i))" 4 pid type]
      assms(1) sz
    by (auto simp: identification_payload_eq)
qed

lemma make_hip_ok:
  assumes "storage mem" and "identification_size i \<le> 2019"
  shows "\<exists>p. make_hip mem pid i = Inr p \<and> valid_packet p \<and> packet_id p = pid
    \<and> packet_type p = Some Hip \<and> packet_blocks p = identification_blocks i"
  using made_identification [OF assms] by (simp add: make_hip_def Let_def)

lemma make_hip_too_big:
  assumes "2019 < identification_size i" and "identification_size i < 65520"
  shows "make_hip mem pid i = Inl (Packet_error Payload_exceed_max_size)"
  using assms identification_blocks_size [of i]
  by (simp add: make_hip_def Let_def packet_of_made format_sizes identification_payload_eq)

lemma make_dip_ok:
  assumes "storage mem" and "identification_size i \<le> 2019"
  shows "\<exists>p. make_dip mem pid i = Inr p \<and> valid_packet p \<and> packet_id p = pid
    \<and> packet_type p = Some Dip \<and> packet_blocks p = identification_blocks i"
  using made_identification [OF assms] by (simp add: make_dip_def Let_def)

lemma make_keepalive_ok:
  assumes "storage mem"
  shows "\<exists>p. make_keepalive mem pid = Inr p \<and> valid_packet p \<and> packet_id p = pid
    \<and> packet_type p = Some Ka \<and> packet_blocks p = []"
  using assms made_packet [of mem "[]" 0 pid Ka] by (auto simp: make_keepalive_def)

lemma make_keepalive_ack_ok:
  assumes "storage mem"
  shows "\<exists>p. make_keepalive_ack mem pid = Inr p \<and> valid_packet p \<and> packet_id p = pid
    \<and> packet_type p = Some Ka_ack \<and> packet_blocks p = []"
  using assms made_packet [of mem "[]" 0 pid Ka_ack] by (auto simp: make_keepalive_ack_def)

section \<open>The constructor\<close>

text \<open>
  What the constructor accepts at the start of a buffer is a packet that passes the
  header and payload checks, fits in the 2048 bytes of the object, and is byte for byte the
  beginning of the buffer.
\<close>

theorem packet_of_view_sound:
  assumes "storage mem" and "packet_of_view mem v = Inr p"
    and "find_bytes (u16_le sop) v = Some 0"
  shows "valid_packet p \<and> packet_bytes p = take (packet_size p) v
    \<and> packet_size p \<le> length v \<and> packet_size p \<le> max_size
    \<and> packet_version p = ver \<and> packet_type p \<noteq> None
    \<and> unat (nb_block p) = length (packet_blocks p)"
proof -
  note a = accepted_at_start [OF assms]
  have "parse_header p = Inr ()" "parse_payload p = Inr ()"
    using a(1) by (simp_all add: valid_packet_def)
  then have h: "parse_header_view (take header_size (p_data p)) = Inr (read_header (p_data p))"
    and pl: "parse_payload_view (payload p) (p_header p) = Inr ()" "packet_size p \<le> max_size"
    using parse_header_view_read [of "p_data p"] a(1)
    by (auto simp: parse_header_def parse_payload_def valid_packet_def storage_def packet_size_def
        format_sizes split: sum.splits if_splits)
  then show ?thesis
    using a parse_header_view_InrD [OF h] parse_payload_view_InrD(3) [OF pl(1)]
    by (simp add: packet_version_def packet_type_def nb_block_def p_header_def packet_blocks_def)
qed

text \<open>A concrete packet for the witnesses: a keep-alive with identifier 15.\<close>

definition ka15 :: bytes where
  "ka15 = make_header 15 Ka 0 []"

lemma ka15_accepted: "packet_of_view mem (ka15 @ w) = Inr \<lparr>p_data = overwrite mem ka15\<rparr>"
  by (simp add: ka15_def packet_of_view_def parse_make_header parse_payload_view_def
      compute_crc_eq)

lemma ka15_start [simp]: "find_bytes (u16_le sop) (ka15 @ w) = Some 0"
  by (simp add: ka15_def)

lemma ka15_valid: "valid_packet \<lparr>p_data = overwrite (replicate 2048 0) ka15\<rparr>"
  by (rule accepted_at_start(1) [OF _ ka15_accepted [of _ "[]"] ka15_start])
    (simp add: storage_def format_sizes)

lemma ka15_holds: "holds \<lparr>p_data = overwrite (replicate 2048 0) ka15\<rparr> 15 Ka 0 []"
  by (simp add: holds_def overwrite_def ka15_def)

theorem packet_of_view_sound_witness:
  "valid_packet \<lparr>p_data = overwrite (replicate 2048 0) ka15\<rparr>"
  using packet_of_view_sound [of "replicate 2048 0" "ka15 @ [1, 2, 3]"]
    ka15_accepted [of "replicate 2048 0" "[1, 2, 3]"]
  by (simp add: storage_def format_sizes)

lemma valid_packet_views:
  assumes "valid_packet p"
  shows "parse_header_view (take header_size (p_data p)) = Inr (p_header p)"
    "parse_payload_view (payload p) (p_header p) = Inr ()" "packet_size p \<le> max_size"
    "length (p_data p) = max_size"
proof -
  show len: "length (p_data p) = max_size"
    using assms by (simp add: valid_packet_def storage_def)
  show "parse_header_view (take header_size (p_data p)) = Inr (p_header p)"
    using assms parse_header_view_read [of "p_data p"] len
    by (auto simp: valid_packet_def parse_header_def p_header_def format_sizes split: sum.splits)
  show "parse_payload_view (payload p) (p_header p) = Inr ()" "packet_size p \<le> max_size"
    using assms
    by (auto simp: valid_packet_def parse_payload_def packet_size_def split: if_splits)
qed

lemma take_2: "2 \<le> length v \<Longrightarrow> take 2 v = [v ! 0, v ! 1]"
  by (cases v; cases "tl v") (auto simp: numeral_2_eq_2)

lemma starts_with_sop:
  assumes "parse_header_view (take header_size v) = Inr h"
  shows "find_bytes (u16_le sop) v = Some 0"
proof -
  have len: "header_size \<le> length v" and "h_sop (read_header (take header_size v)) = sop"
    using parse_header_view_InrD(1,2,3) [OF assms] by auto
  then have "sop = le_u16 (v ! 0) (v ! 1)"
    by (simp add: read_header_def format_sizes)
  moreover have "u16_le (le_u16 (v ! 0) (v ! 1)) = [v ! 0, v ! 1]"
    by (simp add: u16_le_def)
  ultimately have "u16_le sop = [v ! 0, v ! 1]" by (simp only:)
  moreover have "take 2 v = [v ! 0, v ! 1]" "v \<noteq> []"
    using len by (auto simp: format_sizes take_2)
  ultimately show ?thesis
    by (metis find_bytes_start length_u16_le)
qed

text \<open>What is sent is what is parsed.\<close>

lemma wire_stored:
  fixes p :: packet and mem w :: bytes
  defines "q \<equiv> \<lparr>p_data = overwrite mem (packet_bytes p)\<rparr>"
  assumes p: "valid_packet p" and mem: "storage mem"
  shows "packet_of_view mem (packet_bytes p @ w) = Inr q" "valid_packet q"
    "p_header q = p_header p" "packet_blocks q = packet_blocks p" "packet_bytes q = packet_bytes p"
proof -
  note V = valid_packet_views [OF p]
  let ?n = "packet_size p"
  define v where "v = packet_bytes p @ w"
  have len: "length (packet_bytes p) = ?n" and hs: "header_size \<le> ?n"
    using V(3,4) by (simp_all add: packet_bytes_def packet_size_def)
  have hd: "take header_size v = take header_size (p_data p)"
    using hs V(3,4) by (simp add: v_def packet_bytes_def min_absorb1)
  then have parse: "parse_header_view (take header_size v) = Inr (p_header p)"
    using V(1) by simp
  have start: "find_bytes (u16_le sop) v = Some 0"
    using parse by (rule starts_with_sop)
  have pl: "take (unat (h_len (p_header p))) (drop header_size v) = payload p"
    using V(3,4) by (simp add: v_def packet_bytes_def payload_def packet_size_def payload_len_def
        drop_take)
  have n: "header_size + unat (h_len (p_header p)) = ?n" "?n \<le> length v"
    using len by (simp_all add: packet_size_def payload_len_def v_def)
  let ?q = "\<lparr>p_data = overwrite mem (take ?n v)\<rparr>"
  have ok: "packet_of_view mem v = Inr ?q"
    using n V(2) by (simp add: packet_of_view_def start parse pl)
  note q = accepted_at_start [OF mem ok start]
  have h: "p_header ?q = p_header p"
    using q(3) parse_header_view_read [OF _ parse] n hs by simp
  then have "packet_size ?q = ?n" by (simp add: packet_size_def payload_len_def)
  then have b: "packet_bytes ?q = packet_bytes p" using q(2) len by (simp add: v_def)
  have "payload r = drop header_size (packet_bytes r)" for r
    by (simp add: payload_def packet_bytes_def packet_size_def drop_take)
  then have bl: "packet_blocks ?q = packet_blocks p" using b by (simp add: packet_blocks_def)
  have q': "?q = q" using len by (simp add: q_def v_def)
  show "packet_of_view mem (packet_bytes p @ w) = Inr q" using ok unfolding q' by (simp only: v_def)
  show "valid_packet q" "p_header q = p_header p" "packet_blocks q = packet_blocks p" "packet_bytes q = packet_bytes p"
    using q(1) h bl b by (simp_all only: q')
qed

lemma wire_run:
  assumes p: "valid_packet p" and mem: "storage mem"
  shows "\<exists>q. packet_of_view mem (packet_bytes p @ w) = Inr q \<and> valid_packet q
    \<and> p_header q = p_header p \<and> packet_blocks q = packet_blocks p
    \<and> packet_bytes q = packet_bytes p"
  using wire_stored [OF assms] by blast

lemma wire_fields:
  assumes "valid_packet p" and "storage mem"
  obtains q where "packet_of_view mem (packet_bytes p @ w) = Inr q" "valid_packet q"
    "packet_blocks q = packet_blocks p" "packet_id q = packet_id p" "packet_type q = packet_type p"
  using wire_run [OF assms, of w] by (metis packet_id_def packet_type_def)

text \<open>
  C1: Wire round trip: the bytes a transport sends for a valid packet, handed to the
  constructor on the other side, give a valid packet with the same header, blocks and bytes,
  whatever the receiver's storage held before and whatever follows in its buffer.
\<close>

theorem wire_roundtrip:
  assumes p: "valid_packet p" and mem: "storage mem"
  shows "\<exists>q. packet_of_view mem (packet_bytes p @ w) = Inr q \<and> valid_packet q
    \<and> p_header q = p_header p \<and> packet_blocks q = packet_blocks p
    \<and> packet_bytes q = packet_bytes p"
  by (rule wire_run [OF assms])

theorem wire_roundtrip_witness:
  "\<exists>q. packet_of_view (replicate 2048 1)
       (packet_bytes \<lparr>p_data = overwrite (replicate 2048 0) ka15\<rparr> @ [9]) = Inr q"
  using wire_roundtrip [of "\<lparr>p_data = overwrite (replicate 2048 0) ka15\<rparr>" "replicate 2048 1" "[9]"]
    ka15_valid
  by (auto simp: storage_def format_sizes)

subsection \<open>Corruption\<close>

lemma parse_header_corrupt:
  assumes ok: "parse_header_view v = Inr h" and i: "i < header_size" and b: "b \<noteq> v ! i"
  shows "parse_header_view (v[i := b]) = Inl (Packet_error Invalid_header_crc)"
proof -
  note v = parse_header_view_InrD [OF ok]
  have "compute_crc (take (header_size - 2) (v[i := b])) \<noteq> h_h_crc (read_header (v[i := b]))"
  proof (cases "i < header_size - 2")
    case True
    then have "h_h_crc (read_header (v[i := b])) = compute_crc (take (header_size - 2) v)"
      using v(2,7) by (simp add: read_header_def format_sizes)
    moreover have "compute_crc ((take (header_size - 2) v)[i := b])
        \<noteq> compute_crc (take (header_size - 2) v)"
      using True b v(1) by (intro crc_update) auto
    moreover have "take (header_size - 2) (v[i := b]) = (take (header_size - 2) v)[i := b]"
      by (rule take_update_swap)
    ultimately show ?thesis by metis
  next
    case False
    then have i': "i = 11 \<or> i = 12" using i by (auto simp: format_sizes)
    then have "take (header_size - 2) (v[i := b]) = take (header_size - 2) v"
      by (auto simp: format_sizes)
    moreover have "h_h_crc (read_header (v[i := b])) \<noteq> h_h_crc (read_header v)"
      using i' b v(1) by (auto simp: read_header_def format_sizes)
    ultimately show ?thesis using v(2,7) by metis
  qed
  then show ?thesis using v(1) by (simp add: parse_header_view_def)
qed

text \<open>
  C12: No single corrupted byte goes unnoticed: change any one byte behind the start marker
  of the bytes of a valid packet and the constructor throws, with the header checksum for
  the thirteen bytes of the header and with the payload checksum for every byte after them.
\<close>

theorem corruption_detected:
  assumes p: "valid_packet p" and i: "2 \<le> i" "i < packet_size p"
    and b: "b \<noteq> packet_bytes p ! i"
  shows "packet_of_view mem ((packet_bytes p)[i := b]) =
    Inl (Packet_error (if i < header_size then Invalid_header_crc else Invalid_payload_crc))"
proof -
  note v = valid_packet_views [OF p]
  let ?v = "packet_bytes p"
  have len: "length ?v = packet_size p" "header_size \<le> packet_size p"
    using v(3,4) by (simp_all add: packet_bytes_def packet_size_def)
  have hd: "parse_header_view (take header_size ?v) = Inr (p_header p)"
    using v(1) len by (simp add: packet_bytes_def min_absorb1)
  have "take 2 (?v[i := b]) = take 2 ?v" using i by simp
  moreover have "take 2 ?v = u16_le sop" "?v \<noteq> []"
    using starts_with_sop [OF hd] find_bytes_Some len by (force, auto simp: format_sizes)
  ultimately have start: "find_bytes (u16_le sop) (?v[i := b]) = Some 0"
    by (intro find_bytes_start) simp_all
  show ?thesis
  proof (cases "i < header_size")
    case True
    then have "take header_size (?v[i := b]) = (take header_size ?v)[i := b]"
      by (simp add: take_update_swap)
    moreover have "b \<noteq> take header_size ?v ! i" using b True by simp
    ultimately have "parse_header_view (take header_size (?v[i := b]))
        = Inl (Packet_error Invalid_header_crc)"
      using parse_header_corrupt [OF hd True] by simp
    then show ?thesis using start True len by (simp add: packet_of_view_def)
  next
    case False
    have pl: "drop header_size ?v = payload p" "length (payload p) = payload_len p"
      using v(3,4) by (simp_all add: packet_bytes_def payload_def packet_size_def drop_take)
    let ?j = "i - header_size"
    have j: "?j < length (payload p)" "b \<noteq> payload p ! ?j"
      using i False b len pl(1) [symmetric] by (simp_all add: nth_drop)
    have "drop header_size (?v[i := b]) = (payload p)[?j := b]"
      using False by (simp add: pl(1) [symmetric] drop_update_swap)
    moreover have "compute_crc ((payload p)[?j := b]) \<noteq> h_p_crc (p_header p)"
      using crc_update [OF j] parse_payload_view_InrD(2) [OF v(2)] by simp
    moreover have "take header_size (?v[i := b]) = take header_size ?v" using False by simp
    ultimately show ?thesis
      using start False len hd pl(2)
      by (simp add: packet_of_view_def parse_payload_view_def payload_len_def packet_size_def)
  qed
qed

theorem corruption_detected_witness:
  "packet_of_view [] ((packet_bytes \<lparr>p_data = overwrite (replicate 2048 0) ka15\<rparr>)[5 := 16])
     = Inl (Packet_error Invalid_header_crc)"
proof -
  let ?p = "\<lparr>p_data = overwrite (replicate 2048 0) ka15\<rparr>"
  note h = ka15_holds
  have "packet_bytes ?p ! 5 = 15"
    by (simp add: holds_fields [OF h] make_header_bytes header_bytes_def u16_le_def)
  then show ?thesis
    using corruption_detected [OF ka15_valid, of 5 16 "[]"] holds_fields(7) [OF h] by (simp add: format_sizes)
qed

subsection \<open>A packet behind other bytes\<close>

text \<open>
  The constructor searches the start of a packet but copies from the start of the
  buffer: whenever it accepts a packet that does not begin at the first byte, the object it
  builds does not pass the class's own header check.
\<close>

theorem packet_behind_garbage:
  assumes acc: "packet_of_view mem v = Inr p"
    and pos: "find_bytes (u16_le sop) v = Some pos" "0 < pos"
  shows "parse_header p \<noteq> Inr ()"
proof
  assume "parse_header p = Inr ()"
  then obtain h where "parse_header_view (take header_size (p_data p)) = Inr h"
    by (auto simp: parse_header_def split: sum.splits)
  then have "find_bytes (u16_le sop) (p_data p) = Some 0" by (rule starts_with_sop)
  then have "take 2 (p_data p) = u16_le sop" using find_bytes_Some by fastforce
  moreover have "take 2 (p_data p) = take 2 v"
    using acc by (elim packet_of_view_InrE) (simp add: overwrite_def format_sizes)
  moreover have "take 2 v \<noteq> u16_le sop"
    using find_bytes_Some [OF pos(1)] pos(2) by auto
  ultimately show False by simp
qed

theorem packet_behind_garbage_witness:
  "\<exists>p. packet_of_view (replicate 2048 0) (0 # ka15) = Inr p \<and> parse_header p \<noteq> Inr ()"
proof -
  let ?p = "\<lparr>p_data = overwrite (replicate 2048 0) (take header_size (0 # ka15))\<rparr>"
  have "find_bytes (u16_le sop) ka15 = Some 0"
    using find_sop_make_header [of 15 Ka 0 "[]" "[]"] by (simp add: ka15_def)
  then have f: "find_bytes (u16_le sop) (0 # ka15) = Some 1"
    by (simp add: codec u16_le_def sop_def)
  have acc: "packet_of_view (replicate 2048 0) (0 # ka15) = Inr ?p"
    using f by (simp add: packet_of_view_def ka15_def parse_make_header parse_payload_view_def
        compute_crc_eq)
  show ?thesis using packet_behind_garbage [OF acc f] acc by auto
qed

text \<open>
  C26: Every proper prefix of the bytes of a valid packet is refused: without the two bytes of
  the start marker there is no packet, with them and less than the header announces the
  buffer is too small.
\<close>

theorem truncation_detected:
  assumes p: "valid_packet p" and n: "n < packet_size p"
  shows "packet_of_view mem (take n (packet_bytes p)) =
    Inl (Packet_error (if n < 2 then Sop_not_found else Invalid_buffer_size))"
proof -
  note v = valid_packet_views [OF p]
  let ?v = "packet_bytes p"
  have len: "length ?v = packet_size p" "header_size \<le> packet_size p"
    using v(3,4) by (simp_all add: packet_bytes_def packet_size_def)
  have hd: "take header_size ?v = take header_size (p_data p)"
    using len by (simp add: packet_bytes_def min_absorb1)
  have sop: "take 2 ?v = u16_le sop"
    using starts_with_sop [of ?v] v(1) hd find_bytes_Some [of "u16_le sop" ?v 0] by simp
  show ?thesis
  proof (cases "n < 2")
    case True
    then have "find_bytes (u16_le sop) (take n ?v) = None"
      by (intro find_bytes_short) simp
    then show ?thesis using True by (simp add: packet_of_view_def)
  next
    case False
    then have "take 2 (take n ?v) = u16_le sop" using sop by (simp add: min_absorb1)
    moreover have "take n ?v \<noteq> []" using False len by (auto simp: format_sizes)
    ultimately have "find_bytes (u16_le sop) (take n ?v) = Some 0"
      by (intro find_bytes_start) simp_all
    moreover have "take header_size (take n ?v) = take header_size (p_data p)" if "header_size \<le> n"
      using that hd by (simp add: min_absorb1)
    ultimately show ?thesis
      using False n len v(1)
      by (auto simp: packet_of_view_def packet_size_def payload_len_def)
  qed
qed

theorem truncation_detected_witness:
  "packet_of_view [] (take 12 (packet_bytes \<lparr>p_data = overwrite (replicate 2048 0) ka15\<rparr>))
     = Inl (Packet_error Invalid_buffer_size)"
  using truncation_detected [OF ka15_valid, of 12 "[]"] holds_fields(7) [OF ka15_holds]
  by (simp add: format_sizes)

end
