(* ===== verification/Extern.thy ===== *)
theory Extern
  imports Errors
begin

text \<open>
  The objects of libcommon (a git submodule that is not part of the repository) and of Boost
  that the code keeps as members: the timer queue, the event manager, the packet queues and
  the request container. Their code is a parameter: a record of the operations the code calls
  on an object of unknown type, together with a view in which the laws the code relies on are
  stated. The laws say what the names and signatures of the operations promise and nothing
  about how they are kept. For each record a small reference object shows that its laws can
  hold; the witnesses of the development run on these.
\<close>

section \<open>Timer queue\<close>

text \<open>
  \<^verbatim>\<open>common::TimeoutQueue\<close>: \<^verbatim>\<open>add\<close> and \<^verbatim>\<open>add_repeating\<close> return the identifier of a new timer,
  \<^verbatim>\<open>erase\<close> forgets one, \<^verbatim>\<open>clear\<close> forgets all; an identifier is never given out twice.
  \<open>tq_timers\<close> and \<open>tq_used\<close> are the views: the pending timers and the identifiers given out so
  far. A callback is a member function bound to an object; its name is kept, and the component
  that owns the queue runs it. \<open>tq_fire\<close> is what \<^verbatim>\<open>run_once\<close> does to its own timers when it runs
  the callback of a due timer: one that does not repeat is gone, one that repeats is restarted.
\<close>

record 'cb timer =
  t_callback :: 'cb
  t_start :: int
  t_period :: int
  t_repeating :: bool

record ('q, 'cb) timeout_queue_api =
  tq_add :: "'q \<Rightarrow> int \<Rightarrow> int \<Rightarrow> 'cb \<Rightarrow> 'q \<times> nat"
  tq_add_repeating :: "'q \<Rightarrow> int \<Rightarrow> int \<Rightarrow> 'cb \<Rightarrow> 'q \<times> nat"
  tq_erase :: "'q \<Rightarrow> nat \<Rightarrow> 'q"
  tq_clear :: "'q \<Rightarrow> 'q"
  tq_fire :: "'q \<Rightarrow> nat \<Rightarrow> 'q"
  tq_used :: "'q \<Rightarrow> nat set"
  tq_timers :: "'q \<Rightarrow> nat \<Rightarrow> 'cb timer option"

definition timeout_queue_laws :: "('q, 'cb) timeout_queue_api \<Rightarrow> bool" where
  "timeout_queue_laws T \<longleftrightarrow>
     (\<forall>q now t cb q' i. tq_add T q now t cb = (q', i) \<longrightarrow>
        i \<notin> tq_used T q \<and> tq_used T q' = insert i (tq_used T q) \<and> tq_timers T q' = (tq_timers T q)
          (i \<mapsto> \<lparr>t_callback = cb, t_start = now, t_period = t, t_repeating = False\<rparr>)) \<and>
     (\<forall>q now t cb q' i. tq_add_repeating T q now t cb = (q', i) \<longrightarrow>
        i \<notin> tq_used T q \<and> tq_used T q' = insert i (tq_used T q) \<and> tq_timers T q' = (tq_timers T q)
          (i \<mapsto> \<lparr>t_callback = cb, t_start = now, t_period = t, t_repeating = True\<rparr>)) \<and>
     (\<forall>q. dom (tq_timers T q) \<subseteq> tq_used T q) \<and>
     (\<forall>q i. tq_timers T (tq_erase T q i) = (tq_timers T q)(i := None)
        \<and> tq_used T (tq_erase T q i) = tq_used T q) \<and>
     (\<forall>q. tq_timers T (tq_clear T q) = Map.empty \<and> tq_used T (tq_clear T q) = tq_used T q) \<and>
     (\<forall>q i t. tq_timers T q i = Some t \<longrightarrow> tq_used T (tq_fire T q i) = tq_used T q
        \<and> (\<exists>b. tq_timers T (tq_fire T q i) = (tq_timers T q)
             (i := if t_repeating t then Some (t\<lparr>t_start := b\<rparr>) else None)))"

lemma tq_add_law:
  assumes "timeout_queue_laws T" and "tq_add T q now t cb = (q', i)"
  shows "i \<notin> tq_used T q" "tq_used T q' = insert i (tq_used T q)"
    "tq_timers T q' = (tq_timers T q)
      (i \<mapsto> \<lparr>t_callback = cb, t_start = now, t_period = t, t_repeating = False\<rparr>)"
  using assms(1) [unfolded timeout_queue_laws_def, THEN conjunct1, rule_format, OF assms(2)]
  by simp_all

lemma tq_add_repeating_law:
  assumes "timeout_queue_laws T" and "tq_add_repeating T q now t cb = (q', i)"
  shows "i \<notin> tq_used T q" "tq_used T q' = insert i (tq_used T q)"
    "tq_timers T q' = (tq_timers T q)
      (i \<mapsto> \<lparr>t_callback = cb, t_start = now, t_period = t, t_repeating = True\<rparr>)"
  using assms(1) [unfolded timeout_queue_laws_def, THEN conjunct2, THEN conjunct1, rule_format, OF assms(2)]
  by simp_all

lemma tq_used_law:
  assumes "timeout_queue_laws T" and "i \<notin> tq_used T q"
  shows "tq_timers T q i = None"
proof -
  have "dom (tq_timers T q) \<subseteq> tq_used T q"
    using assms(1) unfolding timeout_queue_laws_def by (elim conjE) (erule allE)
  then show ?thesis using assms(2) by blast
qed

lemma tq_erase_law [simp]:
  "timeout_queue_laws T \<Longrightarrow> tq_timers T (tq_erase T q i) = (tq_timers T q)(i := None)"
  "timeout_queue_laws T \<Longrightarrow> tq_used T (tq_erase T q i) = tq_used T q"
  by (simp_all only: timeout_queue_laws_def)

lemma tq_clear_law [simp]:
  "timeout_queue_laws T \<Longrightarrow> tq_timers T (tq_clear T q) = Map.empty"
  "timeout_queue_laws T \<Longrightarrow> tq_used T (tq_clear T q) = tq_used T q"
  by (simp_all only: timeout_queue_laws_def)

lemma tq_fire_law:
  assumes "timeout_queue_laws T" and "tq_timers T q i = Some t"
  shows "tq_used T (tq_fire T q i) = tq_used T q"
    "\<exists>b. tq_timers T (tq_fire T q i) =
       (tq_timers T q)(i := if t_repeating t then Some (t\<lparr>t_start := b\<rparr>) else None)"
  using assms(1) [unfolded timeout_queue_laws_def, THEN conjunct2, THEN conjunct2, THEN conjunct2, THEN conjunct2, THEN conjunct2, rule_format, OF assms(2)]
  by blast+

text \<open>A reference object: the next identifier and the pending timers.\<close>

record 'cb ref_queue =
  rq_next :: nat
  rq_timers :: "nat \<Rightarrow> 'cb timer option"

definition ref_queue_add :: "bool \<Rightarrow> 'cb ref_queue \<Rightarrow> int \<Rightarrow> int \<Rightarrow> 'cb \<Rightarrow> 'cb ref_queue \<times> nat" where
  "ref_queue_add rep q now t cb =
     (let i = rq_next q
      in (\<lparr>rq_next = Suc i, rq_timers = (rq_timers q)
             (i \<mapsto> \<lparr>t_callback = cb, t_start = now, t_period = t, t_repeating = rep\<rparr>)\<rparr>, i))"

definition ref_timeout_queue :: "('cb ref_queue, 'cb) timeout_queue_api" where
  "ref_timeout_queue =
     \<lparr>tq_add = ref_queue_add False, tq_add_repeating = ref_queue_add True,
      tq_erase = (\<lambda>q i. q\<lparr>rq_timers := (rq_timers q)(i := None)\<rparr>),
      tq_clear = (\<lambda>q. q\<lparr>rq_timers := Map.empty\<rparr>),
      tq_fire = (\<lambda>q i. case rq_timers q i of
        Some t \<Rightarrow> if t_repeating t then q else q\<lparr>rq_timers := (rq_timers q)(i := None)\<rparr>
      | None \<Rightarrow> q),
      tq_used = (\<lambda>q. {i. i < rq_next q}),
      tq_timers = (\<lambda>q i. if i < rq_next q then rq_timers q i else None)\<rparr>"

definition ref_queue_empty :: "'cb ref_queue" where
  "ref_queue_empty = \<lparr>rq_next = 0, rq_timers = Map.empty\<rparr>"

lemma ref_queue_fire:
  assumes "tq_timers ref_timeout_queue q i = Some t"
  shows "\<exists>b. tq_timers ref_timeout_queue (tq_fire ref_timeout_queue q i) =
    (tq_timers ref_timeout_queue q)(i := if t_repeating t then Some (t\<lparr>t_start := b\<rparr>) else None)"
  by (rule exI [of _ "t_start t"])
    (use assms in \<open>auto simp: ref_timeout_queue_def fun_eq_iff split: if_splits\<close>)

lemma ref_timeout_queue_laws [simp]: "timeout_queue_laws ref_timeout_queue"
proof -
  have "tq_timers ref_timeout_queue q i = Some t \<Longrightarrow>
      tq_used ref_timeout_queue (tq_fire ref_timeout_queue q i) = tq_used ref_timeout_queue q" for q i t
    by (simp add: ref_timeout_queue_def split: option.split)
  then show ?thesis
    unfolding timeout_queue_laws_def
    by (intro conjI allI impI ref_queue_fire)
      (auto simp: ref_timeout_queue_def ref_queue_add_def Let_def fun_eq_iff less_Suc_eq
        split: if_splits)
qed

section \<open>Event manager\<close>

text \<open>
  \<^verbatim>\<open>common::EventMngr\<close>: \<^verbatim>\<open>notify\<close> adds an event, \<^verbatim>\<open>erase\<close> removes one and says whether it was
  there, \<^verbatim>\<open>wait\<close> blocks until there is an event, \<^verbatim>\<open>wait(e)\<close> until there is this one; while they
  block other threads may add events. The view is the set of events that are there.
\<close>

record ('m, 'e) event_mngr_api =
  em_notify :: "'m \<Rightarrow> 'e \<Rightarrow> 'm"
  em_erase :: "'m \<Rightarrow> 'e \<Rightarrow> bool \<times> 'm"
  em_contains :: "'m \<Rightarrow> 'e \<Rightarrow> bool"
  em_clear :: "'m \<Rightarrow> 'm"
  em_wait :: "'m \<Rightarrow> 'm"
  em_wait_for :: "'m \<Rightarrow> 'e \<Rightarrow> 'm"
  em_events :: "'m \<Rightarrow> 'e set"

definition event_mngr_laws :: "('m, 'e) event_mngr_api \<Rightarrow> bool" where
  "event_mngr_laws M \<longleftrightarrow>
     (\<forall>m e. em_events M (em_notify M m e) = insert e (em_events M m)) \<and>
     (\<forall>m e. fst (em_erase M m e) = (e \<in> em_events M m)) \<and>
     (\<forall>m e. em_events M (snd (em_erase M m e)) = em_events M m - {e}) \<and>
     (\<forall>m e. em_contains M m e = (e \<in> em_events M m)) \<and>
     (\<forall>m. em_events M (em_clear M m) = {}) \<and>
     (\<forall>m. em_events M m \<subseteq> em_events M (em_wait M m)) \<and>
     (\<forall>m e. insert e (em_events M m) \<subseteq> em_events M (em_wait_for M m e))"

lemma em_laws [simp]:
  assumes "event_mngr_laws M"
  shows "em_events M (em_notify M m e) = insert e (em_events M m)"
    "fst (em_erase M m e) = (e \<in> em_events M m)"
    "em_events M (snd (em_erase M m e)) = em_events M m - {e}"
    "em_contains M m e = (e \<in> em_events M m)"
    "em_events M (em_clear M m) = {}"
  using assms by (simp_all add: event_mngr_laws_def)

lemma em_wait_law: "event_mngr_laws M \<Longrightarrow> e \<in> em_events M m \<Longrightarrow> e \<in> em_events M (em_wait M m)"
  unfolding event_mngr_laws_def by blast

lemma em_wait_for_law: "event_mngr_laws M \<Longrightarrow> e \<in> em_events M (em_wait_for M m e)"
  unfolding event_mngr_laws_def by blast

lemma em_wait_for_keeps:
  "event_mngr_laws M \<Longrightarrow> e \<in> em_events M m \<Longrightarrow> e \<in> em_events M (em_wait_for M m d)"
  unfolding event_mngr_laws_def by blast

text \<open>A reference object: the set itself; nothing else happens during a wait.\<close>

definition ref_event_mngr :: "('e set, 'e) event_mngr_api" where
  "ref_event_mngr =
     \<lparr>em_notify = (\<lambda>m e. insert e m), em_erase = (\<lambda>m e. (e \<in> m, m - {e})),
      em_contains = (\<lambda>m e. e \<in> m), em_clear = (\<lambda>_. {}), em_wait = (\<lambda>m. m),
      em_wait_for = (\<lambda>m e. insert e m), em_events = (\<lambda>m. m)\<rparr>"

lemma ref_event_mngr_laws [simp]: "event_mngr_laws ref_event_mngr"
  by (simp add: event_mngr_laws_def ref_event_mngr_def)

section \<open>Packet queues\<close>

text \<open>
  \<^verbatim>\<open>common::ConcurrentQueue\<close> and \<^verbatim>\<open>common::BlockingReaderWriterQueue\<close>, filled by one thread and
  emptied by one thread: first in, first out. \<^verbatim>\<open>try_enqueue\<close> may refuse an element (\<open>None\<close>),
  a dequeue finds nothing only when there is nothing.
\<close>

record ('q, 'a) queue_api =
  cq_try_enqueue :: "'q \<Rightarrow> 'a \<Rightarrow> 'q option"
  cq_try_dequeue :: "'q \<Rightarrow> ('a \<times> 'q) option"
  cq_size_approx :: "'q \<Rightarrow> nat"
  cq_items :: "'q \<Rightarrow> 'a list"

definition queue_laws :: "('q, 'a) queue_api \<Rightarrow> bool" where
  "queue_laws Q \<longleftrightarrow>
     (\<forall>q x q'. cq_try_enqueue Q q x = Some q' \<longrightarrow> cq_items Q q' = cq_items Q q @ [x]) \<and>
     (\<forall>q. cq_try_dequeue Q q = None \<longrightarrow> cq_items Q q = []) \<and>
     (\<forall>q x q'. cq_try_dequeue Q q = Some (x, q') \<longrightarrow> cq_items Q q = x # cq_items Q q') \<and>
     (\<forall>q. cq_size_approx Q q = length (cq_items Q q))"

lemma cq_enqueue_law:
  "queue_laws Q \<Longrightarrow> cq_try_enqueue Q q x = Some q' \<Longrightarrow> cq_items Q q' = cq_items Q q @ [x]"
  unfolding queue_laws_def by blast

lemma cq_dequeue_None: "queue_laws Q \<Longrightarrow> cq_try_dequeue Q q = None \<Longrightarrow> cq_items Q q = []"
  unfolding queue_laws_def by blast

lemma cq_dequeue_Some:
  "queue_laws Q \<Longrightarrow> cq_try_dequeue Q q = Some (x, q') \<Longrightarrow> cq_items Q q = x # cq_items Q q'"
  unfolding queue_laws_def by blast

lemma cq_dequeue_empty: "queue_laws Q \<Longrightarrow> cq_items Q q = [] \<Longrightarrow> cq_try_dequeue Q q = None"
  using cq_dequeue_Some by (cases "cq_try_dequeue Q q") force+

lemma cq_size_law: "queue_laws Q \<Longrightarrow> cq_size_approx Q q = length (cq_items Q q)"
  unfolding queue_laws_def by blast

text \<open>A reference object: the list of its elements, with room for \<open>cap\<close> of them.\<close>

definition ref_queue_api :: "nat \<Rightarrow> ('a list, 'a) queue_api" where
  "ref_queue_api cap =
     \<lparr>cq_try_enqueue = (\<lambda>q x. if length q < cap then Some (q @ [x]) else None),
      cq_try_dequeue = (\<lambda>q. case q of [] \<Rightarrow> None | x # q' \<Rightarrow> Some (x, q')),
      cq_size_approx = length, cq_items = (\<lambda>q. q)\<rparr>"

lemma ref_queue_laws [simp]: "queue_laws (ref_queue_api cap)"
  by (auto simp: queue_laws_def ref_queue_api_def split: if_splits list.splits)

section \<open>A container with two unique keys\<close>

text \<open>
  \<^verbatim>\<open>boost::multi_index_container\<close> with two \<^verbatim>\<open>ordered_unique\<close> indices, whose keys are \<open>k1\<close> and
  \<open>k2\<close>: \<^verbatim>\<open>insert\<close> refuses an element (\<open>False\<close>) that shares a key with one that is there.
\<close>

record ('c, 'r, 'k1, 'k2) multi_index_api =
  mi_insert :: "'c \<Rightarrow> 'r \<Rightarrow> bool \<times> 'c"
  mi_find1 :: "'c \<Rightarrow> 'k1 \<Rightarrow> 'r option"
  mi_find2 :: "'c \<Rightarrow> 'k2 \<Rightarrow> 'r option"
  mi_modify1 :: "'c \<Rightarrow> 'k1 \<Rightarrow> ('r \<Rightarrow> 'r) \<Rightarrow> 'c"
  mi_erase1 :: "'c \<Rightarrow> 'k1 \<Rightarrow> 'c"
  mi_erase2 :: "'c \<Rightarrow> 'k2 \<Rightarrow> 'c"
  mi_clear :: "'c \<Rightarrow> 'c"
  mi_elems :: "'c \<Rightarrow> 'r set"

definition multi_index_laws ::
  "('r \<Rightarrow> 'k1) \<Rightarrow> ('r \<Rightarrow> 'k2) \<Rightarrow> ('c, 'r, 'k1, 'k2) multi_index_api \<Rightarrow> bool" where
  "multi_index_laws k1 k2 C \<longleftrightarrow>
     (\<forall>c. inj_on k1 (mi_elems C c) \<and> inj_on k2 (mi_elems C c)) \<and>
     (\<forall>c r. fst (mi_insert C c r) = (k1 r \<notin> k1 ` mi_elems C c \<and> k2 r \<notin> k2 ` mi_elems C c)) \<and>
     (\<forall>c r. mi_elems C (snd (mi_insert C c r)) =
        (if fst (mi_insert C c r) then insert r (mi_elems C c) else mi_elems C c)) \<and>
     (\<forall>c k r. mi_find1 C c k = Some r \<longleftrightarrow> r \<in> mi_elems C c \<and> k1 r = k) \<and>
     (\<forall>c k r. mi_find2 C c k = Some r \<longleftrightarrow> r \<in> mi_elems C c \<and> k2 r = k) \<and>
     (\<forall>c r f. r \<in> mi_elems C c \<longrightarrow> k1 (f r) = k1 r \<longrightarrow> k2 (f r) = k2 r \<longrightarrow>
        mi_elems C (mi_modify1 C c (k1 r) f) = insert (f r) (mi_elems C c - {r})) \<and>
     (\<forall>c k. mi_elems C (mi_erase1 C c k) = {r \<in> mi_elems C c. k1 r \<noteq> k}) \<and>
     (\<forall>c k. mi_elems C (mi_erase2 C c k) = {r \<in> mi_elems C c. k2 r \<noteq> k}) \<and>
     (\<forall>c. mi_elems C (mi_clear C c) = {})"

lemma mi_laws:
  assumes "multi_index_laws k1 k2 C"
  shows "fst (mi_insert C c r) \<longleftrightarrow> k1 r \<notin> k1 ` mi_elems C c \<and> k2 r \<notin> k2 ` mi_elems C c"
    "mi_elems C (snd (mi_insert C c r)) =
        (if fst (mi_insert C c r) then insert r (mi_elems C c) else mi_elems C c)"
    "mi_find1 C c i = Some r \<longleftrightarrow> r \<in> mi_elems C c \<and> k1 r = i"
    "mi_find2 C c j = Some r \<longleftrightarrow> r \<in> mi_elems C c \<and> k2 r = j"
    "mi_elems C (mi_erase1 C c i) = {r \<in> mi_elems C c. k1 r \<noteq> i}"
    "mi_elems C (mi_erase2 C c j) = {r \<in> mi_elems C c. k2 r \<noteq> j}"
    "mi_elems C (mi_clear C c) = {}"
  using assms by (simp_all only: multi_index_laws_def)

lemma mi_inj:
  assumes "multi_index_laws k1 k2 C"
  shows "inj_on k1 (mi_elems C c)" "inj_on k2 (mi_elems C c)"
  using assms by (simp_all only: multi_index_laws_def)

lemma mi_modify_law:
  assumes "multi_index_laws k1 k2 C" and "r \<in> mi_elems C c" "k1 r = i" "k1 (f r) = i" "k2 (f r) = k2 r"
  shows "mi_elems C (mi_modify1 C c i f) = insert (f r) (mi_elems C c - {r})"
proof -
  have "\<forall>c r f. r \<in> mi_elems C c \<longrightarrow> k1 (f r) = k1 r \<longrightarrow> k2 (f r) = k2 r \<longrightarrow>
      mi_elems C (mi_modify1 C c (k1 r) f) = insert (f r) (mi_elems C c - {r})"
    using assms(1) unfolding multi_index_laws_def by (elim conjE)
  then show ?thesis using assms(2-5) by metis
qed

lemma mi_unique1:
  "multi_index_laws k1 k2 C \<Longrightarrow> r \<in> mi_elems C c \<Longrightarrow> s \<in> mi_elems C c \<Longrightarrow> k1 r = k1 s \<Longrightarrow> r = s"
  by (rule inj_onD [OF mi_inj(1)])

lemma mi_unique2:
  "multi_index_laws k1 k2 C \<Longrightarrow> r \<in> mi_elems C c \<Longrightarrow> s \<in> mi_elems C c \<Longrightarrow> k2 r = k2 s \<Longrightarrow> r = s"
  by (rule inj_onD [OF mi_inj(2)])

text \<open>
  A reference object: a list with no key twice. A modification that would break this is not
  made, as the container documents.
\<close>

definition distinct_keys :: "('r \<Rightarrow> 'k1) \<Rightarrow> ('r \<Rightarrow> 'k2) \<Rightarrow> 'r list \<Rightarrow> bool" where
  "distinct_keys k1 k2 rs \<longleftrightarrow> distinct (map k1 rs) \<and> distinct (map k2 rs)"

definition ref_multi_index ::
  "('r \<Rightarrow> 'k1) \<Rightarrow> ('r \<Rightarrow> 'k2) \<Rightarrow> ('r list, 'r, 'k1, 'k2) multi_index_api" where
  "ref_multi_index k1 k2 =
     (let view = (\<lambda>rs. if distinct_keys k1 k2 rs then rs else [])
      in \<lparr>mi_insert = (\<lambda>rs r. if k1 r \<in> k1 ` set (view rs) \<or> k2 r \<in> k2 ` set (view rs)
                             then (False, rs) else (True, r # view rs)),
          mi_find1 = (\<lambda>rs k. find (\<lambda>r. k1 r = k) (view rs)),
          mi_find2 = (\<lambda>rs k. find (\<lambda>r. k2 r = k) (view rs)),
          mi_modify1 = (\<lambda>rs k f. map (\<lambda>r. if k1 r = k then f r else r) (view rs)),
          mi_erase1 = (\<lambda>rs k. filter (\<lambda>r. k1 r \<noteq> k) (view rs)),
          mi_erase2 = (\<lambda>rs k. filter (\<lambda>r. k2 r \<noteq> k) (view rs)),
          mi_clear = (\<lambda>_. []),
          mi_elems = (\<lambda>rs. set (view rs))\<rparr>)"

lemma find_distinct:
  "distinct (map k rs) \<Longrightarrow> find (\<lambda>r. k r = i) rs = Some r \<longleftrightarrow> r \<in> set rs \<and> k r = i"
  by (induction rs) auto

lemma distinct_keys_filter [simp]:
  "distinct_keys k1 k2 rs \<Longrightarrow> distinct_keys k1 k2 (filter P rs)"
  by (simp add: distinct_keys_def distinct_map_filter)

lemma distinct_keys_view [simp]:
  "distinct_keys k1 k2 (if distinct_keys k1 k2 rs then rs else [])"
  by (simp add: distinct_keys_def)

lemma map_update_keys:
  assumes "distinct (map k1 rs)" and "r \<in> set rs" and "k (f r) = k r"
  shows "map k (map (\<lambda>s. if k1 s = k1 r then f s else s) rs) = map k rs"
    and "set (map (\<lambda>s. if k1 s = k1 r then f s else s) rs) = insert (f r) (set rs - {r})"
proof -
  have only: "s = r" if "s \<in> set rs" "k1 s = k1 r" for s
    using assms(1,2) that by (auto simp: distinct_map dest: inj_onD)
  then show "map k (map (\<lambda>s. if k1 s = k1 r then f s else s) rs) = map k rs"
    using assms(3) by auto
  show "set (map (\<lambda>s. if k1 s = k1 r then f s else s) rs) = insert (f r) (set rs - {r})"
    using assms(2) by (auto simp: image_iff dest: only)
qed

lemma ref_multi_index_laws [simp]: "multi_index_laws k1 k2 (ref_multi_index k1 k2)"
proof -
  let ?C = "ref_multi_index k1 k2"
  let ?view = "\<lambda>rs. if distinct_keys k1 k2 rs then rs else []"
  have v: "distinct (map k1 (?view rs))" "distinct (map k2 (?view rs))" for rs
    by (simp_all add: distinct_keys_def)
  have e: "mi_elems ?C rs = set (?view rs)" for rs
    by (simp add: ref_multi_index_def Let_def)
  have inj: "inj_on k1 (mi_elems ?C rs) \<and> inj_on k2 (mi_elems ?C rs)" for rs
    using v [of rs] by (simp add: e distinct_map)
  have ins: "mi_insert ?C rs r = (if k1 r \<in> k1 ` set (?view rs) \<or> k2 r \<in> k2 ` set (?view rs)
      then (False, rs) else (True, r # ?view rs))" for rs r
    by (simp add: ref_multi_index_def Let_def)
  have ins_elems: "mi_elems ?C (snd (mi_insert ?C rs r)) =
      (if fst (mi_insert ?C rs r) then insert r (mi_elems ?C rs) else mi_elems ?C rs)" for rs r
    using v [of rs] by (auto simp: ins e distinct_keys_def)
  have mod: "mi_elems ?C (mi_modify1 ?C rs (k1 r) f) = insert (f r) (mi_elems ?C rs - {r})"
    if "r \<in> mi_elems ?C rs" "k1 (f r) = k1 r" "k2 (f r) = k2 r" for rs r f
  proof -
    have r: "r \<in> set (?view rs)" using that(1) by (simp add: e)
    let ?m = "map (\<lambda>s. if k1 s = k1 r then f s else s) (?view rs)"
    have "distinct (map k1 ?m)"
      by (subst map_update_keys(1) [OF v(1) r, of k1 f, OF that(2)]) (rule v(1))
    moreover have "distinct (map k2 ?m)"
      by (subst map_update_keys(1) [OF v(1) r, of k2 f, OF that(3)]) (rule v(2))
    ultimately have "distinct_keys k1 k2 ?m"
      by (simp only: distinct_keys_def [of k1 k2 ?m])
    moreover have "mi_modify1 ?C rs (k1 r) f = ?m"
      by (simp add: ref_multi_index_def Let_def)
    ultimately have "mi_elems ?C (mi_modify1 ?C rs (k1 r) f) = set ?m"
      by (simp only: e if_True)
    also have "\<dots> = insert (f r) (set (?view rs) - {r})"
      by (rule map_update_keys(2) [OF v(1) r, of k1 f, OF that(2)])
    finally show ?thesis by (simp only: e)
  qed
  have find: "mi_find1 ?C rs k = Some r \<longleftrightarrow> r \<in> mi_elems ?C rs \<and> k1 r = k"
    "mi_find2 ?C rs j = Some r \<longleftrightarrow> r \<in> mi_elems ?C rs \<and> k2 r = j" for rs k j r
    using find_distinct [OF v(1) [of rs]] find_distinct [OF v(2) [of rs]]
    by (simp_all add: e) (simp_all add: ref_multi_index_def Let_def)
  have del: "mi_elems ?C (mi_erase1 ?C rs k) = {r \<in> mi_elems ?C rs. k1 r \<noteq> k}"
    "mi_elems ?C (mi_erase2 ?C rs j) = {r \<in> mi_elems ?C rs. k2 r \<noteq> j}" for rs k j
    by (simp_all add: ref_multi_index_def Let_def)
  have clear: "mi_elems ?C (mi_clear ?C rs) = {}" for rs
    by (simp add: ref_multi_index_def Let_def)
  show ?thesis
    unfolding multi_index_laws_def
    using inj ins_elems mod find del clear by (simp add: ins e)
qed

section \<open>Sockets\<close>

text \<open>
  \<^verbatim>\<open>boost::asio::ip::tcp::socket\<close>: connecting, shutting down and closing may throw a
  \<^verbatim>\<open>boost::system::system_error\<close>; a socket that was closed is not open, one that was connected is, and shutting it down does not close
  it.
\<close>

record 's socket_api =
  sk_is_open :: "'s \<Rightarrow> bool"
  sk_connect :: "('s, unit) stmt"
  sk_shutdown :: "('s, unit) stmt"
  sk_close :: "('s, unit) stmt"

definition socket_laws :: "'s socket_api \<Rightarrow> bool" where
  "socket_laws K \<longleftrightarrow>
     (\<forall>s s' u. sk_connect K s = (Inr u, s') \<longrightarrow> sk_is_open K s') \<and>
     (\<forall>s. sk_is_open K (snd (sk_shutdown K s)) = sk_is_open K s) \<and>
     (\<forall>s s' u. sk_close K s = (Inr u, s') \<longrightarrow> \<not> sk_is_open K s') \<and>
     (\<forall>s s' e. sk_connect K s = (Inl e, s') \<or> sk_shutdown K s = (Inl e, s')
        \<or> sk_close K s = (Inl e, s') \<longrightarrow> e = Std_exception System_error)"

lemma sk_laws:
  assumes "socket_laws K"
  shows "sk_connect K s = (Inr u, s') \<Longrightarrow> sk_is_open K s'"
    "sk_is_open K (snd (sk_shutdown K s)) = sk_is_open K s"
    "sk_close K s = (Inr u, s') \<Longrightarrow> \<not> sk_is_open K s'"
    "sk_connect K s = (Inl e, s') \<Longrightarrow> e = Std_exception System_error"
    "sk_shutdown K s = (Inl e, s') \<Longrightarrow> e = Std_exception System_error"
    "sk_close K s = (Inl e, s') \<Longrightarrow> e = Std_exception System_error"
  using assms by (simp_all add: socket_laws_def)

text \<open>A reference object: whether it is open.\<close>

definition ref_socket :: "bool socket_api" where
  "ref_socket = \<lparr>sk_is_open = (\<lambda>s. s), sk_connect = (\<lambda>_. (Inr (), True)),
     sk_shutdown = (\<lambda>s. (Inr (), s)), sk_close = (\<lambda>_. (Inr (), False))\<rparr>"

lemma ref_socket_laws [simp]: "socket_laws ref_socket"
  by (simp add: socket_laws_def ref_socket_def)

section \<open>State machine\<close>

text \<open>
  \<^verbatim>\<open>common::Statemachine\<close> is given, for each state, a list of functions with the state each of
  them leads to; what a function returns says whether the machine stays or goes there.
  \<^verbatim>\<open>wakeup\<close> makes one pass over the list of the current state. What the code relies on, and
  what the step relations of the two applications assume of it, is: only functions of the
  current state's list are called; the first of them, which leads to the state itself, is
  called once in each pass, before the others; \<^verbatim>\<open>nb_loop_in_current_state()\<close> counts the passes since the state was
  entered, the current one included; and when a function says so, the machine changes to the
  state listed with it and calls the transition handler.
\<close>

datatype transition_status = Stay_curr_state | Goto_next_state

end
