(* ===== verification/Transport.thy ===== *)
theory Transport
  imports Packet_Laws Extern
begin

text \<open>
  The abstract class \<^verbatim>\<open>Transport\<close> (\<^verbatim>\<open>src/transport.h\<close>): the error code and the two packet
  queues every transport owns, the operations they all inherit, and the interface the
  protocol layers call. The interface is a locale: what a transport promises to its clients,
  proved for each transport in its own theory.
\<close>

section \<open>The base class\<close>

record ('w, 'r) transport =
  errc :: error_code
  write_queue :: 'w
  read_queue :: 'r

text \<open>
  \<^verbatim>\<open>read(p)\<close>: takes the oldest received packet, waiting for one up to \<^verbatim>\<open>time_base_ms\<close>; the
  state is the one at the moment the wait ends.
\<close>

definition transport_read ::
  "('r, packet) queue_api \<Rightarrow> ('w, 'r, 'x) transport_scheme \<Rightarrow>
   packet option \<times> ('w, 'r, 'x) transport_scheme" where
  "transport_read R t =
     (case cq_try_dequeue R (read_queue t) of
        None \<Rightarrow> (None, t)
      | Some (p, q) \<Rightarrow> (Some p, t\<lparr>read_queue := q\<rparr>))"

text \<open>
  \<^verbatim>\<open>clear_queues()\<close>: two loops that take elements until there is none. Nothing in the code
  bounds them, so each returns an option; that they return is a consequence of the queue's
  laws.
\<close>

partial_function (option) drain :: "('q, 'a) queue_api \<Rightarrow> 'q \<Rightarrow> 'q option" where
  "drain Q q = (case cq_try_dequeue Q q of None \<Rightarrow> Some q | Some xq \<Rightarrow> drain Q (snd xq))"

definition clear_queues ::
  "('w, packet) queue_api \<Rightarrow> ('r, packet) queue_api \<Rightarrow> ('w, 'r, 'x) transport_scheme \<Rightarrow>
   ('w, 'r, 'x) transport_scheme option" where
  "clear_queues W R t =
     (case drain R (read_queue t) of
        None \<Rightarrow> None
      | Some r \<Rightarrow>
          (case drain W (write_queue t) of
             None \<Rightarrow> None
           | Some w \<Rightarrow> Some (t\<lparr>read_queue := r, write_queue := w\<rparr>)))"

lemma drain_returns:
  assumes "queue_laws Q"
  shows "\<exists>r. drain Q q = Some r \<and> cq_items Q r = []"
proof (induction "length (cq_items Q q)" arbitrary: q)
  case 0
  then have "cq_try_dequeue Q q = None"
    using cq_dequeue_empty [OF assms] by simp
  with 0 show ?case by (subst drain.simps) simp
next
  case (Suc n)
  then obtain x r where x: "cq_try_dequeue Q q = Some (x, r)"
    using cq_dequeue_None [OF assms] by (cases "cq_try_dequeue Q q") force+
  then have "n = length (cq_items Q r)"
    using Suc.hyps(2) cq_dequeue_Some [OF assms x] by simp
  then show ?case using Suc.hyps(1) x by (subst drain.simps) simp
qed

lemma clear_queues_returns:
  assumes "queue_laws W" and "queue_laws R"
  shows "\<exists>t'. clear_queues W R t = Some t' \<and> cq_items R (read_queue t') = []
    \<and> cq_items W (write_queue t') = [] \<and> errc t' = errc t"
  using drain_returns [OF assms(1), of "write_queue t"] drain_returns [OF assms(2), of "read_queue t"]
  by (auto simp: clear_queues_def)

section \<open>The interface\<close>

text \<open>
  The operations a client calls through a \<^verbatim>\<open>Transport*\<close>, as the class that implements them
  provides them.
\<close>

record 'tr transport_api =
  tr_write :: "packet \<Rightarrow> ('tr, unit) stmt"
  tr_read :: "'tr \<Rightarrow> packet option \<times> 'tr"
  tr_clear_queues :: "'tr \<Rightarrow> 'tr option"
  tr_is_open :: "'tr \<Rightarrow> bool"
  tr_error_code :: "'tr \<Rightarrow> error_code"
  tr_start :: "('tr, unit) stmt"
  tr_stop :: "('tr, unit) stmt"

text \<open>
  The contract, stated over two views: \<open>sent\<close>, the packets the transport has accepted for
  sending so far, and \<open>received\<close>, those it has ready to be read.
\<close>

locale transport_contract =
  fixes A :: "'tr transport_api" and sent :: "'tr \<Rightarrow> packet list"
    and received :: "'tr \<Rightarrow> packet list"
  assumes write_closed:
      "\<not> tr_is_open A t \<Longrightarrow> tr_write A p t = (Inl (Transport_error Write_while_closed), t)"
    and write_sent: "tr_write A p t = (Inr u, t') \<Longrightarrow> sent t' = sent t @ [p]"
    and write_failed: "tr_write A p t = (Inl e, t') \<Longrightarrow> sent t' = sent t"
    and write_received: "received (snd (tr_write A p t)) = received t"
    and write_open: "tr_is_open A (snd (tr_write A p t)) = tr_is_open A t"
    and read_some: "tr_read A t = (Some p, t') \<Longrightarrow> received t = p # received t'"
    and read_none: "tr_read A t = (None, t') \<Longrightarrow> t' = t \<and> received t = []"
    and read_frame: "sent (snd (tr_read A t)) = sent t"
      "tr_is_open A (snd (tr_read A t)) = tr_is_open A t"
    and clear_empties: "\<exists>t'. tr_clear_queues A t = Some t' \<and> received t' = []
      \<and> tr_is_open A t' = tr_is_open A t \<and> tr_error_code A t' = tr_error_code A t"
begin

text \<open>Packets come out in the order they are in, none twice and none invented.\<close>

lemma read_order: "received t = (case tr_read A t of (None, _) \<Rightarrow> [] | (Some p, t') \<Rightarrow> p # received t')"
  using read_some read_none by (cases "tr_read A t"; cases "fst (tr_read A t)") fastforce+

lemma write_sent_cases:
  "sent (snd (tr_write A p t)) = sent t @ (case fst (tr_write A p t) of Inl _ \<Rightarrow> [] | Inr _ \<Rightarrow> [p])"
  using write_sent write_failed by (cases "tr_write A p t"; cases "fst (tr_write A p t)") fastforce+

lemma write_error_when_closed:
  "\<not> tr_is_open A t \<Longrightarrow> fst (tr_write A p t) = Inl (Transport_error Write_while_closed)"
  by (simp add: write_closed)

lemma write_all_sent:
  "foreachE (tr_write A) ps t = (Inr u, t') \<Longrightarrow> sent t' = sent t @ ps"
proof (induction ps arbitrary: t)
  case Nil
  then show ?case by (simp add: retE_def)
next
  case (Cons p ps)
  then obtain v t1 where "tr_write A p t = (Inr v, t1)" "foreachE (tr_write A) ps t1 = (Inr u, t')"
    by (auto simp: prog_run split: prod.splits sum.splits)
  then show ?case using Cons.IH write_sent by fastforce
qed

end

text \<open>
  A transport that hands its packets to an I/O context accepts every packet while it is
  open; what goes wrong later goes wrong in its thread.
\<close>

locale posting_transport = transport_contract +
  assumes write_accepts: "tr_is_open A t \<Longrightarrow> fst (tr_write A p t) = Inr ()"
begin

lemma write_iff_open: "fst (tr_write A p t) = Inr () \<longleftrightarrow> tr_is_open A t"
  using write_accepts write_error_when_closed by force

lemma write_all_open:
  "tr_is_open A t \<Longrightarrow> \<exists>t'. foreachE (tr_write A) ps t = (Inr (), t') \<and> tr_is_open A t'"
proof (induction ps arbitrary: t)
  case Nil
  then show ?case by (simp add: retE_def)
next
  case (Cons p ps)
  obtain t1 where w: "tr_write A p t = (Inr (), t1)"
    using write_accepts [OF Cons.prems, of p] by (cases "tr_write A p t") auto
  then have "tr_is_open A t1" using write_open [of p t] Cons.prems by simp
  then show ?case using Cons.IH w by (simp add: prog_run)
qed

end

text \<open>
  The same contract for a transport that keeps it only in the states it can reach: \<open>ok\<close> is its
  invariant, which every operation of a client keeps.
\<close>

locale guarded_transport =
  fixes A :: "'tr transport_api" and sent :: "'tr \<Rightarrow> packet list"
    and received :: "'tr \<Rightarrow> packet list" and ok :: "'tr \<Rightarrow> bool"
  assumes ok_write: "ok t \<Longrightarrow> ok (snd (tr_write A p t))"
    and ok_read: "ok t \<Longrightarrow> ok (snd (tr_read A t))"
    and ok_write_closed:
      "\<not> tr_is_open A t \<Longrightarrow> tr_write A p t = (Inl (Transport_error Write_while_closed), t)"
    and ok_write_sent: "ok t \<Longrightarrow> tr_write A p t = (Inr u, t') \<Longrightarrow> sent t' = sent t @ [p]"
    and ok_write_failed: "ok t \<Longrightarrow> tr_write A p t = (Inl e, t') \<Longrightarrow> sent t' = sent t"
    and ok_write_received: "received (snd (tr_write A p t)) = received t"
    and ok_read_some: "tr_read A t = (Some p, t') \<Longrightarrow> received t = p # received t'"
    and ok_read_none: "tr_read A t = (None, t') \<Longrightarrow> t' = t \<and> received t = []"
    and ok_clear: "\<exists>t'. tr_clear_queues A t = Some t' \<and> received t' = [] \<and> (ok t \<longrightarrow> ok t')
      \<and> tr_is_open A t' = tr_is_open A t"
begin

lemma guarded_write_all:
  "ok t \<Longrightarrow> foreachE (tr_write A) ps t = (Inr u, t') \<Longrightarrow> ok t' \<and> sent t' = sent t @ ps"
proof (induction ps arbitrary: t)
  case Nil
  then show ?case by (simp add: retE_def)
next
  case (Cons p ps)
  then obtain v t1 where w: "tr_write A p t = (Inr v, t1)" "foreachE (tr_write A) ps t1 = (Inr u, t')"
    by (auto simp: prog_run split: prod.splits sum.splits)
  then have "ok t1" using ok_write [OF Cons.prems(1), of p] by simp
  then show ?case using Cons.IH [OF _ w(2)] ok_write_sent [OF Cons.prems(1) w(1)] by simp
qed

end

sublocale transport_contract \<subseteq> always: guarded_transport A sent received "\<lambda>_. True"
proof unfold_locales
  show "\<exists>t'. tr_clear_queues A t = Some t' \<and> received t' = [] \<and> (True \<longrightarrow> True)
      \<and> tr_is_open A t' = tr_is_open A t" for t
    using clear_empties by blast
qed (use write_closed write_sent write_failed write_received read_some read_none in \<open>simp_all\<close>)

end
