(* ===== verification/Tcp_Client.thy ===== *)
theory Tcp_Client
  imports Transport
begin

text \<open>
  \<^verbatim>\<open>tcp::Client\<close> (\<^verbatim>\<open>src/tcp_client.*\<close>): the transport of the host. Its member functions, the
  completion handlers it leaves with the I/O context, and the loop of its thread.
\<close>

section \<open>State\<close>

text \<open>
  What the client has asked of the I/O context and is not done: a function posted by \<^verbatim>\<open>write\<close>,
  a read into the header or the payload of \<^verbatim>\<open>read_packet_\<close>, a write of \<^verbatim>\<open>write_packet_\<close>.
\<close>

datatype io_op =
    Post_write packet
  | Read_header
  | Read_payload nat
  | Async_write bytes

record ('k, 'w, 'r) client_env =
  ce_socket :: "'k socket_api"
  ce_write_queue :: "('w, packet) queue_api"
  ce_read_queue :: "('r, packet) queue_api"

text \<open>
  \<open>tc_wire\<close> records the packets given to \<^verbatim>\<open>async_write\<close> so far; no code reads it. \<open>tc_running\<close>
  is the run flag of the base class \<^verbatim>\<open>Thread\<close>.
\<close>

record ('k, 'w, 'r) tcp_client = "('w, 'r) transport" +
  tc_socket :: 'k
  tc_read_packet :: packet
  tc_write_packet :: packet
  tc_write_in_progress :: bool
  tc_running :: bool
  tc_pending :: "io_op list"
  tc_wire :: "packet list"

text \<open>\<^verbatim>\<open>Client(logger, host, service)\<close> over new queues and a new socket; \<open>a\<close> and \<open>b\<close> are the bytes its packets hold.\<close>

definition tc_new :: "'k \<Rightarrow> 'w \<Rightarrow> 'r \<Rightarrow> bytes \<Rightarrow> bytes \<Rightarrow> ('k, 'w, 'r) tcp_client" where
  "tc_new k w r a b =
     \<lparr>errc = no_error_code, write_queue = w, read_queue = r, tc_socket = k, tc_read_packet = \<lparr>p_data = a\<rparr>,
      tc_write_packet = \<lparr>p_data = b\<rparr>, tc_write_in_progress = False, tc_running = False, tc_pending = [],
      tc_wire = []\<rparr>"

section \<open>Member functions\<close>

definition tc_is_open :: "('k, 'w, 'r) client_env \<Rightarrow> ('k, 'w, 'r) tcp_client \<Rightarrow> bool" where
  "tc_is_open E s = sk_is_open (ce_socket E) (tc_socket s)"

text \<open>A call on the socket.\<close>

definition tc_on_socket :: "('k, unit) stmt \<Rightarrow> (('k, 'w, 'r) tcp_client, unit) stmt" where
  "tc_on_socket m = zoomE tc_socket (\<lambda>k s. s\<lparr>tc_socket := k\<rparr>) m"

definition tc_start_op :: "io_op \<Rightarrow> (('k, 'w, 'r) tcp_client, unit) stmt" where
  "tc_start_op op = modifyE (\<lambda>s. s\<lparr>tc_pending := tc_pending s @ [op]\<rparr>)"

definition tc_write :: "('k, 'w, 'r) client_env \<Rightarrow> packet \<Rightarrow> (('k, 'w, 'r) tcp_client, unit) stmt" where
  "tc_write E p = withE (\<lambda>s.
     if \<not> tc_is_open E s then throwE (Transport_error Write_while_closed)
     else tc_start_op (Post_write p))"

definition tc_open :: "('k, 'w, 'r) client_env \<Rightarrow> (('k, 'w, 'r) tcp_client, unit) stmt" where
  "tc_open E = withE (\<lambda>s.
     if tc_is_open E s then retE () else tc_on_socket (sk_connect (ce_socket E)))"

definition tc_close :: "('k, 'w, 'r) client_env \<Rightarrow> (('k, 'w, 'r) tcp_client, unit) stmt" where
  "tc_close E = withE (\<lambda>s.
     if \<not> tc_is_open E s then retE ()
     else blockE [tc_on_socket (sk_shutdown (ce_socket E)), tc_on_socket (sk_close (ce_socket E))])"

text \<open>\<^verbatim>\<open>do_write\<close>: the next packet of the write queue goes to the socket.\<close>

definition tc_do_write :: "('k, 'w, 'r) client_env \<Rightarrow> (('k, 'w, 'r) tcp_client, unit) stmt" where
  "tc_do_write E = withE (\<lambda>s.
     case cq_try_dequeue (ce_write_queue E) (write_queue s) of
       None \<Rightarrow> retE ()
     | Some (p, q) \<Rightarrow>
         blockE [modifyE (\<lambda>s. s\<lparr>write_queue := q, tc_write_packet := p\<rparr>),
                 modifyE (\<lambda>s. s\<lparr>tc_write_in_progress := True\<rparr>),
                 tc_start_op (Async_write (packet_bytes p)),
                 modifyE (\<lambda>s. s\<lparr>tc_wire := tc_wire s @ [p]\<rparr>)])"

definition tc_read_header :: "(('k, 'w, 'r) tcp_client, unit) stmt" where
  "tc_read_header = tc_start_op Read_header"

definition tc_read_payload :: "(('k, 'w, 'r) tcp_client, unit) stmt" where
  "tc_read_payload =
     bindE (withE (\<lambda>s. liftE (parse_header (tc_read_packet s)))) (\<lambda>_.
     withE (\<lambda>s. tc_start_op (Read_payload (payload_len (tc_read_packet s)))))"

section \<open>Completion handlers\<close>

definition tc_set_errc :: "error_code \<Rightarrow> (('k, 'w, 'r) tcp_client, unit) stmt" where
  "tc_set_errc e = modifyE (\<lambda>s. s\<lparr>errc := e\<rparr>)"

text \<open>The function that \<^verbatim>\<open>write\<close> posts.\<close>

definition tc_on_post :: "('k, 'w, 'r) client_env \<Rightarrow> packet \<Rightarrow> (('k, 'w, 'r) tcp_client, unit) stmt" where
  "tc_on_post E p = withE (\<lambda>s.
     case cq_try_enqueue (ce_write_queue E) (write_queue s) p of
       None \<Rightarrow> throwE (Transport_error Write_queue_full)
     | Some q \<Rightarrow>
         blockE [modifyE (\<lambda>s. s\<lparr>write_queue := q\<rparr>),
                 withE (\<lambda>s. whenE (\<not> tc_write_in_progress s) (tc_do_write E))])"

definition tc_on_header :: "('k, 'w, 'r) client_env \<Rightarrow> asio_ec \<Rightarrow> (('k, 'w, 'r) tcp_client, unit) stmt" where
  "tc_on_header E ec =
     blockE [tc_set_errc (Asio_code ec),
       (case ec of
          Asio_success \<Rightarrow> tc_read_payload
        | Asio_operation_aborted \<Rightarrow> retE ()
        | Asio_eof \<Rightarrow> blockE [tc_close E, tc_set_errc (Asio_code ec)]
        | Asio_other _ \<Rightarrow> throwE (Asio_error ec))]"

text \<open>A packet for which the read queue has no room is dropped with a warning.\<close>

definition tc_enqueue_read :: "('k, 'w, 'r) client_env \<Rightarrow> (('k, 'w, 'r) tcp_client, unit) stmt" where
  "tc_enqueue_read E = modifyE (\<lambda>s.
     case cq_try_enqueue (ce_read_queue E) (read_queue s) (tc_read_packet s) of
       None \<Rightarrow> s
     | Some q \<Rightarrow> s\<lparr>read_queue := q\<rparr>)"

definition tc_on_payload :: "('k, 'w, 'r) client_env \<Rightarrow> asio_ec \<Rightarrow> (('k, 'w, 'r) tcp_client, unit) stmt" where
  "tc_on_payload E ec =
     blockE [tc_set_errc (Asio_code ec),
       (case ec of
          Asio_success \<Rightarrow>
            blockE [withE (\<lambda>s. liftE (parse_payload (tc_read_packet s))),
                    tc_enqueue_read E, tc_read_header]
        | Asio_operation_aborted \<Rightarrow> retE ()
        | Asio_eof \<Rightarrow> tc_close E
        | Asio_other _ \<Rightarrow> throwE (Asio_error ec))]"

definition tc_on_write :: "('k, 'w, 'r) client_env \<Rightarrow> asio_ec \<Rightarrow> (('k, 'w, 'r) tcp_client, unit) stmt" where
  "tc_on_write E ec =
     blockE [tc_set_errc (Asio_code ec),
       (case ec of
          Asio_success \<Rightarrow> withE (\<lambda>s.
            if 0 < cq_size_approx (ce_write_queue E) (write_queue s) then tc_do_write E
            else modifyE (\<lambda>s. s\<lparr>tc_write_in_progress := False\<rparr>))
        | Asio_operation_aborted \<Rightarrow> retE ()
        | Asio_eof \<Rightarrow> tc_close E
        | Asio_other _ \<Rightarrow> throwE (Asio_error ec))]"

section \<open>The thread\<close>

text \<open>
  The I/O context finishes an operation: the bytes that arrived are in the buffer the
  operation was started with, and its handler runs. The buffer of a payload read lies behind
  the header in \<^verbatim>\<open>data_\<close>; what would lie past its end has no defined place.
\<close>

definition fill_header :: "bytes \<Rightarrow> packet \<Rightarrow> packet" where
  "fill_header v p = \<lparr>p_data = overwrite (p_data p) (take header_size v)\<rparr>"

definition fill_payload :: "nat \<Rightarrow> bytes \<Rightarrow> packet \<Rightarrow> packet" where
  "fill_payload n v p =
     \<lparr>p_data = overwrite (p_data p) (take header_size (p_data p) @ take n v)\<rparr>"

fun tc_handler ::
  "('k, 'w, 'r) client_env \<Rightarrow> io_op \<Rightarrow> asio_ec \<Rightarrow> bytes \<Rightarrow> (('k, 'w, 'r) tcp_client, unit) stmt" where
  "tc_handler E (Post_write p) ec v = tc_on_post E p"
| "tc_handler E Read_header ec v =
     blockE [modifyE (\<lambda>s. if ec = Asio_success
               then s\<lparr>tc_read_packet := fill_header v (tc_read_packet s)\<rparr> else s),
             tc_on_header E ec]"
| "tc_handler E (Read_payload n) ec v =
     (if ec = Asio_success \<and> header_size + n > max_size then throwE Undefined_behaviour
      else blockE [modifyE (\<lambda>s. if ec = Asio_success
                     then s\<lparr>tc_read_packet := fill_payload n v (tc_read_packet s)\<rparr> else s),
                   tc_on_payload E ec])"
| "tc_handler E (Async_write b) ec v = tc_on_write E ec"

text \<open>
  How the loop of \<^verbatim>\<open>run\<close> goes on when a handler is left: an ill-formed packet is discarded and
  the next header is read, any other exception closes the transport and ends the thread.
\<close>

datatype loop_end = Loop | Leave

definition tc_guard ::
  "('k, 'w, 'r) client_env \<Rightarrow> (('k, 'w, 'r) tcp_client, unit) stmt \<Rightarrow>
   (('k, 'w, 'r) tcp_client, loop_end) stmt" where
  "tc_guard E handler =
     catchE (bindE handler (\<lambda>_. retE Loop)) (\<lambda>e.
       case e of
         Packet_error _ \<Rightarrow> bindE tc_read_header (\<lambda>_. retE Loop)
       | Undefined_behaviour \<Rightarrow> throwE e
       | _ \<Rightarrow> bindE (catchE (tc_close E) (\<lambda>_. retE ())) (\<lambda>_. retE Leave))"

text \<open>The beginning of \<^verbatim>\<open>run\<close>, before its loop.\<close>

definition tc_run_start :: "(('k, 'w, 'r) tcp_client, unit) stmt" where
  "tc_run_start = tc_read_header"

definition tc_start :: "('k, 'w, 'r) client_env \<Rightarrow> (('k, 'w, 'r) tcp_client, unit) stmt" where
  "tc_start E = withE (\<lambda>s.
     if tc_running s then retE ()
     else blockE [modifyE (\<lambda>s. s\<lparr>tc_write_in_progress := False\<rparr>), tc_open E,
                  modifyE (\<lambda>s. s\<lparr>tc_running := True\<rparr>), tc_run_start])"

definition tc_stop :: "('k, 'w, 'r) client_env \<Rightarrow> (('k, 'w, 'r) tcp_client, unit) stmt" where
  "tc_stop E = withE (\<lambda>s.
     if \<not> tc_running s then retE ()
     else blockE [modifyE (\<lambda>s. s\<lparr>tc_running := False\<rparr>), tc_close E])"

definition tc_api :: "('k, 'w, 'r) client_env \<Rightarrow> ('k, 'w, 'r) tcp_client transport_api" where
  "tc_api E =
     \<lparr>tr_write = tc_write E, tr_read = transport_read (ce_read_queue E),
      tr_clear_queues = clear_queues (ce_write_queue E) (ce_read_queue E),
      tr_is_open = tc_is_open E, tr_error_code = errc,
      tr_start = tc_start E, tr_stop = tc_stop E\<rparr>"

section \<open>The contract\<close>

definition posted :: "io_op list \<Rightarrow> packet list" where
  "posted ops = List.map_filter (\<lambda>op. case op of Post_write p \<Rightarrow> Some p | _ \<Rightarrow> None) ops"

lemma posted_simps [simp]:
  "posted [] = []" "posted (Post_write p # ops) = p # posted ops"
  "posted (Read_header # ops) = posted ops" "posted (Read_payload n # ops) = posted ops"
  "posted (Async_write b # ops) = posted ops"
  by (simp_all add: posted_def List.map_filter_simps)

lemma posted_append [simp]: "posted (xs @ ys) = posted xs @ posted ys"
  by (simp add: posted_def map_filter_def)

text \<open>
  The packets the client has accepted and not lost: on the wire, in the write queue, posted.
\<close>

definition tc_sent :: "('k, 'w, 'r) client_env \<Rightarrow> ('k, 'w, 'r) tcp_client \<Rightarrow> packet list" where
  "tc_sent E s = tc_wire s @ cq_items (ce_write_queue E) (write_queue s) @ posted (tc_pending s)"

definition tc_received :: "('k, 'w, 'r) client_env \<Rightarrow> ('k, 'w, 'r) tcp_client \<Rightarrow> packet list" where
  "tc_received E s = cq_items (ce_read_queue E) (read_queue s)"

definition client_laws :: "('k, 'w, 'r) client_env \<Rightarrow> bool" where
  "client_laws E \<longleftrightarrow> socket_laws (ce_socket E) \<and> queue_laws (ce_write_queue E)
     \<and> queue_laws (ce_read_queue E)"

lemma tc_write_run:
  "tc_write E p s =
     (if tc_is_open E s then (Inr (), s\<lparr>tc_pending := tc_pending s @ [Post_write p]\<rparr>)
      else (Inl (Transport_error Write_while_closed), s))"
  by (simp add: tc_write_def tc_start_op_def prog_run)

lemma tc_posting:
  assumes "client_laws E"
  shows "posting_transport (tc_api E) (tc_sent E) (tc_received E)"
proof -
  have W: "queue_laws (ce_write_queue E)" and R: "queue_laws (ce_read_queue E)"
    using assms by (simp_all add: client_laws_def)
  show ?thesis
  proof unfold_locales
    fix t :: "('a, 'b, 'c) tcp_client"
    show "\<exists>t'. tr_clear_queues (tc_api E) t = Some t' \<and> tc_received E t' = []
        \<and> tr_is_open (tc_api E) t' = tr_is_open (tc_api E) t
        \<and> tr_error_code (tc_api E) t' = tr_error_code (tc_api E) t"
      using drain_returns [OF W, of "write_queue t"] drain_returns [OF R, of "read_queue t"]
      by (auto simp: tc_api_def clear_queues_def tc_received_def tc_is_open_def)
  qed (auto simp: tc_api_def tc_write_run tc_sent_def tc_received_def tc_is_open_def
      transport_read_def cq_dequeue_Some [OF R] cq_dequeue_None [OF R]
      split: if_splits option.splits prod.splits)
qed

text \<open>
  The client is a posting transport over every socket and every queues that keep their laws;
  the reference objects do.
\<close>

locale tcp_client_library =
  fixes E :: "('k, 'w, 'r) client_env"
  assumes library: "client_laws E"

sublocale tcp_client_library \<subseteq> posting_transport "tc_api E" "tc_sent E" "tc_received E"
  by (rule tc_posting) (rule library)

definition ref_client_env :: "(bool, packet list, packet list) client_env" where
  "ref_client_env =
     \<lparr>ce_socket = ref_socket, ce_write_queue = ref_queue_api 100, ce_read_queue = ref_queue_api 100\<rparr>"

lemma ref_client_laws [simp]: "client_laws ref_client_env"
  by (simp add: client_laws_def ref_client_env_def)

interpretation tcp_client: tcp_client_library ref_client_env
  by unfold_locales simp

text \<open>An open client with nothing to do, for the witnesses.\<close>

definition ref_client :: "(bool, packet list, packet list) tcp_client" where
  "ref_client =
     \<lparr>errc = no_error_code, write_queue = [], read_queue = [], tc_socket = True,
      tc_read_packet = \<lparr>p_data = replicate 2048 0\<rparr>, tc_write_packet = \<lparr>p_data = replicate 2048 0\<rparr>,
      tc_write_in_progress = False, tc_running = True, tc_pending = [Read_header], tc_wire = []\<rparr>"

end
