(* ===== verification/Tcp_Client_Laws.thy ===== *)
theory Tcp_Client_Laws
  imports Tcp_Client
begin

text \<open>
  What the TCP client's thread keeps: packets leave in the order they were accepted, no two
  operations share a buffer, and no read reaches past the end of a packet's storage.
\<close>

section \<open>Steps\<close>

text \<open>
  A step is a write of a user thread or the completion of one pending operation, which may be
  any of them except that posted functions run in the order they were posted. The handler
  runs under the loop of \<^verbatim>\<open>run\<close>.
\<close>

inductive tc_step :: "('k, 'w, 'r) client_env \<Rightarrow> ('k, 'w, 'r) tcp_client \<Rightarrow> ('k, 'w, 'r) tcp_client \<Rightarrow> bool"
  for E where
  user_write: "tc_write E p s = (r, s') \<Longrightarrow> tc_step E s s'"
| completion: "tc_pending s = xs @ op # ys \<Longrightarrow> (\<And>p. op = Post_write p \<Longrightarrow> posted xs = []) \<Longrightarrow>
     tc_guard E (tc_handler E op ec v) (s\<lparr>tc_pending := xs @ ys\<rparr>) = (r, s') \<Longrightarrow> tc_step E s s'"

text \<open>A client whose thread has just begun its loop.\<close>

definition tc_begun :: "('k, 'w, 'r) tcp_client \<Rightarrow> bool" where
  "tc_begun s \<longleftrightarrow> tc_pending s = [Read_header] \<and> \<not> tc_write_in_progress s"

section \<open>Outstanding operations\<close>

fun is_read :: "io_op \<Rightarrow> bool" where
  "is_read Read_header = True"
| "is_read (Read_payload n) = True"
| "is_read _ = False"

fun is_write :: "io_op \<Rightarrow> bool" where
  "is_write (Async_write b) = True"
| "is_write _ = False"

definition tc_reads :: "('k, 'w, 'r) tcp_client \<Rightarrow> io_op list" where
  "tc_reads s = filter is_read (tc_pending s)"

definition tc_writes :: "('k, 'w, 'r) tcp_client \<Rightarrow> io_op list" where
  "tc_writes s = filter is_write (tc_pending s)"

text \<open>
  At most one read is outstanding, and a read of a payload fits in the storage; at most one
  write is outstanding, it is the one of \<^verbatim>\<open>write_packet_\<close>, and the flag tells.
\<close>

definition reads_ok :: "io_op list \<Rightarrow> bool" where
  "reads_ok ops \<longleftrightarrow> length (filter is_read ops) \<le> 1
     \<and> (\<forall>n. Read_payload n \<in> set ops \<longrightarrow> header_size + n \<le> max_size)"

definition tc_writes_ok :: "('k, 'w, 'r) tcp_client \<Rightarrow> bool" where
  "tc_writes_ok s \<longleftrightarrow> tc_writes s = []
     \<or> tc_writes s = [Async_write (packet_bytes (tc_write_packet s))] \<and> tc_write_in_progress s"

definition tc_ops_ok :: "('k, 'w, 'r) tcp_client \<Rightarrow> bool" where
  "tc_ops_ok s \<longleftrightarrow> reads_ok (tc_pending s) \<and> tc_writes_ok s"

lemma parse_header_fits:
  "parse_header p = Inr () \<Longrightarrow> header_size \<le> length (p_data p) \<Longrightarrow> header_size + payload_len p \<le> max_size"
  using parse_header_view_read [of "p_data p"] parse_header_view_InrD(6) header_fits
  by (fastforce simp: parse_header_def payload_len_def p_header_def split: sum.splits)

text \<open>The part of the state that the outstanding operations and the order of packets rest on.\<close>

definition tc_io :: "('k, 'w, 'r) tcp_client \<Rightarrow> 'w \<times> packet \<times> bool \<times> io_op list \<times> packet list" where
  "tc_io s = (write_queue s, tc_write_packet s, tc_write_in_progress s, tc_pending s, tc_wire s)"

lemma tc_io_eq:
  "tc_io s = tc_io t \<longleftrightarrow> write_queue s = write_queue t \<and> tc_write_packet s = tc_write_packet t
     \<and> tc_write_in_progress s = tc_write_in_progress t \<and> tc_pending s = tc_pending t
     \<and> tc_wire s = tc_wire t"
  by (auto simp: tc_io_def)

lemma tc_on_socket_frame:
  "tc_on_socket m s = (r, s') \<Longrightarrow> tc_io s' = tc_io s \<and> tc_read_packet s' = tc_read_packet s
     \<and> fst (m (tc_socket s)) = r"
  by (auto simp: tc_on_socket_def zoomE_def tc_io_def split: prod.splits)

lemma tc_close_frame:
  assumes K: "socket_laws (ce_socket E)" and run: "tc_close E s = (r, s')"
  shows "tc_io s' = tc_io s \<and> tc_read_packet s' = tc_read_packet s
    \<and> (r = Inr () \<or> r = Inl (Std_exception System_error))"
proof (cases "tc_is_open E s")
  case False
  then show ?thesis using run by (simp add: tc_close_def prog_run)
next
  case True
  have err: "e = Std_exception System_error"
    if "fst (sk_shutdown (ce_socket E) k) = Inl e \<or> fst (sk_close (ce_socket E) k) = Inl e" for k e
    using that sk_laws(5,6) [OF K] by (metis prod.collapse)
  obtain r1 s1 where 1: "tc_on_socket (sk_shutdown (ce_socket E)) s = (r1, s1)" by fastforce
  note f1 = tc_on_socket_frame [OF 1]
  obtain r2 s2 where 2: "tc_on_socket (sk_close (ce_socket E)) s1 = (r2, s2)" by fastforce
  note f2 = tc_on_socket_frame [OF 2]
  have e1: "r1 = Inr () \<or> r1 = Inl (Std_exception System_error)"
    using f1 err by (cases r1) auto
  have e2: "r2 = Inr () \<or> r2 = Inl (Std_exception System_error)"
    using f2 err by (cases r2) auto
  show ?thesis
    using run True 1 2 conjunct1 [OF f1] conjunct1 [OF f2] conjunct2 [OF f1] conjunct2 [OF f2] e1 e2
    by (auto simp: tc_close_def prog_run split: sum.splits)
qed

lemma tc_do_write_run:
  "tc_do_write E s = (case cq_try_dequeue (ce_write_queue E) (write_queue s) of
      None \<Rightarrow> (Inr (), s)
    | Some (p, q) \<Rightarrow> (Inr (), s\<lparr>write_queue := q, tc_write_packet := p, tc_write_in_progress := True,
        tc_pending := tc_pending s @ [Async_write (packet_bytes p)], tc_wire := tc_wire s @ [p]\<rparr>))"
  by (simp add: tc_do_write_def tc_start_op_def prog_run split: option.split prod.split)

section \<open>Reading\<close>

text \<open>
  A read handler starts at most one further read, a payload read only after the header was
  found to announce a payload that fits, and none when it throws for an ill-formed packet.
\<close>

definition starts_read :: "('k, 'w, 'r) tcp_client \<Rightarrow> ('k, 'w, 'r) tcp_client \<Rightarrow> io_op list \<Rightarrow> bool" where
  "starts_read s s' new \<longleftrightarrow> tc_io s' = tc_io (s\<lparr>tc_pending := tc_pending s @ new\<rparr>)
     \<and> (new = [] \<or> new = [Read_header] \<or> (\<exists>n. new = [Read_payload n] \<and> header_size + n \<le> max_size))
     \<and> storage (p_data (tc_read_packet s'))"

lemma tc_on_header_effect:
  assumes K: "socket_laws (ce_socket E)" and st: "storage (p_data (tc_read_packet s))"
    and run: "tc_on_header E ec s = (r, s')"
  shows "\<exists>new. starts_read s s' new \<and> (\<forall>e. r = Inl (Packet_error e) \<longrightarrow> new = [])"
proof (cases ec)
  case Asio_success
  have len: "header_size \<le> length (p_data (tc_read_packet s))"
    using st by (simp add: storage_def format_sizes)
  show ?thesis
  proof (cases "parse_header (tc_read_packet s)")
    case (Inl e)
    then show ?thesis
      using run Asio_success st
      by (intro exI [of _ "[]"])
        (auto simp: tc_on_header_def tc_set_errc_def tc_read_payload_def prog_run starts_read_def tc_io_def)
  next
    case (Inr u)
    then have "header_size + payload_len (tc_read_packet s) \<le> max_size"
      using parse_header_fits len by simp
    then show ?thesis
      using run Asio_success Inr st
      by (intro exI [of _ "[Read_payload (payload_len (tc_read_packet s))]"])
        (auto simp: tc_on_header_def tc_set_errc_def tc_read_payload_def tc_start_op_def prog_run
          starts_read_def tc_io_def)
  qed
next
  case Asio_eof
  obtain r1 s1 where c: "tc_close E (s\<lparr>errc := Asio_code Asio_eof\<rparr>) = (r1, s1)" by fastforce
  show ?thesis
    using run Asio_eof st c tc_close_frame [OF K c]
    by (intro exI [of _ "[]"])
      (auto simp: tc_on_header_def tc_set_errc_def prog_run starts_read_def tc_io_def split: sum.splits)
qed (use run st in \<open>auto intro!: exI [of _ "[]"]
      simp: tc_on_header_def tc_set_errc_def prog_run starts_read_def tc_io_def\<close>)

lemma tc_on_payload_effect:
  assumes K: "socket_laws (ce_socket E)" and st: "storage (p_data (tc_read_packet s))"
    and run: "tc_on_payload E ec s = (r, s')"
  shows "\<exists>new. starts_read s s' new \<and> (\<forall>e. r = Inl (Packet_error e) \<longrightarrow> new = [])"
proof (cases ec)
  case Asio_success
  show ?thesis
  proof (cases "parse_payload (tc_read_packet s)")
    case (Inl e)
    then show ?thesis
      using run Asio_success st
      by (intro exI [of _ "[]"])
        (auto simp: tc_on_payload_def tc_set_errc_def prog_run starts_read_def tc_io_def)
  next
    case (Inr u)
    then show ?thesis
      using run Asio_success st
      by (intro exI [of _ "[Read_header]"])
        (auto simp: tc_on_payload_def tc_set_errc_def tc_enqueue_read_def tc_read_header_def
          tc_start_op_def prog_run starts_read_def tc_io_def split: option.splits)
  qed
next
  case Asio_eof
  obtain r1 s1 where c: "tc_close E (s\<lparr>errc := Asio_code Asio_eof\<rparr>) = (r1, s1)" by fastforce
  show ?thesis
    using run Asio_eof st c tc_close_frame [OF K c]
    by (intro exI [of _ "[]"])
      (auto simp: tc_on_payload_def tc_set_errc_def prog_run starts_read_def tc_io_def split: sum.splits)
qed (use run st in \<open>auto intro!: exI [of _ "[]"]
      simp: tc_on_payload_def tc_set_errc_def prog_run starts_read_def tc_io_def\<close>)

lemma storage_fill:
  "storage (p_data p) \<Longrightarrow> storage (p_data (fill_header v p))"
  "storage (p_data p) \<Longrightarrow> header_size + n \<le> max_size \<Longrightarrow> storage (p_data (fill_payload n v p))"
  by (simp_all add: fill_header_def fill_payload_def storage_def overwrite_def format_sizes)

lemma tc_read_effect:
  assumes K: "socket_laws (ce_socket E)" and st: "storage (p_data (tc_read_packet s))"
    and read: "is_read op" "\<And>n. op = Read_payload n \<Longrightarrow> header_size + n \<le> max_size"
    and run: "tc_handler E op ec v s = (r, s')"
  shows "\<exists>new. starts_read s s' new \<and> (\<forall>e. r = Inl (Packet_error e) \<longrightarrow> new = [])"
proof -
  have eff: "\<exists>new. starts_read s s' new \<and> (\<forall>e. r = Inl (Packet_error e) \<longrightarrow> new = [])"
    if "tc_on_header E ec t = (r, s') \<or> tc_on_payload E ec t = (r, s')"
      "storage (p_data (tc_read_packet t))" "tc_io t = tc_io s" for t
  proof -
    have "starts_read s s' new = starts_read t s' new" for new
      using that(3) by (auto simp: starts_read_def tc_io_def)
    then show ?thesis
      using that tc_on_header_effect [OF K that(2)] tc_on_payload_effect [OF K that(2)] by metis
  qed
  show ?thesis
  proof (cases op)
    case Read_header
    let ?t = "if ec = Asio_success then s\<lparr>tc_read_packet := fill_header v (tc_read_packet s)\<rparr> else s"
    show ?thesis
      by (rule eff [of ?t])
        (use run Read_header st storage_fill in \<open>auto simp: prog_run tc_io_def split: prod.splits sum.splits\<close>)
  next
    case (Read_payload n)
    let ?t = "if ec = Asio_success then s\<lparr>tc_read_packet := fill_payload n v (tc_read_packet s)\<rparr> else s"
    show ?thesis
      by (rule eff [of ?t])
        (use run Read_payload st storage_fill read(2) in
          \<open>auto simp: prog_run tc_io_def split: prod.splits sum.splits if_splits\<close>)
  qed (use read(1) in simp_all)
qed

section \<open>Writing\<close>

lemma tc_on_post_effect:
  assumes W: "queue_laws (ce_write_queue E)" and run: "tc_on_post E p s = (r, s')"
    and ok: "tc_writes_ok s"
  shows "if r = Inl (Transport_error Write_queue_full) then s' = s
    else r = Inr () \<and> tc_wire s' @ cq_items (ce_write_queue E) (write_queue s')
           = tc_wire s @ cq_items (ce_write_queue E) (write_queue s) @ [p]
      \<and> (\<exists>ps. tc_wire s' = tc_wire s @ ps)
      \<and> (\<exists>new. tc_pending s' = tc_pending s @ new \<and> filter is_write new = new)
      \<and> tc_writes_ok s' \<and> tc_read_packet s' = tc_read_packet s"
proof (cases "cq_try_enqueue (ce_write_queue E) (write_queue s) p")
  case None
  then show ?thesis using run by (auto simp: tc_on_post_def prog_run)
next
  case (Some q)
  note q = cq_enqueue_law [OF W Some]
  show ?thesis
  proof (cases "tc_write_in_progress s")
    case True
    then show ?thesis
      using run Some q ok by (auto simp: tc_on_post_def prog_run tc_writes_ok_def tc_writes_def)
  next
    case False
    then obtain x q' where x: "cq_try_dequeue (ce_write_queue E) q = Some (x, q')"
      using q cq_dequeue_None [OF W, of q] by (cases "cq_try_dequeue (ce_write_queue E) q") auto
    show ?thesis
      using run Some q x False cq_dequeue_Some [OF W x] ok
      by (auto simp: tc_on_post_def prog_run tc_do_write_run tc_writes_ok_def tc_writes_def)
  qed
qed

lemma tc_on_write_effect:
  assumes K: "socket_laws (ce_socket E)" and W: "queue_laws (ce_write_queue E)"
    and run: "tc_on_write E ec s = (r, s')" and idle: "tc_writes s = []"
  shows "tc_wire s' @ cq_items (ce_write_queue E) (write_queue s')
      = tc_wire s @ cq_items (ce_write_queue E) (write_queue s)
    \<and> (\<exists>ps. tc_wire s' = tc_wire s @ ps)
    \<and> (\<exists>new. tc_pending s' = tc_pending s @ new \<and> filter is_write new = new)
    \<and> tc_writes_ok s' \<and> tc_read_packet s' = tc_read_packet s \<and> (\<forall>e. r \<noteq> Inl (Packet_error e))"
proof (cases ec)
  case Asio_success
  then show ?thesis
    using run idle cq_dequeue_Some [OF W] cq_size_law [OF W]
    by (auto simp: tc_on_write_def tc_set_errc_def prog_run tc_do_write_run
        tc_writes_ok_def tc_writes_def split: if_splits option.splits)
next
  case Asio_eof
  obtain r1 s1 where c: "tc_close E (s\<lparr>errc := Asio_code Asio_eof\<rparr>) = (r1, s1)" by fastforce
  then show ?thesis
    using run Asio_eof idle tc_close_frame [OF K c]
    by (auto simp: tc_on_write_def tc_set_errc_def prog_run tc_io_eq tc_writes_ok_def tc_writes_def
        split: sum.splits)
qed (use run idle in \<open>auto simp: tc_on_write_def tc_set_errc_def prog_run tc_writes_ok_def tc_writes_def\<close>)

section \<open>One completion\<close>

definition tc_inv :: "('k, 'w, 'r) tcp_client \<Rightarrow> bool" where
  "tc_inv s \<longleftrightarrow> tc_ops_ok s \<and> storage (p_data (tc_read_packet s))"

lemma filter_write_read: "filter is_write ops = ops \<Longrightarrow> filter is_read ops = []"
  by (metis filter_False filter_id_conv is_read.elims(2) is_write.simps(3,4))

lemma filter_write_payload: "filter is_write ops = ops \<Longrightarrow> Read_payload n \<notin> set ops"
  by (metis filter_id_conv is_write.simps(4))

lemma filter_write_posted: "filter is_write ops = ops \<Longrightarrow> posted ops = []"
proof -
  assume "filter is_write ops = ops"
  then have "\<forall>op\<in>set ops. is_write op" by (simp add: filter_id_conv)
  then show "posted ops = []"
    by (induction ops) (auto elim!: is_write.elims(2))
qed

text \<open>
  The state without the operation that completes, the handler's run on it, and what the loop
  makes of it.
\<close>

lemma tc_guard_cases:
  assumes K: "socket_laws (ce_socket E)" and run: "tc_guard E h s = (r, s')"
  obtains (normal) "h s = (Inr (), s')" "r = Inr Loop"
  | (malformed) e s1 where "h s = (Inl (Packet_error e), s1)" "r = Inr Loop"
      "s' = s1\<lparr>tc_pending := tc_pending s1 @ [Read_header]\<rparr>"
  | (undefined) "h s = (Inl Undefined_behaviour, s')" "r = Inl Undefined_behaviour"
  | (left) e s1 where "h s = (Inl e, s1)" "\<forall>x. e \<noteq> Packet_error x" "r = Inr Leave"
      "tc_io s' = tc_io s1" "tc_read_packet s' = tc_read_packet s1"
proof -
  obtain q s1 where h: "h s = (q, s1)" by fastforce
  obtain rc s2 where c: "tc_close E s1 = (rc, s2)" by fastforce
  note f = tc_close_frame [OF K c]
  show ?thesis
  proof (cases q)
    case (Inr u)
    then show ?thesis using run h normal by (auto simp: tc_guard_def prog_run)
  next
    case (Inl e)
    then show ?thesis
      using run h c f malformed undefined left
      by (cases e) (auto simp: tc_guard_def prog_run tc_read_header_def tc_start_op_def split: sum.splits)
  qed
qed

lemma tc_handler_inv:
  assumes laws: "client_laws E" and inv: "tc_inv s" and pend: "tc_pending s = xs @ op # ys"
    and run: "tc_handler E op ec v (s\<lparr>tc_pending := xs @ ys\<rparr>) = (r, s')"
  shows "tc_inv s' \<and> (\<forall>e. r = Inl (Packet_error e) \<longrightarrow> tc_reads s' = [])"
proof -
  let ?s = "s\<lparr>tc_pending := xs @ ys\<rparr>"
  have K: "socket_laws (ce_socket E)" and W: "queue_laws (ce_write_queue E)"
    using laws by (simp_all add: client_laws_def)
  have rd: "reads_ok (xs @ op # ys)" and wr: "tc_writes_ok s" and st: "storage (p_data (tc_read_packet ?s))"
    using inv pend by (simp_all add: tc_inv_def tc_ops_ok_def)
  have rest: "reads_ok (xs @ ys)" using rd by (auto simp: reads_ok_def split: if_splits)
  show ?thesis
  proof (cases "is_read op")
    case True
    then have none: "filter is_read (xs @ ys) = []" and fits: "op = Read_payload n \<Longrightarrow> header_size + n \<le> max_size" for n
      using rd by (auto simp: reads_ok_def)
    obtain new where new: "starts_read ?s s' new" "\<forall>e. r = Inl (Packet_error e) \<longrightarrow> new = []"
      using tc_read_effect [OF K st True fits run] by blast
    have "\<not> is_write op" using True by (cases op) simp_all
    then have "tc_writes_ok ?s" using wr pend by (auto simp: tc_writes_ok_def tc_writes_def)
    moreover have "filter is_write new = []" using new(1) by (auto simp: starts_read_def)
    ultimately show ?thesis
      using new none rest
      by (auto simp: starts_read_def tc_io_eq tc_inv_def tc_ops_ok_def tc_writes_ok_def tc_writes_def
          tc_reads_def reads_ok_def)
  next
    case False
    have inv': "tc_inv s'" if "tc_pending s' = xs @ ys @ new" "filter is_write new = new"
      "tc_writes_ok s'" "tc_read_packet s' = tc_read_packet s" for new
      using that rest st filter_write_read [OF that(2)] filter_write_payload [OF that(2)]
      by (auto simp: tc_inv_def tc_ops_ok_def reads_ok_def)
    show ?thesis
    proof (cases op)
      case (Post_write p)
      then have w: "tc_writes_ok ?s" using wr pend by (auto simp: tc_writes_ok_def tc_writes_def)
      have run': "tc_on_post E p ?s = (r, s')" using run Post_write by simp
      note eff = tc_on_post_effect [OF W run' w]
      show ?thesis
      proof (cases "r = Inl (Transport_error Write_queue_full)")
        case True
        then show ?thesis using eff inv' [of "[]"] w by simp
      next
        case False
        then show ?thesis using eff inv' by auto
      qed
    next
      case (Async_write b)
      then have idle: "tc_writes ?s = []"
        using wr pend by (auto simp: tc_writes_ok_def tc_writes_def Cons_eq_append_conv append_eq_Cons_conv
            filter_empty_conv)
      have run': "tc_on_write E ec ?s = (r, s')" using run Async_write by simp
      show ?thesis using tc_on_write_effect [OF K W run' idle] inv' by auto
    qed (use False in simp_all)
  qed
qed

lemma tc_inv_frame: "tc_io s' = tc_io s \<Longrightarrow> tc_read_packet s' = tc_read_packet s \<Longrightarrow> tc_inv s' = tc_inv s"
  by (simp add: tc_inv_def tc_ops_ok_def tc_writes_ok_def tc_writes_def tc_io_eq)

lemma tc_step_inv:
  assumes laws: "client_laws E" and step: "tc_step E s s'" and inv: "tc_inv s"
  shows "tc_inv s'"
  using step
proof (cases rule: tc_step.cases)
  case (user_write p r)
  then show ?thesis
    using inv
    by (auto simp: tc_write_run tc_inv_def tc_ops_ok_def reads_ok_def tc_writes_ok_def tc_writes_def
        split: if_splits)
next
  case (completion xs op ys ec v r)
  have K: "socket_laws (ce_socket E)" using laws by (simp add: client_laws_def)
  note h = tc_handler_inv [OF laws inv completion(1)]
  show ?thesis
    using K completion(3)
  proof (cases rule: tc_guard_cases)
    case (malformed e s1)
    with h [OF malformed(1)] show ?thesis
      by (auto simp: tc_inv_def tc_ops_ok_def reads_ok_def tc_reads_def tc_writes_ok_def tc_writes_def)
  next
    case (left e s1)
    with h [OF left(1)] tc_inv_frame show ?thesis by blast
  qed (use h in auto)
qed

sublocale tcp_client_library \<subseteq>
  io: invariant_system "\<lambda>s. tc_begun s \<and> storage (p_data (tc_read_packet s))" "tc_step E" tc_inv
proof unfold_locales
  show "tc_inv s" if "tc_begun s \<and> storage (p_data (tc_read_packet s))" for s
    using that
    by (auto simp: tc_begun_def tc_inv_def tc_ops_ok_def reads_ok_def tc_writes_ok_def tc_writes_def)
  show "tc_inv t" if "tc_inv s" "tc_step E s t" for s t
    using library that(2,1) by (rule tc_step_inv)
qed

context tcp_client_library
begin

lemma client_reach_inv:
  "reach (\<lambda>s. tc_begun s \<and> storage (p_data (tc_read_packet s))) (tc_step E) s \<Longrightarrow> tc_inv s"
  by (rule io.reach_inv)

end

text \<open>
  While the client's thread runs, at most one read and at most one write are outstanding,
  a payload is only read when it fits in the 2048 bytes of \<^verbatim>\<open>read_packet_\<close>, and the write that
  is outstanding sends exactly the bytes of \<^verbatim>\<open>write_packet_\<close>, which no later write replaces.
\<close>

theorem tcp_client_buffers:
  assumes "client_laws E"
    and "reach (\<lambda>s. tc_begun s \<and> storage (p_data (tc_read_packet s))) (tc_step E) s"
  shows "length (tc_reads s) \<le> 1 \<and> length (tc_writes s) \<le> 1
    \<and> (\<forall>n. Read_payload n \<in> set (tc_pending s) \<longrightarrow> header_size + n \<le> max_size)
    \<and> (\<forall>b. Async_write b \<in> set (tc_pending s) \<longrightarrow> b = packet_bytes (tc_write_packet s))"
proof -
  have "tcp_client_library E" using assms(1) by unfold_locales
  then have inv: "tc_inv s" using assms(2) by (rule tcp_client_library.client_reach_inv)
  have "Async_write b \<in> set (tc_pending s) \<Longrightarrow> Async_write b \<in> set (tc_writes s)" for b
    by (simp add: tc_writes_def)
  with inv show ?thesis
    by (fastforce simp: tc_inv_def tc_ops_ok_def reads_ok_def tc_writes_ok_def tc_reads_def)
qed

theorem tcp_client_buffers_witness:
  "length (tc_reads ref_client) \<le> 1 \<and> length (tc_writes ref_client) \<le> 1"
  using tcp_client_buffers [of ref_client_env ref_client]
  by (simp add: reach_init ref_client_def tc_begun_def storage_def max_size_def)

lemma tc_handler_order:
  assumes laws: "client_laws E" and inv: "tc_inv s" and pend: "tc_pending s = xs @ op # ys"
    and fifo: "\<forall>p. op = Post_write p \<longrightarrow> posted xs = []"
    and run: "tc_handler E op ec v (s\<lparr>tc_pending := xs @ ys\<rparr>) = (r, s')"
  shows "(\<exists>ps. tc_wire s' = tc_wire s @ ps) \<and>
    (tc_sent E s' = tc_sent E s
     \<or> (\<exists>p. op = Post_write p \<and> r = Inl (Transport_error Write_queue_full)
          \<and> s' = s\<lparr>tc_pending := xs @ ys\<rparr>))"
proof -
  let ?s = "s\<lparr>tc_pending := xs @ ys\<rparr>"
  have K: "socket_laws (ce_socket E)" and W: "queue_laws (ce_write_queue E)"
    using laws by (simp_all add: client_laws_def)
  have rd: "reads_ok (xs @ op # ys)" and wr: "tc_writes_ok s" and st: "storage (p_data (tc_read_packet ?s))"
    using inv pend by (simp_all add: tc_inv_def tc_ops_ok_def)
  show ?thesis
  proof (cases op)
    case (Post_write p)
    then have w: "tc_writes_ok ?s" using wr pend by (auto simp: tc_writes_ok_def tc_writes_def)
    have run': "tc_on_post E p ?s = (r, s')" using run Post_write by simp
    from tc_on_post_effect [OF W run' w] show ?thesis
      using Post_write pend fifo filter_write_posted
      by (auto simp: tc_sent_def split: if_splits)
  next
    case (Async_write b)
    then have idle: "tc_writes ?s = []"
      using wr pend by (auto simp: tc_writes_ok_def tc_writes_def Cons_eq_append_conv append_eq_Cons_conv
          filter_empty_conv)
    have run': "tc_on_write E ec ?s = (r, s')" using run Async_write by simp
    from tc_on_write_effect [OF K W run' idle] show ?thesis
      using Async_write pend filter_write_posted by (auto simp: tc_sent_def)
  next
    case Read_header
    then obtain new where "starts_read ?s s' new"
      using tc_read_effect [OF K st _ _ run] by auto
    then show ?thesis
      using Read_header pend by (auto simp: starts_read_def tc_io_eq tc_sent_def)
  next
    case (Read_payload n)
    then have "header_size + n \<le> max_size" using rd by (auto simp: reads_ok_def)
    then obtain new where "starts_read ?s s' new"
      using Read_payload tc_read_effect [OF K st _ _ run] by auto
    then show ?thesis
      using Read_payload pend by (auto simp: starts_read_def tc_io_eq tc_sent_def)
  qed
qed

lemma tc_guard_order:
  assumes laws: "client_laws E" and inv: "tc_inv s" and pend: "tc_pending s = xs @ op # ys"
    and fifo: "\<forall>p. op = Post_write p \<longrightarrow> posted xs = []"
    and run: "tc_guard E (tc_handler E op ec v) (s\<lparr>tc_pending := xs @ ys\<rparr>) = (r, s')"
  shows "(\<exists>ps. tc_wire s' = tc_wire s @ ps) \<and>
    (tc_sent E s' = tc_sent E s
     \<or> (\<exists>p. op = Post_write p \<and> r = Inr Leave
          \<and> tc_sent E s' = tc_sent E (s\<lparr>tc_pending := xs @ ys\<rparr>)))"
proof -
  have K: "socket_laws (ce_socket E)" using laws by (simp add: client_laws_def)
  note h = tc_handler_order [OF laws inv pend fifo]
  show ?thesis
    using K run
  proof (cases rule: tc_guard_cases)
    case normal
    from h [OF normal(1)] show ?thesis by auto
  next
    case (malformed e s1)
    from h [OF malformed(1)] malformed show ?thesis by (auto simp: tc_sent_def)
  next
    case undefined
    from h [OF undefined(1)] show ?thesis by auto
  next
    case (left e s1)
    from h [OF left(1)] left(3,4) show ?thesis by (auto simp: tc_sent_def tc_io_eq)
  qed
qed

text \<open>
  C19: Packets reach the wire in the order they were accepted: completing an operation hands
  zero or more packets to the socket and leaves the sequence of accepted packets (sent, queued
  or posted) as it is. Only a posted packet that the write queue has no room for drops out of
  the sequence, and then the thread ends.
\<close>

theorem tcp_client_order:
  assumes laws: "client_laws E" and inv: "tc_inv s" and pend: "tc_pending s = xs @ op # ys"
    and fifo: "\<forall>p. op = Post_write p \<longrightarrow> posted xs = []"
    and run: "tc_guard E (tc_handler E op ec v) (s\<lparr>tc_pending := xs @ ys\<rparr>) = (r, s')"
  shows "(\<exists>ps. tc_wire s' = tc_wire s @ ps) \<and>
    (tc_sent E s' = tc_sent E s
     \<or> (\<exists>p. op = Post_write p \<and> r = Inr Leave
          \<and> tc_sent E s' = tc_sent E (s\<lparr>tc_pending := xs @ ys\<rparr>)))"
  using assms by (rule tc_guard_order)

theorem tcp_client_order_witness:
  "\<exists>r s'. tc_guard ref_client_env (tc_handler ref_client_env (Post_write \<lparr>p_data = ka15\<rparr>) Asio_success [])
       (ref_client\<lparr>tc_pending := [Read_header]\<rparr>) = (r, s')
     \<and> tc_sent ref_client_env s' = [\<lparr>p_data = ka15\<rparr>]"
proof -
  let ?s = "ref_client\<lparr>tc_pending := [Read_header, Post_write \<lparr>p_data = ka15\<rparr>]\<rparr>"
  obtain r s' where run: "tc_guard ref_client_env
      (tc_handler ref_client_env (Post_write \<lparr>p_data = ka15\<rparr>) Asio_success [])
      (ref_client\<lparr>tc_pending := [Read_header]\<rparr>) = (r, s')" by fastforce
  have "r = Inr Loop"
    using run by (auto simp: tc_guard_def tc_on_post_def prog_run ref_client_def ref_client_env_def
        ref_queue_api_def tc_do_write_run)
  moreover have "tc_inv ?s"
    by (simp add: tc_inv_def tc_ops_ok_def reads_ok_def tc_writes_ok_def tc_writes_def ref_client_def
        storage_def max_size_def)
  ultimately have "tc_sent ref_client_env s' = tc_sent ref_client_env ?s"
    using tcp_client_order [of ref_client_env ?s "[Read_header]" "Post_write \<lparr>p_data = ka15\<rparr>" "[]"] run
    by simp
  also have "\<dots> = [\<lparr>p_data = ka15\<rparr>]"
    by (simp add: tc_sent_def ref_client_def ref_client_env_def ref_queue_api_def)
  finally show ?thesis using run by blast
qed

end
