(* ===== verification/Tcp_Server.thy ===== *)
theory Tcp_Server
  imports Tcp_Client
begin

text \<open>
  \<^verbatim>\<open>tcp::Server\<close> (\<^verbatim>\<open>src/tcp_server.*\<close>): the transport of the device, which accepts one
  connection at a time. Its member functions, the completion handlers it leaves with the I/O
  context, and the loop of its thread.
\<close>

section \<open>State\<close>

datatype server_op =
    Accept
  | Sv_post packet
  | Sv_read_header
  | Sv_read_payload nat
  | Sv_write bytes

text \<open>
  \<open>ve_accepted\<close> is what a successful accept makes of the socket, \<open>ve_cancel\<close> is
  \<^verbatim>\<open>acceptor_.cancel()\<close>.
\<close>

record ('k, 'a, 'w, 'r) server_env =
  ve_socket :: "'k socket_api"
  ve_accepted :: "'k \<Rightarrow> 'k"
  ve_cancel :: "('a, unit) stmt"
  ve_write_queue :: "('w, packet) queue_api"
  ve_read_queue :: "('r, packet) queue_api"

text \<open>\<open>ts_wire\<close> records the packets given to \<^verbatim>\<open>async_write\<close> so far; no code reads it.\<close>

record ('k, 'a, 'w, 'r) tcp_server = "('w, 'r) transport" +
  ts_socket :: 'k
  ts_acceptor :: 'a
  ts_read_packet :: packet
  ts_write_packet :: packet
  ts_write_in_progress :: bool
  ts_running :: bool
  ts_pending :: "server_op list"
  ts_wire :: "packet list"

text \<open>
  \<^verbatim>\<open>Server(logger, port)\<close> over new queues, a new socket and an acceptor with its options set; \<open>x\<close>
  and \<open>y\<close> are the bytes its packets hold.
\<close>

definition ts_new :: "'k \<Rightarrow> 'a \<Rightarrow> 'w \<Rightarrow> 'r \<Rightarrow> bytes \<Rightarrow> bytes \<Rightarrow> ('k, 'a, 'w, 'r) tcp_server" where
  "ts_new k a w r x y =
     \<lparr>errc = no_error_code, write_queue = w, read_queue = r, ts_socket = k, ts_acceptor = a,
      ts_read_packet = \<lparr>p_data = x\<rparr>, ts_write_packet = \<lparr>p_data = y\<rparr>, ts_write_in_progress = False,
      ts_running = False, ts_pending = [], ts_wire = []\<rparr>"

section \<open>Member functions\<close>

definition ts_is_open :: "('k, 'a, 'w, 'r) server_env \<Rightarrow> ('k, 'a, 'w, 'r) tcp_server \<Rightarrow> bool" where
  "ts_is_open E s = sk_is_open (ve_socket E) (ts_socket s)"

definition ts_on_socket :: "('k, unit) stmt \<Rightarrow> (('k, 'a, 'w, 'r) tcp_server, unit) stmt" where
  "ts_on_socket m = zoomE ts_socket (\<lambda>k s. s\<lparr>ts_socket := k\<rparr>) m"

definition ts_on_acceptor :: "('a, unit) stmt \<Rightarrow> (('k, 'a, 'w, 'r) tcp_server, unit) stmt" where
  "ts_on_acceptor m = zoomE ts_acceptor (\<lambda>a s. s\<lparr>ts_acceptor := a\<rparr>) m"

definition ts_start_op :: "server_op \<Rightarrow> (('k, 'a, 'w, 'r) tcp_server, unit) stmt" where
  "ts_start_op op = modifyE (\<lambda>s. s\<lparr>ts_pending := ts_pending s @ [op]\<rparr>)"

definition ts_write :: "('k, 'a, 'w, 'r) server_env \<Rightarrow> packet \<Rightarrow> (('k, 'a, 'w, 'r) tcp_server, unit) stmt" where
  "ts_write E p = withE (\<lambda>s.
     if \<not> ts_is_open E s then throwE (Transport_error Write_while_closed)
     else ts_start_op (Sv_post p))"

definition ts_open :: "('k, 'a, 'w, 'r) server_env \<Rightarrow> (('k, 'a, 'w, 'r) tcp_server, unit) stmt" where
  "ts_open E = withE (\<lambda>s. if ts_is_open E s then retE () else ts_start_op Accept)"

definition ts_close :: "('k, 'a, 'w, 'r) server_env \<Rightarrow> (('k, 'a, 'w, 'r) tcp_server, unit) stmt" where
  "ts_close E =
     blockE [withE (\<lambda>s. whenE (ts_is_open E s) (ts_on_socket (sk_shutdown (ve_socket E)))),
             ts_on_acceptor (ve_cancel E),
             ts_on_socket (sk_close (ve_socket E))]"

definition ts_do_write :: "('k, 'a, 'w, 'r) server_env \<Rightarrow> (('k, 'a, 'w, 'r) tcp_server, unit) stmt" where
  "ts_do_write E = withE (\<lambda>s.
     case cq_try_dequeue (ve_write_queue E) (write_queue s) of
       None \<Rightarrow> retE ()
     | Some (p, q) \<Rightarrow>
         blockE [modifyE (\<lambda>s. s\<lparr>write_queue := q, ts_write_packet := p\<rparr>),
                 modifyE (\<lambda>s. s\<lparr>ts_write_in_progress := True\<rparr>),
                 ts_start_op (Sv_write (packet_bytes p)),
                 modifyE (\<lambda>s. s\<lparr>ts_wire := ts_wire s @ [p]\<rparr>)])"

definition ts_read_header :: "(('k, 'a, 'w, 'r) tcp_server, unit) stmt" where
  "ts_read_header = ts_start_op Sv_read_header"

text \<open>
  An ill-formed header is caught here and the next header is read, but the function goes on
  behind the \<^verbatim>\<open>catch\<close>: it also reads a payload of the length that header announces.
\<close>

definition ts_read_payload :: "(('k, 'a, 'w, 'r) tcp_server, unit) stmt" where
  "ts_read_payload =
     bindE (catchE (withE (\<lambda>s. liftE (parse_header (ts_read_packet s))))
              (\<lambda>e. case e of Packet_error _ \<Rightarrow> ts_read_header | _ \<Rightarrow> throwE e)) (\<lambda>_.
     withE (\<lambda>s. ts_start_op (Sv_read_payload (payload_len (ts_read_packet s)))))"

section \<open>Completion handlers\<close>

definition ts_set_errc :: "error_code \<Rightarrow> (('k, 'a, 'w, 'r) tcp_server, unit) stmt" where
  "ts_set_errc e = modifyE (\<lambda>s. s\<lparr>errc := e\<rparr>)"

definition ts_on_accept :: "asio_ec \<Rightarrow> (('k, 'a, 'w, 'r) tcp_server, unit) stmt" where
  "ts_on_accept ec =
     blockE [ts_set_errc (Asio_code ec), whenE (ec = Asio_success) ts_read_header]"

definition ts_on_post :: "('k, 'a, 'w, 'r) server_env \<Rightarrow> packet \<Rightarrow> (('k, 'a, 'w, 'r) tcp_server, unit) stmt" where
  "ts_on_post E p = withE (\<lambda>s.
     case cq_try_enqueue (ve_write_queue E) (write_queue s) p of
       None \<Rightarrow> throwE (Transport_error Write_queue_full)
     | Some q \<Rightarrow>
         blockE [modifyE (\<lambda>s. s\<lparr>write_queue := q\<rparr>),
                 withE (\<lambda>s. whenE (\<not> ts_write_in_progress s) (ts_do_write E))])"

definition ts_on_header :: "('k, 'a, 'w, 'r) server_env \<Rightarrow> asio_ec \<Rightarrow> (('k, 'a, 'w, 'r) tcp_server, unit) stmt" where
  "ts_on_header E ec =
     blockE [ts_set_errc (Asio_code ec),
       (case ec of
          Asio_success \<Rightarrow> ts_read_payload
        | Asio_operation_aborted \<Rightarrow> retE ()
        | Asio_eof \<Rightarrow> blockE [ts_close E, ts_open E]
        | Asio_other _ \<Rightarrow> throwE (Asio_error ec))]"

text \<open>What the handler of a payload read catches: a packet that is ill-formed or does not fit in the queue.\<close>

definition ts_accept_packet :: "('k, 'a, 'w, 'r) server_env \<Rightarrow> (('k, 'a, 'w, 'r) tcp_server, unit) stmt" where
  "ts_accept_packet E = catchE
     (blockE [withE (\<lambda>s. liftE (parse_payload (ts_read_packet s))),
              withE (\<lambda>s. case cq_try_enqueue (ve_read_queue E) (read_queue s) (ts_read_packet s) of
                  None \<Rightarrow> throwE (Transport_error Read_queue_full)
                | Some q \<Rightarrow> modifyE (\<lambda>s. s\<lparr>read_queue := q\<rparr>))])
     (\<lambda>e. if is_std_exception e then retE () else throwE e)"

definition ts_on_payload :: "('k, 'a, 'w, 'r) server_env \<Rightarrow> asio_ec \<Rightarrow> (('k, 'a, 'w, 'r) tcp_server, unit) stmt" where
  "ts_on_payload E ec =
     blockE [ts_set_errc (Asio_code ec),
       (case ec of
          Asio_success \<Rightarrow> blockE [ts_accept_packet E, ts_read_header]
        | Asio_operation_aborted \<Rightarrow> retE ()
        | Asio_eof \<Rightarrow> blockE [ts_close E, ts_set_errc (Asio_code ec), ts_open E]
        | Asio_other _ \<Rightarrow> throwE (Asio_error ec))]"

definition ts_on_write :: "('k, 'a, 'w, 'r) server_env \<Rightarrow> asio_ec \<Rightarrow> (('k, 'a, 'w, 'r) tcp_server, unit) stmt" where
  "ts_on_write E ec =
     blockE [ts_set_errc (Asio_code ec),
       (case ec of
          Asio_success \<Rightarrow> withE (\<lambda>s.
            if 0 < cq_size_approx (ve_write_queue E) (write_queue s) then ts_do_write E
            else modifyE (\<lambda>s. s\<lparr>ts_write_in_progress := False\<rparr>))
        | Asio_operation_aborted \<Rightarrow> modifyE (\<lambda>s. s\<lparr>ts_write_in_progress := False\<rparr>)
        | Asio_eof \<Rightarrow> blockE [ts_close E, ts_set_errc (Asio_code ec), ts_open E,
                             modifyE (\<lambda>s. s\<lparr>ts_write_in_progress := False\<rparr>)]
        | Asio_other _ \<Rightarrow> throwE (Asio_error ec))]"

section \<open>The thread\<close>

text \<open>
  The I/O context finishes an operation: a successful accept has opened the socket, the bytes
  of a read are in the buffer the read was started with, and the handler runs. What would lie
  past the end of \<^verbatim>\<open>data_\<close> has no defined place.
\<close>

fun ts_handler ::
  "('k, 'a, 'w, 'r) server_env \<Rightarrow> server_op \<Rightarrow> asio_ec \<Rightarrow> bytes \<Rightarrow> (('k, 'a, 'w, 'r) tcp_server, unit) stmt" where
  "ts_handler E Accept ec v =
     blockE [modifyE (\<lambda>s. if ec = Asio_success then s\<lparr>ts_socket := ve_accepted E (ts_socket s)\<rparr> else s),
             ts_on_accept ec]"
| "ts_handler E (Sv_post p) ec v = ts_on_post E p"
| "ts_handler E Sv_read_header ec v =
     blockE [modifyE (\<lambda>s. if ec = Asio_success
               then s\<lparr>ts_read_packet := fill_header v (ts_read_packet s)\<rparr> else s),
             ts_on_header E ec]"
| "ts_handler E (Sv_read_payload n) ec v =
     (if ec = Asio_success \<and> header_size + n > max_size then throwE Undefined_behaviour
      else blockE [modifyE (\<lambda>s. if ec = Asio_success
                     then s\<lparr>ts_read_packet := fill_payload n v (ts_read_packet s)\<rparr> else s),
                   ts_on_payload E ec])"
| "ts_handler E (Sv_write b) ec v = ts_on_write E ec"

text \<open>
  How the loop of \<^verbatim>\<open>run\<close> goes on when a handler is left: errors of packets and of the transport
  are logged, any other exception closes the transport and ends the thread.
\<close>

definition ts_guard ::
  "('k, 'a, 'w, 'r) server_env \<Rightarrow> (('k, 'a, 'w, 'r) tcp_server, unit) stmt \<Rightarrow>
   (('k, 'a, 'w, 'r) tcp_server, loop_end) stmt" where
  "ts_guard E handler =
     catchE (bindE handler (\<lambda>_. retE Loop)) (\<lambda>e.
       case e of
         Packet_error _ \<Rightarrow> retE Loop
       | Transport_error _ \<Rightarrow> retE Loop
       | Undefined_behaviour \<Rightarrow> throwE e
       | _ \<Rightarrow> bindE (catchE (ts_close E) (\<lambda>e. if e = Undefined_behaviour then throwE e else retE ()))
                (\<lambda>_. retE Leave))"

definition ts_start :: "('k, 'a, 'w, 'r) server_env \<Rightarrow> (('k, 'a, 'w, 'r) tcp_server, unit) stmt" where
  "ts_start E = withE (\<lambda>s.
     if ts_running s then retE ()
     else blockE [modifyE (\<lambda>s. s\<lparr>ts_write_in_progress := False\<rparr>), ts_open E,
                  modifyE (\<lambda>s. s\<lparr>ts_running := True\<rparr>)])"

definition ts_stop :: "('k, 'a, 'w, 'r) server_env \<Rightarrow> (('k, 'a, 'w, 'r) tcp_server, unit) stmt" where
  "ts_stop E = withE (\<lambda>s.
     if \<not> ts_running s then retE ()
     else blockE [ts_close E, modifyE (\<lambda>s. s\<lparr>ts_running := False\<rparr>)])"

definition ts_api :: "('k, 'a, 'w, 'r) server_env \<Rightarrow> ('k, 'a, 'w, 'r) tcp_server transport_api" where
  "ts_api E =
     \<lparr>tr_write = ts_write E, tr_read = transport_read (ve_read_queue E),
      tr_clear_queues = clear_queues (ve_write_queue E) (ve_read_queue E),
      tr_is_open = ts_is_open E, tr_error_code = errc,
      tr_start = ts_start E, tr_stop = ts_stop E\<rparr>"

section \<open>The contract\<close>

definition server_posted :: "server_op list \<Rightarrow> packet list" where
  "server_posted ops = List.map_filter (\<lambda>op. case op of Sv_post p \<Rightarrow> Some p | _ \<Rightarrow> None) ops"

lemma server_posted_simps [simp]:
  "server_posted [] = []" "server_posted (Sv_post p # ops) = p # server_posted ops"
  "server_posted (Accept # ops) = server_posted ops"
  "server_posted (Sv_read_header # ops) = server_posted ops"
  "server_posted (Sv_read_payload n # ops) = server_posted ops"
  "server_posted (Sv_write b # ops) = server_posted ops"
  by (simp_all add: server_posted_def List.map_filter_simps)

lemma server_posted_append [simp]: "server_posted (xs @ ys) = server_posted xs @ server_posted ys"
  by (simp add: server_posted_def map_filter_def)

definition ts_sent :: "('k, 'a, 'w, 'r) server_env \<Rightarrow> ('k, 'a, 'w, 'r) tcp_server \<Rightarrow> packet list" where
  "ts_sent E s = ts_wire s @ cq_items (ve_write_queue E) (write_queue s) @ server_posted (ts_pending s)"

definition ts_received :: "('k, 'a, 'w, 'r) server_env \<Rightarrow> ('k, 'a, 'w, 'r) tcp_server \<Rightarrow> packet list" where
  "ts_received E s = cq_items (ve_read_queue E) (read_queue s)"

definition server_laws :: "('k, 'a, 'w, 'r) server_env \<Rightarrow> bool" where
  "server_laws E \<longleftrightarrow> socket_laws (ve_socket E) \<and> (\<forall>k. sk_is_open (ve_socket E) (ve_accepted E k))
     \<and> (\<forall>a e. fst (ve_cancel E a) = Inl e \<longrightarrow> e = Std_exception System_error)
     \<and> queue_laws (ve_write_queue E) \<and> queue_laws (ve_read_queue E)"

lemma ts_write_run:
  "ts_write E p s =
     (if ts_is_open E s then (Inr (), s\<lparr>ts_pending := ts_pending s @ [Sv_post p]\<rparr>)
      else (Inl (Transport_error Write_while_closed), s))"
  by (simp add: ts_write_def ts_start_op_def prog_run)

lemma ts_posting:
  assumes "server_laws E"
  shows "posting_transport (ts_api E) (ts_sent E) (ts_received E)"
proof -
  have W: "queue_laws (ve_write_queue E)" and R: "queue_laws (ve_read_queue E)"
    using assms by (simp_all add: server_laws_def)
  show ?thesis
  proof unfold_locales
    fix t :: "('a, 'b, 'c, 'd) tcp_server"
    show "\<exists>t'. tr_clear_queues (ts_api E) t = Some t' \<and> ts_received E t' = []
        \<and> tr_is_open (ts_api E) t' = tr_is_open (ts_api E) t
        \<and> tr_error_code (ts_api E) t' = tr_error_code (ts_api E) t"
      using drain_returns [OF W, of "write_queue t"] drain_returns [OF R, of "read_queue t"]
      by (auto simp: ts_api_def clear_queues_def ts_received_def ts_is_open_def)
  qed (auto simp: ts_api_def ts_write_run ts_sent_def ts_received_def ts_is_open_def
      transport_read_def cq_dequeue_Some [OF R] cq_dequeue_None [OF R]
      split: if_splits option.splits prod.splits)
qed

locale tcp_server_library =
  fixes E :: "('k, 'a, 'w, 'r) server_env"
  assumes library: "server_laws E"

sublocale tcp_server_library \<subseteq> posting_transport "ts_api E" "ts_sent E" "ts_received E"
  by (rule ts_posting) (rule library)

definition ref_server_env :: "(bool, unit, packet list, packet list) server_env" where
  "ref_server_env =
     \<lparr>ve_socket = ref_socket, ve_accepted = (\<lambda>_. True), ve_cancel = retE (),
      ve_write_queue = ref_queue_api 100, ve_read_queue = ref_queue_api 100\<rparr>"

lemma ref_server_laws [simp]: "server_laws ref_server_env"
  by (simp add: server_laws_def ref_server_env_def ref_socket_def [THEN arg_cong [of _ _ sk_is_open]] retE_def)

interpretation tcp_server: tcp_server_library ref_server_env
  by unfold_locales simp

text \<open>A server with a connection and nothing to do, for the witnesses.\<close>

definition ref_server :: "(bool, unit, packet list, packet list) tcp_server" where
  "ref_server =
     \<lparr>errc = no_error_code, write_queue = [], read_queue = [], ts_socket = True, ts_acceptor = (),
      ts_read_packet = \<lparr>p_data = replicate 2048 0\<rparr>, ts_write_packet = \<lparr>p_data = replicate 2048 0\<rparr>,
      ts_write_in_progress = False, ts_running = True, ts_pending = [Sv_read_header], ts_wire = []\<rparr>"

end
