(* ===== verification/Tcp_Server_Laws.thy ===== *)
theory Tcp_Server_Laws
  imports Tcp_Server
begin

text \<open>
  What the TCP server keeps and what it does not: it implements the contract of a transport,
  packets leave in the order they were accepted, it accepts again after a connection ended;
  but a header that does not parse leaves two reads outstanding.
\<close>

section \<open>Outstanding writes\<close>

fun is_sv_write :: "server_op \<Rightarrow> bool" where
  "is_sv_write (Sv_write b) = True"
| "is_sv_write _ = False"

definition ts_writes :: "('k, 'a, 'w, 'r) tcp_server \<Rightarrow> server_op list" where
  "ts_writes s = filter is_sv_write (ts_pending s)"

definition ts_writes_ok :: "('k, 'a, 'w, 'r) tcp_server \<Rightarrow> bool" where
  "ts_writes_ok s \<longleftrightarrow> ts_writes s = []
     \<or> ts_writes s = [Sv_write (packet_bytes (ts_write_packet s))] \<and> ts_write_in_progress s"

text \<open>The part of the state that the order of packets rests on, but for the operations.\<close>

definition ts_out :: "('k, 'a, 'w, 'r) tcp_server \<Rightarrow> 'w \<times> packet \<times> bool \<times> packet list" where
  "ts_out s = (write_queue s, ts_write_packet s, ts_write_in_progress s, ts_wire s)"

text \<open>Statements that start only operations that are neither posted functions nor writes.\<close>

definition reads_only :: "(('k, 'a, 'w, 'r) tcp_server, 'b) stmt \<Rightarrow> bool" where
  "reads_only m \<longleftrightarrow> (\<forall>s r s'. m s = (r, s') \<longrightarrow> ts_out s' = ts_out s
     \<and> (\<exists>new. ts_pending s' = ts_pending s @ new \<and> filter is_sv_write new = [] \<and> server_posted new = []))"

lemma reads_onlyI:
  "(\<And>s r s'. m s = (r, s') \<Longrightarrow> ts_out s' = ts_out s
     \<and> (\<exists>new. ts_pending s' = ts_pending s @ new \<and> filter is_sv_write new = [] \<and> server_posted new = []))
   \<Longrightarrow> reads_only m"
  unfolding reads_only_def by blast

lemma reads_onlyE:
  assumes "reads_only m" and "m s = (r, s')"
  obtains new where "ts_out s' = ts_out s" "ts_pending s' = ts_pending s @ new"
    "filter is_sv_write new = []" "server_posted new = []"
  using assms unfolding reads_only_def by blast

named_theorems quiet_rules \<open>statements that only read\<close>

lemma reads_only_bind [quiet_rules]:
  assumes "reads_only m" and "\<And>x. reads_only (f x)"
  shows "reads_only (bindE m f)"
proof (rule reads_onlyI)
  fix s r s' assume run: "bindE m f s = (r, s')"
  obtain r1 s1 where m: "m s = (r1, s1)" by fastforce
  from assms(1) m obtain n1 where 1: "ts_out s1 = ts_out s" "ts_pending s1 = ts_pending s @ n1"
    "filter is_sv_write n1 = []" "server_posted n1 = []" by (rule reads_onlyE)
  show "ts_out s' = ts_out s
     \<and> (\<exists>new. ts_pending s' = ts_pending s @ new \<and> filter is_sv_write new = [] \<and> server_posted new = [])"
  proof (cases r1)
    case (Inl e)
    then show ?thesis using run m 1 by (auto simp: prog_run)
  next
    case (Inr x)
    then have "f x s1 = (r, s')" using run m by (simp add: prog_run)
    with assms(2) obtain n2 where "ts_out s' = ts_out s1" "ts_pending s' = ts_pending s1 @ n2"
      "filter is_sv_write n2 = []" "server_posted n2 = []" by (rule reads_onlyE)
    with 1 show ?thesis by (intro conjI exI [of _ "n1 @ n2"]) simp_all
  qed
qed

lemma reads_only_catch [quiet_rules]:
  assumes "reads_only m" and "\<And>e. reads_only (h e)"
  shows "reads_only (catchE m h)"
proof -
  have "reads_only (bindE (\<lambda>s. case m s of (r, t) \<Rightarrow> (Inr r, t)) (\<lambda>r. case r of Inl e \<Rightarrow> h e | Inr x \<Rightarrow> retE x))"
  proof (rule reads_only_bind)
    show "reads_only (\<lambda>s. case m s of (r, t) \<Rightarrow> (Inr r, t))"
      using assms(1) unfolding reads_only_def by (auto split: prod.splits)
    show "reads_only (case r of Inl e \<Rightarrow> h e | Inr x \<Rightarrow> retE x)" for r
      using assms(2) by (auto simp: reads_only_def retE_def split: sum.split)
  qed
  moreover have "bindE (\<lambda>s. case m s of (r, t) \<Rightarrow> (Inr r, t)) (\<lambda>r. case r of Inl e \<Rightarrow> h e | Inr x \<Rightarrow> retE x)
      = catchE m h"
    by (rule ext) (auto simp: bindE_def catchE_def retE_def split: prod.splits sum.splits)
  ultimately show ?thesis by simp
qed

lemma reads_only_same:
  "(\<And>s r s'. m s = (r, s') \<Longrightarrow> ts_out s' = ts_out s \<and> ts_pending s' = ts_pending s) \<Longrightarrow> reads_only m"
  by (rule reads_onlyI) simp

lemma reads_only_basic [quiet_rules]:
  "reads_only (retE x)" "reads_only (throwE e)" "reads_only (liftE q)" "reads_only (ts_set_errc c)"
  "reads_only (ts_on_socket m)" "reads_only (ts_on_acceptor n)" "reads_only (blockE [])"
  by (rule reads_only_same, auto simp: prog_run ts_set_errc_def ts_on_socket_def ts_on_acceptor_def
      ts_out_def retE_def split: prod.splits)+

lemma reads_only_with [quiet_rules]: "(\<And>s. reads_only (f s)) \<Longrightarrow> reads_only (withE f)"
  unfolding reads_only_def by (simp add: prog_run)

lemma reads_only_when [quiet_rules]: "reads_only m \<Longrightarrow> reads_only (whenE b m)"
  by (simp add: whenE_def reads_only_basic(1))

lemma reads_only_block [quiet_rules]: "reads_only m \<Longrightarrow> reads_only (blockE ms) \<Longrightarrow> reads_only (blockE (m # ms))"
  by (simp add: reads_only_bind)

lemma reads_only_ops [quiet_rules]:
  "reads_only (ts_start_op Accept)" "reads_only (ts_start_op (Sv_read_payload n))" "reads_only ts_read_header"
  by (rule reads_onlyI, auto simp: ts_read_header_def ts_start_op_def prog_run ts_out_def)+

lemma reads_only_if [quiet_rules]: "reads_only m \<Longrightarrow> reads_only n \<Longrightarrow> reads_only (if b then m else n)"
  by simp

lemma reads_only_close [quiet_rules]: "reads_only (ts_close E)"
  unfolding ts_close_def by (intro quiet_rules)

lemma reads_only_open [quiet_rules]: "reads_only (ts_open E)"
  unfolding ts_open_def by (intro quiet_rules)

lemma reads_only_modify:
  "(\<And>s. ts_out (f s) = ts_out s \<and> ts_pending (f s) = ts_pending s) \<Longrightarrow> reads_only (modifyE f)"
  by (rule reads_only_same) (auto simp: prog_run)

lemma reads_only_handlers:
  "reads_only (ts_on_accept ec)" "reads_only (ts_on_header E ec)" "reads_only (ts_on_payload E ec)"
proof -
  show "reads_only (ts_on_accept ec)" unfolding ts_on_accept_def by (intro quiet_rules)
  have "reads_only ts_read_payload"
    unfolding ts_read_payload_def by (intro quiet_rules) (auto intro!: quiet_rules split: exn.split)
  then show "reads_only (ts_on_header E ec)"
    unfolding ts_on_header_def by (intro quiet_rules) (auto intro!: quiet_rules split: asio_ec.split)
  have "reads_only (ts_accept_packet E)"
    unfolding ts_accept_packet_def
    by (intro quiet_rules) (auto intro!: quiet_rules reads_only_modify simp: ts_out_def split: option.split)
  then show "reads_only (ts_on_payload E ec)"
    unfolding ts_on_payload_def by (intro quiet_rules) (auto intro!: quiet_rules split: asio_ec.split)
qed

section \<open>Writing\<close>

lemma ts_do_write_run:
  "ts_do_write E s = (case cq_try_dequeue (ve_write_queue E) (write_queue s) of
      None \<Rightarrow> (Inr (), s)
    | Some (p, q) \<Rightarrow> (Inr (), s\<lparr>write_queue := q, ts_write_packet := p, ts_write_in_progress := True,
        ts_pending := ts_pending s @ [Sv_write (packet_bytes p)], ts_wire := ts_wire s @ [p]\<rparr>))"
  by (simp add: ts_do_write_def ts_start_op_def prog_run split: option.split prod.split)

text \<open>
  The packets that are on the wire or queued, and the outstanding writes: what a handler may
  do to them.
\<close>

definition ts_queued :: "('k, 'a, 'w, 'r) server_env \<Rightarrow> ('k, 'a, 'w, 'r) tcp_server \<Rightarrow> packet list" where
  "ts_queued E s = ts_wire s @ cq_items (ve_write_queue E) (write_queue s)"

lemma ts_sent_queued: "ts_sent E s = ts_queued E s @ server_posted (ts_pending s)"
  by (simp add: ts_sent_def ts_queued_def)

definition keeps_order ::
  "('k, 'a, 'w, 'r) server_env \<Rightarrow> ('k, 'a, 'w, 'r) tcp_server \<Rightarrow> ('k, 'a, 'w, 'r) tcp_server \<Rightarrow> packet list \<Rightarrow> bool" where
  "keeps_order E s s' ps \<longleftrightarrow> ts_queued E s' = ts_queued E s @ ps \<and> ts_writes_ok s'
     \<and> (\<exists>w. ts_wire s' = ts_wire s @ w) \<and> server_posted (ts_pending s') = server_posted (ts_pending s)"

lemma reads_only_keeps:
  assumes "reads_only m" and "m s = (r, s')" and "ts_writes_ok s"
  shows "keeps_order E s s' []"
  using assms(1,2)
  by (rule reads_onlyE)
    (use assms(3) in \<open>auto simp: keeps_order_def ts_queued_def ts_out_def ts_writes_ok_def ts_writes_def\<close>)

lemma ts_on_post_keeps:
  assumes W: "queue_laws (ve_write_queue E)" and run: "ts_on_post E p s = (r, s')" and ok: "ts_writes_ok s"
  shows "if r = Inl (Transport_error Write_queue_full) then s' = s else r = Inr () \<and> keeps_order E s s' [p]"
proof (cases "cq_try_enqueue (ve_write_queue E) (write_queue s) p")
  case None
  then show ?thesis using run by (auto simp: ts_on_post_def prog_run)
next
  case (Some q)
  note q = cq_enqueue_law [OF W Some]
  show ?thesis
  proof (cases "ts_write_in_progress s")
    case True
    then show ?thesis
      using run Some q ok
      by (auto simp: ts_on_post_def prog_run keeps_order_def ts_queued_def ts_writes_ok_def ts_writes_def)
  next
    case False
    then obtain x q' where x: "cq_try_dequeue (ve_write_queue E) q = Some (x, q')"
      using q cq_dequeue_None [OF W, of q] by (cases "cq_try_dequeue (ve_write_queue E) q") auto
    show ?thesis
      using run Some q x False cq_dequeue_Some [OF W x] ok
      by (auto simp: ts_on_post_def prog_run ts_do_write_run keeps_order_def ts_queued_def
          ts_writes_ok_def ts_writes_def)
  qed
qed

lemma ts_on_write_keeps:
  assumes W: "queue_laws (ve_write_queue E)" and run: "ts_on_write E ec s = (r, s')" and idle: "ts_writes s = []"
  shows "keeps_order E s s' []"
proof -
  have ok: "ts_writes_ok s" using idle by (simp add: ts_writes_ok_def)
  have done_writing: "keeps_order E s (t\<lparr>ts_write_in_progress := False\<rparr>) []"
    if "keeps_order E s t []" "ts_writes t = []" for t
    using that by (simp add: keeps_order_def ts_queued_def ts_writes_ok_def ts_writes_def)
  show ?thesis
  proof (cases ec)
    case Asio_success
    then show ?thesis
      using run idle cq_dequeue_Some [OF W] cq_size_law [OF W]
      by (auto simp: ts_on_write_def ts_set_errc_def prog_run ts_do_write_run keeps_order_def ts_queued_def
          ts_writes_ok_def ts_writes_def split: if_splits option.splits)
  next
    case Asio_eof
    have "reads_only (blockE [ts_set_errc (Asio_code ec), ts_close E, ts_set_errc (Asio_code ec), ts_open E])"
      (is "reads_only ?m") by (intro quiet_rules)
    obtain r1 t where m: "?m s = (r1, t)" by fastforce
    have t: "keeps_order E s t []" by (rule reads_only_keeps [OF \<open>reads_only ?m\<close> m ok])
    have none: "ts_writes t = []"
      using \<open>reads_only ?m\<close> m by (rule reads_onlyE) (simp add: idle [unfolded ts_writes_def] ts_writes_def)
    have split: "ts_on_write E ec = bindE ?m (\<lambda>_. blockE [modifyE (\<lambda>s. s\<lparr>ts_write_in_progress := False\<rparr>)])"
      by (simp add: ts_on_write_def Asio_eof bindE_assoc)
    show ?thesis
      using run m t done_writing [OF t none]
      by (cases r1) (auto simp: split run_bindE run_modifyE run_retE)
  qed (use run idle in \<open>auto simp: ts_on_write_def ts_set_errc_def prog_run keeps_order_def ts_queued_def
      ts_writes_ok_def ts_writes_def\<close>)
qed

section \<open>One completion\<close>

lemma ts_handler_keeps:
  assumes laws: "server_laws E" and ok: "ts_writes_ok s" and pend: "ts_pending s = xs @ op # ys"
    and run: "ts_handler E op ec v (s\<lparr>ts_pending := xs @ ys\<rparr>) = (r, s')"
  shows "if op \<in> range Sv_post \<and> r = Inl (Transport_error Write_queue_full) then s' = s\<lparr>ts_pending := xs @ ys\<rparr>
    else keeps_order E (s\<lparr>ts_pending := xs @ ys\<rparr>) s' (server_posted [op])"
proof -
  let ?s = "s\<lparr>ts_pending := xs @ ys\<rparr>"
  have W: "queue_laws (ve_write_queue E)" using laws by (simp add: server_laws_def)
  have ok': "ts_writes_ok ?s" if "\<not> is_sv_write op"
    using ok that pend by (auto simp: ts_writes_ok_def ts_writes_def)
  have quiet: ?thesis if "reads_only m" "m ?s = (r, s')" "op \<notin> range Sv_post" "\<not> is_sv_write op" for m
    using reads_only_keeps [OF that(1,2) ok' [OF that(4)]] that(3,4) by (cases op) simp_all
  show ?thesis
  proof (cases op)
    case Accept
    have "reads_only (ts_handler E Accept ec v)"
      by (simp del: blockE.simps) (intro quiet_rules reads_only_handlers reads_only_modify, simp add: ts_out_def)
    from quiet [OF this] run Accept show ?thesis by auto
  next
    case (Sv_post p)
    have "ts_on_post E p ?s = (r, s')" using run Sv_post by simp
    from ts_on_post_keeps [OF W this ok'] Sv_post show ?thesis by (auto split: if_splits)
  next
    case Sv_read_header
    have "reads_only (ts_handler E Sv_read_header ec v)"
      by (simp del: blockE.simps) (intro quiet_rules reads_only_handlers reads_only_modify, simp add: ts_out_def)
    from quiet [OF this] run Sv_read_header show ?thesis by auto
  next
    case (Sv_read_payload n)
    have "reads_only (ts_handler E (Sv_read_payload n) ec v)"
      by (simp del: blockE.simps)
        (intro conjI impI quiet_rules reads_only_handlers reads_only_modify, simp_all add: ts_out_def)
    from quiet [OF this] run Sv_read_payload show ?thesis by auto
  next
    case (Sv_write b)
    then have "ts_writes ?s = []"
      using ok pend by (auto simp: ts_writes_ok_def ts_writes_def Cons_eq_append_conv append_eq_Cons_conv
          filter_empty_conv)
    moreover have "ts_on_write E ec ?s = (r, s')" using run Sv_write by simp
    ultimately have "keeps_order E ?s s' []" using ts_on_write_keeps [OF W] by blast
    then show ?thesis using Sv_write by auto
  qed
qed

section \<open>Steps\<close>

text \<open>
  A step is a write of a user thread or the completion of one pending operation; posted
  functions run in the order they were posted. The handler runs under the loop of \<^verbatim>\<open>run\<close>.
\<close>

inductive ts_step ::
  "('k, 'a, 'w, 'r) server_env \<Rightarrow> ('k, 'a, 'w, 'r) tcp_server \<Rightarrow> ('k, 'a, 'w, 'r) tcp_server \<Rightarrow> bool" for E where
  user_write: "ts_write E p s = (r, s') \<Longrightarrow> ts_step E s s'"
| completion: "ts_pending s = xs @ op # ys \<Longrightarrow> (\<And>p. op = Sv_post p \<Longrightarrow> server_posted xs = []) \<Longrightarrow>
     ts_guard E (ts_handler E op ec v) (s\<lparr>ts_pending := xs @ ys\<rparr>) = (r, s') \<Longrightarrow> ts_step E s s'"

text \<open>A server whose thread has begun: it waits for a connection.\<close>

definition ts_begun :: "('k, 'a, 'w, 'r) tcp_server \<Rightarrow> bool" where
  "ts_begun s \<longleftrightarrow> ts_pending s = [Accept] \<and> \<not> ts_write_in_progress s"

text \<open>The loop adds nothing but the end of the connection.\<close>

lemma ts_guard_cases:
  assumes run: "ts_guard E h s = (r, s')" and P: "P s' \<Longrightarrow> Q"
    and quiet: "\<And>m s1 (r1 :: exn + loop_end) s2. reads_only m \<Longrightarrow> m s1 = (r1, s2) \<Longrightarrow> P s1 \<Longrightarrow> P s2"
    and h: "\<And>q s1. h s = (q, s1) \<Longrightarrow> P s1"
  shows Q
proof (rule P)
  obtain q s1 where hs: "h s = (q, s1)" by fastforce
  let ?leave = "bindE (catchE (ts_close E) (\<lambda>e. if e = Undefined_behaviour then throwE e else retE ())) (\<lambda>_. retE Leave)"
  have "reads_only ?leave" by (intro quiet_rules)
  moreover obtain r2 s2 where l: "?leave s1 = (r2, s2)" by fastforce
  ultimately have "P s2" using quiet h [OF hs] by blast
  moreover have "s' = s1 \<or> s' = s2"
    using run hs l by (auto simp: ts_guard_def run_bindE run_catchE run_retE run_throwE split: sum.splits exn.splits)
  ultimately show "P s'" using h [OF hs] by blast
qed

lemma keeps_order_quiet:
  assumes "reads_only m" and "m s1 = (r, s2)" and "keeps_order E s s1 ps"
  shows "keeps_order E s s2 ps"
  using reads_only_keeps [OF assms(1,2), of E] assms(3) by (auto simp: keeps_order_def)

lemma ts_completion:
  assumes laws: "server_laws E" and ok: "ts_writes_ok s" and pend: "ts_pending s = xs @ op # ys"
    and run: "ts_guard E (ts_handler E op ec v) (s\<lparr>ts_pending := xs @ ys\<rparr>) = (r, s')"
  shows "keeps_order E (s\<lparr>ts_pending := xs @ ys\<rparr>) s' (server_posted [op])
    \<or> op \<in> range Sv_post \<and> r = Inr Loop \<and> s' = s\<lparr>ts_pending := xs @ ys\<rparr>"
proof -
  let ?s = "s\<lparr>ts_pending := xs @ ys\<rparr>"
  obtain q s1 where h: "ts_handler E op ec v ?s = (q, s1)" by fastforce
  note k = ts_handler_keeps [OF laws ok pend h]
  show ?thesis
  proof (cases "op \<in> range Sv_post \<and> q = Inl (Transport_error Write_queue_full)")
    case True
    then show ?thesis using run h k by (auto simp: ts_guard_def run_catchE run_bindE run_retE)
  next
    case False
    show ?thesis
    proof (rule ts_guard_cases [OF run, where P = "\<lambda>t. keeps_order E ?s t (server_posted [op])"])
      show "keeps_order E ?s t (server_posted [op])" if "ts_handler E op ec v ?s = (q', t)" for q' t
        using that h k False by (auto split: if_splits)
    qed (use keeps_order_quiet in blast)+
  qed
qed

lemma ts_step_ok:
  assumes laws: "server_laws E" and step: "ts_step E s s'" and ok: "ts_writes_ok s"
  shows "ts_writes_ok s'"
  using step
proof (cases rule: ts_step.cases)
  case (user_write p r)
  then show ?thesis using ok by (auto simp: ts_write_run ts_writes_ok_def ts_writes_def split: if_splits)
next
  case (completion xs op ys ec v r)
  have "ts_writes_ok (s\<lparr>ts_pending := xs @ ys\<rparr>)" if "op \<in> range Sv_post"
    using ok that completion(1) by (auto simp: ts_writes_ok_def ts_writes_def)
  then show ?thesis using ts_completion [OF laws ok completion(1,3)] by (auto simp: keeps_order_def)
qed

sublocale tcp_server_library \<subseteq> io: invariant_system ts_begun "ts_step E" ts_writes_ok
proof unfold_locales
  show "ts_writes_ok s" if "ts_begun s" for s :: "('k, 'a, 'w, 'r) tcp_server"
    using that by (simp add: ts_begun_def ts_writes_ok_def ts_writes_def)
  show "ts_writes_ok t" if "ts_writes_ok s" "ts_step E s t" for s t :: "('k, 'a, 'w, 'r) tcp_server"
    using ts_step_ok [OF library that(2,1)] .
qed

context tcp_server_library
begin

lemma server_reach_ok: "reach ts_begun (ts_step E) s \<Longrightarrow> ts_writes_ok s"
  by (rule io.reach_inv)

end

section \<open>Properties\<close>

text \<open>
  The TCP server implements the contract of a transport on which the applications rest,
  over every socket, acceptor and queues that keep their laws: while it is closed \<^verbatim>\<open>write\<close>
  throws \<open>write_while_closed\<close> and changes nothing, while it is open every packet is accepted, packets
  are read in the order they were received, and \<^verbatim>\<open>clear_queues\<close> returns and empties both queues.
\<close>

theorem tcp_server_contract:
  assumes "server_laws E"
  shows "posting_transport (ts_api E) (ts_sent E) (ts_received E)"
  using assms by (rule ts_posting)

theorem tcp_server_contract_witness:
  "posting_transport (ts_api ref_server_env) (ts_sent ref_server_env) (ts_received ref_server_env)"
  by (rule tcp_server_contract) simp

text \<open>
  In every state the server's thread reaches, the completion of an operation hands zero or
  more packets to the socket and leaves the sequence of accepted packets (sent, queued or
  posted) as it is, whatever becomes of connections meanwhile, and at most one write is
  outstanding. Only a posted packet that the full queue has no room for is dropped, with
  nothing else changed, and then the thread goes on.
\<close>

theorem tcp_server_order:
  assumes "server_laws E" and "reach ts_begun (ts_step E) s"
    and "ts_pending s = xs @ op # ys" and "\<forall>p. op = Sv_post p \<longrightarrow> server_posted xs = []"
    and "ts_guard E (ts_handler E op ec v) (s\<lparr>ts_pending := xs @ ys\<rparr>) = (r, s')"
  shows "length (ts_writes s') \<le> 1 \<and> (\<exists>ps. ts_wire s' = ts_wire s @ ps) \<and>
    (ts_sent E s' = ts_sent E s
     \<or> (\<exists>p. op = Sv_post p \<and> r = Inr Loop \<and> s' = s\<lparr>ts_pending := xs @ ys\<rparr>))"
proof -
  have lib: "tcp_server_library E" using assms(1) by unfold_locales
  have ok: "ts_writes_ok s" using tcp_server_library.server_reach_ok [OF lib assms(2)] .
  have "ts_step E s s'" using assms(3,4,5) by (intro ts_step.completion) auto
  then have "ts_writes_ok s'" using ts_step_ok [OF assms(1) _ ok] by blast
  then have "length (ts_writes s') \<le> 1" by (auto simp: ts_writes_ok_def)
  moreover have "ts_sent E s' = ts_sent E s" if "keeps_order E (s\<lparr>ts_pending := xs @ ys\<rparr>) s' (server_posted [op])"
    using that assms(3,4) by (cases op) (auto simp: keeps_order_def ts_sent_queued ts_queued_def)
  ultimately show ?thesis
    using ts_completion [OF assms(1) ok assms(3,5)] by (auto simp: keeps_order_def)
qed

theorem tcp_server_order_witness:
  "\<exists>r s'. ts_guard ref_server_env (ts_handler ref_server_env Accept Asio_success [])
       (ref_server\<lparr>ts_pending := []\<rparr>) = (r, s')
     \<and> ts_sent ref_server_env s' = ts_sent ref_server_env (ref_server\<lparr>ts_pending := [Accept]\<rparr>)"
proof -
  let ?s = "ref_server\<lparr>ts_pending := [Accept]\<rparr>"
  obtain r s' where run: "ts_guard ref_server_env (ts_handler ref_server_env Accept Asio_success [])
      (?s\<lparr>ts_pending := [] @ []\<rparr>) = (r, s')" by fastforce
  have "reach ts_begun (ts_step ref_server_env) ?s"
    by (rule reach_init) (simp add: ts_begun_def ref_server_def)
  from tcp_server_order [OF ref_server_laws this _ _ run] run show ?thesis by auto
qed

text \<open>
  When the other side ends the connection between two packets, the server closes its
  socket, remembers the end of file as its error and waits for the next connection; when that
  is accepted it is open, without error, and reads the next header.
\<close>

theorem tcp_server_reaccepts:
  assumes "server_laws E" and "ts_close E (s\<lparr>errc := Asio_code Asio_eof\<rparr>) = (Inr (), s1)"
  shows "\<exists>s' s''. ts_guard E (ts_handler E Sv_read_header Asio_eof v) s = (Inr Loop, s')
    \<and> \<not> ts_is_open E s' \<and> errc s' = Asio_code Asio_eof \<and> ts_pending s' = ts_pending s @ [Accept]
    \<and> ts_guard E (ts_handler E Accept Asio_success []) (s'\<lparr>ts_pending := ts_pending s\<rparr>) = (Inr Loop, s'')
    \<and> ts_is_open E s'' \<and> errc s'' = Asio_code Asio_success \<and> ts_pending s'' = ts_pending s @ [Sv_read_header]"
proof -
  let ?s = "s\<lparr>errc := Asio_code Asio_eof\<rparr>"
  obtain a s0 where pre: "ts_on_socket (sk_close (ve_socket E)) s0 = (Inr a, s1)"
    using assms(2) by (auto simp: ts_close_def prog_run split: sum.splits prod.splits)
  then have closed: "\<not> ts_is_open E s1"
    using assms(1) sk_laws(3) [of "ve_socket E"]
    by (auto simp: ts_on_socket_def prog_run ts_is_open_def server_laws_def split: prod.splits)
  have "reads_only (ts_close E)" by (rule quiet_rules)
  have keep: "errc s1 = Asio_code Asio_eof" "ts_pending s1 = ts_pending s"
    using assms(2) by (auto simp: ts_close_def prog_run ts_on_socket_def ts_on_acceptor_def
        split: sum.splits prod.splits if_splits)
  let ?s' = "s1\<lparr>ts_pending := ts_pending s1 @ [Accept]\<rparr>"
  have 1: "ts_guard E (ts_handler E Sv_read_header Asio_eof v) s = (Inr Loop, ?s')"
    using assms(2) closed
    by (simp add: ts_guard_def ts_on_header_def ts_set_errc_def prog_run ts_open_def ts_start_op_def)
  let ?s'' = "s1\<lparr>ts_socket := ve_accepted E (ts_socket s1), errc := Asio_code Asio_success,
      ts_pending := ts_pending s @ [Sv_read_header]\<rparr>"
  have 2: "ts_guard E (ts_handler E Accept Asio_success []) (?s'\<lparr>ts_pending := ts_pending s\<rparr>) = (Inr Loop, ?s'')"
    by (simp add: ts_guard_def ts_on_accept_def ts_set_errc_def ts_read_header_def ts_start_op_def prog_run)
  show ?thesis
    using 1 2 closed keep assms(1)
    by (intro exI [of _ ?s'] exI [of _ ?s'']) (simp add: ts_is_open_def server_laws_def)
qed

theorem tcp_server_reaccepts_witness:
  "\<exists>s'. ts_guard ref_server_env (ts_handler ref_server_env Sv_read_header Asio_eof []) (ref_server\<lparr>ts_pending := []\<rparr>)
      = (Inr Loop, s') \<and> ts_pending s' = [Accept]"
proof -
  have "\<exists>s1. ts_close ref_server_env (ref_server\<lparr>ts_pending := [], errc := Asio_code Asio_eof\<rparr>) = (Inr (), s1)"
    by (simp add: ts_close_def prog_run ts_on_socket_def ts_on_acceptor_def ref_server_env_def ref_socket_def)
  then show ?thesis
    using tcp_server_reaccepts [OF ref_server_laws, of "ref_server\<lparr>ts_pending := []\<rparr>"] by fastforce
qed

text \<open>
  C39: A header that does not parse is not discarded cleanly. The handler starts the read of the
  next header and, because it does not return, also the read of a payload of the length the
  ill-formed header announces, which nothing has checked: two reads are outstanding, and when
  the length exceeds what the storage of a packet holds, the bytes of that read are written
  past its end.
\<close>

theorem tcp_server_bad_header:
  assumes "parse_header (fill_header v (ts_read_packet s)) = Inl (Packet_error e)"
    and "n = payload_len (fill_header v (ts_read_packet s))"
  shows "\<exists>s'. ts_guard E (ts_handler E Sv_read_header Asio_success v) s = (Inr Loop, s')
    \<and> ts_pending s' = ts_pending s @ [Sv_read_header, Sv_read_payload n]
    \<and> (max_size < header_size + n \<longrightarrow>
        (\<forall>w t. fst (ts_guard E (ts_handler E (Sv_read_payload n) Asio_success w) t) = Inl Undefined_behaviour))"
  using assms
  by (simp add: ts_guard_def ts_on_header_def ts_set_errc_def ts_read_payload_def ts_read_header_def
      ts_start_op_def prog_run)

theorem tcp_server_bad_header_witness:
  "\<exists>s'. ts_guard ref_server_env (ts_handler ref_server_env Sv_read_header Asio_success (replicate 13 255)) ref_server
       = (Inr Loop, s')
     \<and> Sv_read_payload 65535 \<in> set (ts_pending s')
     \<and> fst (ts_guard ref_server_env (ts_handler ref_server_env (Sv_read_payload 65535) Asio_success []) s')
       = Inl Undefined_behaviour"
proof -
  let ?p = "fill_header (replicate 13 255) (ts_read_packet ref_server)"
  have d: "p_data ?p = replicate 13 255 @ replicate 2035 0"
    by (simp add: fill_header_def overwrite_def format_sizes ref_server_def)
  have "le_u16 255 255 = 65535" by (simp add: le_u16_def)
  then have h: "h_sop (read_header (take header_size (p_data ?p))) = 65535" "payload_len ?p = 65535"
    using d by (simp_all add: read_header_def format_sizes payload_len_def p_header_def nth_append)
  have "\<exists>e. parse_header ?p = Inl (Packet_error e)"
    using d h(1) by (simp add: parse_header_def parse_header_view_def header_size_def sop_def Let_def)
  then obtain e where "parse_header ?p = Inl (Packet_error e)" ..
  from tcp_server_bad_header [OF this refl, of ref_server_env] h(2) show ?thesis
    by (auto simp: format_sizes)
qed

end
