(* ===== verification/Tcp_Stream.thy ===== *)
theory Tcp_Stream
  imports Tcp_Client_Laws Tcp_Server_Laws
begin

text \<open>
  Packets over a byte stream. A TCP connection carries bytes, not packets: what a client's
  writes put in, the server's reads of headers and payloads must take apart again, and the
  other way round.
\<close>

section \<open>A packet in two reads\<close>

text \<open>
  Reading the header and then the payload of a valid packet into an object leaves there what
  the constructor would have stored.
\<close>

lemma refill:
  fixes p r :: packet
  defines "h \<equiv> take header_size (packet_bytes p)" and "v \<equiv> drop header_size (packet_bytes p)"
  defines "r1 \<equiv> fill_header h r"
  defines "r2 \<equiv> fill_payload (payload_len p) v r1"
  assumes p: "valid_packet p" and r: "storage (p_data r)"
  shows "length h = header_size" "length v = payload_len p" "header_size + payload_len p \<le> max_size"
    "parse_header r1 = Inr ()" "payload_len r1 = payload_len p" "storage (p_data r1)"
    "valid_packet r2" "packet_bytes r2 = packet_bytes p" "packet_blocks r2 = packet_blocks p"
    "parse_payload r2 = Inr ()" "storage (p_data r2)"
proof -
  note V = valid_packet_views [OF p]
  have len: "length (packet_bytes p) = header_size + payload_len p"
    using V(3,4) by (simp add: packet_bytes_def packet_size_def)
  then show lh: "length h = header_size" and "length v = payload_len p" by (simp_all add: h_def v_def)
  show room: "header_size + payload_len p \<le> max_size" using V(3) by (simp add: packet_size_def)
  have h: "h = take header_size (p_data p)"
    using room by (simp add: h_def packet_bytes_def packet_size_def min_absorb1)
  have d1: "p_data r1 = h @ drop header_size (p_data r)"
    using lh by (simp add: r1_def fill_header_def overwrite_def)
  have hd: "take header_size (p_data r1) = h" using lh by (simp add: d1)
  have "header_size \<le> length (p_data r1)" using lh by (simp add: d1)
  moreover have "parse_header_view (take header_size (p_data r1)) = Inr (p_header p)"
    using V(1) by (simp only: hd h)
  ultimately have "p_header r1 = p_header p"
    using parse_header_view_read by (simp add: p_header_def [of r1])
  then show n: "payload_len r1 = payload_len p" by (simp add: payload_len_def)
  show "parse_header r1 = Inr ()" using V(1) by (simp add: parse_header_def hd h)
  show s1: "storage (p_data r1)" using r by (simp add: r1_def storage_fill)
  have "h @ take (payload_len p) v = packet_bytes p" using len by (simp add: h_def v_def)
  then have r2: "r2 = \<lparr>p_data = overwrite (p_data r1) (packet_bytes p)\<rparr>"
    by (simp add: r2_def fill_payload_def hd)
  show ok: "valid_packet r2" and "packet_bytes r2 = packet_bytes p" and "packet_blocks r2 = packet_blocks p"
    using wire_stored(2,4,5) [OF p s1] by (simp_all add: r2)
  show "parse_payload r2 = Inr ()" "storage (p_data r2)" using ok by (simp_all add: valid_packet_def)
qed

section \<open>Readers of a stream\<close>

text \<open>
  What a transport that reads a stream promises: in a state that is \<open>ready\<close>, while there is room,
  it takes the next packet off the stream and is ready again.
\<close>

locale packet_reader =
  fixes input :: "bytes \<times> 's \<Rightarrow> bytes \<times> 's \<Rightarrow> bool" and ready :: "'s \<Rightarrow> bool"
    and got :: "'s \<Rightarrow> packet list" and n :: nat
  assumes read_one: "valid_packet p \<Longrightarrow> ready s \<Longrightarrow> length (got s) < n \<Longrightarrow>
    \<exists>s' q. input\<^sup>*\<^sup>* (packet_bytes p @ w, s) (w, s') \<and> ready s' \<and> got s' = got s @ [q]
      \<and> valid_packet q \<and> packet_bytes q = packet_bytes p \<and> packet_blocks q = packet_blocks p"
begin

lemma read_all:
  "list_all valid_packet ps \<Longrightarrow> ready s \<Longrightarrow> length (got s) + length ps \<le> n \<Longrightarrow>
    \<exists>s' qs. input\<^sup>*\<^sup>* (concat (map packet_bytes ps) @ w, s) (w, s') \<and> ready s' \<and> got s' = got s @ qs
      \<and> list_all valid_packet qs \<and> map packet_bytes qs = map packet_bytes ps
      \<and> map packet_blocks qs = map packet_blocks ps"
proof (induction ps arbitrary: s)
  case Nil
  then show ?case by (intro exI [of _ s] exI [of _ "[]"]) simp
next
  case (Cons p ps)
  have p: "valid_packet p" "length (got s) < n" using Cons.prems(1,3) by simp_all
  obtain s1 q where one: "input\<^sup>*\<^sup>* (packet_bytes p @ concat (map packet_bytes ps) @ w, s) (concat (map packet_bytes ps) @ w, s1)"
    "ready s1" "got s1 = got s @ [q]" "valid_packet q" "packet_bytes q = packet_bytes p"
    "packet_blocks q = packet_blocks p"
    using read_one [OF p(1) Cons.prems(2) p(2)] by blast
  have rest: "list_all valid_packet ps" "length (got s1) + length ps \<le> n"
    using Cons.prems(1,3) one(3) by simp_all
  obtain s2 qs where "input\<^sup>*\<^sup>* (concat (map packet_bytes ps) @ w, s1) (w, s2)" "ready s2" "got s2 = got s1 @ qs"
    "list_all valid_packet qs" "map packet_bytes qs = map packet_bytes ps" "map packet_blocks qs = map packet_blocks ps"
    using Cons.IH [OF rest(1) one(2) rest(2)] by blast
  then show ?case
    using one by (intro exI [of _ s2] exI [of _ "q # qs"]) (simp add: rtranclp_trans [OF one(1)])
qed

end

text \<open>A read queue with room for \<open>n\<close> packets.\<close>

definition holds_up_to :: "('q, packet) queue_api \<Rightarrow> nat \<Rightarrow> bool" where
  "holds_up_to Q n \<longleftrightarrow> (\<forall>q x. length (cq_items Q q) < n \<longrightarrow> cq_try_enqueue Q q x \<noteq> None)"

lemma ref_queue_holds [simp]: "holds_up_to (ref_queue_api n) n"
  by (simp add: holds_up_to_def ref_queue_api_def)

section \<open>The server's reads\<close>

text \<open>
  The I/O context completes a read with as many of the next bytes of the stream as the read
  was started for. Each of these steps is a step of the server.
\<close>

inductive ts_input ::
  "('k, 'a, 'w, 'r) server_env \<Rightarrow> bytes \<times> ('k, 'a, 'w, 'r) tcp_server \<Rightarrow> bytes \<times> ('k, 'a, 'w, 'r) tcp_server \<Rightarrow> bool"
  for E where
  header: "ts_pending s = xs @ Sv_read_header # ys \<Longrightarrow> length v = header_size \<Longrightarrow>
    ts_guard E (ts_handler E Sv_read_header Asio_success v) (s\<lparr>ts_pending := xs @ ys\<rparr>) = (Inr Loop, s') \<Longrightarrow>
    ts_input E (v @ w, s) (w, s')"
| payload: "ts_pending s = xs @ Sv_read_payload n # ys \<Longrightarrow> length v = n \<Longrightarrow>
    ts_guard E (ts_handler E (Sv_read_payload n) Asio_success v) (s\<lparr>ts_pending := xs @ ys\<rparr>) = (Inr Loop, s') \<Longrightarrow>
    ts_input E (v @ w, s) (w, s')"

lemma ts_input_step:
  assumes "ts_input E a b"
  shows "ts_step E (snd a) (snd b)"
  using assms by cases (auto intro: ts_step.completion simp del: ts_handler.simps)

lemma ts_packet_read:
  assumes p: "valid_packet p" and r: "storage (p_data (ts_read_packet s))"
    and pend: "ts_pending s = [Sv_read_header]"
    and room: "\<And>x. cq_try_enqueue (ve_read_queue E) (read_queue s) x \<noteq> None" and R: "queue_laws (ve_read_queue E)"
  shows "\<exists>s' q. (ts_input E)\<^sup>*\<^sup>* (packet_bytes p @ w, s) (w, s') \<and> ts_pending s' = [Sv_read_header]
    \<and> storage (p_data (ts_read_packet s')) \<and> ts_received E s' = ts_received E s @ [q]
    \<and> valid_packet q \<and> packet_bytes q = packet_bytes p \<and> packet_blocks q = packet_blocks p"
proof -
  let ?h = "take header_size (packet_bytes p)" and ?v = "drop header_size (packet_bytes p)"
  let ?r1 = "fill_header ?h (ts_read_packet s)"
  let ?r2 = "fill_payload (payload_len p) ?v ?r1"
  note f = refill [OF p r]
  obtain q where q: "cq_try_enqueue (ve_read_queue E) (read_queue s) ?r2 = Some q" using room by fastforce
  let ?s1 = "s\<lparr>ts_pending := [Sv_read_payload (payload_len p)], ts_read_packet := ?r1, errc := Asio_code Asio_success\<rparr>"
  have "ts_guard E (ts_handler E Sv_read_header Asio_success ?h) (s\<lparr>ts_pending := [] @ []\<rparr>) = (Inr Loop, ?s1)"
    using f(4,5)
    by (simp add: ts_guard_def ts_on_header_def ts_set_errc_def ts_read_payload_def ts_start_op_def prog_run)
  then have "ts_input E (?h @ (?v @ w), s) (?v @ w, ?s1)"
    using pend f(1) by (intro ts_input.header [where xs = "[]" and ys = "[]"]) simp_all
  then have one: "ts_input E (packet_bytes p @ w, s) (?v @ w, ?s1)"
    using append_take_drop_id [of header_size "packet_bytes p"] by (metis append_assoc)
  let ?s2 = "?s1\<lparr>ts_pending := [Sv_read_header], ts_read_packet := ?r2, read_queue := q\<rparr>"
  have "ts_guard E (ts_handler E (Sv_read_payload (payload_len p)) Asio_success ?v) (?s1\<lparr>ts_pending := [] @ []\<rparr>)
      = (Inr Loop, ?s2)"
    using f(3,10) q
    by (simp add: ts_guard_def ts_on_payload_def ts_accept_packet_def ts_set_errc_def ts_read_header_def
        ts_start_op_def prog_run not_less)
  then have "ts_input E (?v @ w, ?s1) (w, ?s2)"
    using f(2) by (intro ts_input.payload [where xs = "[]" and ys = "[]"]) simp_all
  with one have "(ts_input E)\<^sup>*\<^sup>* (packet_bytes p @ w, s) (w, ?s2)"
    by (meson converse_rtranclp_into_rtranclp r_into_rtranclp)
  moreover have "ts_received E ?s2 = ts_received E s @ [?r2]"
    using cq_enqueue_law [OF R q] by (simp add: ts_received_def)
  ultimately show ?thesis using f(7,8,9,11) by (intro exI [of _ ?s2] exI [of _ ?r2]) simp
qed

definition ts_ready :: "('k, 'a, 'w, 'r) tcp_server \<Rightarrow> bool" where
  "ts_ready s \<longleftrightarrow> ts_pending s = [Sv_read_header] \<and> storage (p_data (ts_read_packet s))"

lemma ts_packet_reader:
  assumes "server_laws E" and "holds_up_to (ve_read_queue E) n"
  shows "packet_reader (ts_input E) ts_ready (ts_received E) n"
proof unfold_locales
  fix p w and s :: "('a, 'b, 'c, 'd) tcp_server"
  assume "valid_packet p" "ts_ready s" "length (ts_received E s) < n"
  then show "\<exists>s' q. (ts_input E)\<^sup>*\<^sup>* (packet_bytes p @ w, s) (w, s') \<and> ts_ready s' \<and> ts_received E s' = ts_received E s @ [q]
      \<and> valid_packet q \<and> packet_bytes q = packet_bytes p \<and> packet_blocks q = packet_blocks p"
    using ts_packet_read [of p s E w] assms by (simp add: ts_ready_def server_laws_def holds_up_to_def ts_received_def)
qed

interpretation ref_server_stream: packet_reader "ts_input ref_server_env" ts_ready "ts_received ref_server_env" 100
  by (rule ts_packet_reader) (simp_all add: ref_server_env_def [THEN arg_cong [of _ _ ve_read_queue]])

section \<open>The client's reads\<close>

inductive tc_input ::
  "('k, 'w, 'r) client_env \<Rightarrow> bytes \<times> ('k, 'w, 'r) tcp_client \<Rightarrow> bytes \<times> ('k, 'w, 'r) tcp_client \<Rightarrow> bool"
  for E where
  header: "tc_pending s = xs @ Read_header # ys \<Longrightarrow> length v = header_size \<Longrightarrow>
    tc_guard E (tc_handler E Read_header Asio_success v) (s\<lparr>tc_pending := xs @ ys\<rparr>) = (Inr Loop, s') \<Longrightarrow>
    tc_input E (v @ w, s) (w, s')"
| payload: "tc_pending s = xs @ Read_payload n # ys \<Longrightarrow> length v = n \<Longrightarrow>
    tc_guard E (tc_handler E (Read_payload n) Asio_success v) (s\<lparr>tc_pending := xs @ ys\<rparr>) = (Inr Loop, s') \<Longrightarrow>
    tc_input E (v @ w, s) (w, s')"

lemma tc_input_step:
  assumes "tc_input E a b"
  shows "tc_step E (snd a) (snd b)"
  using assms by cases (auto intro: tc_step.completion simp del: tc_handler.simps)

lemma tc_packet_read:
  assumes p: "valid_packet p" and r: "storage (p_data (tc_read_packet s))"
    and pend: "tc_pending s = [Read_header]"
    and room: "\<And>x. cq_try_enqueue (ce_read_queue E) (read_queue s) x \<noteq> None" and R: "queue_laws (ce_read_queue E)"
  shows "\<exists>s' q. (tc_input E)\<^sup>*\<^sup>* (packet_bytes p @ w, s) (w, s') \<and> tc_pending s' = [Read_header]
    \<and> storage (p_data (tc_read_packet s')) \<and> tc_received E s' = tc_received E s @ [q]
    \<and> valid_packet q \<and> packet_bytes q = packet_bytes p \<and> packet_blocks q = packet_blocks p"
proof -
  let ?h = "take header_size (packet_bytes p)" and ?v = "drop header_size (packet_bytes p)"
  let ?r1 = "fill_header ?h (tc_read_packet s)"
  let ?r2 = "fill_payload (payload_len p) ?v ?r1"
  note f = refill [OF p r]
  obtain q where q: "cq_try_enqueue (ce_read_queue E) (read_queue s) ?r2 = Some q" using room by fastforce
  let ?s1 = "s\<lparr>tc_pending := [Read_payload (payload_len p)], tc_read_packet := ?r1, errc := Asio_code Asio_success\<rparr>"
  have "tc_guard E (tc_handler E Read_header Asio_success ?h) (s\<lparr>tc_pending := [] @ []\<rparr>) = (Inr Loop, ?s1)"
    using f(4,5)
    by (simp add: tc_guard_def tc_on_header_def tc_set_errc_def tc_read_payload_def tc_start_op_def prog_run)
  then have "tc_input E (?h @ (?v @ w), s) (?v @ w, ?s1)"
    using pend f(1) by (intro tc_input.header [where xs = "[]" and ys = "[]"]) simp_all
  then have one: "tc_input E (packet_bytes p @ w, s) (?v @ w, ?s1)"
    using append_take_drop_id [of header_size "packet_bytes p"] by (metis append_assoc)
  let ?s2 = "?s1\<lparr>tc_pending := [Read_header], tc_read_packet := ?r2, read_queue := q\<rparr>"
  have "tc_guard E (tc_handler E (Read_payload (payload_len p)) Asio_success ?v) (?s1\<lparr>tc_pending := [] @ []\<rparr>)
      = (Inr Loop, ?s2)"
    using f(3,10) q
    by (simp add: tc_guard_def tc_on_payload_def tc_enqueue_read_def tc_set_errc_def tc_read_header_def
        tc_start_op_def prog_run not_less)
  then have "tc_input E (?v @ w, ?s1) (w, ?s2)"
    using f(2) by (intro tc_input.payload [where xs = "[]" and ys = "[]"]) simp_all
  with one have "(tc_input E)\<^sup>*\<^sup>* (packet_bytes p @ w, s) (w, ?s2)"
    by (meson converse_rtranclp_into_rtranclp r_into_rtranclp)
  moreover have "tc_received E ?s2 = tc_received E s @ [?r2]"
    using cq_enqueue_law [OF R q] by (simp add: tc_received_def)
  ultimately show ?thesis using f(7,8,9,11) by (intro exI [of _ ?s2] exI [of _ ?r2]) simp
qed

definition tc_ready :: "('k, 'w, 'r) tcp_client \<Rightarrow> bool" where
  "tc_ready s \<longleftrightarrow> tc_pending s = [Read_header] \<and> storage (p_data (tc_read_packet s))"

lemma tc_packet_reader:
  assumes "client_laws E" and "holds_up_to (ce_read_queue E) n"
  shows "packet_reader (tc_input E) tc_ready (tc_received E) n"
proof unfold_locales
  fix p w and s :: "('a, 'b, 'c) tcp_client"
  assume "valid_packet p" "tc_ready s" "length (tc_received E s) < n"
  then show "\<exists>s' q. (tc_input E)\<^sup>*\<^sup>* (packet_bytes p @ w, s) (w, s') \<and> tc_ready s' \<and> tc_received E s' = tc_received E s @ [q]
      \<and> valid_packet q \<and> packet_bytes q = packet_bytes p \<and> packet_blocks q = packet_blocks p"
    using tc_packet_read [of p s E w] assms by (simp add: tc_ready_def client_laws_def holds_up_to_def tc_received_def)
qed

interpretation ref_client_stream: packet_reader "tc_input ref_client_env" tc_ready "tc_received ref_client_env" 100
  by (rule tc_packet_reader) (simp_all add: ref_client_env_def [THEN arg_cong [of _ _ ce_read_queue]])

section \<open>Properties\<close>

definition ka_packet :: packet where
  "ka_packet = \<lparr>p_data = overwrite (replicate 2048 0) ka15\<rparr>"

text \<open>
  C11: From the stream of bytes that valid packets make, one behind the other, the server's reads
  recover exactly these packets, in order, and whatever follows them is left in the stream:
  each packet that is enqueued has the bytes and the blocks of the one that was sent, and the
  server waits for the next header. The only condition is that the read queue has room.
\<close>

theorem tcp_server_stream:
  assumes "server_laws E" and "holds_up_to (ve_read_queue E) n" and "list_all valid_packet ps"
    and "ts_pending s = [Sv_read_header]" and "storage (p_data (ts_read_packet s))"
    and "length (ts_received E s) + length ps \<le> n"
  shows "\<exists>s' qs. (ts_input E)\<^sup>*\<^sup>* (concat (map packet_bytes ps) @ w, s) (w, s')
    \<and> ts_pending s' = [Sv_read_header] \<and> ts_received E s' = ts_received E s @ qs
    \<and> list_all valid_packet qs \<and> map packet_bytes qs = map packet_bytes ps
    \<and> map packet_blocks qs = map packet_blocks ps"
  using packet_reader.read_all [OF ts_packet_reader [OF assms(1,2)] assms(3) _ assms(6), of w] assms(4,5)
  unfolding ts_ready_def by blast

theorem tcp_server_stream_witness:
  "\<exists>s' qs. (ts_input ref_server_env)\<^sup>*\<^sup>* (packet_bytes ka_packet @ packet_bytes ka_packet @ [1], ref_server) ([1], s')
     \<and> ts_received ref_server_env s' = qs \<and> map packet_bytes qs = [packet_bytes ka_packet, packet_bytes ka_packet]"
proof -
  have q: "holds_up_to (ve_read_queue ref_server_env) 100" by (simp add: ref_server_env_def)
  have s: "ts_pending ref_server = [Sv_read_header]" "storage (p_data (ts_read_packet ref_server))"
    "ts_received ref_server_env ref_server = []"
    by (simp_all add: ref_server_def storage_def format_sizes ts_received_def ref_server_env_def ref_queue_api_def)
  have ps: "list_all valid_packet [ka_packet, ka_packet]" using ka15_valid by (simp add: ka_packet_def)
  have room: "length (ts_received ref_server_env ref_server) + length [ka_packet, ka_packet] \<le> 100" by (simp add: s(3))
  show ?thesis
    using tcp_server_stream [OF ref_server_laws q ps s(1,2) room, of "[1]"] s(3) by auto
qed

text \<open>
  The same for the client: the stream of the packets the device has sent is taken apart into
  exactly these packets, in order, none of them split or joined with the next one, as long as
  the read queue has room.
\<close>

theorem tcp_client_stream:
  assumes "client_laws E" and "holds_up_to (ce_read_queue E) n" and "list_all valid_packet ps"
    and "tc_pending s = [Read_header]" and "storage (p_data (tc_read_packet s))"
    and "length (tc_received E s) + length ps \<le> n"
  shows "\<exists>s' qs. (tc_input E)\<^sup>*\<^sup>* (concat (map packet_bytes ps) @ w, s) (w, s')
    \<and> tc_pending s' = [Read_header] \<and> tc_received E s' = tc_received E s @ qs
    \<and> list_all valid_packet qs \<and> map packet_bytes qs = map packet_bytes ps
    \<and> map packet_blocks qs = map packet_blocks ps"
  using packet_reader.read_all [OF tc_packet_reader [OF assms(1,2)] assms(3) _ assms(6), of w] assms(4,5)
  unfolding tc_ready_def by blast

theorem tcp_client_stream_witness:
  "\<exists>s' qs. (tc_input ref_client_env)\<^sup>*\<^sup>* (packet_bytes ka_packet @ packet_bytes ka_packet @ [1], ref_client) ([1], s')
     \<and> tc_received ref_client_env s' = qs \<and> map packet_bytes qs = [packet_bytes ka_packet, packet_bytes ka_packet]"
proof -
  have q: "holds_up_to (ce_read_queue ref_client_env) 100" by (simp add: ref_client_env_def)
  have s: "tc_pending ref_client = [Read_header]" "storage (p_data (tc_read_packet ref_client))"
    "tc_received ref_client_env ref_client = []"
    by (simp_all add: ref_client_def storage_def format_sizes tc_received_def ref_client_env_def ref_queue_api_def)
  have ps: "list_all valid_packet [ka_packet, ka_packet]" using ka15_valid by (simp add: ka_packet_def)
  have room: "length (tc_received ref_client_env ref_client) + length [ka_packet, ka_packet] \<le> 100" by (simp add: s(3))
  show ?thesis
    using tcp_client_stream [OF ref_client_laws q ps s(1,2) room, of "[1]"] s(3) by auto
qed

end
