(* ===== verification/Usb_Device.thy ===== *)
theory Usb_Device
  imports Transport
begin

text \<open>
  \<^verbatim>\<open>usb::Device\<close> and its transfers (\<^verbatim>\<open>src/usb_async.*\<close>): a transport over libusb's asynchronous
  bulk transfers. libusb is a parameter: what its functions return and do to its own state.
\<close>

section \<open>Transfers\<close>

text \<open>How libusb says a transfer ended; \<open>Unknown_status\<close> stands for any other value.\<close>

datatype transfer_status =
    Completed | Cancelled | Timed_out_transfer | Stall | No_device | Overflow | Transfer_failed
  | Unknown_status

text \<open>One end of a transfer, as \<^verbatim>\<open>libusb_handle_events\<close> reports it, with the bytes that were read.\<close>

datatype usb_event = Write_ended transfer_status | Read_ended nat transfer_status bytes

text \<open>
  A \<^verbatim>\<open>WTransfer\<close>: its packet, the bytes \<^verbatim>\<open>libusb_fill_bulk_transfer\<close> was given, and the two flags.
\<close>

record w_transfer =
  wt_packet :: packet
  wt_filled :: bytes
  wt_in_progress :: bool
  wt_cancelled :: bool

text \<open>
  The library, with an object for the device; transfers of the read side are named by numbers.
  \<open>lu_wait\<close> is what it reports to the device's thread, turn by turn, while another thread waits
  for a transfer to be cancelled: up to the end of the wait, or all it will ever report.
\<close>

record 'l libusb_api =
  lu_init :: "'l \<Rightarrow> int \<times> 'l"
  lu_open_device :: "'l \<Rightarrow> bool \<times> 'l"
  lu_set_auto_detach :: "'l \<Rightarrow> int \<times> 'l"
  lu_claim_interface :: "'l \<Rightarrow> int \<times> 'l"
  lu_release_interface :: "'l \<Rightarrow> int \<times> 'l"
  lu_close :: "'l \<Rightarrow> 'l"
  lu_exit :: "'l \<Rightarrow> 'l"
  lu_alloc_transfer :: "'l \<Rightarrow> bool \<times> 'l"
  lu_dev_mem_alloc :: "'l \<Rightarrow> bool \<times> 'l"
  lu_submit_write :: "bytes \<Rightarrow> 'l \<Rightarrow> int \<times> 'l"
  lu_submit_read :: "nat \<Rightarrow> 'l \<Rightarrow> int \<times> 'l"
  lu_cancel_write :: "'l \<Rightarrow> int \<times> 'l"
  lu_cancel_read :: "nat \<Rightarrow> 'l \<Rightarrow> int \<times> 'l"
  lu_wait :: "'l \<Rightarrow> usb_event list list \<times> 'l"
  lu_error_no_device :: int
  lu_error_not_found :: int
  lu_status_value :: "transfer_status \<Rightarrow> int"

record ('l, 'w, 'r) usb_env =
  ue_usb :: "'l libusb_api"
  ue_write_queue :: "('w, packet) queue_api"
  ue_read_queue :: "('r, packet) queue_api"
  ue_mem :: bytes

text \<open>
  The members. The read transfers are two pointers into a heap, of which only what is alive
  matters, \<open>ud_alive\<close>, and which have the flag \<^verbatim>\<open>cancelled_\<close>, \<open>ud_cancelled\<close>. \<open>ud_reading\<close> and
  \<open>ud_writing\<close> are the transfers libusb holds, \<open>ud_wire\<close> the packets it was given; no code reads
  these three.
\<close>

record ('l, 'w, 'r) usb_device = "('w, 'r) transport" +
  ud_usb :: 'l
  ud_handle :: bool
  ud_rtransfer_curr :: "nat option"
  ud_rtransfer_prev :: "nat option"
  ud_wtransfer :: "w_transfer option"
  ud_open :: bool
  ud_running :: bool
  ud_eptr :: "exn option"
  ud_alive :: "nat list"
  ud_next :: nat
  ud_cancelled :: "nat list"
  ud_reading :: "nat list"
  ud_writing :: "bytes list"
  ud_wire :: "packet list"

text \<open>
  \<^verbatim>\<open>Device(...)\<close> over new queues: \<^verbatim>\<open>libusb_init\<close> may fail, and the constructor throws. The callback
  and the level of libusb's log are not part of the state.
\<close>

definition ud_new ::
  "('l, 'w, 'r) usb_env \<Rightarrow> 'l \<Rightarrow> 'w \<Rightarrow> 'r \<Rightarrow> exn + ('l, 'w, 'r) usb_device" where
  "ud_new E l w r =
     (case lu_init (ue_usb E) l of (ret, l') \<Rightarrow>
        if ret < 0 then Inl (Libusb_error ret)
        else Inr \<lparr>errc = no_error_code, write_queue = w, read_queue = r, ud_usb = l', ud_handle = False,
          ud_rtransfer_curr = None, ud_rtransfer_prev = None, ud_wtransfer = None, ud_open = False,
          ud_running = False, ud_eptr = None, ud_alive = [], ud_next = 0, ud_cancelled = [],
          ud_reading = [], ud_writing = [], ud_wire = []\<rparr>)"

text \<open>A call of the library, and one whose negative result is thrown.\<close>

definition ud_call :: "('l \<Rightarrow> 'a \<times> 'l) \<Rightarrow> (('l, 'w, 'r) usb_device, 'a) stmt" where
  "ud_call f = (\<lambda>s. case f (ud_usb s) of (x, l) \<Rightarrow> (Inr x, s\<lparr>ud_usb := l\<rparr>))"

definition ud_try :: "('l \<Rightarrow> int \<times> 'l) \<Rightarrow> (('l, 'w, 'r) usb_device, unit) stmt" where
  "ud_try f = bindE (ud_call f) (\<lambda>ret. whenE (ret < 0) (throwE (Libusb_error ret)))"

text \<open>\<^verbatim>\<open>new WTransfer()\<close>, \<^verbatim>\<open>new RTransfer(device_handle_)\<close>.\<close>

definition ud_new_transfer :: "('l, 'w, 'r) usb_env \<Rightarrow> (('l, 'w, 'r) usb_device, unit) stmt" where
  "ud_new_transfer E = bindE (ud_call (lu_alloc_transfer (ue_usb E))) (\<lambda>ok.
     whenE (\<not> ok) (throwE (Std_exception Bad_alloc)))"

definition ud_new_wtransfer :: "('l, 'w, 'r) usb_env \<Rightarrow> (('l, 'w, 'r) usb_device, w_transfer) stmt" where
  "ud_new_wtransfer E = bindE (ud_new_transfer E) (\<lambda>_.
     retE \<lparr>wt_packet = \<lparr>p_data = ue_mem E\<rparr>, wt_filled = [], wt_in_progress = False, wt_cancelled = False\<rparr>)"

definition ud_new_rtransfer :: "('l, 'w, 'r) usb_env \<Rightarrow> (('l, 'w, 'r) usb_device, nat) stmt" where
  "ud_new_rtransfer E =
     bindE (ud_new_transfer E) (\<lambda>_.
     withE (\<lambda>s.
       if \<not> ud_handle s then throwE (Transport_error Internal)
       else bindE (ud_call (lu_dev_mem_alloc (ue_usb E))) (\<lambda>ok.
         if \<not> ok then throwE (Std_exception Bad_alloc)
         else bindE (modifyE (\<lambda>s. s\<lparr>ud_alive := ud_next s # ud_alive s, ud_next := ud_next s + 1\<rparr>))
                (\<lambda>_. retE (ud_next s)))))"

text \<open>\<^verbatim>\<open>delete p\<close>: a null pointer is ignored, one to an object that is gone has no defined meaning.\<close>

definition ud_delete :: "nat option \<Rightarrow> (('l, 'w, 'r) usb_device, unit) stmt" where
  "ud_delete p = withE (\<lambda>s.
     case p of
       None \<Rightarrow> retE ()
     | Some i \<Rightarrow>
         if i \<notin> set (ud_alive s) then throwE Undefined_behaviour
         else modifyE (\<lambda>s. s\<lparr>ud_alive := remove1 i (ud_alive s)\<rparr>))"

text \<open>\<^verbatim>\<open>fill_transfer\<close>. The buffer of a read transfer is its own and never changes.\<close>

definition ud_fill_write :: "(('l, 'w, 'r) usb_device, unit) stmt" where
  "ud_fill_write = withE (\<lambda>s.
     case ud_wtransfer s of
       None \<Rightarrow> throwE (Transport_error Internal)
     | Some t \<Rightarrow> modifyE (\<lambda>s. s\<lparr>ud_wtransfer := Some (t\<lparr>wt_filled := packet_bytes (wt_packet t)\<rparr>)\<rparr>))"

definition ud_fill_read :: "nat option \<Rightarrow> (('l, 'w, 'r) usb_device, unit) stmt" where
  "ud_fill_read p = (case p of None \<Rightarrow> throwE (Transport_error Internal) | Some _ \<Rightarrow> retE ())"

text \<open>\<^verbatim>\<open>wtransfer_->submit()\<close> and \<^verbatim>\<open>submit()\<close> of a read transfer.\<close>

definition ud_submit_write :: "('l, 'w, 'r) usb_env \<Rightarrow> (('l, 'w, 'r) usb_device, unit) stmt" where
  "ud_submit_write E = withE (\<lambda>s.
     case ud_wtransfer s of
       None \<Rightarrow> throwE Undefined_behaviour
     | Some t \<Rightarrow>
         blockE [ud_try (lu_submit_write (ue_usb E) (wt_filled t)),
                 modifyE (\<lambda>s. s\<lparr>ud_writing := ud_writing s @ [wt_filled t], ud_wire := ud_wire s @ [wt_packet t]\<rparr>),
                 modifyE (\<lambda>s. s\<lparr>ud_wtransfer := Some (t\<lparr>wt_in_progress := True\<rparr>)\<rparr>)])"

definition ud_submit_read :: "('l, 'w, 'r) usb_env \<Rightarrow> nat option \<Rightarrow> (('l, 'w, 'r) usb_device, unit) stmt" where
  "ud_submit_read E p =
     (case p of
        None \<Rightarrow> throwE Undefined_behaviour
      | Some i \<Rightarrow> blockE [ud_try (lu_submit_read (ue_usb E) i),
                         modifyE (\<lambda>s. s\<lparr>ud_reading := ud_reading s @ [i]\<rparr>)])"

section \<open>Opening and closing\<close>

definition ud_is_open :: "('l, 'w, 'r) usb_device \<Rightarrow> bool" where
  "ud_is_open s = ud_open s"

definition ud_open_device :: "('l, 'w, 'r) usb_env \<Rightarrow> (('l, 'w, 'r) usb_device, unit) stmt" where
  "ud_open_device E = withE (\<lambda>s.
     if ud_is_open s then retE ()
     else blockE
       [bindE (ud_call (lu_open_device (ue_usb E))) (\<lambda>ok.
          bindE (modifyE (\<lambda>s. s\<lparr>ud_handle := ok\<rparr>)) (\<lambda>_.
          whenE (\<not> ok) (throwE (Libusb_error (lu_error_no_device (ue_usb E)))))),
        ud_try (lu_set_auto_detach (ue_usb E)),
        ud_try (lu_claim_interface (ue_usb E)),
        bindE (ud_new_wtransfer E) (\<lambda>t. modifyE (\<lambda>s. s\<lparr>ud_wtransfer := Some t\<rparr>)),
        bindE (ud_new_rtransfer E) (\<lambda>i. modifyE (\<lambda>s. s\<lparr>ud_rtransfer_curr := Some i\<rparr>)),
        bindE (ud_new_rtransfer E) (\<lambda>i. modifyE (\<lambda>s. s\<lparr>ud_rtransfer_prev := Some i\<rparr>)),
        withE (\<lambda>s. ud_fill_read (ud_rtransfer_curr s)),
        withE (\<lambda>s. ud_fill_read (ud_rtransfer_prev s)),
        modifyE (\<lambda>s. s\<lparr>ud_open := True\<rparr>)])"

text \<open>\<^verbatim>\<open>close\<close> behind its first check.\<close>

definition ud_close_body :: "('l, 'w, 'r) usb_env \<Rightarrow> (('l, 'w, 'r) usb_device, unit) stmt" where
  "ud_close_body E = blockE
     [withE (\<lambda>s. ud_delete (ud_rtransfer_curr s)),
      withE (\<lambda>s. ud_delete (ud_rtransfer_prev s)),
      modifyE (\<lambda>s. s\<lparr>ud_wtransfer := None, ud_rtransfer_curr := None, ud_rtransfer_prev := None\<rparr>),
      bindE (withE (\<lambda>s. if ud_handle s then ud_call (lu_release_interface (ue_usb E))
                        else throwE Undefined_behaviour)) (\<lambda>ret.
        blockE [modifyE (\<lambda>s. s\<lparr>ud_usb := lu_close (ue_usb E) (ud_usb s), ud_handle := False\<rparr>),
                modifyE (\<lambda>s. s\<lparr>ud_open := False\<rparr>),
                whenE (ret < 0) (throwE (Libusb_error ret))])]"

definition ud_close :: "('l, 'w, 'r) usb_env \<Rightarrow> (('l, 'w, 'r) usb_device, unit) stmt" where
  "ud_close E = withE (\<lambda>s. if \<not> ud_is_open s then retE () else ud_close_body E)"

section \<open>Writing\<close>

text \<open>\<^verbatim>\<open>write\<close> behind its check that the transport is open.\<close>

definition ud_write_body :: "('l, 'w, 'r) usb_env \<Rightarrow> packet \<Rightarrow> (('l, 'w, 'r) usb_device, unit) stmt" where
  "ud_write_body E p = withE (\<lambda>s.
     case ud_wtransfer s of
       None \<Rightarrow> throwE Undefined_behaviour
     | Some t \<Rightarrow>
         if wt_in_progress t then
           (case cq_try_enqueue (ue_write_queue E) (write_queue s) p of
              None \<Rightarrow> throwE (Transport_error Write_queue_full)
            | Some q \<Rightarrow> modifyE (\<lambda>s. s\<lparr>write_queue := q\<rparr>))
         else
           blockE [modifyE (\<lambda>s. s\<lparr>ud_wtransfer := Some (t\<lparr>wt_packet := p\<rparr>)\<rparr>), ud_fill_write, ud_submit_write E])"

definition ud_write :: "('l, 'w, 'r) usb_env \<Rightarrow> packet \<Rightarrow> (('l, 'w, 'r) usb_device, unit) stmt" where
  "ud_write E p = withE (\<lambda>s.
     if \<not> ud_is_open s then throwE (Transport_error Write_while_closed) else ud_write_body E p)"

section \<open>Callbacks\<close>

text \<open>\<^verbatim>\<open>catch (std::exception& e) {usb->eptr_ = std::current_exception();}\<close>.\<close>

definition ud_catch :: "(('l, 'w, 'r) usb_device, unit) stmt \<Rightarrow> (('l, 'w, 'r) usb_device, unit) stmt" where
  "ud_catch m = catchE m (\<lambda>e.
     if is_std_exception e then modifyE (\<lambda>s. s\<lparr>ud_eptr := Some e\<rparr>) else throwE e)"

text \<open>
  libusb calls back when a transfer has ended: it does not hold it any more. The write
  transfer, and the read transfer that ended with \<open>v\<close> in its buffer.
\<close>

definition ud_write_next :: "('l, 'w, 'r) usb_env \<Rightarrow> (('l, 'w, 'r) usb_device, unit) stmt" where
  "ud_write_next E = withE (\<lambda>s.
     case ud_wtransfer s of
       None \<Rightarrow> throwE Undefined_behaviour
     | Some t \<Rightarrow>
         (case cq_try_dequeue (ue_write_queue E) (write_queue s) of
            None \<Rightarrow> modifyE (\<lambda>s. s\<lparr>ud_wtransfer := Some (t\<lparr>wt_in_progress := False\<rparr>)\<rparr>)
          | Some (p, q) \<Rightarrow>
              blockE [modifyE (\<lambda>s. s\<lparr>write_queue := q, ud_wtransfer := Some (t\<lparr>wt_packet := p\<rparr>)\<rparr>),
                      ud_fill_write, ud_submit_write E]))"

text \<open>
  \<^verbatim>\<open>notify_cancelled()\<close> through one of the device's pointers: it sets the flag of that transfer.
\<close>

definition ud_notify_write :: "(('l, 'w, 'r) usb_device, unit) stmt" where
  "ud_notify_write = withE (\<lambda>s.
     case ud_wtransfer s of
       None \<Rightarrow> throwE Undefined_behaviour
     | Some t \<Rightarrow> modifyE (\<lambda>s. s\<lparr>ud_wtransfer := Some (t\<lparr>wt_cancelled := True\<rparr>)\<rparr>))"

definition ud_notify_read :: "(('l, 'w, 'r) usb_device, unit) stmt" where
  "ud_notify_read = withE (\<lambda>s.
     case ud_rtransfer_curr s of
       None \<Rightarrow> throwE Undefined_behaviour
     | Some i \<Rightarrow> modifyE (\<lambda>s. s\<lparr>ud_cancelled := i # ud_cancelled s\<rparr>))"

definition ud_write_cb ::
  "('l, 'w, 'r) usb_env \<Rightarrow> transfer_status \<Rightarrow> (('l, 'w, 'r) usb_device, unit) stmt" where
  "ud_write_cb E status = ud_catch
     (case status of
        Completed \<Rightarrow> ud_write_next E
      | Cancelled \<Rightarrow> ud_notify_write
      | Unknown_status \<Rightarrow> retE ()
      | _ \<Rightarrow> throwE (Libusb_error (lu_status_value (ue_usb E) status)))"

text \<open>The two read transfers change places and the other one is submitted.\<close>

definition ud_read_swap :: "('l, 'w, 'r) usb_env \<Rightarrow> (('l, 'w, 'r) usb_device, unit) stmt" where
  "ud_read_swap E = withE (\<lambda>s. let tmp = ud_rtransfer_curr s in
     blockE [modifyE (\<lambda>s. s\<lparr>ud_rtransfer_curr := ud_rtransfer_prev s\<rparr>),
             withE (\<lambda>s. ud_submit_read E (ud_rtransfer_curr s)),
             modifyE (\<lambda>s. s\<lparr>ud_rtransfer_prev := tmp\<rparr>)])"

text \<open>
  \<^verbatim>\<open>try_enqueue\<close> is given a view of the buffer: the packet is constructed from it first. A
  packet for which the queue has no room is dropped with a warning.
\<close>

definition ud_read_cb ::
  "('l, 'w, 'r) usb_env \<Rightarrow> transfer_status \<Rightarrow> bytes \<Rightarrow> (('l, 'w, 'r) usb_device, unit) stmt" where
  "ud_read_cb E status v = ud_catch
     (case status of
        Completed \<Rightarrow>
          bindE (ud_read_swap E) (\<lambda>_.
          bindE (liftE (packet_of_view (ue_mem E) v)) (\<lambda>p.
          modifyE (\<lambda>s. case cq_try_enqueue (ue_read_queue E) (read_queue s) p of
              None \<Rightarrow> s
            | Some q \<Rightarrow> s\<lparr>read_queue := q\<rparr>)))
      | Cancelled \<Rightarrow> ud_notify_read
      | Timed_out_transfer \<Rightarrow> ud_read_swap E
      | Unknown_status \<Rightarrow> retE ()
      | _ \<Rightarrow> throwE (Libusb_error (lu_status_value (ue_usb E) status)))"

text \<open>The end of a transfer: libusb does not hold it any more, and calls back.\<close>

fun ud_event :: "('l, 'w, 'r) usb_env \<Rightarrow> usb_event \<Rightarrow> (('l, 'w, 'r) usb_device, unit) stmt" where
  "ud_event E (Write_ended status) =
     blockE [modifyE (\<lambda>s. s\<lparr>ud_writing := tl (ud_writing s)\<rparr>), ud_write_cb E status]"
| "ud_event E (Read_ended i status v) =
     blockE [modifyE (\<lambda>s. s\<lparr>ud_reading := remove1 i (ud_reading s)\<rparr>), ud_read_cb E status v]"

section \<open>The thread\<close>

text \<open>
  One turn of the loop of \<^verbatim>\<open>run\<close>: the events libusb reports, then the exception the callbacks
  have left. Ill-formed packets and a full read queue are logged, any other exception ends
  the loop.
\<close>

datatype usb_loop = Go_on | Break_loop

definition ud_turn :: "('l, 'w, 'r) usb_env \<Rightarrow> usb_event list \<Rightarrow> (('l, 'w, 'r) usb_device, usb_loop) stmt" where
  "ud_turn E es =
     catchE
       (bindE (blockE [modifyE (\<lambda>s. s\<lparr>ud_eptr := None\<rparr>), foreachE (ud_event E) es,
                       withE (\<lambda>s. case ud_eptr s of None \<Rightarrow> retE () | Some e \<Rightarrow> throwE e)])
          (\<lambda>_. retE Go_on))
       (\<lambda>e. case e of
          Packet_error _ \<Rightarrow> retE Go_on
        | Transport_error c \<Rightarrow>
            if c = Read_queue_full then retE Go_on
            else bindE (modifyE (\<lambda>s. s\<lparr>errc := make_transport_code c\<rparr>)) (\<lambda>_. retE Break_loop)
        | Undefined_behaviour \<Rightarrow> throwE e
        | _ \<Rightarrow> bindE (modifyE (\<lambda>s. s\<lparr>errc := make_transport_code Other\<rparr>)) (\<lambda>_. retE Break_loop))"

text \<open>What \<^verbatim>\<open>run\<close> does before its loop and behind it, under the outer \<^verbatim>\<open>try\<close>.\<close>

definition ud_outer :: "(('l, 'w, 'r) usb_device, unit) stmt \<Rightarrow> (('l, 'w, 'r) usb_device, unit) stmt" where
  "ud_outer m = catchE m (\<lambda>e.
     if e = Undefined_behaviour then throwE e
     else modifyE (\<lambda>s. s\<lparr>errc := make_transport_code Other\<rparr>))"

definition ud_run_begin :: "('l, 'w, 'r) usb_env \<Rightarrow> (('l, 'w, 'r) usb_device, unit) stmt" where
  "ud_run_begin E = ud_outer (withE (\<lambda>s. ud_submit_read E (ud_rtransfer_curr s)))"

definition ud_run_end :: "('l, 'w, 'r) usb_env \<Rightarrow> (('l, 'w, 'r) usb_device, unit) stmt" where
  "ud_run_end E = ud_outer (ud_close E)"

definition ud_start :: "('l, 'w, 'r) usb_env \<Rightarrow> (('l, 'w, 'r) usb_device, unit) stmt" where
  "ud_start E = withE (\<lambda>s.
     if ud_running s then retE ()
     else blockE [ud_open_device E, modifyE (\<lambda>s. s\<lparr>ud_running := True\<rparr>)])"

section \<open>Stopping\<close>

text \<open>The turns the thread makes; when its loop ends, it closes the device.\<close>

fun ud_turns :: "('l, 'w, 'r) usb_env \<Rightarrow> usb_event list list \<Rightarrow> (('l, 'w, 'r) usb_device, unit) stmt" where
  "ud_turns E [] = retE ()"
| "ud_turns E (es # ess) =
     bindE (ud_turn E es) (\<lambda>l. case l of Go_on \<Rightarrow> ud_turns E ess | Break_loop \<Rightarrow> ud_run_end E)"

text \<open>
  \<^verbatim>\<open>cancel()\<close> of one transfer. When libusb takes the request, the caller waits for the flag that
  the callback of a cancelled transfer sets, while the device's thread goes on. The result says
  whether the wait ends: \<open>False\<close> when all that libusb reports has not set the flag. A transfer
  that is deleted meanwhile has no flag. A transfer that is not in progress is left alone.
\<close>

definition ud_cancel ::
  "('l, 'w, 'r) usb_env \<Rightarrow> ('l \<Rightarrow> int \<times> 'l) \<Rightarrow> (('l, 'w, 'r) usb_device \<Rightarrow> ('l, 'w, 'r) usb_device) \<Rightarrow>
   (('l, 'w, 'r) usb_device \<Rightarrow> bool option) \<Rightarrow> (('l, 'w, 'r) usb_device, bool) stmt" where
  "ud_cancel E request reset flag =
     bindE (modifyE reset) (\<lambda>_.
     bindE (ud_call request) (\<lambda>ret.
       if ret = 0 then
         bindE (ud_call (lu_wait (ue_usb E))) (\<lambda>ess.
         bindE (ud_turns E ess) (\<lambda>_.
         withE (\<lambda>s. case flag s of None \<Rightarrow> throwE Undefined_behaviour | Some b \<Rightarrow> retE b)))
       else if ret = lu_error_not_found (ue_usb E) then retE True
       else throwE (Libusb_error ret)))"

definition ud_cancel_write :: "('l, 'w, 'r) usb_env \<Rightarrow> (('l, 'w, 'r) usb_device, bool) stmt" where
  "ud_cancel_write E = withE (\<lambda>s.
     case ud_wtransfer s of
       None \<Rightarrow> retE True
     | Some t \<Rightarrow>
         ud_cancel E (lu_cancel_write (ue_usb E))
           (\<lambda>s. s\<lparr>ud_wtransfer := Some (t\<lparr>wt_cancelled := False\<rparr>)\<rparr>)
           (\<lambda>s. map_option wt_cancelled (ud_wtransfer s)))"

definition ud_cancel_read ::
  "('l, 'w, 'r) usb_env \<Rightarrow> nat option \<Rightarrow> (('l, 'w, 'r) usb_device, bool) stmt" where
  "ud_cancel_read E p =
     (case p of
        None \<Rightarrow> retE True
      | Some i \<Rightarrow>
          ud_cancel E (lu_cancel_read (ue_usb E) i)
            (\<lambda>s. s\<lparr>ud_cancelled := removeAll i (ud_cancelled s)\<rparr>)
            (\<lambda>s. if i \<in> set (ud_alive s) then Some (i \<in> set (ud_cancelled s)) else None))"

text \<open>\<^verbatim>\<open>m; n\<close>, where \<open>m\<close> may not come back.\<close>

definition and_then :: "('s, bool) stmt \<Rightarrow> ('s, bool) stmt \<Rightarrow> ('s, bool) stmt" where
  "and_then m n = bindE m (\<lambda>returned. if returned then n else retE False)"

definition ud_cancel_transfers :: "('l, 'w, 'r) usb_env \<Rightarrow> (('l, 'w, 'r) usb_device, bool) stmt" where
  "ud_cancel_transfers E =
     and_then (ud_cancel_write E)
       (and_then (withE (\<lambda>s. ud_cancel_read E (ud_rtransfer_curr s)))
                 (withE (\<lambda>s. ud_cancel_read E (ud_rtransfer_prev s))))"

text \<open>The result says whether \<^verbatim>\<open>stop\<close> returns; a thread that was told to stop is joined.\<close>

definition ud_stop :: "('l, 'w, 'r) usb_env \<Rightarrow> (('l, 'w, 'r) usb_device, bool) stmt" where
  "ud_stop E = withE (\<lambda>s.
     if \<not> ud_running s then retE True
     else catchE
       (and_then (ud_cancel_transfers E)
          (bindE (blockE [modifyE (\<lambda>s. s\<lparr>ud_running := False\<rparr>), ud_close E]) (\<lambda>_. retE True)))
       (\<lambda>e. case e of Libusb_error _ \<Rightarrow> retE True | _ \<Rightarrow> throwE e))"

text \<open>To a client, a \<^verbatim>\<open>stop\<close> that does not return has no continuation.\<close>

definition ud_stop_call :: "('l, 'w, 'r) usb_env \<Rightarrow> (('l, 'w, 'r) usb_device, unit) stmt" where
  "ud_stop_call E = bindE (ud_stop E) (\<lambda>returned. whenE (\<not> returned) (throwE Undefined_behaviour))"

definition ud_api :: "('l, 'w, 'r) usb_env \<Rightarrow> ('l, 'w, 'r) usb_device transport_api" where
  "ud_api E =
     \<lparr>tr_write = ud_write E, tr_read = transport_read (ue_read_queue E),
      tr_clear_queues = clear_queues (ue_write_queue E) (ue_read_queue E),
      tr_is_open = ud_is_open, tr_error_code = errc, tr_start = ud_start E, tr_stop = ud_stop_call E\<rparr>"

end
