(* ===== verification/Usb_Device_Laws.thy ===== *)
theory Usb_Device_Laws
  imports Usb_Device
begin

text \<open>
  What the USB device keeps: it implements the contract of a transport, packets are handed to
  libusb in the order they were accepted and one at a time, the buffer that is parsed is never
  the one libusb fills; and where it fails: a transfer that cannot be submitted again, and a
  write during a close.
\<close>

declare ud_is_open_def [simp]

section \<open>The contract\<close>

definition ud_sent :: "('l, 'w, 'r) usb_env \<Rightarrow> ('l, 'w, 'r) usb_device \<Rightarrow> packet list" where
  "ud_sent E s = ud_wire s @ cq_items (ue_write_queue E) (write_queue s)"

definition ud_received :: "('l, 'w, 'r) usb_env \<Rightarrow> ('l, 'w, 'r) usb_device \<Rightarrow> packet list" where
  "ud_received E s = cq_items (ue_read_queue E) (read_queue s)"

definition usb_laws :: "('l, 'w, 'r) usb_env \<Rightarrow> bool" where
  "usb_laws E \<longleftrightarrow> queue_laws (ue_write_queue E) \<and> queue_laws (ue_read_queue E)"

text \<open>The statements a write is made of.\<close>

lemma ud_fill_write_run:
  "ud_fill_write s = (case ud_wtransfer s of
      None \<Rightarrow> (Inl (Transport_error Internal), s)
    | Some t \<Rightarrow> (Inr (), s\<lparr>ud_wtransfer := Some (t\<lparr>wt_filled := packet_bytes (wt_packet t)\<rparr>)\<rparr>))"
  by (simp add: ud_fill_write_def prog_run split: option.split)

lemma ud_submit_write_run:
  assumes "ud_wtransfer s = Some t"
  shows "ud_submit_write E s =
    (case lu_submit_write (ue_usb E) (wt_filled t) (ud_usb s) of (ret, l) \<Rightarrow>
       if ret < 0 then (Inl (Libusb_error ret), s\<lparr>ud_usb := l\<rparr>)
       else (Inr (), s\<lparr>ud_usb := l, ud_writing := ud_writing s @ [wt_filled t],
              ud_wire := ud_wire s @ [wt_packet t], ud_wtransfer := Some (t\<lparr>wt_in_progress := True\<rparr>)\<rparr>))"
  using assms by (simp add: ud_submit_write_def ud_try_def ud_call_def prog_run split: prod.split)

text \<open>A packet is put into the transfer and submitted.\<close>

lemma ud_send_run:
  "blockE [modifyE (\<lambda>s. s\<lparr>ud_wtransfer := Some (t\<lparr>wt_packet := p\<rparr>)\<rparr>), ud_fill_write, ud_submit_write E] s =
    (let t' = t\<lparr>wt_packet := p, wt_filled := packet_bytes p\<rparr>
     in case lu_submit_write (ue_usb E) (packet_bytes p) (ud_usb s) of (ret, l) \<Rightarrow>
       if ret < 0 then (Inl (Libusb_error ret), s\<lparr>ud_wtransfer := Some t', ud_usb := l\<rparr>)
       else (Inr (), s\<lparr>ud_usb := l, ud_writing := ud_writing s @ [packet_bytes p],
              ud_wire := ud_wire s @ [p], ud_wtransfer := Some (t'\<lparr>wt_in_progress := True\<rparr>)\<rparr>))"
  by (simp add: run_bindE run_modifyE ud_fill_write_run ud_submit_write_run Let_def run_retE
      split: prod.split)

lemma ud_write_body_run:
  "ud_write_body E p s =
    (case ud_wtransfer s of
       None \<Rightarrow> (Inl Undefined_behaviour, s)
     | Some t \<Rightarrow>
         if wt_in_progress t then
           (case cq_try_enqueue (ue_write_queue E) (write_queue s) p of
              None \<Rightarrow> (Inl (Transport_error Write_queue_full), s)
            | Some q \<Rightarrow> (Inr (), s\<lparr>write_queue := q\<rparr>))
         else
           blockE [modifyE (\<lambda>s. s\<lparr>ud_wtransfer := Some (t\<lparr>wt_packet := p\<rparr>)\<rparr>), ud_fill_write, ud_submit_write E] s)"
  by (simp add: ud_write_body_def run_withE run_throwE run_modifyE del: blockE.simps split: option.split)

text \<open>
  While nothing is in progress, nothing is queued: a packet that overtook the queue would be
  sent out of order.
\<close>

definition ud_write_ok :: "('l, 'w, 'r) usb_env \<Rightarrow> ('l, 'w, 'r) usb_device \<Rightarrow> bool" where
  "ud_write_ok E s \<longleftrightarrow>
     (case ud_wtransfer s of
        None \<Rightarrow> ud_writing s = []
      | Some t \<Rightarrow>
          if wt_in_progress t
          then ud_writing s = [] \<or> (\<exists>ps p. ud_wire s = ps @ [p] \<and> ud_writing s = [packet_bytes p])
          else ud_writing s = [] \<and> cq_items (ue_write_queue E) (write_queue s) = [])"

lemma ud_write_ok_frame:
  assumes "ud_wtransfer s' = ud_wtransfer s" and "ud_writing s' = ud_writing s" and "ud_wire s' = ud_wire s"
    and "write_queue s' = write_queue s"
  shows "ud_write_ok E s' = ud_write_ok E s" and "ud_sent E s' = ud_sent E s"
  using assms by (simp_all add: ud_write_ok_def ud_sent_def split: option.split)

lemma ud_write_effect:
  assumes W: "queue_laws (ue_write_queue E)" and ok: "ud_write_ok E s" and run: "ud_write E p s = (r, s')"
  shows "ud_write_ok E s' \<and> ud_sent E s' = (if r = Inr () then ud_sent E s @ [p] else ud_sent E s)
    \<and> (\<exists>ps. ud_wire s' = ud_wire s @ ps)
    \<and> (ud_rtransfer_curr s', ud_rtransfer_prev s', ud_reading s', ud_alive s', ud_open s', read_queue s', ud_eptr s', ud_handle s')
      = (ud_rtransfer_curr s, ud_rtransfer_prev s, ud_reading s, ud_alive s, ud_open s, read_queue s, ud_eptr s, ud_handle s)"
proof (cases "ud_open s")
  case False
  then show ?thesis using run ok by (auto simp: ud_write_def prog_run)
next
  case True
  then have body: "ud_write_body E p s = (r, s')" using run by (simp add: ud_write_def run_withE)
  show ?thesis
  proof (cases "ud_wtransfer s")
    case None
    then show ?thesis using body ok by (auto simp: ud_write_body_run)
  next
    case (Some t)
    show ?thesis
    proof (cases "wt_in_progress t")
      case True
      then show ?thesis
        using body ok Some cq_enqueue_law [OF W]
        by (auto simp: ud_write_body_run ud_write_ok_def ud_sent_def split: option.splits)
    next
      case False
      then show ?thesis
        using body ok Some
        by (auto simp: ud_write_body_run ud_send_run ud_write_ok_def ud_sent_def Let_def
            simp del: blockE.simps split: prod.splits if_splits)
    qed
  qed
qed

lemma ud_guarded:
  assumes "usb_laws E"
  shows "guarded_transport (ud_api E) (ud_sent E) (ud_received E) (ud_write_ok E)"
proof -
  have W: "queue_laws (ue_write_queue E)" and R: "queue_laws (ue_read_queue E)"
    using assms by (simp_all add: usb_laws_def)
  have received: "ud_received E (snd (ud_write E p t)) = ud_received E t" for p t
    by (auto simp: ud_write_def prog_run ud_write_body_run ud_send_run ud_received_def Let_def
        simp del: blockE.simps split: option.splits prod.splits)
  show ?thesis
  proof unfold_locales
    fix t :: "('a, 'b, 'c) usb_device" and p t' u e
    show "ud_write_ok E t \<Longrightarrow> ud_write_ok E (snd (tr_write (ud_api E) p t))"
      using ud_write_effect [OF W] by (cases "ud_write E p t") (auto simp: ud_api_def)
    show "ud_write_ok E t \<Longrightarrow> tr_write (ud_api E) p t = (Inr u, t') \<Longrightarrow> ud_sent E t' = ud_sent E t @ [p]"
      using ud_write_effect [OF W] by (auto simp: ud_api_def)
    show "ud_write_ok E t \<Longrightarrow> tr_write (ud_api E) p t = (Inl e, t') \<Longrightarrow> ud_sent E t' = ud_sent E t"
      using ud_write_effect [OF W] by (auto simp: ud_api_def)
    show "\<exists>t'. tr_clear_queues (ud_api E) t = Some t' \<and> ud_received E t' = []
        \<and> (ud_write_ok E t \<longrightarrow> ud_write_ok E t') \<and> tr_is_open (ud_api E) t' = tr_is_open (ud_api E) t"
      using drain_returns [OF W, of "write_queue t"] drain_returns [OF R, of "read_queue t"]
      by (auto simp: ud_api_def clear_queues_def ud_received_def ud_write_ok_def split: option.splits)
    show "ud_received E (snd (tr_write (ud_api E) p t)) = ud_received E t"
      using received by (simp add: ud_api_def)
  qed (auto simp: ud_api_def ud_received_def transport_read_def ud_write_def prog_run ud_write_ok_def
      cq_dequeue_Some [OF R] cq_dequeue_None [OF R] split: if_splits option.splits)
qed

text \<open>
  A guarded transport over every libusb and all queues that keep their laws; the reference
  objects do.
\<close>

locale usb_library =
  fixes E :: "('l, 'w, 'r) usb_env"
  assumes library: "usb_laws E"

sublocale usb_library \<subseteq> guarded_transport "ud_api E" "ud_sent E" "ud_received E" "ud_write_ok E"
  by (rule ud_guarded) (rule library)

section \<open>Steps\<close>

text \<open>
  A step is a write of a user thread, a packet that is read, or the end of a transfer libusb
  holds, with any status; the read transfer that ends is one of those that were submitted.
\<close>

inductive ud_step :: "('l, 'w, 'r) usb_env \<Rightarrow> ('l, 'w, 'r) usb_device \<Rightarrow> ('l, 'w, 'r) usb_device \<Rightarrow> bool"
  for E where
  user_write: "ud_write E p s = (r, s') \<Longrightarrow> ud_step E s s'"
| user_read: "transport_read (ue_read_queue E) s = (p, s') \<Longrightarrow> ud_step E s s'"
| write_ended: "ud_writing s \<noteq> [] \<Longrightarrow> ud_event E (Write_ended status) s = (r, s') \<Longrightarrow> ud_step E s s'"
| read_ended: "i \<in> set (ud_reading s) \<Longrightarrow> ud_event E (Read_ended i status v) s = (r, s') \<Longrightarrow> ud_step E s s'"

text \<open>A device that was opened, and whose thread has submitted the first read.\<close>

definition ud_begun :: "('l, 'w, 'r) usb_env \<Rightarrow> ('l, 'w, 'r) usb_device \<Rightarrow> bool" where
  "ud_begun E s \<longleftrightarrow> ud_open s \<and> ud_handle s
     \<and> (\<exists>t. ud_wtransfer s = Some t \<and> \<not> wt_in_progress t) \<and> ud_writing s = []
     \<and> cq_items (ue_write_queue E) (write_queue s) = []
     \<and> (\<exists>i j. ud_rtransfer_curr s = Some i \<and> ud_rtransfer_prev s = Some j \<and> i \<noteq> j
          \<and> {i, j} \<subseteq> set (ud_alive s) \<and> ud_reading s = [i])"

text \<open>
  libusb holds at most one read transfer, the current one, and the other one is a different
  transfer; both are alive.
\<close>

definition ud_read_ok :: "('l, 'w, 'r) usb_device \<Rightarrow> bool" where
  "ud_read_ok s \<longleftrightarrow> ud_reading s = [] \<or>
     (\<exists>i j. ud_reading s = [i] \<and> ud_rtransfer_curr s = Some i \<and> ud_rtransfer_prev s = Some j \<and> i \<noteq> j
        \<and> {i, j} \<subseteq> set (ud_alive s))"

definition ud_inv :: "('l, 'w, 'r) usb_env \<Rightarrow> ('l, 'w, 'r) usb_device \<Rightarrow> bool" where
  "ud_inv E s \<longleftrightarrow> ud_write_ok E s \<and> ud_read_ok s"

lemma ud_begun_inv: "ud_begun E s \<Longrightarrow> ud_inv E s"
  by (auto simp: ud_begun_def ud_inv_def ud_write_ok_def ud_read_ok_def)

lemma ud_catch_run:
  "ud_catch m s = (case m s of
      (Inl e, t) \<Rightarrow> if is_std_exception e then (Inr (), t\<lparr>ud_eptr := Some e\<rparr>) else (Inl e, t)
    | (Inr u, t) \<Rightarrow> (Inr (), t))"
  by (simp add: ud_catch_def prog_run split: prod.split sum.split)

text \<open>The end of the write transfer.\<close>

lemma ud_write_ended_effect:
  assumes W: "queue_laws (ue_write_queue E)" and ok: "ud_write_ok E s" and some: "ud_writing s \<noteq> []"
    and run: "ud_event E (Write_ended status) s = (r, s')"
  shows "r = Inr () \<and> ud_write_ok E s' \<and> (\<exists>ps. ud_wire s' = ud_wire s @ ps)
    \<and> (ud_sent E s' = ud_sent E s \<or> (status = Completed \<and> (\<exists>e. ud_eptr s' = Some (Libusb_error e))))
    \<and> (ud_rtransfer_curr s', ud_rtransfer_prev s', ud_reading s', ud_alive s', ud_open s')
      = (ud_rtransfer_curr s, ud_rtransfer_prev s, ud_reading s, ud_alive s, ud_open s)"
proof -
  let ?s = "s\<lparr>ud_writing := tl (ud_writing s)\<rparr>"
  obtain t ps p where t: "ud_wtransfer s = Some t" "wt_in_progress t" "ud_wire s = ps @ [p]"
    "ud_writing s = [packet_bytes p]"
    using ok some by (auto simp: ud_write_ok_def split: option.splits if_splits)
  have cb: "ud_write_cb E status ?s = (r, s')" using run by (simp add: run_bindE run_modifyE run_retE split: prod.splits sum.splits)
  show ?thesis
  proof (cases status)
    case Completed
    have next_run: "ud_write_next E ?s = (case cq_try_dequeue (ue_write_queue E) (write_queue s) of
        None \<Rightarrow> (Inr (), ?s\<lparr>ud_wtransfer := Some (t\<lparr>wt_in_progress := False\<rparr>)\<rparr>)
      | Some (p, q) \<Rightarrow> blockE [modifyE (\<lambda>s. s\<lparr>ud_wtransfer := Some (t\<lparr>wt_packet := p\<rparr>)\<rparr>), ud_fill_write, ud_submit_write E]
          (?s\<lparr>write_queue := q\<rparr>))"
      using t(1) by (auto simp: ud_write_next_def run_withE run_modifyE run_bindE split: option.split)
    show ?thesis
    proof (cases "cq_try_dequeue (ue_write_queue E) (write_queue s)")
      case None
      then show ?thesis
        using cb Completed next_run t cq_dequeue_None [OF W None]
        by (auto simp: ud_write_cb_def ud_catch_run ud_write_ok_def ud_sent_def)
    next
      case (Some pq)
      obtain x q where x: "pq = (x, q)" by fastforce
      obtain ret l where l: "lu_submit_write (ue_usb E) (packet_bytes x) (ud_usb s) = (ret, l)" by fastforce
      show ?thesis
        using cb Completed next_run t Some x l cq_dequeue_Some [OF W Some [unfolded x]]
        by (auto simp: ud_write_cb_def ud_catch_run ud_write_ok_def ud_sent_def ud_send_run Let_def
            simp del: blockE.simps split: if_splits)
    qed
  qed (use cb t in \<open>auto simp: ud_write_cb_def ud_catch_run ud_write_ok_def ud_sent_def prog_run
      ud_notify_write_def ud_notify_read_def\<close>)
qed

text \<open>The two read transfers change places.\<close>

lemma ud_read_swap_run:
  assumes "ud_rtransfer_curr s = Some i" and "ud_rtransfer_prev s = Some j"
  shows "ud_read_swap E s =
    (case lu_submit_read (ue_usb E) j (ud_usb s) of (ret, l) \<Rightarrow>
       if ret < 0 then (Inl (Libusb_error ret), s\<lparr>ud_rtransfer_curr := Some j, ud_usb := l\<rparr>)
       else (Inr (), s\<lparr>ud_rtransfer_curr := Some j, ud_usb := l, ud_reading := ud_reading s @ [j],
              ud_rtransfer_prev := Some i\<rparr>))"
  using assms
  by (simp add: ud_read_swap_def ud_submit_read_def ud_try_def ud_call_def prog_run Let_def split: prod.split)

text \<open>
  The end of a read transfer. What concerns the write side stays; the transfer that is
  submitted is not the one that ended.
\<close>

lemma ud_read_ended_effect:
  assumes ok: "ud_read_ok s" and i: "i \<in> set (ud_reading s)"
    and run: "ud_event E (Read_ended i status v) s = (r, s')"
  shows "r = Inr () \<and> ud_read_ok s' \<and> i \<notin> set (ud_reading s')
    \<and> (ud_wtransfer s', ud_writing s', ud_wire s', write_queue s', ud_open s', ud_alive s')
      = (ud_wtransfer s, ud_writing s, ud_wire s, write_queue s, ud_open s, ud_alive s)"
proof -
  obtain j where j: "ud_reading s = [i]" "ud_rtransfer_curr s = Some i" "ud_rtransfer_prev s = Some j"
    "i \<noteq> j" "{i, j} \<subseteq> set (ud_alive s)"
    using ok i by (auto simp: ud_read_ok_def)
  let ?s = "s\<lparr>ud_reading := []\<rparr>"
  obtain ret l where l: "lu_submit_read (ue_usb E) j (ud_usb s) = (ret, l)" by fastforce
  have cb: "ud_read_cb E status v ?s = (r, s')"
    using run j(1) by (simp add: run_bindE run_modifyE run_retE split: prod.splits sum.splits)
  have swap: "ud_read_swap E ?s =
    (if ret < 0 then (Inl (Libusb_error ret), ?s\<lparr>ud_rtransfer_curr := Some j, ud_usb := l\<rparr>)
     else (Inr (), ?s\<lparr>ud_rtransfer_curr := Some j, ud_usb := l, ud_reading := [j], ud_rtransfer_prev := Some i\<rparr>))"
    using ud_read_swap_run [of ?s i j E] j l by simp
  have ok': "ud_read_ok (?s\<lparr>ud_rtransfer_curr := Some j, ud_usb := l, ud_reading := [j], ud_rtransfer_prev := Some i\<rparr>)"
    using j(4,5) by (auto simp: ud_read_ok_def)
  show ?thesis
  proof (cases status)
    case Completed
    have std: "packet_of_view (ue_mem E) v = Inl e \<Longrightarrow> is_std_exception e" for e
      by (auto simp: packet_of_view_def parse_header_view_def parse_payload_view_def Let_def
          split: option.splits sum.splits if_splits)
    show ?thesis
      using cb Completed ok' j(4)
      by (auto simp: ud_read_cb_def ud_catch_run run_bindE swap run_liftE run_modifyE std ud_read_ok_def
          split: if_splits sum.splits option.splits)
  qed (use cb swap ok' j in \<open>auto simp: ud_read_cb_def ud_catch_run prog_run ud_notify_write_def ud_notify_read_def
      ud_read_ok_def split: if_splits\<close>)
qed

lemma ud_step_inv:
  assumes laws: "usb_laws E" and step: "ud_step E s s'" and inv: "ud_inv E s"
  shows "ud_inv E s'"
proof -
  have W: "queue_laws (ue_write_queue E)" using laws by (simp add: usb_laws_def)
  have ok: "ud_write_ok E s" "ud_read_ok s" using inv by (simp_all add: ud_inv_def)
  show ?thesis
    using step
  proof cases
    case (user_write p r)
    from ud_write_effect [OF W ok(1) this] ok(2) show ?thesis by (auto simp: ud_inv_def ud_read_ok_def)
  next
    case (user_read p)
    then show ?thesis using inv
      by (auto simp: transport_read_def ud_inv_def ud_write_ok_def ud_read_ok_def split: option.splits)
  next
    case (write_ended status r)
    from ud_write_ended_effect [OF W ok(1) this] ok(2) show ?thesis by (auto simp: ud_inv_def ud_read_ok_def)
  next
    case (read_ended i status v r)
    from ud_read_ended_effect [OF ok(2) this] ok(1) show ?thesis
      using ud_write_ok_frame [of s' s E] by (simp add: ud_inv_def)
  qed
qed

sublocale usb_library \<subseteq> io: invariant_system "ud_begun E" "ud_step E" "ud_inv E"
proof unfold_locales
  show "ud_inv E s" if "ud_begun E s" for s :: "('l, 'w, 'r) usb_device"
    using that by (rule ud_begun_inv)
  show "ud_inv E t" if "ud_inv E s" "ud_step E s t" for s t :: "('l, 'w, 'r) usb_device"
    using ud_step_inv [OF library that(2,1)] .
qed

context usb_library
begin

lemma usb_reach_inv: "reach (ud_begun E) (ud_step E) s \<Longrightarrow> ud_inv E s"
  by (rule io.reach_inv)

end

text \<open>
  A reference library: everything succeeds, but that submitting a read transfer returns the
  number the device's state is.
\<close>

definition ref_libusb :: "int libusb_api" where
  "ref_libusb =
     \<lparr>lu_init = (\<lambda>l. (0, l)), lu_open_device = (\<lambda>l. (True, l)), lu_set_auto_detach = (\<lambda>l. (0, l)), lu_claim_interface = (\<lambda>l. (0, l)),
      lu_release_interface = (\<lambda>l. (0, l)), lu_close = (\<lambda>l. l), lu_exit = (\<lambda>l. l), lu_alloc_transfer = (\<lambda>l. (True, l)),
      lu_dev_mem_alloc = (\<lambda>l. (True, l)), lu_submit_write = (\<lambda>b l. (0, l)), lu_submit_read = (\<lambda>i l. (l, l)),
      lu_cancel_write = (\<lambda>l. (0, l)), lu_cancel_read = (\<lambda>i l. (0, l)), lu_wait = (\<lambda>l. ([], l)), lu_error_no_device = -4,
      lu_error_not_found = -5, lu_status_value = (\<lambda>_. 1)\<rparr>"

definition ref_usb_env :: "(int, packet list, packet list) usb_env" where
  "ref_usb_env = \<lparr>ue_usb = ref_libusb, ue_write_queue = ref_queue_api 100, ue_read_queue = ref_queue_api 100,
     ue_mem = replicate 2048 0\<rparr>"

lemma ref_usb_laws [simp]: "usb_laws ref_usb_env"
  by (simp add: usb_laws_def ref_usb_env_def)

interpretation ref_usb: usb_library ref_usb_env
  by unfold_locales simp

definition ref_usb :: "(int, packet list, packet list) usb_device" where
  "ref_usb = \<lparr>errc = no_error_code, write_queue = [], read_queue = [], ud_usb = 0, ud_handle = True,
     ud_rtransfer_curr = Some 0, ud_rtransfer_prev = Some 1,
     ud_wtransfer = Some \<lparr>wt_packet = \<lparr>p_data = replicate 2048 0\<rparr>, wt_filled = [], wt_in_progress = False, wt_cancelled = False\<rparr>,
     ud_open = True, ud_running = True, ud_eptr = None, ud_alive = [1, 0], ud_next = 2, ud_cancelled = [], ud_reading = [0],
     ud_writing = [], ud_wire = []\<rparr>"

lemma ref_usb_begun: "ud_begun ref_usb_env ref_usb"
  by (auto simp: ud_begun_def ref_usb_def ref_usb_env_def ref_queue_api_def)

lemma ref_usb_reach: "reach (ud_begun ref_usb_env) (ud_step ref_usb_env) ref_usb"
  by (rule reach_init) (rule ref_usb_begun)

section \<open>Properties\<close>





text \<open>
  C22: In every state the USB device reaches, the buffer that a callback parses is not the one
  libusb fills: when the transfer \<open>i\<close> ends it was the only one libusb held, and afterwards
  libusb holds at most one, another one, which is the current one and is alive.
\<close>

theorem usb_read_buffers:
  assumes "usb_laws E" and "reach (ud_begun E) (ud_step E) s" and "i \<in> set (ud_reading s)"
    and "ud_event E (Read_ended i status v) s = (r, s')"
  shows "ud_reading s = [i] \<and> length (ud_reading s') \<le> 1 \<and> i \<notin> set (ud_reading s')
    \<and> (\<forall>j\<in>set (ud_reading s'). ud_rtransfer_curr s' = Some j \<and> j \<in> set (ud_alive s'))"
proof -
  have lib: "usb_library E" using assms(1) by unfold_locales
  have inv: "ud_read_ok s" using usb_library.usb_reach_inv [OF lib assms(2)] by (simp add: ud_inv_def)
  from ud_read_ended_effect [OF inv assms(3,4)] inv assms(3) show ?thesis
    by (auto simp: ud_read_ok_def)
qed

theorem usb_read_buffers_witness:
  "\<exists>r s'. ud_event ref_usb_env (Read_ended 0 Completed []) ref_usb = (r, s') \<and> 0 \<notin> set (ud_reading s')"
proof -
  obtain r s' where run: "ud_event ref_usb_env (Read_ended 0 Completed []) ref_usb = (r, s')" by fastforce
  have "0 \<in> set (ud_reading ref_usb)" by (simp add: ref_usb_def)
  from usb_read_buffers [OF ref_usb_laws ref_usb_reach this run] run show ?thesis by blast
qed

text \<open>
  C35: When a read transfer has ended and the other one cannot be submitted, as when the device
  was unplugged, the two pointers are left equal: the thread leaves its loop with the error
  \<open>other\<close> and closes the device, and the close deletes the same transfer twice.
\<close>

theorem usb_double_delete:
  assumes "usb_laws E" and "reach (ud_begun E) (ud_step E) s" and "i \<in> set (ud_reading s)"
    and "ud_rtransfer_prev s = Some j" and "lu_submit_read (ue_usb E) j (ud_usb s) = (ret, l)" and "ret < 0"
  shows "\<exists>s'. ud_turn E [Read_ended i Completed v] s = (Inr Break_loop, s')
    \<and> errc s' = make_transport_code Other
    \<and> (ud_open s \<and> distinct (ud_alive s) \<longrightarrow> fst (ud_run_end E s') = Inl Undefined_behaviour)"
proof -
  have lib: "usb_library E" using assms(1) by unfold_locales
  have inv: "ud_read_ok s" using usb_library.usb_reach_inv [OF lib assms(2)] by (simp add: ud_inv_def)
  then have c: "ud_reading s = [i]" "ud_rtransfer_curr s = Some i" "i \<noteq> j"
    using assms(3,4) by (auto simp: ud_read_ok_def)
  let ?s = "s\<lparr>ud_eptr := None, ud_reading := []\<rparr>"
  let ?t = "?s\<lparr>ud_rtransfer_curr := Some j, ud_usb := l, ud_eptr := Some (Libusb_error ret)\<rparr>"
  have "ud_read_swap E ?s = (Inl (Libusb_error ret), ?s\<lparr>ud_rtransfer_curr := Some j, ud_usb := l\<rparr>)"
    using ud_read_swap_run [of ?s i j E] c assms(4,5,6) by simp
  then have ev: "ud_event E (Read_ended i Completed v) (s\<lparr>ud_eptr := None\<rparr>) = (Inr (), ?t)"
    using c(1) by (simp add: run_bindE run_modifyE run_retE ud_read_cb_def ud_catch_run)
  have "ud_turn E [Read_ended i Completed v] s = (Inr Break_loop, ?t\<lparr>errc := make_transport_code Other\<rparr>)"
    using ev by (simp add: ud_turn_def run_catchE run_bindE run_modifyE run_retE run_withE run_throwE
        del: ud_event.simps)
  moreover have "fst (ud_run_end E (?t\<lparr>errc := make_transport_code Other\<rparr>)) = Inl Undefined_behaviour"
    if "ud_open s" "distinct (ud_alive s)"
    using that assms(4)
    by (simp add: ud_run_end_def ud_outer_def ud_close_def ud_close_body_def ud_delete_def prog_run)
  ultimately show ?thesis by (intro exI [of _ "?t\<lparr>errc := make_transport_code Other\<rparr>"]) simp
qed

theorem usb_double_delete_witness:
  "\<exists>s'. ud_turn ref_usb_env [Read_ended 0 Completed []] (ref_usb\<lparr>ud_usb := -4\<rparr>) = (Inr Break_loop, s')
     \<and> fst (ud_run_end ref_usb_env s') = Inl Undefined_behaviour"
proof -
  let ?s = "ref_usb\<lparr>ud_usb := -4\<rparr>"
  have "ud_begun ref_usb_env ?s" using ref_usb_begun by (auto simp: ud_begun_def)
  then have "reach (ud_begun ref_usb_env) (ud_step ref_usb_env) ?s" by (rule reach_init)
  moreover have "0 \<in> set (ud_reading ?s)" "ud_rtransfer_prev ?s = Some 1" "ud_open ?s" "distinct (ud_alive ?s)"
    "lu_submit_read (ue_usb ref_usb_env) 1 (ud_usb ?s) = (-4, -4)"
    by (simp_all add: ref_usb_def ref_usb_env_def ref_libusb_def)
  ultimately show ?thesis using usb_double_delete [OF ref_usb_laws, of ?s 0 1 "-4" "-4"] by auto
qed

text \<open>
  C36: A close is protected against nothing: when the thread closes the device between the check
  of \<^verbatim>\<open>write\<close> that it is open and the rest of \<^verbatim>\<open>write\<close>, the rest goes through a null pointer;
  and when \<^verbatim>\<open>stop\<close> has passed the same check in \<^verbatim>\<open>close\<close> before the thread, which \<^verbatim>\<open>stop\<close> has just
  told to end, closes the device, the second close releases the interface of a null handle.
\<close>

theorem usb_write_during_close:
  assumes "ud_open s" and "ud_run_end E s = (r, s1)" and "r \<noteq> Inl Undefined_behaviour"
  shows "ud_write E p s = ud_write_body E p s \<and> ud_write_body E p s1 = (Inl Undefined_behaviour, s1)
    \<and> ud_close E s = ud_close_body E s \<and> fst (ud_close_body E s1) = Inl Undefined_behaviour"
proof -
  have closed: "ud_wtransfer s1 = None \<and> ud_rtransfer_curr s1 = None \<and> ud_rtransfer_prev s1 = None \<and> \<not> ud_handle s1"
    using assms
    by (auto simp: ud_run_end_def ud_outer_def ud_close_def ud_close_body_def ud_delete_def ud_call_def prog_run
        split: option.splits if_splits prod.splits sum.splits)
  then have "fst (ud_close_body E s1) = Inl Undefined_behaviour"
    by (simp add: ud_close_body_def ud_delete_def prog_run)
  then show ?thesis using assms(1) closed by (simp add: ud_write_def ud_close_def run_withE ud_write_body_run)
qed

theorem usb_write_during_close_witness:
  "\<exists>s1. ud_run_end ref_usb_env ref_usb = (Inr (), s1)
     \<and> ud_write_body ref_usb_env \<lparr>p_data = replicate 2048 0\<rparr> s1 = (Inl Undefined_behaviour, s1)
     \<and> fst (ud_close_body ref_usb_env s1) = Inl Undefined_behaviour"
proof -
  obtain s1 where run: "ud_run_end ref_usb_env ref_usb = (Inr (), s1)"
    by (simp add: ud_run_end_def ud_outer_def ud_close_def ud_close_body_def ud_delete_def ud_call_def prog_run
        ref_usb_def ref_usb_env_def ref_libusb_def)
  have "ud_open ref_usb" by (simp add: ref_usb_def)
  from usb_write_during_close [OF this run] run show ?thesis by auto
qed

subsection \<open>Cancelling\<close>

text \<open>
  The write transfer is cancelled while it is in progress: the one event that libusb reports
  during the wait decides whether it ends.
\<close>

lemma ud_turn_write:
  assumes "ud_wtransfer s = Some t"
  shows "ud_turn E [Write_ended Cancelled] s
      = (Inr Go_on, s\<lparr>ud_eptr := None, ud_writing := tl (ud_writing s), ud_wtransfer := Some (t\<lparr>wt_cancelled := True\<rparr>)\<rparr>)"
    and "cq_try_dequeue (ue_write_queue E) (write_queue s) = None \<Longrightarrow> ud_turn E [Write_ended Completed] s
      = (Inr Go_on, s\<lparr>ud_eptr := None, ud_writing := tl (ud_writing s), ud_wtransfer := Some (t\<lparr>wt_in_progress := False\<rparr>)\<rparr>)"
  using assms
  by (simp_all add: ud_turn_def ud_write_cb_def ud_write_next_def ud_notify_write_def ud_catch_run run_catchE
      run_bindE run_modifyE run_withE run_retE)

lemma ud_turn_read:
  assumes "ud_rtransfer_curr s = Some i"
  shows "ud_turn E [Read_ended i Cancelled v] s
      = (Inr Go_on, s\<lparr>ud_eptr := None, ud_reading := remove1 i (ud_reading s), ud_cancelled := i # ud_cancelled s\<rparr>)"
  using assms
  by (simp add: ud_turn_def ud_read_cb_def ud_notify_read_def ud_catch_run run_catchE
      run_bindE run_modifyE run_withE run_retE)

lemma ud_cancel_write_run:
  assumes "ud_wtransfer s = Some t" and "lu_cancel_write (ue_usb E) (ud_usb s) = (0, l)" and "lu_wait (ue_usb E) l = ([es], m)"
    and "ud_turn E es (s\<lparr>ud_wtransfer := Some (t\<lparr>wt_cancelled := False\<rparr>), ud_usb := m\<rparr>) = (Inr Go_on, s')"
    and "ud_wtransfer s' = Some t'"
  shows "ud_cancel_write E s = (Inr (wt_cancelled t'), s')"
  using assms by (simp add: ud_cancel_write_def ud_cancel_def ud_call_def run_bindE run_modifyE run_withE run_retE)

text \<open>A transfer that libusb does not hold is left alone.\<close>

lemma ud_cancel_idle:
  "ud_wtransfer s = Some t \<Longrightarrow> lu_cancel_write (ue_usb E) (ud_usb s) = (lu_error_not_found (ue_usb E), l) \<Longrightarrow>
     lu_error_not_found (ue_usb E) \<noteq> 0 \<Longrightarrow>
     ud_cancel_write E s = (Inr True, s\<lparr>ud_wtransfer := Some (t\<lparr>wt_cancelled := False\<rparr>), ud_usb := l\<rparr>)"
  "lu_cancel_read (ue_usb E) i (ud_usb s) = (lu_error_not_found (ue_usb E), l) \<Longrightarrow>
     lu_error_not_found (ue_usb E) \<noteq> 0 \<Longrightarrow>
     ud_cancel_read E (Some i) s = (Inr True, s\<lparr>ud_cancelled := removeAll i (ud_cancelled s), ud_usb := l\<rparr>)"
  by (simp_all add: ud_cancel_write_def ud_cancel_read_def ud_cancel_def ud_call_def run_bindE run_modifyE run_withE run_retE)

lemma ud_cancel_read_run:
  assumes "ud_rtransfer_curr s = Some i" and "i \<in> set (ud_alive s)"
    and "lu_cancel_read (ue_usb E) i (ud_usb s) = (0, l)" and "lu_wait (ue_usb E) l = ([[Read_ended i Cancelled v]], m)"
  shows "ud_cancel_read E (Some i) s = (Inr True, s\<lparr>ud_cancelled := i # removeAll i (ud_cancelled s), ud_usb := m,
    ud_eptr := None, ud_reading := remove1 i (ud_reading s)\<rparr>)"
proof -
  let ?s = "s\<lparr>ud_cancelled := removeAll i (ud_cancelled s), ud_usb := m\<rparr>"
  have "ud_turn E [Read_ended i Cancelled v] ?s = (Inr Go_on, ?s\<lparr>ud_eptr := None,
      ud_reading := remove1 i (ud_reading s), ud_cancelled := i # removeAll i (ud_cancelled s)\<rparr>)"
    using ud_turn_read [of ?s i E v] assms(1) by simp
  then show ?thesis
    using assms by (simp add: ud_cancel_read_def ud_cancel_def ud_call_def run_bindE run_modifyE run_withE run_retE)
qed

text \<open>The write transfer that libusb holds is the only one.\<close>

lemma ud_writing_held:
  assumes "usb_laws E" and "reach (ud_begun E) (ud_step E) s" and "ud_writing s \<noteq> []"
  shows "\<exists>t. ud_wtransfer s = Some t \<and> tl (ud_writing s) = []"
  using usb_library.usb_reach_inv [OF usb_library.intro [OF assms(1)] assms(2)] assms(3)
  by (auto simp: ud_inv_def ud_write_ok_def split: option.splits if_splits)

lemma ud_reading_held:
  assumes "usb_laws E" and "reach (ud_begun E) (ud_step E) s" and "i \<in> set (ud_reading s)"
  shows "\<exists>j. ud_reading s = [i] \<and> ud_rtransfer_curr s = Some i \<and> ud_rtransfer_prev s = Some j \<and> i \<noteq> j
    \<and> {i, j} \<subseteq> set (ud_alive s)"
  using usb_library.usb_reach_inv [OF usb_library.intro [OF assms(1)] assms(2)] assms(3)
  by (auto simp: ud_inv_def ud_read_ok_def)

text \<open>
  C34: \<^verbatim>\<open>stop\<close> comes back when libusb reports the transfer that was in progress as cancelled, and
  only then: from every reachable state with a write in progress, when libusb takes the request to
  cancel it and then reports that it was cancelled, \<^verbatim>\<open>cancel\<close> returns and libusb holds no write
  any more; when libusb reports instead that it was completed, as a transfer may while the request
  is on its way, nobody sets the flag that \<^verbatim>\<open>cancel\<close> waits for: \<^verbatim>\<open>stop\<close> does not return, the
  device stays open and its thread stays running.
\<close>

theorem usb_cancel_waits:
  assumes "usb_laws E" and "reach (ud_begun E) (ud_step E) s" and "ud_writing s \<noteq> []" and "ud_running s"
    and "lu_cancel_write (ue_usb E) (ud_usb s) = (0, l)" and "lu_wait (ue_usb E) l = ([[Write_ended status]], m)"
    and "status = Cancelled \<or> (status = Completed \<and> cq_items (ue_write_queue E) (write_queue s) = [])"
  shows "\<exists>s'. ud_cancel_write E s = (Inr (status = Cancelled), s') \<and> ud_writing s' = []
    \<and> (status = Completed \<longrightarrow> ud_stop E s = (Inr False, s')) \<and> ud_open s' = ud_open s \<and> ud_running s'"
proof -
  obtain t where t: "ud_wtransfer s = Some t" "tl (ud_writing s) = []"
    using ud_writing_held [OF assms(1-3)] by blast
  have empty: "cq_try_dequeue (ue_write_queue E) (write_queue s) = None" if "status = Completed"
    using assms(1,7) that
    by (cases "cq_try_dequeue (ue_write_queue E) (write_queue s)") (auto simp: usb_laws_def queue_laws_def)
  let ?s = "s\<lparr>ud_wtransfer := Some (t\<lparr>wt_cancelled := False\<rparr>), ud_usb := m\<rparr>"
  let ?r = "?s\<lparr>ud_eptr := None, ud_writing := [],
      ud_wtransfer := Some (if status = Cancelled then t\<lparr>wt_cancelled := True\<rparr>
        else t\<lparr>wt_cancelled := False, wt_in_progress := False\<rparr>)\<rparr>"
  have turn: "ud_turn E [Write_ended status] ?s = (Inr Go_on, ?r)"
    using assms(7) ud_turn_write [of ?s "t\<lparr>wt_cancelled := False\<rparr>" E] empty t(2) by auto
  have "ud_cancel_write E s = (Inr (status = Cancelled), ?r)"
    using ud_cancel_write_run [OF t(1) assms(5,6) turn] assms(7) by auto
  moreover have "ud_stop E s = (Inr False, ?r)" if "status = Completed"
    using calculation that assms(4)
    by (simp add: ud_stop_def ud_cancel_transfers_def and_then_def run_withE run_catchE run_bindE run_retE)
  ultimately show ?thesis using assms(4) by auto
qed

text \<open>The state of the reference device with one write in progress, and a libusb that cancels it.\<close>

definition ref_usb_writing :: "(int, packet list, packet list) usb_device" where
  "ref_usb_writing = snd (ud_write ref_usb_env \<lparr>p_data = replicate 2048 0\<rparr> ref_usb)"

definition ref_cancel_env :: "(int, packet list, packet list) usb_env" where
  "ref_cancel_env = ref_usb_env\<lparr>ue_usb := ref_libusb
     \<lparr>lu_cancel_write := (\<lambda>l. (0, 1)), lu_cancel_read := (\<lambda>i l. if i = 0 then (0, 2) else (-5, l)),
      lu_wait := (\<lambda>l. (if l = 1 then [[Write_ended Cancelled]] else [[Read_ended 0 Cancelled []]], l))\<rparr>\<rparr>"

lemma ref_cancel_laws [simp]: "usb_laws ref_cancel_env"
  using ref_usb_laws by (simp add: usb_laws_def ref_cancel_env_def)

lemma ref_usb_writing:
  "ref_usb_writing = ref_usb\<lparr>ud_writing := [packet_bytes \<lparr>p_data = replicate 2048 0\<rparr>], ud_wire := [\<lparr>p_data = replicate 2048 0\<rparr>],
     ud_wtransfer := Some \<lparr>wt_packet = \<lparr>p_data = replicate 2048 0\<rparr>,
       wt_filled = packet_bytes \<lparr>p_data = replicate 2048 0\<rparr>, wt_in_progress = True, wt_cancelled = False\<rparr>\<rparr>"
  "ud_write ref_cancel_env \<lparr>p_data = replicate 2048 0\<rparr> ref_usb = (Inr (), ref_usb_writing)"
  by (simp_all add: ref_usb_writing_def ud_write_def ud_is_open_def ud_write_body_def ud_fill_write_def ud_submit_write_def
      ud_try_def ud_call_def prog_run ref_usb_def ref_usb_env_def ref_libusb_def ref_cancel_env_def)

lemma ref_usb_writing_reach: "reach (ud_begun ref_cancel_env) (ud_step ref_cancel_env) ref_usb_writing"
proof -
  have "ud_begun ref_cancel_env ref_usb"
    using ref_usb_begun by (simp add: ud_begun_def ref_cancel_env_def)
  then have "reach (ud_begun ref_cancel_env) (ud_step ref_cancel_env) ref_usb" by (rule reach_init)
  moreover have "ud_step ref_cancel_env ref_usb ref_usb_writing" by (rule user_write) (rule ref_usb_writing(2))
  ultimately show ?thesis by (rule reach_step)
qed

theorem usb_cancel_waits_witness:
  "\<exists>s'. ud_cancel_write ref_cancel_env ref_usb_writing = (Inr True, s') \<and> ud_writing s' = []"
proof -
  have "ud_writing ref_usb_writing \<noteq> []" "ud_running ref_usb_writing"
    "lu_cancel_write (ue_usb ref_cancel_env) (ud_usb ref_usb_writing) = (0, 1)"
    "lu_wait (ue_usb ref_cancel_env) 1 = ([[Write_ended Cancelled]], 1)"
    by (simp_all add: ref_usb_writing ref_usb_def ref_cancel_env_def)
  from usb_cancel_waits [OF ref_cancel_laws ref_usb_writing_reach this] show ?thesis by auto
qed



end
