(* ===== verification/Agreement.thy ===== *)
theory Agreement
  imports Prelude Packet_Format "HOL-Library.Multiset"
begin

text \<open>
  What host and device promise together, without packets, timers and wires: a command that is
  reported as fulfilled was executed, and a command that is executed was issued. \<^verbatim>\<open>Link\<close> shows
  that the model of the code implements it.
\<close>

text \<open>
  A command is known by the packet identifier it was issued under. It may be executed more than
  once (the host repeats what is not acknowledged in time) and is reported once.
\<close>

type_synonym issued_command = "u16 \<times> block"

record agreement =
  ag_issued :: "issued_command set"
  ag_executed :: "issued_command list"
  ag_fulfilled :: "issued_command list"

definition ag_start :: "agreement \<Rightarrow> bool" where
  "ag_start a \<longleftrightarrow> ag_issued a = {} \<and> ag_executed a = [] \<and> ag_fulfilled a = []"

inductive ag_step :: "agreement \<Rightarrow> agreement \<Rightarrow> bool" where
  issue: "fst x \<notin> fst ` ag_issued a \<Longrightarrow> ag_step a (a\<lparr>ag_issued := insert x (ag_issued a)\<rparr>)"
| execute: "x \<in> ag_issued a \<Longrightarrow> ag_step a (a\<lparr>ag_executed := ag_executed a @ [x]\<rparr>)"
| fulfil: "x \<in> set (ag_executed a) \<Longrightarrow> fst x \<notin> fst ` set (ag_fulfilled a) \<Longrightarrow>
    ag_step a (a\<lparr>ag_fulfilled := ag_fulfilled a @ [x]\<rparr>)"

inductive_cases ag_stepE: "ag_step a b"

definition ag_inv :: "agreement \<Rightarrow> bool" where
  "ag_inv a \<longleftrightarrow> inj_on fst (ag_issued a) \<and> set (ag_executed a) \<subseteq> ag_issued a
     \<and> set (ag_fulfilled a) \<subseteq> set (ag_executed a) \<and> distinct (map fst (ag_fulfilled a))"

lemma ag_start_inv: "ag_start a \<Longrightarrow> ag_inv a"
  by (simp add: ag_start_def ag_inv_def)

lemma ag_step_inv: "ag_inv a \<Longrightarrow> ag_step a b \<Longrightarrow> ag_inv b"
  by (elim ag_stepE) (auto simp: ag_inv_def)

interpretation agreement: invariant_system ag_start ag_step ag_inv
  by unfold_locales (auto intro: ag_start_inv ag_step_inv)

lemma ag_reach_inv: "reach ag_start ag_step a \<Longrightarrow> ag_inv a"
  by (rule agreement.reach_inv)

text \<open>No more reports than executions, block by block, and only issued commands.\<close>

lemma distinct_subset_mset:
  assumes "distinct xs" and "set xs \<subseteq> set ys"
  shows "mset xs \<subseteq># mset ys"
proof -
  have "mset xs = mset_set (set xs)" using assms(1) by (simp add: mset_set_set)
  also have "\<dots> \<subseteq># mset_set (set ys)" using assms(2) by (simp add: subset_imp_msubset_mset_set)
  also have "\<dots> \<subseteq># mset ys" by (rule mset_set_set_mset_msubset [of "mset ys", simplified])
  finally show ?thesis .
qed

lemma ag_injective:
  assumes "ag_inv a"
  shows "mset (map snd (ag_fulfilled a)) \<subseteq># mset (map snd (ag_executed a))"
    and "set (map snd (ag_executed a)) \<subseteq> snd ` ag_issued a"
proof -
  have "distinct (ag_fulfilled a)" "set (ag_fulfilled a) \<subseteq> set (ag_executed a)"
    using assms by (auto simp: ag_inv_def distinct_map)
  from distinct_subset_mset [OF this]
  have "image_mset snd (mset (ag_fulfilled a)) \<subseteq># image_mset snd (mset (ag_executed a))"
    by (rule image_mset_subseteq_mono)
  then show "mset (map snd (ag_fulfilled a)) \<subseteq># mset (map snd (ag_executed a))" by simp
  show "set (map snd (ag_executed a)) \<subseteq> snd ` ag_issued a"
    using assms by (auto simp: ag_inv_def)
qed

end
