(* ===== verification/Slave_Request.thy ===== *)
theory Slave_Request
  imports Transport
begin

text \<open>
  \<^verbatim>\<open>slave::RequestManager\<close> (\<^verbatim>\<open>src/slave_request.*\<close>): what the device sends (acknowledgements,
  identification, data cut into packets) and the one keep-alive timeout it watches.
\<close>

section \<open>State\<close>

text \<open>
  The operations of the objects the manager uses, and the bytes its stack holds where a
  packet is constructed.
\<close>

datatype slave_timer = Slave_ka_timer

record ('q, 'tr) slave_env =
  se_mem :: bytes
  se_tq :: "('q, slave_timer) timeout_queue_api"
  se_tr :: "'tr transport_api"

text \<open>
  The members. The manager holds a pointer to the transport of its owner: \<open>None\<close> is the null
  pointer, \<open>Some t\<close> the object behind it. \<open>sr_running\<close> is the run flag of the base class
  \<^verbatim>\<open>Thread\<close>, which \<^verbatim>\<open>start\<close> sets and \<^verbatim>\<open>stop\<close> clears.
\<close>

record ('q, 'tr) slave_rm =
  sr_timeout_queue :: 'q
  sr_keepalive_id :: nat
  sr_now :: int
  sr_packet_id :: u16
  sr_keepalive_mngt :: bool
  sr_timeout_keepalive :: int
  sr_transport :: "'tr option"
  sr_running :: bool

text \<open>
  \<^verbatim>\<open>RequestManager(logger, transport, cb)\<close> over a new queue. Two members have no initial value:
  \<open>i\<close> and \<open>t\<close> are what their storage holds.
\<close>

definition srm_new :: "'q \<Rightarrow> 'tr option \<Rightarrow> nat \<Rightarrow> int \<Rightarrow> ('q, 'tr) slave_rm" where
  "srm_new q tr i t =
     \<lparr>sr_timeout_queue = q, sr_keepalive_id = i, sr_now = 0, sr_packet_id = 0, sr_keepalive_mngt = False,
      sr_timeout_keepalive = t, sr_transport = tr, sr_running = False\<rparr>"

section \<open>Sending\<close>

text \<open>\<^verbatim>\<open>transport_ && transport_->is_open()\<close>.\<close>

definition srm_open :: "('q, 'tr) slave_env \<Rightarrow> ('q, 'tr) slave_rm \<Rightarrow> bool" where
  "srm_open E s = (case sr_transport s of None \<Rightarrow> False | Some t \<Rightarrow> tr_is_open (se_tr E) t)"

text \<open>\<^verbatim>\<open>transport_->write(p)\<close>; through a null pointer it has no defined behaviour.\<close>

definition srm_write :: "('q, 'tr) slave_env \<Rightarrow> packet \<Rightarrow> (('q, 'tr) slave_rm, unit) stmt" where
  "srm_write E p = (\<lambda>s.
     case sr_transport s of
       None \<Rightarrow> (Inl Undefined_behaviour, s)
     | Some t \<Rightarrow> (case tr_write (se_tr E) p t of (r, t') \<Rightarrow> (r, s\<lparr>sr_transport := Some t'\<rparr>)))"

text \<open>
  \<^verbatim>\<open>transport_->write(Packet::make_...(++packet_id_, ...))\<close>: the identifier is spent before
  the packet is made and before it is written, so either may throw with the identifier gone. In
  \<^verbatim>\<open>send_cmd_ack\<close> C++ may evaluate \<^verbatim>\<open>packet.blocks().at(0)\<close> before the increment; that shows only
  for a packet without a block, whose identifier is then not spent.
\<close>

definition srm_transmit ::
  "('q, 'tr) slave_env \<Rightarrow> (u16 \<Rightarrow> exn + packet) \<Rightarrow> (('q, 'tr) slave_rm, unit) stmt" where
  "srm_transmit E mk =
     bindE (modifyE (\<lambda>s. s\<lparr>sr_packet_id := sr_packet_id s + 1\<rparr>)) (\<lambda>_.
     withE (\<lambda>s. bindE (liftE (mk (sr_packet_id s))) (srm_write E)))"

definition srm_send_cmd_ack :: "('q, 'tr) slave_env \<Rightarrow> packet \<Rightarrow> (('q, 'tr) slave_rm, unit) stmt" where
  "srm_send_cmd_ack E packet = withE (\<lambda>s.
     whenE (srm_open E s)
       (srm_transmit E (\<lambda>i.
          case packet_blocks packet of
            [] \<Rightarrow> Inl (Std_exception Out_of_range)
          | b # _ \<Rightarrow> make_cmd_ack (se_mem E) i (b_type b) (packet_id packet))))"

text \<open>The loop of \<^verbatim>\<open>send_data\<close> over the blocks that are left; it returns the last payload.\<close>

fun srm_send_loop ::
  "('q, 'tr) slave_env \<Rightarrow> block list \<Rightarrow> block list \<Rightarrow> nat \<Rightarrow> (('q, 'tr) slave_rm, block list) stmt" where
  "srm_send_loop E [] pl pl_size = retE pl"
| "srm_send_loop E (b # bs) pl pl_size =
     (if block_size b > max_pl_size then throwE (Application_error Data_too_big)
      else if pl_size + block_size b > max_pl_size then
        bindE (srm_transmit E (\<lambda>i. make_data (se_mem E) i pl)) (\<lambda>_.
        srm_send_loop E bs [b] (block_size b))
      else srm_send_loop E bs (pl @ [b]) (pl_size + block_size b))"

definition srm_send_data :: "('q, 'tr) slave_env \<Rightarrow> block list \<Rightarrow> (('q, 'tr) slave_rm, unit) stmt" where
  "srm_send_data E bs =
     bindE (srm_send_loop E bs [] 0) (\<lambda>pl.
     whenE (pl \<noteq> []) (srm_transmit E (\<lambda>i. make_data (se_mem E) i pl)))"

definition srm_send_dip :: "('q, 'tr) slave_env \<Rightarrow> identification \<Rightarrow> (('q, 'tr) slave_rm, unit) stmt" where
  "srm_send_dip E i = withE (\<lambda>s.
     whenE (srm_open E s) (srm_transmit E (\<lambda>pid. make_dip (se_mem E) pid i)))"

section \<open>Keep-alive timeout\<close>

text \<open>\<^verbatim>\<open>keepalive_id_ = timeout_queue_.add(now_, timeout_keepalive_, ka_timeout_cb)\<close>.\<close>

definition srm_arm :: "('q, 'tr) slave_env \<Rightarrow> ('q, 'tr) slave_rm \<Rightarrow> ('q, 'tr) slave_rm" where
  "srm_arm E s =
     (case tq_add (se_tq E) (sr_timeout_queue s) (sr_now s) (sr_timeout_keepalive s) Slave_ka_timer of
        (q, i) \<Rightarrow> s\<lparr>sr_timeout_queue := q, sr_keepalive_id := i\<rparr>)"

definition srm_disarm :: "('q, 'tr) slave_env \<Rightarrow> ('q, 'tr) slave_rm \<Rightarrow> ('q, 'tr) slave_rm" where
  "srm_disarm E s =
     s\<lparr>sr_timeout_queue := tq_erase (se_tq E) (sr_timeout_queue s) (sr_keepalive_id s)\<rparr>"

definition srm_start_keepalive_management ::
  "('q, 'tr) slave_env \<Rightarrow> int \<Rightarrow> (('q, 'tr) slave_rm, unit) stmt" where
  "srm_start_keepalive_management E timeout =
     blockE [modifyE (\<lambda>s. s\<lparr>sr_keepalive_mngt := True\<rparr>),
             modifyE (\<lambda>s. s\<lparr>sr_timeout_keepalive := ticks timeout\<rparr>),
             modifyE (srm_arm E)]"

definition srm_stop_keepalive_management ::
  "('q, 'tr) slave_env \<Rightarrow> (('q, 'tr) slave_rm, unit) stmt" where
  "srm_stop_keepalive_management E =
     blockE [modifyE (\<lambda>s. s\<lparr>sr_keepalive_mngt := False\<rparr>), modifyE (srm_disarm E)]"

definition srm_keepalive :: "('q, 'tr) slave_env \<Rightarrow> (('q, 'tr) slave_rm, unit) stmt" where
  "srm_keepalive E =
     blockE
      [withE (\<lambda>s. whenE (sr_keepalive_mngt s)
         (blockE [modifyE (srm_disarm E), modifyE (srm_arm E)])),
       withE (\<lambda>s. whenE (srm_open E s) (srm_transmit E (make_keepalive_ack (se_mem E))))]"

text \<open>
  \<^verbatim>\<open>ka_timeout_cb\<close> calls the owner's callback, when there is one; its statement acts on the
  owner's state.
\<close>

definition srm_ka_timeout_cb :: "('s, unit) stmt option \<Rightarrow> ('s, unit) stmt" where
  "srm_ka_timeout_cb timeout_cb = (case timeout_cb of None \<Rightarrow> retE () | Some cb \<Rightarrow> cb)"

section \<open>Life cycle\<close>

definition srm_clear :: "('q, 'tr) slave_env \<Rightarrow> ('q, 'tr) slave_rm \<Rightarrow> ('q, 'tr) slave_rm" where
  "srm_clear E s =
     s\<lparr>sr_timeout_queue := tq_clear (se_tq E) (sr_timeout_queue s), sr_now := 0, sr_packet_id := 0\<rparr>"

definition srm_start :: "('q, 'tr) slave_env \<Rightarrow> (('q, 'tr) slave_rm, unit) stmt" where
  "srm_start E = withE (\<lambda>s.
     if sr_running s then retE ()
     else blockE [modifyE (srm_clear E), modifyE (\<lambda>s. s\<lparr>sr_keepalive_mngt := False\<rparr>),
                  modifyE (\<lambda>s. s\<lparr>sr_running := True\<rparr>)])"

definition srm_stop :: "(('q, 'tr) slave_rm, unit) stmt" where
  "srm_stop = withE (\<lambda>s.
     if \<not> sr_running s then retE () else modifyE (\<lambda>s. s\<lparr>sr_running := False\<rparr>))"

text \<open>
  One turn of \<^verbatim>\<open>run\<close>, while the thread runs: the queue is run for the current tick and the
  tick is counted. The queue calls back the timers that are due; each call is a step of the
  owner's.
\<close>

definition srm_tick :: "(('q, 'tr) slave_rm, unit) stmt" where
  "srm_tick = withE (\<lambda>s. whenE (sr_running s) (modifyE (\<lambda>s. s\<lparr>sr_now := sr_now s + 1\<rparr>)))"

section \<open>What reaches the transport\<close>

text \<open>The packets accepted so far by the transport behind the manager's pointer.\<close>

definition srm_sent :: "('tr \<Rightarrow> packet list) \<Rightarrow> ('q, 'tr) slave_rm \<Rightarrow> packet list" where
  "srm_sent sent s = (case sr_transport s of None \<Rightarrow> [] | Some t \<Rightarrow> sent t)"

text \<open>The identifiers that follow \<open>i\<close>, wrapping at 16 bits.\<close>

primrec next_ids :: "u16 \<Rightarrow> nat \<Rightarrow> u16 list" where
  "next_ids i 0 = []"
| "next_ids i (Suc n) = (i + 1) # next_ids (i + 1) n"

lemma next_ids_add: "next_ids i (m + n) = next_ids i m @ next_ids (i + of_nat m) n"
  by (induction m arbitrary: i) (simp_all add: algebra_simps)

lemma length_next_ids [simp]: "length (next_ids i n) = n"
  by (induction n arbitrary: i) simp_all

text \<open>
  From \<open>s\<close> to \<open>s'\<close> the manager has sent one data packet for each element of \<open>css\<close>, in order
  and with consecutive identifiers, and each reads back as that list of blocks.
\<close>

definition emits ::
  "('tr \<Rightarrow> packet list) \<Rightarrow> ('q, 'tr) slave_rm \<Rightarrow> ('q, 'tr) slave_rm \<Rightarrow> block list list \<Rightarrow> bool" where
  "emits sent s s' css \<longleftrightarrow>
     (\<exists>ps. srm_sent sent s' = srm_sent sent s @ ps \<and> map packet_blocks ps = css
        \<and> (\<forall>p\<in>set ps. valid_packet p \<and> packet_type p = Some Data)
        \<and> map packet_id ps = next_ids (sr_packet_id s) (length ps)
        \<and> sr_packet_id s' = sr_packet_id s + of_nat (length ps))"

lemma emits_refl [simp]: "emits sent s s []"
  by (simp add: emits_def)

lemma emits_trans:
  assumes "emits sent s s1 css" and "emits sent s1 s2 dss"
  shows "emits sent s s2 (css @ dss)"
proof -
  obtain ps where ps: "srm_sent sent s1 = srm_sent sent s @ ps" "map packet_blocks ps = css"
    "\<forall>p\<in>set ps. valid_packet p \<and> packet_type p = Some Data"
    "map packet_id ps = next_ids (sr_packet_id s) (length ps)"
    "sr_packet_id s1 = sr_packet_id s + of_nat (length ps)"
    using assms(1) by (auto simp: emits_def)
  obtain qs where qs: "srm_sent sent s2 = srm_sent sent s1 @ qs" "map packet_blocks qs = dss"
    "\<forall>p\<in>set qs. valid_packet p \<and> packet_type p = Some Data"
    "map packet_id qs = next_ids (sr_packet_id s1) (length qs)"
    "sr_packet_id s2 = sr_packet_id s1 + of_nat (length qs)"
    using assms(2) by (auto simp: emits_def)
  show ?thesis
    unfolding emits_def
    by (rule exI [of _ "ps @ qs"]) (use ps qs in \<open>auto simp: next_ids_add add.assoc\<close>)
qed

text \<open>Payload size of a list of blocks, and the cuts \<open>send_data\<close> is meant to make.\<close>

definition blocks_bytes :: "block list \<Rightarrow> nat" where
  "blocks_bytes bs = sum_list (map block_size bs)"

fun greedy :: "block list list \<Rightarrow> bool" where
  "greedy (c # d # cs) \<longleftrightarrow> max_pl_size < blocks_bytes c + block_size (hd d) \<and> greedy (d # cs)"
| "greedy _ \<longleftrightarrow> True"

definition chunking :: "block list \<Rightarrow> block list list \<Rightarrow> bool" where
  "chunking bs css \<longleftrightarrow>
     concat css = bs \<and> (\<forall>cs\<in>set css. cs \<noteq> [] \<and> blocks_bytes cs \<le> max_pl_size) \<and> greedy css"

lemma blocks_bytes_simps [simp]:
  "blocks_bytes [] = 0" "blocks_bytes (b # bs) = block_size b + blocks_bytes bs"
  "blocks_bytes (bs @ cs) = blocks_bytes bs + blocks_bytes cs"
  by (simp_all add: blocks_bytes_def)

lemma chunking_single: "cs \<noteq> [] \<Longrightarrow> blocks_bytes cs \<le> max_pl_size \<Longrightarrow> chunking cs [cs]"
  by (simp add: chunking_def)

lemma chunking_Cons:
  assumes "chunking (b # bs) css" and "cs \<noteq> []" and "blocks_bytes cs \<le> max_pl_size"
    and "max_pl_size < blocks_bytes cs + block_size b"
  shows "chunking (cs @ b # bs) (cs # css)"
proof -
  from assms(1) obtain d dss where css: "css = d # dss" and d: "d \<noteq> []" "concat (d # dss) = b # bs"
    by (cases css) (auto simp: chunking_def)
  then have "hd d = b" by (cases d) auto
  with assms css d show ?thesis by (auto simp: chunking_def)
qed

text \<open>There is only one such cut: the promise determines the packets.\<close>

lemma chunking_first_le:
  assumes c: "chunking bs (c # cs)" and d: "chunking bs (d # ds)" and lt: "length c < length d"
  shows False
proof -
  have eq: "c @ concat cs = d @ concat ds" using c d by (simp add: chunking_def)
  then have "c = take (length c) d"
    using lt by (metis append_eq_append_conv_if less_imp_le_nat not_less)
  then obtain e es where de: "d = c @ e # es"
    using lt by (metis append_take_drop_id drop_eq_Nil leD neq_Nil_conv)
  with eq have cs: "concat cs = e # es @ concat ds" by simp
  then obtain f fs where f: "cs = f # fs" by (cases cs) auto
  then have "f \<noteq> []" using c by (simp add: chunking_def)
  with cs f have "hd f = e" by (cases f) auto
  then have "max_pl_size < blocks_bytes c + block_size e"
    using c f by (simp add: chunking_def)
  moreover have "blocks_bytes d \<le> max_pl_size" using d by (simp add: chunking_def)
  ultimately show False using de by simp
qed

lemma chunking_tail: "chunking bs (c # cs) \<Longrightarrow> chunking (concat cs) cs"
  by (cases cs) (auto simp: chunking_def)

lemma chunking_unique: "chunking bs css \<Longrightarrow> chunking bs dss \<Longrightarrow> css = dss"
proof (induction css arbitrary: bs dss)
  case Nil
  then show ?case by (cases dss) (auto simp: chunking_def)
next
  case (Cons c cs)
  then obtain d ds where d: "dss = d # ds"
    by (cases dss) (auto simp: chunking_def)
  with Cons.prems have len: "length c = length d"
    using chunking_first_le by (metis linorder_neqE_nat)
  have "c @ concat cs = d @ concat ds"
    using Cons.prems d by (simp add: chunking_def)
  with len have "c = d" "concat cs = concat ds" by simp_all
  then show ?case
    using Cons.IH [of "concat cs" ds] Cons.prems d chunking_tail by metis
qed

lemma srm_write_run:
  "srm_write E p s = (Inr u, s') \<Longrightarrow>
     \<exists>t t'. sr_transport s = Some t \<and> tr_write (se_tr E) p t = (Inr u, t')
       \<and> s' = s\<lparr>sr_transport := Some t'\<rparr>"
  by (auto simp: srm_write_def split: option.splits prod.splits)

lemma srm_send_loop_append:
  "srm_send_loop E (bs @ cs) pl (blocks_bytes pl) =
     bindE (srm_send_loop E bs pl (blocks_bytes pl)) (\<lambda>rest. srm_send_loop E cs rest (blocks_bytes rest))"
proof (induction bs arbitrary: pl)
  case Nil
  then show ?case by simp
next
  case (Cons b bs)
  show ?case
    using Cons.IH [of "[b]"] Cons.IH [of "pl @ [b]"] by (simp add: bindE_assoc)
qed

context transport_contract
begin

lemma srm_transmit_sent:
  assumes "se_tr E = A" and "srm_transmit E mk s = (Inr u, s')"
  shows "\<exists>p. mk (sr_packet_id s + 1) = Inr p \<and> srm_sent sent s' = srm_sent sent s @ [p]
    \<and> sr_packet_id s' = sr_packet_id s + 1"
  using assms(2)
  by (auto simp: assms(1) srm_transmit_def prog_run srm_write_def srm_sent_def
      split: prod.splits sum.splits option.splits dest!: write_sent)

lemma srm_transmit_data:
  assumes E: "se_tr E = A" and mem: "storage (se_mem E)" and "blocks_bytes cs \<le> max_pl_size"
    and run: "srm_transmit E (\<lambda>i. make_data (se_mem E) i cs) s = (Inr u, s')"
  shows "emits sent s s' [cs]"
proof -
  obtain p where p: "make_data (se_mem E) (sr_packet_id s + 1) cs = Inr p"
    "srm_sent sent s' = srm_sent sent s @ [p]" "sr_packet_id s' = sr_packet_id s + 1"
    using srm_transmit_sent [OF E run] by auto
  note d = make_data_InrD [OF mem assms(3) [unfolded blocks_bytes_def] p(1)]
  show ?thesis
    unfolding emits_def by (rule exI [of _ "[p]"]) (use p d in simp)
qed

lemma srm_send_loop_emits:
  assumes E: "se_tr E = A" and mem: "storage (se_mem E)"
  shows "srm_send_loop E bs pl (blocks_bytes pl) s = (Inr rest, s') \<Longrightarrow>
    blocks_bytes pl \<le> max_pl_size \<Longrightarrow> pl @ bs \<noteq> [] \<Longrightarrow>
    \<exists>css. emits sent s s' css \<and> chunking (pl @ bs) (css @ [rest])"
proof (induction bs arbitrary: pl s)
  case Nil
  then show ?case
    by (intro exI [of _ "[]"]) (simp add: prog_run chunking_single)
next
  case (Cons b bs)
  show ?case
  proof (cases "blocks_bytes pl + block_size b > max_pl_size")
    case True
    obtain u s1 where small: "block_size b \<le> max_pl_size"
      and send: "srm_transmit E (\<lambda>i. make_data (se_mem E) i pl) s = (Inr u, s1)"
      and rest: "srm_send_loop E bs [b] (blocks_bytes [b]) s1 = (Inr rest, s')"
      using Cons.prems(1) True by (auto simp: prog_run split: if_splits prod.splits sum.splits)
    obtain css where css: "emits sent s1 s' css" "chunking ([b] @ bs) (css @ [rest])"
      using Cons.IH [OF rest] small by auto
    have "emits sent s s1 [pl]"
      using E mem Cons.prems(2) send by (rule srm_transmit_data)
    from emits_trans [OF this css(1)] have "emits sent s s' (pl # css)" by simp
    moreover have "pl \<noteq> []" using True small by auto
    ultimately show ?thesis
      using chunking_Cons [of b bs "css @ [rest]" pl] css(2) True Cons.prems(2)
      by (intro exI [of _ "pl # css"]) simp
  next
    case False
    then have "srm_send_loop E bs (pl @ [b]) (blocks_bytes (pl @ [b])) s = (Inr rest, s')"
      using Cons.prems(1) by (auto simp: prog_run split: if_splits)
    from Cons.IH [OF this] False show ?thesis by auto
  qed
qed

lemma srm_send_data_emits:
  assumes E: "se_tr E = A" and mem: "storage (se_mem E)"
    and run: "srm_send_data E bs s = (Inr u, s')"
  shows "\<exists>css. emits sent s s' css \<and> chunking bs css"
proof (cases "bs = []")
  case True
  then have "s' = s" using run by (simp add: srm_send_data_def prog_run)
  then show ?thesis using True by (intro exI [of _ "[]"]) (simp add: chunking_def)
next
  case False
  obtain rest s1 where loop: "srm_send_loop E bs [] (blocks_bytes []) s = (Inr rest, s1)"
    and last: "whenE (rest \<noteq> []) (srm_transmit E (\<lambda>i. make_data (se_mem E) i rest)) s1 = (Inr u, s')"
    using run by (auto simp: srm_send_data_def run_bindE split: prod.splits sum.splits)
  obtain css where css: "emits sent s s1 css" "chunking bs (css @ [rest])"
    using srm_send_loop_emits [OF E mem loop] False by auto
  then have rest: "rest \<noteq> []" "blocks_bytes rest \<le> max_pl_size" by (auto simp: chunking_def)
  then have "srm_transmit E (\<lambda>i. make_data (se_mem E) i rest) s1 = (Inr u, s')"
    using last by (simp add: prog_run)
  from srm_transmit_data [OF E mem rest(2) this] css
  show ?thesis by (metis emits_trans)
qed

end

section \<open>Transports that accept every packet while they are open\<close>

context posting_transport
begin

lemma srm_transmit_posts:
  assumes E: "se_tr E = A" and op: "srm_open E s" and mk: "mk (sr_packet_id s + 1) = Inr p"
  shows "\<exists>s'. srm_transmit E mk s = (Inr (), s') \<and> srm_open E s'"
proof -
  obtain t where t: "sr_transport s = Some t" "tr_is_open A t"
    using op E by (auto simp: srm_open_def split: option.splits)
  obtain t' where w: "tr_write A p t = (Inr (), t')"
    using write_accepts [OF t(2), of p] by (cases "tr_write A p t") auto
  then have "tr_is_open A t'" using write_open [of p t] t(2) by simp
  then show ?thesis
    using E t(1) mk w by (simp add: srm_transmit_def prog_run srm_write_def srm_open_def)
qed

lemma srm_send_loop_posts:
  assumes E: "se_tr E = A" and mem: "storage (se_mem E)"
  shows "\<forall>b\<in>set bs. block_size b \<le> max_pl_size \<Longrightarrow> length (pl @ bs) < 256 \<Longrightarrow>
    blocks_bytes pl \<le> max_pl_size \<Longrightarrow> srm_open E s \<Longrightarrow>
    \<exists>rest s'. srm_send_loop E bs pl (blocks_bytes pl) s = (Inr rest, s') \<and> srm_open E s'
      \<and> blocks_bytes rest \<le> max_pl_size \<and> length rest < 256"
proof (induction bs arbitrary: pl s)
  case Nil
  then show ?case by (simp add: prog_run)
next
  case (Cons b bs)
  show ?case
  proof (cases "blocks_bytes pl + block_size b > max_pl_size")
    case True
    obtain p where "make_data (se_mem E) (sr_packet_id s + 1) pl = Inr p"
      using make_data_ok [OF mem, of pl] Cons.prems by (auto simp: blocks_bytes_def)
    then obtain s1 where s1: "srm_transmit E (\<lambda>i. make_data (se_mem E) i pl) s = (Inr (), s1)"
      "srm_open E s1"
      using srm_transmit_posts [OF E Cons.prems(4), of "\<lambda>i. make_data (se_mem E) i pl"] by blast
    then show ?thesis
      using Cons.IH [of "[b]" s1] Cons.prems True by (auto simp: prog_run)
  next
    case False
    then show ?thesis
      using Cons.IH [of "pl @ [b]" s] Cons.prems by (auto simp: prog_run)
  qed
qed

lemma srm_send_data_posts:
  assumes E: "se_tr E = A" and mem: "storage (se_mem E)"
    and small: "\<forall>b\<in>set bs. block_size b \<le> max_pl_size" and few: "length bs < 256"
    and op: "srm_open E s"
  shows "\<exists>s'. srm_send_data E bs s = (Inr (), s') \<and> srm_open E s'"
proof -
  obtain rest s1 where loop: "srm_send_loop E bs [] 0 s = (Inr rest, s1)" "srm_open E s1"
    and rest: "blocks_bytes rest \<le> max_pl_size" "length rest < 256"
    using srm_send_loop_posts [OF E mem small, of "[]" s] few op by auto
  obtain p where "make_data (se_mem E) (sr_packet_id s1 + 1) rest = Inr p"
    using make_data_ok [OF mem, of rest] rest by (auto simp: blocks_bytes_def)
  then obtain s2 where "srm_transmit E (\<lambda>i. make_data (se_mem E) i rest) s1 = (Inr (), s2)"
    "srm_open E s2"
    using srm_transmit_posts [OF E loop(2), of "\<lambda>i. make_data (se_mem E) i rest"] by blast
  then show ?thesis
    using loop by (auto simp: srm_send_data_def prog_run)
qed

text \<open>A too big block stops the loop; what was sent before it stays sent.\<close>

lemma srm_send_data_too_big:
  assumes E: "se_tr E = A" and mem: "storage (se_mem E)"
    and small: "\<forall>b\<in>set bs. block_size b \<le> max_pl_size" and few: "length bs < 256"
    and big: "max_pl_size < block_size b" and op: "srm_open E s"
  shows "\<exists>s' css rest. srm_send_data E (bs @ b # cs) s = (Inl (Application_error Data_too_big), s')
    \<and> emits sent s s' css \<and> chunking bs (css @ (if bs = [] then [] else [rest]))"
proof -
  obtain rest s1 where loop: "srm_send_loop E bs [] (blocks_bytes []) s = (Inr rest, s1)"
    using srm_send_loop_posts [OF E mem small, of "[]" s] few op by auto
  have run: "srm_send_data E (bs @ b # cs) s = (Inl (Application_error Data_too_big), s1)"
    using loop srm_send_loop_append [of E bs "b # cs" "[]"] big
    by (simp add: srm_send_data_def prog_run)
  show ?thesis
  proof (cases "bs = []")
    case True
    then have "s1 = s" using loop by (simp add: prog_run)
    then show ?thesis using run True by (intro exI [of _ s] exI [of _ "[]"]) (simp add: chunking_def)
  next
    case False
    then show ?thesis using srm_send_loop_emits [OF E mem loop] run by auto
  qed
qed

end

section \<open>The keep-alive timeout\<close>

text \<open>
  The timeout that is pending is the one whose identifier the manager holds, and there is
  never a second one.
\<close>

definition srm_timers :: "('q, 'tr) slave_env \<Rightarrow> ('q, 'tr) slave_rm \<Rightarrow> nat \<Rightarrow> slave_timer timer option" where
  "srm_timers E s = tq_timers (se_tq E) (sr_timeout_queue s)"

definition srm_one_timer :: "('q, 'tr) slave_env \<Rightarrow> ('q, 'tr) slave_rm \<Rightarrow> bool" where
  "srm_one_timer E s \<longleftrightarrow> dom (srm_timers E s) \<subseteq> {sr_keepalive_id s}"

lemma srm_arm_timers:
  assumes "timeout_queue_laws (se_tq E)"
  shows "srm_timers E (srm_arm E s) = (srm_timers E s)(sr_keepalive_id (srm_arm E s) \<mapsto>
    \<lparr>t_callback = Slave_ka_timer, t_start = sr_now s, t_period = sr_timeout_keepalive s,
     t_repeating = False\<rparr>)"
  using tq_add_law(3) [OF assms] by (simp add: srm_arm_def srm_timers_def split: prod.split)

lemma srm_disarm_timers:
  "timeout_queue_laws (se_tq E) \<Longrightarrow>
     srm_timers E (srm_disarm E s) = (srm_timers E s)(sr_keepalive_id s := None)"
  by (simp add: srm_disarm_def srm_timers_def)

lemma srm_arm_frame [simp]:
  "sr_now (srm_arm E s) = sr_now s" "sr_timeout_keepalive (srm_arm E s) = sr_timeout_keepalive s"
  "sr_keepalive_mngt (srm_arm E s) = sr_keepalive_mngt s" "sr_packet_id (srm_arm E s) = sr_packet_id s"
  "sr_transport (srm_arm E s) = sr_transport s" "sr_running (srm_arm E s) = sr_running s"
  by (simp_all add: srm_arm_def split: prod.split)

lemma srm_disarm_frame [simp]:
  "sr_now (srm_disarm E s) = sr_now s" "sr_keepalive_id (srm_disarm E s) = sr_keepalive_id s"
  "sr_timeout_keepalive (srm_disarm E s) = sr_timeout_keepalive s"
  "sr_keepalive_mngt (srm_disarm E s) = sr_keepalive_mngt s"
  "sr_packet_id (srm_disarm E s) = sr_packet_id s"
  "sr_transport (srm_disarm E s) = sr_transport s" "sr_running (srm_disarm E s) = sr_running s"
  by (simp_all add: srm_disarm_def)

text \<open>Sending does not touch the timers.\<close>

definition srm_timer_state :: "('q, 'tr) slave_rm \<Rightarrow> 'q \<times> nat \<times> int \<times> bool \<times> int \<times> bool" where
  "srm_timer_state s = (sr_timeout_queue s, sr_keepalive_id s, sr_now s, sr_keepalive_mngt s,
     sr_timeout_keepalive s, sr_running s)"

lemma srm_write_timer_state:
  "preserves (\<lambda>s. srm_timer_state s = x) (srm_write E p)"
  by (rule preservesI) (auto simp: srm_write_def srm_timer_state_def split: option.split prod.split)

lemma srm_transmit_timer_state:
  "preserves (\<lambda>s. srm_timer_state s = x) (srm_transmit E mk)"
  unfolding srm_transmit_def
  by (intro hoare srm_write_timer_state) (simp add: srm_timer_state_def)

lemma srm_send_data_timer_state:
  "preserves (\<lambda>s. srm_timer_state s = x) (srm_send_data E bs)"
proof -
  have "preserves (\<lambda>s. srm_timer_state s = x) (srm_send_loop E bs pl n)" for pl n
    by (induction bs arbitrary: pl n) (auto intro!: hoare srm_transmit_timer_state)
  then show ?thesis
    unfolding srm_send_data_def by (intro hoare srm_transmit_timer_state)
qed

end
