(* ===== verification/Identify.thy ===== *)
theory Identify
  imports Packet_Laws
begin

text \<open>
  How both applications read an identification packet (\<^verbatim>\<open>Slave::set_master_id\<close> in
  \<^verbatim>\<open>src/slave.cpp\<close>, \<^verbatim>\<open>Master::set_slave_id\<close> in \<^verbatim>\<open>src/master.cpp\<close>): each block of a reserved
  type sets its field, the others are skipped with a warning.
\<close>

definition set_id_block :: "identification \<Rightarrow> block \<Rightarrow> identification" where
  "set_id_block i b =
     (if b_type b = name_block then i\<lparr>id_name := b_data b\<rparr>
      else if b_type b = serial_number_block then i\<lparr>id_serial_number := b_data b\<rparr>
      else if b_type b = hw_version_block then i\<lparr>id_hw_version := b_data b\<rparr>
      else if b_type b = sw_version_block then i\<lparr>id_sw_version := b_data b\<rparr>
      else i)"

definition set_id :: "identification \<Rightarrow> block list \<Rightarrow> identification" where
  "set_id i bs = foldl set_id_block i bs"

lemma set_id_simps [simp]: "set_id i [] = i" "set_id i (b # bs) = set_id (set_id_block i b) bs"
  by (simp_all add: set_id_def)

text \<open>Whatever was there before, the blocks of an identification give that identification.\<close>

lemma set_id_identification: "set_id j (identification_blocks i) = i"
  by (simp add: identification_blocks_def set_id_block_def name_block_def serial_number_block_def
      hw_version_block_def sw_version_block_def)

text \<open>Blocks of other types leave it alone.\<close>

lemma set_id_other:
  "b_type b \<notin> {name_block, serial_number_block, hw_version_block, sw_version_block} \<Longrightarrow>
     set_id_block i b = i"
  by (simp add: set_id_block_def)

end
