(* ===== verification/Slave.thy ===== *)
theory Slave
  imports Slave_Request Identify
begin

text \<open>
  \<^verbatim>\<open>Slave\<close> (\<^verbatim>\<open>src/slave.*\<close>): the device's side of the connection, a state machine that reads
  packets from the transport, answers them and hands commands to the user.
\<close>

section \<open>State\<close>

datatype slave_event = Hip_received | First_ka_received | Slave_ka_timeout

record ('q, 'm, 'tr) slave_app_env =
  sa_rm :: "('q, 'tr) slave_env"
  sa_evt :: "('m, slave_event) event_mngr_api"

text \<open>
  The members. \<open>sl_curr\<close> and \<open>sl_nb_loop\<close> are the state and the pass counter of
  \<^verbatim>\<open>statemachine_\<close>, \<open>sl_running\<close> the run flag of the thread. The transport the slave owns is the
  one behind the pointer of its request manager: there is one object, and it is kept there.
  \<open>sl_user\<close> is the state the user's callbacks work on.
\<close>

record ('q, 'm, 'tr, 'u) slave =
  sl_curr :: app_state
  sl_nb_loop :: nat
  sl_evt :: 'm
  sl_rm :: "('q, 'tr) slave_rm"
  sl_slave_id :: identification
  sl_master_id :: identification
  sl_cmd_cb :: "(block \<Rightarrow> ('u, unit) stmt) option"
  sl_status_cb :: "(app_state \<Rightarrow> error_code \<Rightarrow> ('u, unit) stmt) option"
  sl_received_packet_id :: u16
  sl_errc :: error_code
  sl_running :: bool
  sl_user :: 'u

text \<open>
  \<^verbatim>\<open>Slave(logger, id, transport)\<close> around its request manager and a new event manager; \<open>pid\<close> is
  what the storage of \<^verbatim>\<open>received_packet_id_\<close> holds.
\<close>

definition sl_new ::
  "'m \<Rightarrow> ('q, 'tr) slave_rm \<Rightarrow> identification \<Rightarrow> u16 \<Rightarrow> 'u \<Rightarrow> ('q, 'm, 'tr, 'u) slave" where
  "sl_new m rm ident pid u =
     \<lparr>sl_curr = Init, sl_nb_loop = 0, sl_evt = m, sl_rm = rm, sl_slave_id = ident,
      sl_master_id = no_identification, sl_cmd_cb = None, sl_status_cb = None,
      sl_received_packet_id = pid, sl_errc = no_error_code, sl_running = False, sl_user = u\<rparr>"

section \<open>Calls on the members\<close>

definition sl_on_rm :: "(('q, 'tr) slave_rm, 'a) stmt \<Rightarrow> (('q, 'm, 'tr, 'u) slave, 'a) stmt" where
  "sl_on_rm m = zoomE sl_rm (\<lambda>x s. s\<lparr>sl_rm := x\<rparr>) m"

definition sl_on_user :: "('u, 'a) stmt \<Rightarrow> (('q, 'm, 'tr, 'u) slave, 'a) stmt" where
  "sl_on_user m = zoomE sl_user (\<lambda>x s. s\<lparr>sl_user := x\<rparr>) m"

text \<open>A call on the transport; through a null pointer it has no defined behaviour.\<close>

definition sl_on_transport :: "('tr, 'a) stmt \<Rightarrow> (('q, 'm, 'tr, 'u) slave, 'a) stmt" where
  "sl_on_transport m = (\<lambda>s.
     case sr_transport (sl_rm s) of
       None \<Rightarrow> (Inl Undefined_behaviour, s)
     | Some t \<Rightarrow> (case m t of (r, t') \<Rightarrow> (r, s\<lparr>sl_rm := (sl_rm s)\<lparr>sr_transport := Some t'\<rparr>\<rparr>)))"

definition sl_read ::
  "('q, 'm, 'tr) slave_app_env \<Rightarrow> (('q, 'm, 'tr, 'u) slave, packet option) stmt" where
  "sl_read E = sl_on_transport (\<lambda>t. case tr_read (se_tr (sa_rm E)) t of (p, t') \<Rightarrow> (Inr p, t'))"

text \<open>A \<^verbatim>\<open>clear_queues\<close> that did not end would have no continuation.\<close>

definition sl_clear_queues ::
  "('q, 'm, 'tr) slave_app_env \<Rightarrow> (('q, 'm, 'tr, 'u) slave, unit) stmt" where
  "sl_clear_queues E = sl_on_transport (\<lambda>t.
     case tr_clear_queues (se_tr (sa_rm E)) t of
       None \<Rightarrow> (Inl Undefined_behaviour, t)
     | Some t' \<Rightarrow> (Inr (), t'))"

definition sl_notify ::
  "('q, 'm, 'tr) slave_app_env \<Rightarrow> slave_event \<Rightarrow> (('q, 'm, 'tr, 'u) slave, unit) stmt" where
  "sl_notify E e = modifyE (\<lambda>s. s\<lparr>sl_evt := em_notify (sa_evt E) (sl_evt s) e\<rparr>)"

definition sl_erase ::
  "('q, 'm, 'tr) slave_app_env \<Rightarrow> slave_event \<Rightarrow> (('q, 'm, 'tr, 'u) slave, bool) stmt" where
  "sl_erase E e = (\<lambda>s. case em_erase (sa_evt E) (sl_evt s) e of (b, m) \<Rightarrow> (Inr b, s\<lparr>sl_evt := m\<rparr>))"

section \<open>The functions of the state machine\<close>

definition sl_handler_init ::
  "('q, 'm, 'tr) slave_app_env \<Rightarrow> (('q, 'm, 'tr, 'u) slave, transition_status) stmt" where
  "sl_handler_init E =
     bindE (modifyE (\<lambda>s. s\<lparr>sl_evt := em_clear (sa_evt E) (sl_evt s), sl_master_id := no_identification,
              sl_errc := no_error_code\<rparr>)) (\<lambda>_. retE Stay_curr_state)"

text \<open>\<^verbatim>\<open>set_master_id\<close>.\<close>

definition sl_set_master_id :: "packet \<Rightarrow> (('q, 'm, 'tr, 'u) slave, unit) stmt" where
  "sl_set_master_id p = foreachE
     (\<lambda>b. modifyE (\<lambda>s. s\<lparr>sl_master_id := set_id_block (sl_master_id s) b\<rparr>)) (packet_blocks p)"

definition sl_handler_disconnected ::
  "('q, 'm, 'tr) slave_app_env \<Rightarrow> (('q, 'm, 'tr, 'u) slave, transition_status) stmt" where
  "sl_handler_disconnected E =
     bindE (withE (\<lambda>s. whenE (sl_nb_loop s = 1)
              (blockE [sl_on_rm srm_stop, sl_clear_queues E]))) (\<lambda>_.
     bindE (sl_read E) (\<lambda>p.
     case p of
       None \<Rightarrow> retE Stay_curr_state
     | Some p \<Rightarrow>
         bindE (case packet_type p of
             Some Hip \<Rightarrow>
               blockE [modifyE (\<lambda>s. s\<lparr>sl_received_packet_id := packet_id p\<rparr>),
                       sl_set_master_id p,
                       sl_notify E Hip_received]
           | _ \<Rightarrow> retE ())
         (\<lambda>_. retE Stay_curr_state)))"

text \<open>\<^verbatim>\<open>if (++received_packet_id_ != p.id()) received_packet_id_ = p.id()\<close>.\<close>

definition sl_track_id :: "packet \<Rightarrow> (('q, 'm, 'tr, 'u) slave, unit) stmt" where
  "sl_track_id p =
     bindE (modifyE (\<lambda>s. s\<lparr>sl_received_packet_id := sl_received_packet_id s + 1\<rparr>)) (\<lambda>_.
     withE (\<lambda>s. whenE (sl_received_packet_id s \<noteq> packet_id p)
       (modifyE (\<lambda>s. s\<lparr>sl_received_packet_id := packet_id p\<rparr>))))"

definition sl_handler_connecting ::
  "('q, 'm, 'tr) slave_app_env \<Rightarrow> (('q, 'm, 'tr, 'u) slave, transition_status) stmt" where
  "sl_handler_connecting E =
     bindE (withE (\<lambda>s. whenE (sl_nb_loop s = 1)
              (blockE [sl_on_rm (srm_start (sa_rm E)),
                       sl_on_rm (srm_send_dip (sa_rm E) (sl_slave_id s)),
                       sl_on_rm (srm_start_keepalive_management (sa_rm E) keepalive_timeout)]))) (\<lambda>_.
     bindE (sl_read E) (\<lambda>p.
     case p of
       None \<Rightarrow> retE Stay_curr_state
     | Some p \<Rightarrow>
         bindE (sl_track_id p) (\<lambda>_.
         bindE (case packet_type p of
             Some Ka \<Rightarrow> blockE [sl_on_rm (srm_keepalive (sa_rm E)), sl_notify E First_ka_received]
           | _ \<Rightarrow> retE ())
         (\<lambda>_. retE Stay_curr_state))))"

text \<open>
  A command: it counts as a keep-alive, is acknowledged, and its only block goes to the user.
  An exception of the standard hierarchy that the user's callback throws is caught here.
\<close>

definition sl_call_cmd_cb :: "block \<Rightarrow> (('q, 'm, 'tr, 'u) slave, unit) stmt" where
  "sl_call_cmd_cb b = withE (\<lambda>s.
     catchE (case sl_cmd_cb s of None \<Rightarrow> retE () | Some cb \<Rightarrow> sl_on_user (cb b))
       (\<lambda>e. if is_std_exception e then retE () else throwE e))"

definition sl_on_cmd ::
  "('q, 'm, 'tr) slave_app_env \<Rightarrow> packet \<Rightarrow> (('q, 'm, 'tr, 'u) slave, unit) stmt" where
  "sl_on_cmd E p =
     blockE [sl_on_rm (srm_keepalive (sa_rm E)),
             sl_on_rm (srm_send_cmd_ack (sa_rm E) p),
             (case packet_blocks p of [b] \<Rightarrow> sl_call_cmd_cb b | _ \<Rightarrow> retE ())]"

definition sl_handler_connected ::
  "('q, 'm, 'tr) slave_app_env \<Rightarrow> (('q, 'm, 'tr, 'u) slave, transition_status) stmt" where
  "sl_handler_connected E =
     bindE (sl_read E) (\<lambda>p.
     case p of
       None \<Rightarrow> retE Stay_curr_state
     | Some p \<Rightarrow>
         bindE (sl_track_id p) (\<lambda>_.
         bindE (case packet_type p of
             Some Hip \<Rightarrow>
               blockE [modifyE (\<lambda>s. s\<lparr>sl_master_id := no_identification\<rparr>),
                       sl_on_rm (srm_stop_keepalive_management (sa_rm E)),
                       sl_on_rm srm_stop,
                       sl_notify E Hip_received]
           | Some Cmd \<Rightarrow> sl_on_cmd E p
           | Some Ka \<Rightarrow> sl_on_rm (srm_keepalive (sa_rm E))
           | _ \<Rightarrow> retE ())
         (\<lambda>_. retE Stay_curr_state)))"

definition sl_check_true :: "(('q, 'm, 'tr, 'u) slave, transition_status) stmt" where
  "sl_check_true = retE Goto_next_state"

definition sl_goto_if ::
  "(('q, 'm, 'tr, 'u) slave, bool) stmt \<Rightarrow> (('q, 'm, 'tr, 'u) slave, unit) stmt \<Rightarrow>
   (('q, 'm, 'tr, 'u) slave, transition_status) stmt" where
  "sl_goto_if c m =
     bindE c (\<lambda>b. if b then bindE m (\<lambda>_. retE Goto_next_state) else retE Stay_curr_state)"

definition sl_check_hip_received ::
  "('q, 'm, 'tr) slave_app_env \<Rightarrow> (('q, 'm, 'tr, 'u) slave, transition_status) stmt" where
  "sl_check_hip_received E = sl_goto_if (sl_erase E Hip_received) (retE ())"

definition sl_check_connected ::
  "('q, 'm, 'tr) slave_app_env \<Rightarrow> (('q, 'm, 'tr, 'u) slave, transition_status) stmt" where
  "sl_check_connected E = sl_goto_if (sl_erase E First_ka_received) (retE ())"

definition sl_check_ka_timeout ::
  "('q, 'm, 'tr) slave_app_env \<Rightarrow> (('q, 'm, 'tr, 'u) slave, transition_status) stmt" where
  "sl_check_ka_timeout E = sl_goto_if (sl_erase E Slave_ka_timeout)
     (modifyE (\<lambda>s. s\<lparr>sl_errc := make_appli_code Ka_timeout\<rparr>))"

text \<open>The error code is taken from the transport whether it is closed or not.\<close>

definition sl_check_transport_closed ::
  "('q, 'm, 'tr) slave_app_env \<Rightarrow> (('q, 'm, 'tr, 'u) slave, transition_status) stmt" where
  "sl_check_transport_closed E =
     bindE (sl_on_transport (\<lambda>t. (Inr (tr_error_code (se_tr (sa_rm E)) t), t))) (\<lambda>e.
     bindE (modifyE (\<lambda>s. s\<lparr>sl_errc := e\<rparr>)) (\<lambda>_.
     bindE (sl_on_transport (\<lambda>t. (Inr (tr_is_open (se_tr (sa_rm E)) t), t))) (\<lambda>open.
     retE (if open then Stay_curr_state else Goto_next_state))))"

section \<open>The table\<close>

text \<open>\<^verbatim>\<open>states_\<close>: the handler of each state, and the other functions with where they lead.\<close>

fun sl_handler ::
  "('q, 'm, 'tr) slave_app_env \<Rightarrow> app_state \<Rightarrow> (('q, 'm, 'tr, 'u) slave, transition_status) stmt" where
  "sl_handler E Init = sl_handler_init E"
| "sl_handler E Disconnected = sl_handler_disconnected E"
| "sl_handler E Connecting = sl_handler_connecting E"
| "sl_handler E Connected = sl_handler_connected E"

fun sl_checks ::
  "('q, 'm, 'tr) slave_app_env \<Rightarrow> app_state \<Rightarrow>
   (app_state \<times> (('q, 'm, 'tr, 'u) slave, transition_status) stmt) list" where
  "sl_checks E Init = [(Disconnected, sl_check_true)]"
| "sl_checks E Disconnected =
     [(Disconnected, sl_check_transport_closed E), (Connecting, sl_check_hip_received E)]"
| "sl_checks E Connecting =
     [(Disconnected, sl_check_transport_closed E), (Disconnected, sl_check_ka_timeout E),
      (Connected, sl_check_connected E)]"
| "sl_checks E Connected =
     [(Disconnected, sl_check_transport_closed E), (Disconnected, sl_check_ka_timeout E),
      (Connecting, sl_check_hip_received E)]"

text \<open>The transition handler: the user is told the new state and the error, once.\<close>

definition sl_transition_handler :: "app_state \<Rightarrow> (('q, 'm, 'tr, 'u) slave, unit) stmt" where
  "sl_transition_handler c =
     blockE [withE (\<lambda>s. case sl_status_cb s of
                None \<Rightarrow> retE ()
              | Some cb \<Rightarrow> sl_on_user (cb c (sl_errc s))),
             modifyE (\<lambda>s. s\<lparr>sl_errc := no_error_code\<rparr>)]"

text \<open>
  What \<^verbatim>\<open>run\<close> catches: everything that is an exception; the loop goes on.
\<close>

definition sl_catch :: "(('q, 'm, 'tr, 'u) slave, unit) stmt \<Rightarrow> (('q, 'm, 'tr, 'u) slave, unit) stmt" where
  "sl_catch m = catchE m (\<lambda>e. if e = Undefined_behaviour then throwE e else retE ())"

definition sl_timeout_cb :: "('q, 'm, 'tr) slave_app_env \<Rightarrow> (('q, 'm, 'tr, 'u) slave, unit) stmt" where
  "sl_timeout_cb E = sl_notify E Slave_ka_timeout"

section \<open>The interface of the user\<close>

definition sl_start :: "('q, 'm, 'tr) slave_app_env \<Rightarrow> (('q, 'm, 'tr, 'u) slave, unit) stmt" where
  "sl_start E = withE (\<lambda>s.
     if sl_running s then retE ()
     else blockE [sl_on_transport (tr_start (se_tr (sa_rm E))),
                  modifyE (\<lambda>s. s\<lparr>sl_curr := Init, sl_nb_loop := 0\<rparr>),
                  modifyE (\<lambda>s. s\<lparr>sl_running := True\<rparr>)])"

definition sl_stop :: "('q, 'm, 'tr) slave_app_env \<Rightarrow> (('q, 'm, 'tr, 'u) slave, unit) stmt" where
  "sl_stop E = withE (\<lambda>s.
     if \<not> sl_running s then retE ()
     else blockE [modifyE (\<lambda>s. s\<lparr>sl_running := False\<rparr>), sl_on_rm srm_stop,
                  sl_on_transport (tr_stop (se_tr (sa_rm E)))])"

definition sl_send_data ::
  "('q, 'm, 'tr) slave_app_env \<Rightarrow> block list \<Rightarrow> (('q, 'm, 'tr, 'u) slave, unit) stmt" where
  "sl_send_data E bs = withE (\<lambda>s.
     if sl_curr s \<noteq> Connected then throwE (Application_error Write_while_disconnected)
     else sl_on_rm (srm_send_data (sa_rm E) bs))"

definition sl_set_cmd_cb ::
  "(block \<Rightarrow> ('u, unit) stmt) option \<Rightarrow> (('q, 'm, 'tr, 'u) slave, unit) stmt" where
  "sl_set_cmd_cb cb = modifyE (\<lambda>s. s\<lparr>sl_cmd_cb := cb\<rparr>)"

definition sl_set_status_cb ::
  "(app_state \<Rightarrow> error_code \<Rightarrow> ('u, unit) stmt) option \<Rightarrow> (('q, 'm, 'tr, 'u) slave, unit) stmt" where
  "sl_set_status_cb cb = modifyE (\<lambda>s. s\<lparr>sl_status_cb := cb\<rparr>)"

end
