(* ===== verification/Slave_Request_Laws.thy ===== *)
theory Slave_Request_Laws
  imports Slave_Request Tcp_Client
begin

text \<open>
  What \<^verbatim>\<open>slave::RequestManager\<close> promises: how data is cut into packets, what is acknowledged,
  and the one keep-alive timeout it restarts.
\<close>

section \<open>A manager on the reference objects\<close>

text \<open>
  A manager over an open client, for the witnesses: nothing sent yet, no timer pending.
\<close>

definition ref_slave_env ::
  "(slave_timer ref_queue, (bool, packet list, packet list) tcp_client) slave_env" where
  "ref_slave_env = \<lparr>se_mem = replicate 2048 0, se_tq = ref_timeout_queue, se_tr = tc_api ref_client_env\<rparr>"

definition ref_slave_rm ::
  "(slave_timer ref_queue, (bool, packet list, packet list) tcp_client) slave_rm" where
  "ref_slave_rm =
     \<lparr>sr_timeout_queue = ref_queue_empty, sr_keepalive_id = 0, sr_now = 7, sr_packet_id = 65535,
      sr_keepalive_mngt = True, sr_timeout_keepalive = 30, sr_transport = Some ref_client,
      sr_running = True\<rparr>"

lemma ref_slave_env_fields [simp]:
  "se_tq ref_slave_env = ref_timeout_queue" "se_tr ref_slave_env = tc_api ref_client_env"
  "storage (se_mem ref_slave_env)"
  by (simp_all add: ref_slave_env_def storage_def max_size_def)

lemma ref_slave_open [simp]: "srm_open ref_slave_env ref_slave_rm"
  by (simp add: srm_open_def ref_slave_rm_def tc_api_def tc_is_open_def ref_client_env_def
      ref_socket_def ref_client_def)

lemmas ref_posting = tc_posting [OF ref_client_laws]

lemma ref_contract: "transport_contract (tc_api ref_client_env) (tc_sent ref_client_env) (tc_received ref_client_env)"
  by (rule posting_transport.axioms(1) [OF ref_posting])

section \<open>Data\<close>

text \<open>
  C14: Whatever transport is behind it, when \<^verbatim>\<open>send_data\<close> returns it has sent the blocks it was
  given, all of them and in order, in valid data packets with consecutive identifiers; each
  packet holds as many of the next blocks as fit, and this cut is the only one with that
  property.
\<close>

theorem slave_send_data_partition:
  assumes "transport_contract (se_tr E) sent received" and "storage (se_mem E)"
    and "srm_send_data E bs s = (Inr u, s')"
  shows "\<exists>css. emits sent s s' css \<and> chunking bs css \<and> (\<forall>dss. chunking bs dss \<longrightarrow> dss = css)"
  using transport_contract.srm_send_data_emits [OF assms(1) refl assms(2,3)] chunking_unique
  by blast

definition two_blocks :: "block list" where
  "two_blocks = [\<lparr>b_type = 1, b_data = replicate 1200 7\<rparr>, \<lparr>b_type = 2, b_data = replicate 1300 8\<rparr>]"

lemma two_blocks_sizes: "\<forall>b\<in>set two_blocks. block_size b \<le> max_pl_size" "length two_blocks = 2"
  by (simp_all add: two_blocks_def block_size_def bheader_size_def max_pl_size_def format_sizes)

lemma two_blocks_sent:
  "\<exists>s'. srm_send_data ref_slave_env two_blocks ref_slave_rm = (Inr (), s')"
  using posting_transport.srm_send_data_posts [OF ref_posting, of ref_slave_env two_blocks ref_slave_rm]
    two_blocks_sizes by auto

theorem slave_send_data_partition_witness:
  "\<exists>s' css. srm_send_data ref_slave_env two_blocks ref_slave_rm = (Inr (), s')
     \<and> emits (tc_sent ref_client_env) ref_slave_rm s' css \<and> chunking two_blocks css"
proof -
  obtain s' where s': "srm_send_data ref_slave_env two_blocks ref_slave_rm = (Inr (), s')"
    using two_blocks_sent by blast
  show ?thesis
    using slave_send_data_partition [of ref_slave_env "tc_sent ref_client_env" "tc_received ref_client_env",
        OF _ _ s'] ref_contract s' by auto
qed



text \<open>
  A block that fits in no packet makes \<^verbatim>\<open>send_data\<close> throw \<open>data_too_big\<close>, and not before the
  blocks in front of it are dealt with: all their packets but the last one have been sent, the
  last one and everything behind the big block never will be.
\<close>

theorem slave_send_data_too_big:
  assumes "posting_transport (se_tr E) sent received" and "storage (se_mem E)"
    and "\<forall>b\<in>set bs. block_size b \<le> max_pl_size" and "length bs < 256"
    and "max_pl_size < block_size b" and "srm_open E s"
  shows "\<exists>s' css rest. srm_send_data E (bs @ b # cs) s = (Inl (Application_error Data_too_big), s')
    \<and> emits sent s s' css \<and> chunking bs (css @ (if bs = [] then [] else [rest]))"
  using posting_transport.srm_send_data_too_big [OF assms(1) refl assms(2-6)] .

theorem slave_send_data_too_big_witness:
  "\<exists>s'. srm_send_data ref_slave_env (two_blocks @ [\<lparr>b_type = 3, b_data = replicate 2032 0\<rparr>]) ref_slave_rm
     = (Inl (Application_error Data_too_big), s')"
  using slave_send_data_too_big [of ref_slave_env "tc_sent ref_client_env" "tc_received ref_client_env"
      two_blocks "\<lparr>b_type = 3, b_data = replicate 2032 0\<rparr>" ref_slave_rm "[]"] ref_posting two_blocks_sizes
  by (auto simp: block_size_def format_sizes)

section \<open>Answers\<close>

context posting_transport
begin

lemma srm_transmit_accepts:
  assumes "se_tr E = A" and "srm_open E s" and "mk (sr_packet_id s + 1) = Inr p"
  shows "\<exists>s'. srm_transmit E mk s = (Inr (), s') \<and> srm_open E s'
    \<and> srm_sent sent s' = srm_sent sent s @ [p] \<and> sr_packet_id s' = sr_packet_id s + 1"
proof -
  obtain s' where s': "srm_transmit E mk s = (Inr (), s')" "srm_open E s'"
    using srm_transmit_posts [where mk = mk, OF assms] by blast
  then show ?thesis using srm_transmit_sent [OF assms(1) s'(1)] assms(3) by auto
qed

end

text \<open>
  A command that is received while the transport is open is acknowledged: one packet is
  sent, under the next identifier, with the type of the command's first block and, as data,
  the command's identifier. A command without a block is not acknowledged: the access to its
  first block throws, with the identifier spent and nothing sent.
\<close>

theorem slave_cmd_ack:
  assumes "posting_transport (se_tr E) sent received" and "storage (se_mem E)" and "srm_open E s"
  shows "case packet_blocks c of
      [] \<Rightarrow> srm_send_cmd_ack E c s
               = (Inl (Std_exception Out_of_range), s\<lparr>sr_packet_id := sr_packet_id s + 1\<rparr>)
    | b # _ \<Rightarrow> \<exists>s' p. srm_send_cmd_ack E c s = (Inr (), s')
        \<and> srm_sent sent s' = srm_sent sent s @ [p] \<and> valid_packet p
        \<and> packet_id p = sr_packet_id s + 1 \<and> packet_type p = Some Cmd_ack
        \<and> packet_blocks p = [\<lparr>b_type = b_type b, b_data = u16_le (packet_id c)\<rparr>]"
proof (cases "packet_blocks c")
  case Nil
  then show ?thesis
    using assms(3) by (simp add: srm_send_cmd_ack_def prog_run srm_transmit_def)
next
  case (Cons b bs)
  obtain p where p: "make_cmd_ack (se_mem E) (sr_packet_id s + 1) (b_type b) (packet_id c) = Inr p"
    "valid_packet p" "packet_id p = sr_packet_id s + 1" "packet_type p = Some Cmd_ack"
    "packet_blocks p = [\<lparr>b_type = b_type b, b_data = u16_le (packet_id c)\<rparr>]"
    using make_cmd_ack_ok [OF assms(2)] by blast
  let ?mk = "\<lambda>i. make_cmd_ack (se_mem E) i (b_type b) (packet_id c)"
  obtain s' where "srm_transmit E ?mk s = (Inr (), s')" "srm_sent sent s' = srm_sent sent s @ [p]"
    using posting_transport.srm_transmit_accepts [where mk = ?mk, OF assms(1) refl assms(3) p(1)]
    by blast
  then show ?thesis using p(2-) Cons assms(3) by (auto simp: srm_send_cmd_ack_def prog_run)
qed

lemma ka15_blocks: "packet_blocks \<lparr>p_data = overwrite (replicate 2048 0) ka15\<rparr> = []"
  using holds_fields [OF ka15_holds] by simp

theorem slave_cmd_ack_witness:
  "fst (srm_send_cmd_ack ref_slave_env \<lparr>p_data = overwrite (replicate 2048 0) ka15\<rparr> ref_slave_rm)
     = Inl (Std_exception Out_of_range)"
  using slave_cmd_ack [of ref_slave_env "tc_sent ref_client_env" "tc_received ref_client_env"
      ref_slave_rm "\<lparr>p_data = overwrite (replicate 2048 0) ka15\<rparr>"] ref_posting ka15_blocks
  by simp

section \<open>The keep-alive timeout\<close>

lemma srm_timer_state_timers:
  "srm_timer_state s' = srm_timer_state s \<Longrightarrow> srm_timers E s' = srm_timers E s
     \<and> sr_keepalive_id s' = sr_keepalive_id s \<and> sr_now s' = sr_now s
     \<and> sr_timeout_keepalive s' = sr_timeout_keepalive s \<and> sr_keepalive_mngt s' = sr_keepalive_mngt s
     \<and> sr_running s' = sr_running s"
  by (simp add: srm_timer_state_def srm_timers_def)

lemma srm_keepalive_run:
  "srm_timer_state (snd (srm_keepalive E s)) =
     srm_timer_state (if sr_keepalive_mngt s then srm_arm E (srm_disarm E s) else s)"
proof -
  let ?t = "if sr_keepalive_mngt s then srm_arm E (srm_disarm E s) else s"
  let ?n = "withE (\<lambda>s. whenE (srm_open E s) (srm_transmit E (make_keepalive_ack (se_mem E))))"
  have "preserves (\<lambda>x. srm_timer_state x = srm_timer_state ?t) ?n"
    by (intro hoare srm_transmit_timer_state)
  then have "srm_timer_state (snd (?n ?t)) = srm_timer_state ?t" by (rule preservesD) simp
  moreover have "snd (srm_keepalive E s) = snd (blockE [?n] ?t)"
    by (simp add: srm_keepalive_def run_bindE run_withE run_whenE run_modifyE retE_def)
  moreover have "snd (blockE [?n] ?t) = snd (?n ?t)"
    by (simp add: run_bindE retE_def split: prod.split sum.split)
  ultimately show ?thesis by simp
qed

text \<open>
  While keep-alives are watched, every keep-alive restarts the timeout: exactly one timer
  is pending afterwards, it counts from the current tick, runs for the whole timeout, and
  ends in the keep-alive callback. This holds also when the acknowledgement cannot be sent
  and the call throws. Before \<^verbatim>\<open>start_keepalive_management\<close> and after its counterpart no timer
  is touched.
\<close>

theorem slave_keepalive_restarts:
  assumes "timeout_queue_laws (se_tq E)" and "srm_one_timer E s"
  shows "srm_timers E (snd (srm_keepalive E s)) =
    (if sr_keepalive_mngt s
     then [sr_keepalive_id (snd (srm_keepalive E s)) \<mapsto>
             \<lparr>t_callback = Slave_ka_timer, t_start = sr_now s, t_period = sr_timeout_keepalive s,
              t_repeating = False\<rparr>]
     else srm_timers E s)"
proof -
  have "(srm_timers E s)(sr_keepalive_id s := None) = Map.empty"
    using assms(2) by (auto simp: srm_one_timer_def dom_def fun_eq_iff)
  then show ?thesis
    using srm_timer_state_timers [OF srm_keepalive_run, of E E s]
      srm_arm_timers [OF assms(1), of "srm_disarm E s"] srm_disarm_timers [OF assms(1), of s]
    by simp
qed

theorem slave_keepalive_restarts_witness:
  "srm_timers ref_slave_env (snd (srm_keepalive ref_slave_env ref_slave_rm)) =
     [sr_keepalive_id (snd (srm_keepalive ref_slave_env ref_slave_rm)) \<mapsto>
        \<lparr>t_callback = Slave_ka_timer, t_start = 7, t_period = 30, t_repeating = False\<rparr>]"
proof -
  have one: "srm_one_timer ref_slave_env ref_slave_rm"
    by (simp add: srm_one_timer_def srm_timers_def ref_timeout_queue_def ref_slave_rm_def
        ref_queue_empty_def dom_def)
  from slave_keepalive_restarts [OF _ one] show ?thesis
    by (simp add: ref_slave_rm_def)
qed

end
