(* ===== verification/Slave_Laws.thy ===== *)
theory Slave_Laws
  imports Slave Slave_Request_Laws
begin

text \<open>
  The device's state machine with everything that runs beside it: the timer thread of its
  request manager, the transport, and the user.
\<close>

section \<open>Steps\<close>

text \<open>
  One step: the handler of a pass, one of the other functions of the state, a timer that runs
  out, a tick of the timer thread, anything the transport does by itself, or a call of the
  user.
\<close>

inductive sl_step ::
  "('q, 'm, 'tr) slave_app_env \<Rightarrow> ('q, 'm, 'tr, 'u) slave \<Rightarrow> ('q, 'm, 'tr, 'u) slave \<Rightarrow> bool"
  for E where
  pass: "sl_running s \<Longrightarrow>
    sl_catch (bindE (sl_handler E (sl_curr s)) (\<lambda>_. retE ())) (s\<lparr>sl_nb_loop := sl_nb_loop s + 1\<rparr>)
      = (r, s') \<Longrightarrow> sl_step E s s'"
| stay: "sl_running s \<Longrightarrow> 0 < sl_nb_loop s \<Longrightarrow> (c, check) \<in> set (sl_checks E (sl_curr s)) \<Longrightarrow>
    check s = (Inr Stay_curr_state, s') \<Longrightarrow> sl_step E s s'"
| goto: "sl_running s \<Longrightarrow> 0 < sl_nb_loop s \<Longrightarrow> (c, check) \<in> set (sl_checks E (sl_curr s)) \<Longrightarrow>
    check s = (Inr Goto_next_state, s1) \<Longrightarrow>
    sl_catch (sl_transition_handler c) (s1\<lparr>sl_curr := c, sl_nb_loop := 0\<rparr>) = (r, s') \<Longrightarrow>
    sl_step E s s'"
| timer: "sr_running (sl_rm s) \<Longrightarrow> srm_timers (sa_rm E) (sl_rm s) i = Some t \<Longrightarrow>
    q = tq_fire (se_tq (sa_rm E)) (sr_timeout_queue (sl_rm s)) i \<Longrightarrow>
    srm_ka_timeout_cb (Some (sl_timeout_cb E)) (s\<lparr>sl_rm := (sl_rm s)\<lparr>sr_timeout_queue := q\<rparr>\<rparr>) = (r, s') \<Longrightarrow>
    sl_step E s s'"
| tick: "sl_on_rm srm_tick s = (r, s') \<Longrightarrow> sl_step E s s'"
| transport: "sl_step E s (s\<lparr>sl_rm := (sl_rm s)\<lparr>sr_transport := t\<rparr>\<rparr>)"
| send_data: "sl_send_data E bs s = (r, s') \<Longrightarrow> sl_step E s s'"
| start: "sl_start E s = (r, s') \<Longrightarrow> sl_step E s s'"
| stop: "sl_stop E s = (r, s') \<Longrightarrow> sl_step E s s'"

text \<open>A slave that was constructed.\<close>

definition sl_made :: "('q, 'm, 'tr) slave_app_env \<Rightarrow> ('q, 'm, 'tr, 'u) slave \<Rightarrow> bool" where
  "sl_made E s \<longleftrightarrow> sl_curr s = Init \<and> sl_nb_loop s = 0 \<and> \<not> sl_running s
     \<and> \<not> sr_running (sl_rm s) \<and> srm_timers (sa_rm E) (sl_rm s) = Map.empty"

definition slave_app_laws :: "('q, 'm, 'tr) slave_app_env \<Rightarrow> bool" where
  "slave_app_laws E \<longleftrightarrow> timeout_queue_laws (se_tq (sa_rm E)) \<and> event_mngr_laws (sa_evt E)"

section \<open>The invariant\<close>

text \<open>
  There is at most one keep-alive timer, and when the request manager is about to be started
  it is not running: so \<^verbatim>\<open>start\<close> clears what an earlier connection left.
\<close>

definition sl_inv :: "('q, 'm, 'tr) slave_app_env \<Rightarrow> ('q, 'm, 'tr, 'u) slave \<Rightarrow> bool" where
  "sl_inv E s \<longleftrightarrow>
     srm_one_timer (sa_rm E) (sl_rm s) \<and> (\<not> sl_running s \<longrightarrow> \<not> sr_running (sl_rm s)) \<and>
     (case sl_curr s of
        Init \<Rightarrow> \<not> sr_running (sl_rm s)
      | Disconnected \<Rightarrow> 0 < sl_nb_loop s \<longrightarrow> \<not> sr_running (sl_rm s)
      | Connecting \<Rightarrow> (sl_nb_loop s = 0 \<longrightarrow> \<not> sr_running (sl_rm s))
          \<and> Hip_received \<notin> em_events (sa_evt E) (sl_evt s)
      | Connected \<Rightarrow> Hip_received \<in> em_events (sa_evt E) (sl_evt s) \<longrightarrow> \<not> sr_running (sl_rm s))"

lemma sl_made_inv: "sl_made E s \<Longrightarrow> sl_inv E s"
  by (simp add: sl_made_def sl_inv_def srm_one_timer_def)

text \<open>What the invariant looks at.\<close>

definition sl_frame ::
  "('q, 'm, 'tr, 'u) slave \<Rightarrow> app_state \<times> nat \<times> bool \<times> 'm \<times> ('q \<times> nat \<times> int \<times> bool \<times> int \<times> bool)" where
  "sl_frame s = (sl_curr s, sl_nb_loop s, sl_running s, sl_evt s, srm_timer_state (sl_rm s))"

lemma sl_frame_D:
  assumes "sl_frame s' = sl_frame s"
  shows "sl_curr s' = sl_curr s" "sl_nb_loop s' = sl_nb_loop s" "sl_evt s' = sl_evt s"
    "sl_running s' = sl_running s"
    "srm_timers R (sl_rm s') = srm_timers R (sl_rm s)" "sr_running (sl_rm s') = sr_running (sl_rm s)"
    "sr_keepalive_id (sl_rm s') = sr_keepalive_id (sl_rm s)"
    "srm_timer_state (sl_rm s') = srm_timer_state (sl_rm s)"
    "srm_one_timer R (sl_rm s') = srm_one_timer R (sl_rm s)"
  using assms by (simp_all add: sl_frame_def srm_timer_state_def srm_timers_def srm_one_timer_def)

lemma sl_inv_frame:
  assumes "sl_frame s' = sl_frame s"
  shows "sl_inv E s' = sl_inv E s"
  by (simp only: sl_inv_def sl_frame_D [OF assms])

text \<open>Statements that leave all of it alone.\<close>

definition quiet :: "(('q, 'm, 'tr, 'u) slave, 'a) stmt \<Rightarrow> bool" where
  "quiet m \<longleftrightarrow> (\<forall>x. preserves (\<lambda>s. sl_frame s = x) m)"

lemma quietI: "(\<And>x. preserves (\<lambda>s. sl_frame s = x) m) \<Longrightarrow> quiet m"
  by (simp add: quiet_def)

lemma quiet_preserves: "quiet m \<Longrightarrow> preserves (\<lambda>s. sl_frame s = x) m"
  unfolding quiet_def by (erule spec)

lemma quietD:
  assumes "quiet m" and "m s = (r, s')"
  shows "sl_frame s' = sl_frame s"
  by (rule preserves_run [OF quiet_preserves [OF assms(1)] refl assms(2)])

lemma quiet_on_transport: "quiet (sl_on_transport m)"
  by (rule quietI, rule preservesI)
    (auto simp: sl_on_transport_def sl_frame_def srm_timer_state_def split: option.split prod.split)

lemma quiet_on_user: "quiet (sl_on_user m)"
  unfolding sl_on_user_def by (rule quietI) (intro hoare, simp add: sl_frame_def)

lemma quiet_on_rm:
  "(\<And>x. preserves (\<lambda>s. srm_timer_state s = x) m) \<Longrightarrow> quiet (sl_on_rm m)"
  unfolding sl_on_rm_def
  by (rule quietI, rule preserves_zoomE) (simp add: sl_frame_def preserves_def)

lemma quiet_set_master_id: "quiet (sl_set_master_id p)"
  unfolding sl_set_master_id_def by (rule quietI) (intro hoare, simp add: sl_frame_def)

lemma quiet_track_id: "quiet (sl_track_id p)"
  unfolding sl_track_id_def by (rule quietI) (intro hoare, simp_all add: sl_frame_def)

lemma quiet_read: "quiet (sl_read E)"
  unfolding sl_read_def by (rule quiet_on_transport)

lemma quiet_clear_queues: "quiet (sl_clear_queues E)"
  unfolding sl_clear_queues_def by (rule quiet_on_transport)

lemma quiet_call_cmd_cb: "quiet (sl_call_cmd_cb b)"
  unfolding sl_call_cmd_cb_def
  by (rule quietI) (intro hoare, auto split: option.split
      intro!: hoare preserves_catchE preserves_if quiet_preserves quiet_on_user)

lemma quiet_inv: "quiet m \<Longrightarrow> preserves (sl_inv E) m"
  by (rule preservesI) (metis quietD sl_inv_frame surjective_pairing)

section \<open>The operations of the request manager\<close>

text \<open>
  What each of them does to the timers and to the run flag: whatever else they do, including
  throwing.
\<close>

lemma srm_state_of:
  assumes "srm_timer_state t = srm_timer_state s"
  shows "srm_timers R t = srm_timers R s" "sr_keepalive_id t = sr_keepalive_id s"
    "sr_running t = sr_running s" "srm_one_timer R t = srm_one_timer R s"
  using assms by (simp_all add: srm_timer_state_def srm_timers_def srm_one_timer_def)

lemma srm_one_arm:
  assumes "timeout_queue_laws (se_tq R)" and "srm_timers R s = Map.empty"
  shows "srm_one_timer R (srm_arm R s)"
  using srm_arm_timers [OF assms(1), of s] assms(2) by (simp add: srm_one_timer_def)

lemma srm_one_disarm:
  assumes "timeout_queue_laws (se_tq R)" and "srm_one_timer R s"
  shows "srm_timers R (srm_disarm R s) = Map.empty"
  using srm_disarm_timers [OF assms(1), of s] assms(2)
  by (auto simp: srm_one_timer_def dom_def fun_eq_iff)

lemma srm_keepalive_effect:
  assumes "timeout_queue_laws (se_tq R)" and "srm_keepalive R s = (r, s')" and "srm_one_timer R s"
  shows "srm_one_timer R s' \<and> sr_running s' = sr_running s"
proof -
  note t = srm_state_of [OF srm_keepalive_run [of R s], unfolded assms(2) snd_conv]
  show ?thesis
    using t(3) t(4) [of R] srm_one_arm [OF assms(1) srm_one_disarm [OF assms(1,3)]] assms(3)
    by (auto split: if_splits)
qed

lemma srm_stop_keepalive_effect:
  assumes "timeout_queue_laws (se_tq R)" and "srm_stop_keepalive_management R s = (r, s')"
    and "srm_one_timer R s"
  shows "srm_one_timer R s' \<and> sr_running s' = sr_running s \<and> r = Inr ()"
proof -
  have s': "s' = srm_disarm R (s\<lparr>sr_keepalive_mngt := False\<rparr>)" "r = Inr ()"
    using assms(2) by (auto simp: srm_stop_keepalive_management_def prog_run)
  have "srm_one_timer R (s\<lparr>sr_keepalive_mngt := False\<rparr>)"
    using assms(3) by (simp add: srm_one_timer_def srm_timers_def)
  from srm_one_disarm [OF assms(1) this] show ?thesis by (simp add: s' srm_one_timer_def)
qed

lemma srm_start_keepalive_effect:
  assumes "timeout_queue_laws (se_tq R)" and "srm_start_keepalive_management R t s = (r, s')"
    and "srm_timers R s = Map.empty"
  shows "srm_one_timer R s' \<and> sr_running s' = sr_running s \<and> r = Inr ()"
proof -
  let ?s = "s\<lparr>sr_keepalive_mngt := True, sr_timeout_keepalive := ticks t\<rparr>"
  have s': "s' = srm_arm R ?s" "r = Inr ()"
    using assms(2) by (auto simp: srm_start_keepalive_management_def prog_run)
  have "srm_timers R ?s = Map.empty" using assms(3) by (simp add: srm_timers_def)
  from srm_one_arm [OF assms(1) this] show ?thesis by (simp add: s')
qed

lemma srm_start_effect:
  assumes "timeout_queue_laws (se_tq R)" and "srm_start R s = (r, s')" and "\<not> sr_running s"
  shows "srm_timers R s' = Map.empty \<and> sr_running s' \<and> r = Inr ()"
  using assms by (auto simp: srm_start_def prog_run srm_clear_def srm_timers_def)

lemma srm_send_dip_quiet [hoare]: "preserves (\<lambda>s. srm_timer_state s = x) (srm_send_dip R i)"
  unfolding srm_send_dip_def by (intro hoare srm_transmit_timer_state)

lemma srm_send_cmd_ack_quiet [hoare]: "preserves (\<lambda>s. srm_timer_state s = x) (srm_send_cmd_ack R p)"
  unfolding srm_send_cmd_ack_def by (intro hoare srm_transmit_timer_state)

lemma srm_stop_run: "srm_stop s = (Inr (), s\<lparr>sr_running := False\<rparr>)"
  by (cases s) (simp add: srm_stop_def prog_run)

lemma sl_on_rm_run:
  "sl_on_rm m s = (case m (sl_rm s) of (r, x) \<Rightarrow> (r, s\<lparr>sl_rm := x\<rparr>))"
  by (simp add: sl_on_rm_def run_zoomE)

lemma sl_notify_run: "sl_notify E e s = (Inr (), s\<lparr>sl_evt := em_notify (sa_evt E) (sl_evt s) e\<rparr>)"
  by (simp add: sl_notify_def prog_run)

lemma sl_erase_run:
  "sl_erase E e s = (case em_erase (sa_evt E) (sl_evt s) e of (b, m) \<Rightarrow> (Inr b, s\<lparr>sl_evt := m\<rparr>))"
  by (simp add: sl_erase_def)

section \<open>The invariant is kept\<close>

text \<open>
  Inside a pass the counter is positive. What a handler needs of the state it starts in is the
  invariant, and for the first pass in \<open>Connecting\<close> that the manager is not running.
\<close>

definition in_pass :: "('q, 'm, 'tr) slave_app_env \<Rightarrow> app_state \<Rightarrow> ('q, 'm, 'tr, 'u) slave \<Rightarrow> bool" where
  "in_pass E c s \<longleftrightarrow> sl_curr s = c \<and> sl_running s \<and> 0 < sl_nb_loop s \<and> srm_one_timer (sa_rm E) (sl_rm s) \<and>
     (case c of
        Connected \<Rightarrow> Hip_received \<in> em_events (sa_evt E) (sl_evt s) \<longrightarrow> \<not> sr_running (sl_rm s)
      | Connecting \<Rightarrow> Hip_received \<notin> em_events (sa_evt E) (sl_evt s)
      | _ \<Rightarrow> \<not> sr_running (sl_rm s))"

lemma in_pass_inv: "in_pass E c s \<Longrightarrow> sl_inv E s"
  by (cases c) (simp_all add: in_pass_def sl_inv_def)

lemma in_pass_frame:
  assumes "sl_frame s' = sl_frame s"
  shows "in_pass E c s' = in_pass E c s"
  by (simp only: in_pass_def sl_frame_D [OF assms])

lemma quiet_in_pass: "quiet m \<Longrightarrow> preserves (in_pass E c) m"
  by (rule preservesI) (metis quietD in_pass_frame surjective_pairing)

lemmas in_pass_quiet [hoare] =
  quiet_in_pass [OF quiet_on_user] quiet_in_pass [OF quiet_set_master_id]
  quiet_in_pass [OF quiet_track_id] quiet_in_pass [OF quiet_read]
  quiet_in_pass [OF quiet_clear_queues] quiet_in_pass [OF quiet_call_cmd_cb]
  quiet_in_pass [OF quiet_on_rm [OF srm_send_cmd_ack_quiet]]

lemma in_pass_keepalive [hoare]:
  assumes "slave_app_laws E"
  shows "preserves (in_pass E c) (sl_on_rm (srm_keepalive (sa_rm E)))"
proof (rule preservesI)
  fix s assume s: "in_pass E c s"
  obtain r x where run: "srm_keepalive (sa_rm E) (sl_rm s) = (r, x)" by fastforce
  have "timeout_queue_laws (se_tq (sa_rm E))" using assms by (simp add: slave_app_laws_def)
  from srm_keepalive_effect [OF this run] s
  show "in_pass E c (snd (sl_on_rm (srm_keepalive (sa_rm E)) s))"
    by (cases c) (simp_all add: in_pass_def sl_on_rm_run run)
qed

lemma in_pass_notify [hoare]:
  assumes "slave_app_laws E" and "e = Hip_received \<longrightarrow> c \<in> {Init, Disconnected}"
  shows "preserves (in_pass E c) (sl_notify E e)"
  using assms
  by (intro preservesI) (auto simp: in_pass_def sl_notify_run slave_app_laws_def split: app_state.splits)

text \<open>The first pass in a state.\<close>

lemma sl_on_rm_fields [simp]:
  "sl_curr (s\<lparr>sl_rm := x\<rparr>) = sl_curr s" "sl_nb_loop (s\<lparr>sl_rm := x\<rparr>) = sl_nb_loop s"
  "sl_evt (s\<lparr>sl_rm := x\<rparr>) = sl_evt s"
  by simp_all

lemma disconnected_first:
  assumes "sl_curr s = Disconnected" and "0 < sl_nb_loop s \<and> sl_running s" and "srm_one_timer (sa_rm E) (sl_rm s)"
    and "sl_nb_loop s = 1 \<or> \<not> sr_running (sl_rm s)"
  shows "in_pass E Disconnected (snd (withE (\<lambda>s. whenE (sl_nb_loop s = 1)
    (blockE [sl_on_rm srm_stop, sl_clear_queues E])) s))"
proof (cases "sl_nb_loop s = 1")
  case True
  let ?s = "s\<lparr>sl_rm := (sl_rm s)\<lparr>sr_running := False\<rparr>\<rparr>"
  have s: "in_pass E Disconnected ?s"
    using assms True by (simp add: in_pass_def srm_one_timer_def srm_timers_def)
  have "preserves (in_pass E Disconnected) (blockE [sl_clear_queues E])"
    by (intro hoare)
  from preservesD [OF this s] show ?thesis
    using True by (simp add: run_withE run_whenE run_bindE sl_on_rm_run srm_stop_run)
next
  case False
  then show ?thesis using assms by (simp add: prog_run in_pass_def)
qed

lemma connecting_first:
  assumes laws: "slave_app_laws E" and "sl_curr s = Connecting" and "0 < sl_nb_loop s \<and> sl_running s"
    and "srm_one_timer (sa_rm E) (sl_rm s)" and hip: "Hip_received \<notin> em_events (sa_evt E) (sl_evt s)"
    and off: "sl_nb_loop s = 1 \<longrightarrow> \<not> sr_running (sl_rm s)"
  shows "in_pass E Connecting (snd (withE (\<lambda>s. whenE (sl_nb_loop s = 1)
    (blockE [sl_on_rm (srm_start (sa_rm E)), sl_on_rm (srm_send_dip (sa_rm E) (sl_slave_id s)),
             sl_on_rm (srm_start_keepalive_management (sa_rm E) keepalive_timeout)])) s))"
proof (cases "sl_nb_loop s = 1")
  case True
  let ?R = "sa_rm E"
  have T: "timeout_queue_laws (se_tq ?R)" using laws by (simp add: slave_app_laws_def)
  obtain r1 x1 where start: "srm_start ?R (sl_rm s) = (r1, x1)" by fastforce
  have x1: "srm_timers ?R x1 = Map.empty" "r1 = Inr ()"
    using srm_start_effect [OF T start] off True by auto
  obtain r2 x2 where dip: "srm_send_dip ?R (sl_slave_id s) x1 = (r2, x2)" by fastforce
  have "srm_timer_state x2 = srm_timer_state x1"
    using preserves_run [OF srm_send_dip_quiet refl dip] .
  then have x2: "srm_timers ?R x2 = Map.empty" using x1 srm_state_of(1) by fastforce
  obtain r3 x3 where ka: "srm_start_keepalive_management ?R keepalive_timeout x2 = (r3, x3)" by fastforce
  have x3: "srm_one_timer ?R x3" "r3 = Inr ()" using srm_start_keepalive_effect [OF T ka x2] by auto
  have "srm_one_timer ?R x2" using x2 by (simp add: srm_one_timer_def)
  then have "in_pass E Connecting (s\<lparr>sl_rm := x2\<rparr>)" "in_pass E Connecting (s\<lparr>sl_rm := x3\<rparr>)"
    using assms(2,3) hip x3(1) by (simp_all add: in_pass_def)
  then show ?thesis
    using True start x1(2) dip ka x3(2)
    by (cases r2) (simp_all add: run_withE run_whenE run_bindE sl_on_rm_run retE_def)
next
  case False
  then show ?thesis using assms by (simp add: prog_run in_pass_def)
qed

lemma connected_hip:
  assumes laws: "slave_app_laws E" and s: "in_pass E Connected s"
  shows "in_pass E Connected (snd (blockE
    [modifyE (\<lambda>s. s\<lparr>sl_master_id := no_identification\<rparr>),
     sl_on_rm (srm_stop_keepalive_management (sa_rm E)), sl_on_rm srm_stop, sl_notify E Hip_received] s))"
proof -
  have T: "timeout_queue_laws (se_tq (sa_rm E))" using laws by (simp add: slave_app_laws_def)
  obtain r x where run: "srm_stop_keepalive_management (sa_rm E) (sl_rm s) = (r, x)" by fastforce
  have "srm_one_timer (sa_rm E) (sl_rm s)" using s by (simp add: in_pass_def)
  from srm_stop_keepalive_effect [OF T run this] s show ?thesis
    by (auto simp: run_bindE run_modifyE sl_on_rm_run run srm_stop_run sl_notify_run retE_def in_pass_def
        srm_one_timer_def srm_timers_def)
qed

text \<open>The rest of each handler.\<close>

lemma in_pass_cases:
  assumes "\<And>p. m = Some p \<Longrightarrow> preserves (in_pass E c) (f p)" and "m = None \<Longrightarrow> preserves (in_pass E c) n"
  shows "preserves (in_pass E c) (case m of None \<Rightarrow> n | Some p \<Rightarrow> f p)"
  using assms by (cases m) simp_all

lemma in_pass_modify:
  assumes "\<And>s. sl_frame (f s) = sl_frame s"
  shows "preserves (in_pass E c) (modifyE f)"
  by (rule preservesI) (simp add: run_modifyE in_pass_frame [OF assms])

lemma handler_disconnected_pass:
  assumes laws: "slave_app_laws E" and "sl_curr s = Disconnected" and "0 < sl_nb_loop s \<and> sl_running s"
    and "srm_one_timer (sa_rm E) (sl_rm s)" and "sl_nb_loop s = 1 \<or> \<not> sr_running (sl_rm s)"
  shows "in_pass E Disconnected (snd (sl_handler_disconnected E s))"
  unfolding sl_handler_disconnected_def
proof (rule preserves_after [where I = "in_pass E Disconnected"], rule disconnected_first [OF assms(2-5)])
  show "preserves (in_pass E Disconnected) (bindE (sl_read E) (\<lambda>p.
     case p of
       None \<Rightarrow> retE Stay_curr_state
     | Some p \<Rightarrow>
         bindE (case packet_type p of
             Some Hip \<Rightarrow>
               blockE [modifyE (\<lambda>s. s\<lparr>sl_received_packet_id := packet_id p\<rparr>),
                       sl_set_master_id p,
                       sl_notify E Hip_received]
           | _ \<Rightarrow> retE ())
         (\<lambda>_. retE Stay_curr_state)))"
    by (intro hoare in_pass_cases)
      (auto simp: sl_frame_def intro!: hoare in_pass_modify laws split: option.split packet_type.split)
qed

lemma handler_connecting_pass:
  assumes laws: "slave_app_laws E" and "sl_curr s = Connecting" and "0 < sl_nb_loop s \<and> sl_running s"
    and "srm_one_timer (sa_rm E) (sl_rm s)" and "Hip_received \<notin> em_events (sa_evt E) (sl_evt s)"
    and "sl_nb_loop s = 1 \<longrightarrow> \<not> sr_running (sl_rm s)"
  shows "in_pass E Connecting (snd (sl_handler_connecting E s))"
  unfolding sl_handler_connecting_def
proof (rule preserves_after [where I = "in_pass E Connecting"], rule connecting_first [OF assms])
  show "preserves (in_pass E Connecting) (bindE (sl_read E) (\<lambda>p.
     case p of
       None \<Rightarrow> retE Stay_curr_state
     | Some p \<Rightarrow>
         bindE (sl_track_id p) (\<lambda>_.
         bindE (case packet_type p of
             Some Ka \<Rightarrow> blockE [sl_on_rm (srm_keepalive (sa_rm E)), sl_notify E First_ka_received]
           | _ \<Rightarrow> retE ())
         (\<lambda>_. retE Stay_curr_state))))"
    by (intro hoare in_pass_cases)
      (auto intro!: hoare laws split: option.split packet_type.split)
qed

lemma handler_connected_pass:
  assumes laws: "slave_app_laws E"
  shows "preserves (in_pass E Connected) (sl_handler_connected E)"
proof -
  have hip: "preserves (in_pass E Connected) (blockE
    [modifyE (\<lambda>s. s\<lparr>sl_master_id := no_identification\<rparr>),
     sl_on_rm (srm_stop_keepalive_management (sa_rm E)), sl_on_rm srm_stop, sl_notify E Hip_received])"
    using connected_hip [OF laws] by (rule preservesI)
  have cmd: "preserves (in_pass E Connected) (sl_on_cmd E p)" for p
    unfolding sl_on_cmd_def by (intro hoare laws) (auto intro!: hoare split: list.split)
  show ?thesis
    unfolding sl_handler_connected_def
    by (intro hoare in_pass_cases)
      (auto intro!: hoare hip cmd laws simp del: blockE.simps split: option.split packet_type.split)
qed

lemma handler_init_pass:
  assumes "sl_curr s = Init" and "0 < sl_nb_loop s \<and> sl_running s" and "srm_one_timer (sa_rm E) (sl_rm s)"
    and "\<not> sr_running (sl_rm s)"
  shows "in_pass E Init (snd (sl_handler_init E s))"
  using assms by (simp add: sl_handler_init_def prog_run in_pass_def)

lemma sl_handler_inv:
  assumes laws: "slave_app_laws E" and inv: "sl_inv E s" and run: "sl_running s"
  shows "in_pass E (sl_curr s) (snd (sl_handler E (sl_curr s) (s\<lparr>sl_nb_loop := sl_nb_loop s + 1\<rparr>)))"
proof (cases "sl_curr s")
  case Init
  then show ?thesis
    using inv run handler_init_pass [of "s\<lparr>sl_nb_loop := sl_nb_loop s + 1\<rparr>" E] by (simp add: sl_inv_def)
next
  case Disconnected
  then show ?thesis
    using inv run handler_disconnected_pass [OF laws, of "s\<lparr>sl_nb_loop := sl_nb_loop s + 1\<rparr>"]
    by (auto simp: sl_inv_def)
next
  case Connecting
  then show ?thesis
    using inv run handler_connecting_pass [OF laws, of "s\<lparr>sl_nb_loop := sl_nb_loop s + 1\<rparr>"]
    by (auto simp: sl_inv_def)
next
  case Connected
  then have "in_pass E Connected (s\<lparr>sl_nb_loop := sl_nb_loop s + 1\<rparr>)"
    using inv run by (simp add: sl_inv_def in_pass_def)
  then show ?thesis using preservesD [OF handler_connected_pass [OF laws]] Connected by simp
qed

lemma sl_catch_snd:
  "snd (sl_catch m s) = snd (m s)"
  by (auto simp: sl_catch_def prog_run split: prod.split sum.split)

text \<open>The other functions only take an event away, or set the error code.\<close>

lemma sl_goto_if_run:
  "sl_goto_if (sl_erase E e) act s =
     (case em_erase (sa_evt E) (sl_evt s) e of
        (b, m) \<Rightarrow> if b then bindE act (\<lambda>_. retE Goto_next_state) (s\<lparr>sl_evt := m\<rparr>)
                  else (Inr Stay_curr_state, s\<lparr>sl_evt := m\<rparr>))"
  by (simp add: sl_goto_if_def run_bindE sl_erase_run run_retE split: prod.split)

lemma sl_check_effect:
  assumes laws: "slave_app_laws E" and "(c, check) \<in> set (sl_checks E (sl_curr s))" and "check s = (r, s')"
  shows "sl_curr s' = sl_curr s \<and> sl_nb_loop s' = sl_nb_loop s \<and> sl_running s' = sl_running s
    \<and> srm_timer_state (sl_rm s') = srm_timer_state (sl_rm s)
    \<and> em_events (sa_evt E) (sl_evt s') \<subseteq> em_events (sa_evt E) (sl_evt s)
    \<and> (c = Connecting \<longrightarrow> r = Inr Goto_next_state \<longrightarrow>
         Hip_received \<in> em_events (sa_evt E) (sl_evt s) \<and> Hip_received \<notin> em_events (sa_evt E) (sl_evt s'))"
proof -
  have M: "event_mngr_laws (sa_evt E)" using laws by (simp add: slave_app_laws_def)
  have erase: "\<exists>b m. em_erase (sa_evt E) (sl_evt s) e = (b, m) \<and> b = (e \<in> em_events (sa_evt E) (sl_evt s))
      \<and> em_events (sa_evt E) m = em_events (sa_evt E) (sl_evt s) - {e}" for e
    using em_laws(2,3) [OF M, of "sl_evt s" e] by (cases "em_erase (sa_evt E) (sl_evt s) e") simp
  have quiet_closed: "sl_curr x = sl_curr s \<and> sl_running x = sl_running s \<and> sl_nb_loop x = sl_nb_loop s \<and> sl_evt x = sl_evt s
      \<and> srm_timer_state (sl_rm x) = srm_timer_state (sl_rm s)"
    if "sl_check_transport_closed E s = (y, x)" for x y
  proof -
    have "preserves (\<lambda>x. sl_frame x = sl_frame s) (sl_check_transport_closed E)"
      unfolding sl_check_transport_closed_def
      by (intro hoare quiet_preserves quiet_on_transport) (simp add: sl_frame_def)
    note f = preserves_run [OF this refl that]
    show ?thesis by (simp add: sl_frame_D [OF f])
  qed
  consider (true) "check = sl_check_true" "c \<noteq> Connecting" | (closed) "check = sl_check_transport_closed E" "c \<noteq> Connecting"
    | (hip) "check = sl_check_hip_received E"
    | (ka) "check = sl_check_ka_timeout E" "c \<noteq> Connecting" | (conn) "check = sl_check_connected E" "c \<noteq> Connecting"
    using assms(2) by (cases "sl_curr s") auto
  then show ?thesis
  proof cases
    case true
    then show ?thesis using assms(3) by (simp add: sl_check_true_def prog_run)
  next
    case closed
    then show ?thesis using assms(3) quiet_closed by auto
  next
    case hip
    obtain m where m: "em_erase (sa_evt E) (sl_evt s) Hip_received = (Hip_received \<in> em_events (sa_evt E) (sl_evt s), m)"
      "em_events (sa_evt E) m = em_events (sa_evt E) (sl_evt s) - {Hip_received}"
      using erase [of Hip_received] by blast
    have "check s = (if Hip_received \<in> em_events (sa_evt E) (sl_evt s)
        then (Inr Goto_next_state, s\<lparr>sl_evt := m\<rparr>) else (Inr Stay_curr_state, s\<lparr>sl_evt := m\<rparr>))"
      by (simp add: hip sl_check_hip_received_def sl_goto_if_run m(1) prog_run)
    then show ?thesis using assms(3) m(2)  by (simp split: if_splits; blast)
  next
    case ka
    obtain m where m: "em_erase (sa_evt E) (sl_evt s) Slave_ka_timeout = (Slave_ka_timeout \<in> em_events (sa_evt E) (sl_evt s), m)"
      "em_events (sa_evt E) m = em_events (sa_evt E) (sl_evt s) - {Slave_ka_timeout}"
      using erase [of Slave_ka_timeout] by blast
    have "check s = (if Slave_ka_timeout \<in> em_events (sa_evt E) (sl_evt s)
        then (Inr Goto_next_state, s\<lparr>sl_evt := m, sl_errc := make_appli_code Ka_timeout\<rparr>) else (Inr Stay_curr_state, s\<lparr>sl_evt := m\<rparr>))"
      by (simp add: ka sl_check_ka_timeout_def sl_goto_if_run m(1) prog_run)
    then show ?thesis using assms(3) m(2) ka(2) by (simp split: if_splits; blast)
  next
    case conn
    obtain m where m: "em_erase (sa_evt E) (sl_evt s) First_ka_received = (First_ka_received \<in> em_events (sa_evt E) (sl_evt s), m)"
      "em_events (sa_evt E) m = em_events (sa_evt E) (sl_evt s) - {First_ka_received}"
      using erase [of First_ka_received] by blast
    have "check s = (if First_ka_received \<in> em_events (sa_evt E) (sl_evt s)
        then (Inr Goto_next_state, s\<lparr>sl_evt := m\<rparr>) else (Inr Stay_curr_state, s\<lparr>sl_evt := m\<rparr>))"
      by (simp add: conn sl_check_connected_def sl_goto_if_run m(1) prog_run)
    then show ?thesis using assms(3) m(2) conn(2) by (simp split: if_splits; blast)
  qed
qed

lemma transition_quiet: "quiet (sl_transition_handler c)"
  unfolding sl_transition_handler_def
  by (rule quietI) (intro hoare, auto intro!: hoare quiet_preserves quiet_on_user split: option.split
      simp: sl_frame_def [of "s\<lparr>sl_errc := no_error_code\<rparr>" for s] sl_frame_def [symmetric])

lemma sl_send_data_quiet: "quiet (sl_send_data E bs)"
  unfolding sl_send_data_def
  by (rule quietI) (intro hoare quiet_preserves quiet_on_rm srm_send_data_timer_state)

text \<open>Entering a state.\<close>

lemma sl_enter_inv:
  assumes inv: "sl_inv E s" and pos: "0 < sl_nb_loop s" and c: "(c, check) \<in> set (sl_checks E (sl_curr s))"
    and s1: "sl_running s1 = sl_running s" "srm_timer_state (sl_rm s1) = srm_timer_state (sl_rm s)"
      "em_events (sa_evt E) (sl_evt s1) \<subseteq> em_events (sa_evt E) (sl_evt s)"
      "c = Connecting \<longrightarrow> Hip_received \<in> em_events (sa_evt E) (sl_evt s)
         \<and> Hip_received \<notin> em_events (sa_evt E) (sl_evt s1)"
  shows "sl_inv E (s1\<lparr>sl_curr := c, sl_nb_loop := 0\<rparr>)"
  using inv pos c s1(1,3,4) srm_state_of(3,4) [OF s1(2)]
  by (cases "sl_curr s") (auto simp: sl_inv_def split: app_state.splits)

lemma sl_step_inv:
  assumes laws: "slave_app_laws E" and step: "sl_step E s s'" and inv: "sl_inv E s"
  shows "sl_inv E s'"
  using step
proof cases
  case (pass r)
  let ?s = "s\<lparr>sl_nb_loop := sl_nb_loop s + 1\<rparr>"
  have "s' = snd (bindE (sl_handler E (sl_curr s)) (\<lambda>_. retE ()) ?s)"
    using pass(2) by (metis sl_catch_snd snd_conv)
  also have "\<dots> = snd (sl_handler E (sl_curr s) ?s)"
    by (simp add: prog_run split: prod.split sum.split)
  finally show ?thesis using sl_handler_inv [OF laws inv pass(1)] in_pass_inv by simp
next
  case (stay c check)
  note f = sl_check_effect [OF laws stay(3,4)]
  then show ?thesis
    using inv srm_state_of(3,4) [of "sl_rm s'" "sl_rm s"]
    by (cases "sl_curr s") (auto simp: sl_inv_def)
next
  case (goto c check s1 r)
  note f = sl_check_effect [OF laws goto(3,4)]
  have "sl_inv E (s1\<lparr>sl_curr := c, sl_nb_loop := 0\<rparr>)"
    by (rule sl_enter_inv [OF inv goto(2,3)]) (use f in auto)
  moreover have "s' = snd (sl_transition_handler c (s1\<lparr>sl_curr := c, sl_nb_loop := 0\<rparr>))"
    using goto(5) by (metis sl_catch_snd snd_conv)
  ultimately show ?thesis using preservesD [OF quiet_inv [OF transition_quiet]] by blast
next
  case (timer i t q r)
  have T: "timeout_queue_laws (se_tq (sa_rm E))" and M: "event_mngr_laws (sa_evt E)"
    using laws by (simp_all add: slave_app_laws_def)
  let ?x = "(sl_rm s)\<lparr>sr_timeout_queue := q\<rparr>"
  obtain b where b: "srm_timers (sa_rm E) ?x =
      (srm_timers (sa_rm E) (sl_rm s))(i := if t_repeating t then Some (t\<lparr>t_start := b\<rparr>) else None)"
    using tq_fire_law(2) [OF T timer(2) [unfolded srm_timers_def]] timer(3) by (auto simp: srm_timers_def)
  have "s' = s\<lparr>sl_rm := ?x, sl_evt := em_notify (sa_evt E) (sl_evt s) Slave_ka_timeout\<rparr>"
    using timer(4) by (simp add: srm_ka_timeout_cb_def sl_timeout_cb_def sl_notify_run)
  moreover have "srm_one_timer (sa_rm E) ?x"
    using inv timer(2) b unfolding sl_inv_def srm_one_timer_def by (auto split: if_splits)
  ultimately show ?thesis
    using inv M by (cases "sl_curr s") (simp_all add: sl_inv_def)
next
  case (tick r)
  have "s' = s\<lparr>sl_rm := snd (srm_tick (sl_rm s))\<rparr>"
    using tick by (auto simp: sl_on_rm_run split: prod.splits)
  then show ?thesis
    using inv by (cases "sl_curr s")
      (simp_all add: sl_inv_def srm_tick_def prog_run srm_one_timer_def srm_timers_def)
next
  case (transport t)
  have "sl_frame s' = sl_frame s" unfolding transport by (simp add: sl_frame_def srm_timer_state_def)
  from sl_inv_frame [OF this] show ?thesis using inv by simp
next
  case (send_data bs r)
  then show ?thesis using preserves_run [OF quiet_inv [OF sl_send_data_quiet] inv] by blast
next
  case (start r)
  show ?thesis
  proof (cases "sl_running s")
    case True
    then show ?thesis using start inv by (simp add: sl_start_def prog_run)
  next
    case False
    obtain x s1 where t: "sl_on_transport (tr_start (se_tr (sa_rm E))) s = (x, s1)" by fastforce
    have f: "sl_frame s1 = sl_frame s" using quietD [OF quiet_on_transport t] .
    have "s' = s1 \<or> s' = s1\<lparr>sl_curr := Init, sl_nb_loop := 0, sl_running := True\<rparr>"
      using start False t by (cases x) (auto simp: sl_start_def prog_run)
    then show ?thesis
    proof
      assume "s' = s1"
      then show ?thesis using inv by (simp add: sl_inv_frame [OF f])
    next
      assume "s' = s1\<lparr>sl_curr := Init, sl_nb_loop := 0, sl_running := True\<rparr>"
      then show ?thesis using inv False by (simp add: sl_inv_def sl_frame_D [OF f])
    qed
  qed
next
  case (stop r)
  show ?thesis
  proof (cases "sl_running s")
    case False
    then show ?thesis using stop inv by (simp add: sl_stop_def prog_run)
  next
    case True
    let ?s = "s\<lparr>sl_running := False, sl_rm := (sl_rm s)\<lparr>sr_running := False\<rparr>\<rparr>"
    have "s' = snd (blockE [sl_on_transport (tr_stop (se_tr (sa_rm E)))] ?s)"
      using stop True by (simp add: sl_stop_def run_withE run_bindE run_modifyE sl_on_rm_run srm_stop_run)
    moreover have "preserves (\<lambda>x. sl_frame x = sl_frame ?s) (blockE [sl_on_transport (tr_stop (se_tr (sa_rm E)))])"
      by (intro hoare quiet_preserves quiet_on_transport)
    note preservesD [OF this refl]
    ultimately have f: "sl_frame s' = sl_frame ?s" by simp
    have "sl_inv E ?s"
      using inv by (cases "sl_curr s") (auto simp: sl_inv_def srm_one_timer_def srm_timers_def)
    then show ?thesis by (simp only: sl_inv_frame [OF f])
  qed
qed

text \<open>The slave over any timer queue and event manager that keep their laws.\<close>

locale slave_library =
  fixes E :: "('q, 'm, 'tr) slave_app_env"
  assumes library: "slave_app_laws E"

sublocale slave_library \<subseteq> app: invariant_system "sl_made E" "sl_step E" "sl_inv E"
proof unfold_locales
  show "sl_inv E s" if "sl_made E s" for s :: "('q, 'm, 'tr, 'u) slave"
    using that by (rule sl_made_inv)
  show "sl_inv E t" if "sl_inv E s" "sl_step E s t" for s t :: "('q, 'm, 'tr, 'u) slave"
    using sl_step_inv [OF library that(2,1)] .
qed

context slave_library
begin

lemma slave_reach_inv: "reach (sl_made E) (sl_step E) s \<Longrightarrow> sl_inv E s"
  by (rule app.reach_inv)

end

text \<open>The reference objects: a slave over an open client, connected, with one callback.\<close>

type_synonym ref_slave =
  "(slave_timer ref_queue, slave_event set, (bool, packet list, packet list) tcp_client, block list) slave"

definition ref_slave_app ::
  "(slave_timer ref_queue, slave_event set, (bool, packet list, packet list) tcp_client) slave_app_env" where
  "ref_slave_app = \<lparr>sa_rm = ref_slave_env, sa_evt = ref_event_mngr\<rparr>"

definition ref_slave :: ref_slave where
  "ref_slave =
     \<lparr>sl_curr = Init, sl_nb_loop = 0, sl_evt = {},
      sl_rm = ref_slave_rm\<lparr>sr_running := False\<rparr>, sl_slave_id = no_identification,
      sl_master_id = no_identification, sl_cmd_cb = Some (\<lambda>b u. (Inr (), u @ [b])),
      sl_status_cb = None, sl_received_packet_id = 0, sl_errc = no_error_code, sl_running = False,
      sl_user = []\<rparr>"

lemma ref_slave_app_fields [simp]:
  "sa_rm ref_slave_app = ref_slave_env" "sa_evt ref_slave_app = ref_event_mngr"
  by (simp_all add: ref_slave_app_def)

lemma ref_slave_laws [simp]: "slave_app_laws ref_slave_app"
  by (simp add: slave_app_laws_def)

lemma ref_slave_made: "sl_made ref_slave_app ref_slave"
  by (simp add: sl_made_def ref_slave_def srm_timers_def ref_slave_rm_def ref_timeout_queue_def
      ref_queue_empty_def)

interpretation ref_slave: slave_library ref_slave_app
  by unfold_locales simp

section \<open>Properties\<close>

text \<open>
  C17: However its thread, its timers, the transport and the user take turns, a slave has never
  more than one keep-alive timer, the one its request manager can call off. After the first
  pass in \<open>Disconnected\<close>, and while the slave is stopped, the timer thread does not run: no
  keep-alive can time out.
\<close>

theorem slave_one_keepalive_timer:
  assumes "slave_app_laws E" and "reach (sl_made E) (sl_step E) s"
  shows "dom (srm_timers (sa_rm E) (sl_rm s)) \<subseteq> {sr_keepalive_id (sl_rm s)}
    \<and> ((sl_curr s = Disconnected \<and> 0 < sl_nb_loop s) \<or> \<not> sl_running s \<longrightarrow> \<not> sr_running (sl_rm s))"
proof -
  have "slave_library E" using assms(1) by unfold_locales
  then have "sl_inv E s" using assms(2) by (rule slave_library.slave_reach_inv)
  then show ?thesis by (auto simp: sl_inv_def srm_one_timer_def)
qed

theorem slave_one_keepalive_timer_witness:
  "dom (srm_timers ref_slave_env (sl_rm ref_slave)) \<subseteq> {0}"
  using slave_one_keepalive_timer [OF ref_slave_laws reach_init [where init = "sl_made ref_slave_app", OF ref_slave_made]]
  by (simp add: ref_slave_def ref_slave_rm_def)

subsection \<open>Identification\<close>

text \<open>The transport's answer to a read.\<close>

definition sl_reads ::
  "('q, 'm, 'tr) slave_app_env \<Rightarrow> ('q, 'm, 'tr, 'u) slave \<Rightarrow> packet \<Rightarrow> 'tr \<Rightarrow> bool" where
  "sl_reads E s p t' \<longleftrightarrow>
     (\<exists>t. sr_transport (sl_rm s) = Some t \<and> tr_read (se_tr (sa_rm E)) t = (Some p, t'))"

lemma sl_read_run:
  "sl_reads E s p t' \<Longrightarrow>
     sl_read E s = (Inr (Some p), s\<lparr>sl_rm := (sl_rm s)\<lparr>sr_transport := Some t'\<rparr>\<rparr>)"
  by (auto simp: sl_reads_def sl_read_def sl_on_transport_def)

lemma sl_set_master_id_run:
  "sl_set_master_id p s = (Inr (), s\<lparr>sl_master_id := set_id (sl_master_id s) (packet_blocks p)\<rparr>)"
proof -
  have "foreachE (\<lambda>b. modifyE (\<lambda>s. s\<lparr>sl_master_id := set_id_block (sl_master_id s) b\<rparr>)) bs s
      = (Inr (), s\<lparr>sl_master_id := set_id (sl_master_id s) bs\<rparr>)" for bs
    by (induction bs arbitrary: s) (simp_all add: prog_run)
  then show ?thesis by (simp add: sl_set_master_id_def)
qed

lemma sl_track_id_run:
  "sl_track_id p s = (Inr (), s\<lparr>sl_received_packet_id := packet_id p\<rparr>)"
  by (cases s) (simp add: sl_track_id_def prog_run)

lemma slave_learns_run:
  assumes "slave_app_laws E" and p: "packet_type p = Some Hip" "packet_blocks p = identification_blocks i"
    and "sl_nb_loop s \<noteq> 1" and "sl_reads E s p t'"
  shows "\<exists>s'. sl_handler_disconnected E s = (Inr Stay_curr_state, s') \<and> sl_master_id s' = i
    \<and> sl_received_packet_id s' = packet_id p \<and> fst (sl_check_hip_received E s') = Inr Goto_next_state"
proof -
  have M: "event_mngr_laws (sa_evt E)" using assms(1) by (simp add: slave_app_laws_def)
  have "em_erase (sa_evt E) (em_notify (sa_evt E) m Hip_received) Hip_received
      = (True, snd (em_erase (sa_evt E) (em_notify (sa_evt E) m Hip_received) Hip_received))" for m
    using em_laws(2) [OF M, of "em_notify (sa_evt E) m Hip_received" Hip_received] M
    by (cases "em_erase (sa_evt E) (em_notify (sa_evt E) m Hip_received) Hip_received") simp
  then have "fst (sl_check_hip_received E (x\<lparr>sl_evt := em_notify (sa_evt E) m Hip_received\<rparr>)) = Inr Goto_next_state"
    for x :: "('a, 'b, 'c, 'd) slave" and m
    by (simp add: sl_check_hip_received_def sl_goto_if_run run_retE split: prod.split)
      (metis prod.inject)
  then show ?thesis
    using assms(4) p
    by (simp add: sl_handler_disconnected_def run_bindE run_withE run_whenE sl_read_run [OF assms(5)]
        run_modifyE sl_set_master_id_run sl_notify_run run_retE retE_def set_id_identification)
qed

text \<open>
  A disconnected slave learns who the host is: when it reads an identification packet made
  by the host, it holds exactly the host's identification, whatever it held before, knows the
  packet's identifier, and is about to connect.
\<close>

theorem slave_learns_host:
  assumes "slave_app_laws E" and "storage mem" and "identification_size i \<le> 2019"
    and "make_hip mem pid i = Inr p" and "sl_nb_loop s \<noteq> 1" and "sl_reads E s p t'"
  shows "\<exists>s'. sl_handler_disconnected E s = (Inr Stay_curr_state, s') \<and> sl_master_id s' = i
    \<and> sl_received_packet_id s' = pid \<and> fst (sl_check_hip_received E s') = Inr Goto_next_state"
  using slave_learns_run [OF assms(1) _ _ assms(5,6), of i] make_hip_ok [OF assms(2,3), of pid] assms(4) by auto

definition ref_ident :: identification where
  "ref_ident = \<lparr>id_name = [72], id_serial_number = [1, 2], id_hw_version = [], id_sw_version = [3]\<rparr>"

lemma ref_ident_size: "identification_size ref_ident \<le> 2019"
  by (simp add: identification_size_def ref_ident_def)

text \<open>A slave in some state whose transport has one packet to be read.\<close>

definition ref_reading :: "app_state \<Rightarrow> packet \<Rightarrow> ref_slave" where
  "ref_reading c p = ref_slave
     \<lparr>sl_curr := c, sl_nb_loop := 2, sl_running := True,
      sl_rm := ref_slave_rm\<lparr>sr_transport := Some (ref_client\<lparr>read_queue := [p]\<rparr>)\<rparr>\<rparr>"

lemma ref_reading_reads: "sl_reads ref_slave_app (ref_reading c p) p (ref_client\<lparr>read_queue := []\<rparr>)"
  by (simp add: sl_reads_def ref_reading_def ref_slave_rm_def ref_client_def tc_api_def
      transport_read_def ref_client_env_def ref_queue_api_def)

theorem slave_learns_host_witness:
  "\<exists>p s'. make_hip (replicate 2048 0) 1 ref_ident = Inr p
     \<and> sl_handler_disconnected ref_slave_app (ref_reading Disconnected p) = (Inr Stay_curr_state, s')
     \<and> sl_master_id s' = ref_ident"
proof -
  have mem: "storage (replicate 2048 0)" by (simp add: storage_def max_size_def)
  obtain p where p: "make_hip (replicate 2048 0) 1 ref_ident = Inr p"
    using make_hip_ok [OF mem ref_ident_size, of 1] by blast
  have "sl_nb_loop (ref_reading Disconnected p) \<noteq> 1" by (simp add: ref_reading_def)
  from slave_learns_host [OF ref_slave_laws mem ref_ident_size p this ref_reading_reads] p
  show ?thesis by blast
qed

subsection \<open>Commands\<close>

text \<open>A keep-alive on an open transport is acknowledged.\<close>

context posting_transport
begin

lemma srm_keepalive_sends:
  assumes "se_tr R = A" and "storage (se_mem R)" and "srm_open R s"
  shows "\<exists>s' p. srm_keepalive R s = (Inr (), s') \<and> srm_open R s'
    \<and> srm_sent sent s' = srm_sent sent s @ [p] \<and> sr_packet_id s' = sr_packet_id s + 1
    \<and> valid_packet p \<and> packet_type p = Some Ka_ack \<and> packet_id p = sr_packet_id s + 1"
proof -
  let ?t = "if sr_keepalive_mngt s then srm_arm R (srm_disarm R s) else s"
  have same: "srm_open R ?t" "srm_sent sent ?t = srm_sent sent s" "sr_packet_id ?t = sr_packet_id s"
    using assms(3) by (simp_all add: srm_open_def srm_sent_def)
  obtain p where p: "make_keepalive_ack (se_mem R) (sr_packet_id ?t + 1) = Inr p" "valid_packet p"
    "packet_id p = sr_packet_id ?t + 1" "packet_type p = Some Ka_ack"
    using make_keepalive_ack_ok [OF assms(2)] by blast
  obtain s' where s': "srm_transmit R (make_keepalive_ack (se_mem R)) ?t = (Inr (), s')"
    "srm_open R s'" "srm_sent sent s' = srm_sent sent ?t @ [p]" "sr_packet_id s' = sr_packet_id ?t + 1"
    using srm_transmit_accepts [where mk = "make_keepalive_ack (se_mem R)", OF assms(1) same(1) p(1)] by blast
  have "srm_keepalive R s = blockE
      [withE (\<lambda>s. whenE (srm_open R s) (srm_transmit R (make_keepalive_ack (se_mem R))))] ?t"
    by (simp add: srm_keepalive_def run_bindE run_withE run_whenE run_modifyE retE_def)
  also have "\<dots> = (Inr (), s')"
    using same(1) s'(1) by (simp add: run_bindE run_withE run_whenE retE_def)
  finally show ?thesis using s' p same by auto
qed

lemma srm_cmd_ack_sends:
  assumes "se_tr R = A" and "storage (se_mem R)" and "srm_open R s" and "packet_blocks c = b # bs"
  shows "\<exists>s' p. srm_send_cmd_ack R c s = (Inr (), s') \<and> srm_open R s'
    \<and> srm_sent sent s' = srm_sent sent s @ [p] \<and> valid_packet p \<and> packet_type p = Some Cmd_ack
    \<and> packet_blocks p = [\<lparr>b_type = b_type b, b_data = u16_le (packet_id c)\<rparr>]"
proof -
  let ?mk = "\<lambda>i. make_cmd_ack (se_mem R) i (b_type b) (packet_id c)"
  obtain p where p: "?mk (sr_packet_id s + 1) = Inr p" "valid_packet p" "packet_type p = Some Cmd_ack"
    "packet_blocks p = [\<lparr>b_type = b_type b, b_data = u16_le (packet_id c)\<rparr>]"
    using make_cmd_ack_ok [OF assms(2)] by blast
  obtain s' where "srm_transmit R ?mk s = (Inr (), s')" "srm_open R s'" "srm_sent sent s' = srm_sent sent s @ [p]"
    using srm_transmit_accepts [where mk = ?mk, OF assms(1,3) p(1)] by blast
  then show ?thesis using p assms(3,4) by (auto simp: srm_send_cmd_ack_def run_withE run_whenE)
qed

end

lemma slave_answers_run:
  assumes "posting_transport (se_tr (sa_rm E)) sent received" and "storage (se_mem (sa_rm E))"
    and "sl_reads E s p t'" and "tr_is_open (se_tr (sa_rm E)) t'" and "packet_type p = Some Cmd"
    and "packet_blocks p = [b]" and "sl_cmd_cb s = Some cb"
    and "\<forall>e. fst (cb b (sl_user s)) = Inl e \<longrightarrow> is_std_exception e"
  shows "\<exists>s' k a x. sl_handler_connected E s = (Inr Stay_curr_state, s')
    \<and> s' = s\<lparr>sl_received_packet_id := packet_id p, sl_rm := x, sl_user := snd (cb b (sl_user s))\<rparr>
    \<and> srm_open (sa_rm E) x \<and> valid_packet k \<and> valid_packet a
    \<and> srm_sent sent (sl_rm s') = srm_sent sent (sl_rm s) @ [k, a]
    \<and> packet_type k = Some Ka_ack \<and> packet_type a = Some Cmd_ack
    \<and> packet_blocks a = [\<lparr>b_type = b_type b, b_data = u16_le (packet_id p)\<rparr>]"
proof -
  note post = assms(1) and mem = assms(2)
  let ?R = "sa_rm E" and ?x = "(sl_rm s)\<lparr>sr_transport := Some t'\<rparr>"
  obtain t where t: "sr_transport (sl_rm s) = Some t" "tr_read (se_tr ?R) t = (Some p, t')"
    using assms(3) by (auto simp: sl_reads_def)
  have "sent t' = sent t"
    using transport_contract.read_frame(1) [OF posting_transport.axioms(1) [OF post], of t] t(2) by simp
  then have x: "srm_open ?R ?x" "srm_sent sent ?x = srm_sent sent (sl_rm s)"
    using assms(4) t(1) by (simp_all add: srm_open_def srm_sent_def)
  obtain x1 k where k: "srm_keepalive ?R ?x = (Inr (), x1)" "srm_open ?R x1"
    "srm_sent sent x1 = srm_sent sent ?x @ [k]" "valid_packet k" "packet_type k = Some Ka_ack"
    using posting_transport.srm_keepalive_sends [OF post refl mem x(1)] by blast
  obtain x2 a where a: "srm_send_cmd_ack ?R p x1 = (Inr (), x2)" "srm_open ?R x2" "valid_packet a"
    "srm_sent sent x2 = srm_sent sent x1 @ [a]" "packet_type a = Some Cmd_ack"
    "packet_blocks a = [\<lparr>b_type = b_type b, b_data = u16_le (packet_id p)\<rparr>]"
    using posting_transport.srm_cmd_ack_sends [OF post refl mem k(2) assms(6)] by blast
  obtain r u where u: "cb b (sl_user s) = (r, u)" by fastforce
  let ?s = "s\<lparr>sl_received_packet_id := packet_id p, sl_rm := x2\<rparr>"
  have call: "sl_call_cmd_cb b ?s = (Inr (), ?s\<lparr>sl_user := u\<rparr>)"
    using assms(7,8) u by (cases r) (simp_all add: sl_call_cmd_cb_def sl_on_user_def prog_run)
  have cmd: "sl_on_cmd E p (s\<lparr>sl_rm := ?x, sl_received_packet_id := packet_id p\<rparr>) = (Inr (), ?s\<lparr>sl_user := u\<rparr>)"
    using k(1) a(1) assms(6) call by (simp add: sl_on_cmd_def run_bindE sl_on_rm_run retE_def)
  have "sl_handler_connected E s = (Inr Stay_curr_state, ?s\<lparr>sl_user := u\<rparr>)"
    using cmd assms(5)
    by (simp add: sl_handler_connected_def run_bindE sl_read_run [OF assms(3)] sl_track_id_run run_retE)
  then show ?thesis using k a x(2) u by (intro exI [of _ "?s\<lparr>sl_user := u\<rparr>"] exI [of _ k] exI [of _ a] exI [of _ x2]) simp
qed

text \<open>
  A connected slave answers a command: when it reads a command with one block on an open
  transport that posts its packets, it sends a keep-alive acknowledgement and then the
  acknowledgement that names the command, gives the block to the user's callback, and goes on,
  also when the callback throws an exception of the standard hierarchy. The last received
  identifier is the command's, whether or not packets were lost before it.
\<close>

theorem slave_answers_command:
  assumes "posting_transport (se_tr (sa_rm E)) sent received" and "storage (se_mem (sa_rm E))"
    and "sl_reads E s p t'" and "tr_is_open (se_tr (sa_rm E)) t'" and "packet_type p = Some Cmd"
    and "packet_blocks p = [b]" and "sl_cmd_cb s = Some cb"
    and "\<forall>e. fst (cb b (sl_user s)) = Inl e \<longrightarrow> is_std_exception e"
  shows "\<exists>s' k a. sl_handler_connected E s = (Inr Stay_curr_state, s')
    \<and> srm_sent sent (sl_rm s') = srm_sent sent (sl_rm s) @ [k, a]
    \<and> packet_type k = Some Ka_ack \<and> packet_type a = Some Cmd_ack
    \<and> packet_blocks a = [\<lparr>b_type = b_type b, b_data = u16_le (packet_id p)\<rparr>]
    \<and> sl_user s' = snd (cb b (sl_user s)) \<and> sl_received_packet_id s' = packet_id p"
  using slave_answers_run [OF assms] by force

theorem slave_answers_command_witness:
  "\<exists>p s' k a. sl_handler_connected ref_slave_app (ref_reading Connected p) = (Inr Stay_curr_state, s')
     \<and> srm_sent (tc_sent ref_client_env) (sl_rm s') = [k, a] \<and> packet_type a = Some Cmd_ack
     \<and> sl_user s' = [\<lparr>b_type = 5, b_data = [1]\<rparr>]"
proof -
  obtain p where p: "packet_type p = Some Cmd" "packet_blocks p = [\<lparr>b_type = 5, b_data = [1]\<rparr>]"
    using make_command_ok [of "replicate 2048 0" "[1]" 1 5] by (auto simp: storage_def max_size_def)
  have post: "posting_transport (se_tr (sa_rm ref_slave_app)) (tc_sent ref_client_env) (tc_received ref_client_env)"
    using ref_posting by simp
  have op: "tr_is_open (se_tr (sa_rm ref_slave_app)) (ref_client\<lparr>read_queue := []\<rparr>)"
    by (simp add: tc_api_def tc_is_open_def ref_client_env_def ref_socket_def ref_client_def)
  have cb: "sl_cmd_cb (ref_reading Connected p) = Some (\<lambda>b u. (Inr (), u @ [b]))"
    "sl_user (ref_reading Connected p) = []"
    "srm_sent (tc_sent ref_client_env) (sl_rm (ref_reading Connected p)) = []"
    by (simp_all add: ref_reading_def ref_slave_def ref_slave_rm_def srm_sent_def tc_sent_def ref_client_def
        ref_client_env_def ref_queue_api_def)
  have mem: "storage (se_mem (sa_rm ref_slave_app))" by simp
  from slave_answers_command [OF post mem ref_reading_reads op p cb(1)] cb show ?thesis by auto
qed

subsection \<open>Errors\<close>

text \<open>
  A keep-alive timeout is reported to the user once: while the event is there, the check
  leads to \<open>Disconnected\<close>, the transition calls the status callback with that state and the
  code \<open>ka_timeout\<close>, and afterwards the event and the error code are gone.
\<close>

theorem slave_reports_ka_timeout:
  assumes "slave_app_laws E" and "Slave_ka_timeout \<in> em_events (sa_evt E) (sl_evt s)"
    and "sl_status_cb s = Some cb"
    and "fst (cb Disconnected (make_appli_code Ka_timeout) (sl_user s)) = Inr ()"
  shows "\<exists>s1 s'. sl_check_ka_timeout E s = (Inr Goto_next_state, s1)
    \<and> sl_transition_handler Disconnected (s1\<lparr>sl_curr := Disconnected, sl_nb_loop := 0\<rparr>) = (Inr (), s')
    \<and> sl_user s' = snd (cb Disconnected (make_appli_code Ka_timeout) (sl_user s))
    \<and> sl_errc s' = no_error_code \<and> sl_curr s' = Disconnected
    \<and> Slave_ka_timeout \<notin> em_events (sa_evt E) (sl_evt s')"
proof -
  have M: "event_mngr_laws (sa_evt E)" using assms(1) by (simp add: slave_app_laws_def)
  obtain b m where e: "em_erase (sa_evt E) (sl_evt s) Slave_ka_timeout = (b, m)" by fastforce
  have b: "b" "Slave_ka_timeout \<notin> em_events (sa_evt E) m"
    using em_laws(2,3) [OF M, of "sl_evt s" Slave_ka_timeout] e assms(2) by simp_all
  obtain r u where u: "cb Disconnected (make_appli_code Ka_timeout) (sl_user s) = (r, u)" by fastforce
  let ?s = "s\<lparr>sl_evt := m, sl_errc := make_appli_code Ka_timeout\<rparr>"
  have "sl_check_ka_timeout E s = (Inr Goto_next_state, ?s)"
    using b(1) by (simp add: sl_check_ka_timeout_def sl_goto_if_run e prog_run)
  moreover have "sl_transition_handler Disconnected (?s\<lparr>sl_curr := Disconnected, sl_nb_loop := 0\<rparr>)
      = (Inr (), ?s\<lparr>sl_curr := Disconnected, sl_nb_loop := 0, sl_user := u, sl_errc := no_error_code\<rparr>)"
    using assms(3,4) u by (simp add: sl_transition_handler_def prog_run sl_on_user_def)
  ultimately show ?thesis using b u by auto
qed

theorem slave_reports_ka_timeout_witness:
  "\<exists>s1 s'. sl_check_ka_timeout ref_slave_app
       (ref_slave\<lparr>sl_evt := {Slave_ka_timeout}, sl_status_cb := Some (\<lambda>c e u. (Inr (), u @ [\<lparr>b_type = 0, b_data = []\<rparr>]))\<rparr>)
       = (Inr Goto_next_state, s1)
     \<and> sl_transition_handler Disconnected (s1\<lparr>sl_curr := Disconnected, sl_nb_loop := 0\<rparr>) = (Inr (), s')
     \<and> length (sl_user s') = 1"
proof -
  let ?s = "ref_slave\<lparr>sl_evt := {Slave_ka_timeout}, sl_status_cb := Some (\<lambda>c e u. (Inr (), u @ [\<lparr>b_type = 0, b_data = []\<rparr>]))\<rparr>"
  have "Slave_ka_timeout \<in> em_events (sa_evt ref_slave_app) (sl_evt ?s)"
    by (simp add: ref_event_mngr_def)
  from slave_reports_ka_timeout [OF ref_slave_laws this, of "\<lambda>c e u. (Inr (), u @ [\<lparr>b_type = 0, b_data = []\<rparr>])"]
  show ?thesis by (auto simp: ref_slave_def)
qed

subsection \<open>A host that comes back\<close>

text \<open>
  Outside \<open>Disconnected\<close> nothing fills in the identification of the host.
\<close>

definition no_host :: "('q, 'm, 'tr, 'u) slave \<Rightarrow> bool" where
  "no_host s \<longleftrightarrow> sl_master_id s = no_identification"

lemma no_host_on_transport [hoare]: "preserves no_host (sl_on_transport m)"
  by (rule preservesI) (auto simp: sl_on_transport_def no_host_def split: option.split prod.split)

lemma no_host_on_user [hoare]: "preserves no_host (sl_on_user m)"
  unfolding sl_on_user_def by (rule preserves_zoomE) (simp add: no_host_def)

lemma no_host_on_rm [hoare]: "preserves no_host (sl_on_rm m)"
  unfolding sl_on_rm_def by (rule preserves_zoomE) (simp add: no_host_def)

lemma no_host_modify [hoare]:
  "(\<And>s. no_host s \<Longrightarrow> no_host (f s)) \<Longrightarrow> preserves no_host (modifyE f)"
  by (rule preserves_modifyE)

lemma no_host_erase [hoare]: "preserves no_host (sl_erase E e)"
  by (rule preservesI) (simp add: sl_erase_run no_host_def split: prod.split)

lemma no_host_notify [hoare]: "preserves no_host (sl_notify E e)"
  by (rule preservesI) (simp add: sl_notify_run no_host_def)

lemma no_host_track_id [hoare]: "preserves no_host (sl_track_id p)"
  by (rule preservesI) (simp add: sl_track_id_run no_host_def)

lemma no_host_read [hoare]: "preserves no_host (sl_read E)"
  unfolding sl_read_def by (rule no_host_on_transport)

lemma no_host_goto_if [hoare]:
  "preserves no_host c \<Longrightarrow> preserves no_host m \<Longrightarrow> preserves no_host (sl_goto_if c m)"
  unfolding sl_goto_if_def by (intro hoare)

lemma no_host_handler:
  assumes "c \<noteq> Disconnected"
  shows "preserves no_host (sl_handler E c)"
proof (cases c)
  case Init
  then show ?thesis by (simp add: sl_handler_init_def) (intro hoare, simp add: no_host_def)
next
  case Connecting
  have "preserves no_host (sl_handler_connecting E)"
    unfolding sl_handler_connecting_def
    by (intro hoare) (auto intro!: hoare split: option.split packet_type.split)
  then show ?thesis using Connecting by simp
next
  case Connected
  have "preserves no_host (sl_call_cmd_cb b)" for b
    unfolding sl_call_cmd_cb_def
    by (intro hoare) (auto intro!: hoare preserves_catchE preserves_if split: option.split)
  then have "preserves no_host (sl_on_cmd E p)" for p
    unfolding sl_on_cmd_def by (intro hoare) (auto intro!: hoare split: list.split)
  then have "preserves no_host (sl_handler_connected E)"
    unfolding sl_handler_connected_def
    by (auto intro!: hoare simp: no_host_def split: option.split packet_type.split)
  then show ?thesis using Connected by simp
qed (use assms in simp)

lemma no_host_check:
  assumes "(c, check) \<in> set (sl_checks E d)"
  shows "preserves no_host check"
proof -
  have "preserves no_host (sl_check_transport_closed E)"
    unfolding sl_check_transport_closed_def by (intro hoare) (simp add: no_host_def)
  moreover have "preserves no_host (sl_check_ka_timeout E)"
    unfolding sl_check_ka_timeout_def by (intro hoare) (simp add: no_host_def)
  moreover have "preserves no_host (sl_check_hip_received E)" "preserves no_host (sl_check_connected E)"
    "preserves no_host sl_check_true"
    unfolding sl_check_hip_received_def sl_check_connected_def sl_check_true_def by (intro hoare)+
  ultimately show ?thesis using assms by (cases d) auto
qed

lemma no_host_step:
  assumes "sl_step E s s'" and "sl_curr s \<noteq> Disconnected" and "no_host s"
  shows "no_host s'"
  using assms(1)
proof cases
  case (pass r)
  let ?s = "s\<lparr>sl_nb_loop := sl_nb_loop s + 1\<rparr>"
  have "preserves no_host (bindE (sl_handler E (sl_curr s)) (\<lambda>_. retE ()))"
    using no_host_handler [OF assms(2)] by (intro hoare)
  moreover have "no_host ?s" using assms(3) by (simp add: no_host_def)
  ultimately show ?thesis using pass(2) sl_catch_snd by (metis preservesD snd_conv)
next
  case (stay c check)
  then show ?thesis using preserves_run [OF no_host_check assms(3)] by blast
next
  case (goto c check s1 r)
  have "no_host s1" using preserves_run [OF no_host_check [OF goto(3)] assms(3) goto(4)] .
  then have "no_host (s1\<lparr>sl_curr := c, sl_nb_loop := 0\<rparr>)" by (simp add: no_host_def)
  moreover have "preserves no_host (sl_transition_handler c)"
    unfolding sl_transition_handler_def
    by (auto intro!: hoare simp: no_host_def split: option.split)
  ultimately show ?thesis using goto(5) sl_catch_snd by (metis preservesD snd_conv)
next
  case (timer i t q r)
  then show ?thesis using assms(3) by (auto simp: srm_ka_timeout_cb_def sl_timeout_cb_def sl_notify_run no_host_def)
next
  case (tick r)
  then show ?thesis using preserves_run [OF no_host_on_rm assms(3)] by blast
next
  case (transport t)
  then show ?thesis using assms(3) by (simp add: no_host_def)
next
  case (send_data bs r)
  have "preserves no_host (sl_send_data E bs)"
    unfolding sl_send_data_def by (intro hoare)
  from preserves_run [OF this assms(3) send_data] show ?thesis .
next
  case (start r)
  have "preserves no_host (sl_start E)"
    unfolding sl_start_def by (intro hoare) (simp_all add: no_host_def)
  from preserves_run [OF this assms(3) start] show ?thesis .
next
  case (stop r)
  have "preserves no_host (sl_stop E)"
    unfolding sl_stop_def by (intro hoare) (simp_all add: no_host_def)
  from preserves_run [OF this assms(3) stop] show ?thesis .
qed

text \<open>
  C32: A host that identifies itself again while the slave is connected is not recorded: the
  packet empties the identification, its own blocks are not read, and it stays empty through
  the new connection, until the slave is disconnected and the host identifies itself once more.
\<close>

theorem slave_forgets_returning_host:
  assumes "sl_reads E s p t'" and "packet_type p = Some Hip" and "sl_handler_connected E s = (r, s1)"
    and "(\<lambda>x y. sl_step E x y \<and> sl_curr x \<noteq> Disconnected)\<^sup>*\<^sup>* s1 s2"
  shows "sl_master_id s2 = no_identification"
proof -
  let ?x = "(sl_rm s)\<lparr>sr_transport := Some t'\<rparr>"
  let ?s = "s\<lparr>sl_rm := ?x, sl_received_packet_id := packet_id p, sl_master_id := no_identification\<rparr>"
  have "s1 = snd (bindE (blockE [sl_on_rm (srm_stop_keepalive_management (sa_rm E)), sl_on_rm srm_stop,
      sl_notify E Hip_received]) (\<lambda>_. retE Stay_curr_state) ?s)"
    using assms(3) by (simp add: sl_handler_connected_def run_bindE [of "sl_read E"] sl_read_run [OF assms(1)]
        run_bindE [of "sl_track_id p"] sl_track_id_run assms(2) bindE_assoc run_bindE [of "modifyE f" for f] run_modifyE)
  moreover have "preserves no_host (bindE (blockE [sl_on_rm (srm_stop_keepalive_management (sa_rm E)), sl_on_rm srm_stop,
      sl_notify E Hip_received]) (\<lambda>_. retE Stay_curr_state))"
    by (intro hoare)
  ultimately have "no_host s1" using preservesD [of no_host _ ?s] by (simp add: no_host_def)
  with assms(4) have "no_host s2"
    by (induction rule: rtranclp.induct) (auto intro: no_host_step)
  then show ?thesis by (simp add: no_host_def)
qed

theorem slave_forgets_returning_host_witness:
  "\<exists>p s1. make_hip (replicate 2048 0) 1 ref_ident = Inr p
     \<and> sl_handler_connected ref_slave_app ((ref_reading Connected p)\<lparr>sl_master_id := ref_ident\<rparr>) = (Inr Stay_curr_state, s1)
     \<and> sl_master_id s1 = no_identification"
proof -
  have mem: "storage (replicate 2048 0)" by (simp add: storage_def max_size_def)
  obtain p where p: "make_hip (replicate 2048 0) 1 ref_ident = Inr p" "packet_type p = Some Hip"
    using make_hip_ok [OF mem ref_ident_size, of 1] by blast
  let ?s = "(ref_reading Connected p)\<lparr>sl_master_id := ref_ident\<rparr>"
  have rd: "sl_reads ref_slave_app ?s p (ref_client\<lparr>read_queue := []\<rparr>)"
    using ref_reading_reads [of Connected p] by (simp add: sl_reads_def)
  obtain r s1 where run: "sl_handler_connected ref_slave_app ?s = (r, s1)" by fastforce
  have "r = Inr Stay_curr_state"
    using run p(2)
    by (auto simp: sl_handler_connected_def run_bindE sl_read_run [OF rd] sl_track_id_run run_modifyE
        sl_on_rm_run srm_stop_keepalive_management_def srm_stop_run sl_notify_run run_retE retE_def)
  with run slave_forgets_returning_host [OF rd p(2) run] p(1) show ?thesis by blast
qed

end
