(* ===== verification/Master_Request.thy ===== *)
theory Master_Request
  imports Transport Application
begin

text \<open>
  \<^verbatim>\<open>Request\<close> and \<^verbatim>\<open>master::RequestManager\<close> (\<^verbatim>\<open>src/master_request.*\<close>): the commands the host
  has sent and waits for, their retransmission, and the keep-alives it sends.
\<close>

section \<open>State\<close>

datatype request_status = Pending | Timed_out | Fulfilled

text \<open>
  A request. Its callback is a function of the user: the request holds its name \<open>'cb\<close>, the
  environment says what calling it does to the user's own state.
\<close>

type_synonym u32 = "32 word"

record 'cb request =
  req_id :: nat
  req_command :: packet
  req_cb :: 'cb
  req_ack :: "packet option"
  req_status :: request_status
  req_retry :: u32

definition req_command_id :: "'cb request \<Rightarrow> u16" where
  "req_command_id r = packet_id (req_command r)"

definition inc_retry :: "'cb request \<Rightarrow> 'cb request" where
  "inc_retry r = r\<lparr>req_retry := req_retry r + 1\<rparr>"

text \<open>\<^verbatim>\<open>Request(id, cmd, callback)\<close>.\<close>

definition new_request :: "nat \<Rightarrow> packet \<Rightarrow> 'cb \<Rightarrow> 'cb request" where
  "new_request i cmd cb =
     \<lparr>req_id = i, req_command = cmd, req_cb = cb, req_ack = None, req_status = Pending, req_retry = 0\<rparr>"

definition max_retry :: u32 where "max_retry = 3"

datatype timeout_type = Dip_timeout_type | Ka_timeout_type

text \<open>The member functions that are bound to timers.\<close>

datatype master_timer = Cmd_timer | Ka_mngt_timer | Ka_timer | Dip_timer

record ('q, 'tr, 'c, 'cb, 'u) master_env =
  me_mem :: bytes
  me_tq :: "('q, master_timer) timeout_queue_api"
  me_tr :: "'tr transport_api"
  me_set :: "('c, 'cb request, nat, u16) multi_index_api"
  me_call :: "'cb \<Rightarrow> 'cb request \<Rightarrow> ('u, unit) stmt"

text \<open>
  The members. \<open>mr_running\<close> is the run flag of the base class \<^verbatim>\<open>Thread\<close>, \<open>mr_user\<close> the state
  the users' callbacks work on. A mutex is held for a whole operation or for none of its
  state changes, so it does not appear; what two threads can interleave is a sequence of
  operations.
\<close>

record ('q, 'tr, 'c, 'u) master_rm =
  mr_requests :: 'c
  mr_timeout_queue :: 'q
  mr_keepalive_mngt_id :: nat
  mr_dip_id :: nat
  mr_ka_ids :: "nat list"
  mr_keepalive_mngt :: bool
  mr_now :: int
  mr_packet_id :: u16
  mr_timeout_keepalive :: int
  mr_transport :: "'tr option"
  mr_running :: bool
  mr_user :: 'u

text \<open>
  \<^verbatim>\<open>RequestManager(logger, transport, cb)\<close> over an empty container and a new queue. Three members
  have no initial value: \<open>i\<close>, \<open>j\<close> and \<open>t\<close> are what their storage holds.
\<close>

definition mrm_new ::
  "'c \<Rightarrow> 'q \<Rightarrow> 'tr option \<Rightarrow> nat \<Rightarrow> nat \<Rightarrow> int \<Rightarrow> 'u \<Rightarrow> ('q, 'tr, 'c, 'u) master_rm" where
  "mrm_new c q tr i j t u =
     \<lparr>mr_requests = c, mr_timeout_queue = q, mr_keepalive_mngt_id = i, mr_dip_id = j, mr_ka_ids = [],
      mr_keepalive_mngt = False, mr_now = 0, mr_packet_id = 0, mr_timeout_keepalive = t,
      mr_transport = tr, mr_running = False, mr_user = u\<rparr>"

section \<open>Sending\<close>

definition mrm_open ::
  "('q, 'tr, 'c, 'cb, 'u) master_env \<Rightarrow> ('q, 'tr, 'c, 'u) master_rm \<Rightarrow> bool" where
  "mrm_open E s = (case mr_transport s of None \<Rightarrow> False | Some t \<Rightarrow> tr_is_open (me_tr E) t)"

text \<open>\<^verbatim>\<open>transport_->write(p)\<close>, behind a check that the pointer is not null.\<close>

definition mrm_write ::
  "('q, 'tr, 'c, 'cb, 'u) master_env \<Rightarrow> packet \<Rightarrow> (('q, 'tr, 'c, 'u) master_rm, unit) stmt" where
  "mrm_write E p = (\<lambda>s.
     case mr_transport s of
       None \<Rightarrow> (Inr (), s)
     | Some t \<Rightarrow> (case tr_write (me_tr E) p t of (r, t') \<Rightarrow> (r, s\<lparr>mr_transport := Some t'\<rparr>)))"

text \<open>\<^verbatim>\<open>make(++packet_id_)\<close>.\<close>

definition mrm_make ::
  "(u16 \<Rightarrow> exn + packet) \<Rightarrow> (('q, 'tr, 'c, 'u) master_rm, packet) stmt" where
  "mrm_make mk =
     bindE (modifyE (\<lambda>s. s\<lparr>mr_packet_id := mr_packet_id s + 1\<rparr>)) (\<lambda>_.
     withE (\<lambda>s. liftE (mk (mr_packet_id s))))"

text \<open>\<^verbatim>\<open>if (transport_ && transport_->is_open()) transport_->write(make(++packet_id_))\<close>.\<close>

definition mrm_transmit ::
  "('q, 'tr, 'c, 'cb, 'u) master_env \<Rightarrow> (u16 \<Rightarrow> exn + packet) \<Rightarrow>
   (('q, 'tr, 'c, 'u) master_rm, unit) stmt" where
  "mrm_transmit E mk = withE (\<lambda>s. whenE (mrm_open E s) (bindE (mrm_make mk) (mrm_write E)))"

section \<open>Timers\<close>

definition mrm_erase_timer ::
  "('q, 'tr, 'c, 'cb, 'u) master_env \<Rightarrow> nat \<Rightarrow> (('q, 'tr, 'c, 'u) master_rm, unit) stmt" where
  "mrm_erase_timer E i =
     modifyE (\<lambda>s. s\<lparr>mr_timeout_queue := tq_erase (me_tq E) (mr_timeout_queue s) i\<rparr>)"

definition mrm_add_timer ::
  "('q, 'tr, 'c, 'cb, 'u) master_env \<Rightarrow> int \<Rightarrow> master_timer \<Rightarrow>
   (('q, 'tr, 'c, 'u) master_rm, nat) stmt" where
  "mrm_add_timer E t cb = (\<lambda>s.
     case tq_add (me_tq E) (mr_timeout_queue s) (mr_now s) t cb of
       (q, i) \<Rightarrow> (Inr i, s\<lparr>mr_timeout_queue := q\<rparr>))"

definition mrm_add_repeating ::
  "('q, 'tr, 'c, 'cb, 'u) master_env \<Rightarrow> int \<Rightarrow> master_timer \<Rightarrow>
   (('q, 'tr, 'c, 'u) master_rm, nat) stmt" where
  "mrm_add_repeating E t cb = (\<lambda>s.
     case tq_add_repeating (me_tq E) (mr_timeout_queue s) (mr_now s) t cb of
       (q, i) \<Rightarrow> (Inr i, s\<lparr>mr_timeout_queue := q\<rparr>))"

text \<open>\<^verbatim>\<open>keepalive_mngt_id_ = timeout_queue_.add_repeating(now_, interval, ka_mngt_timeout_cb)\<close>.\<close>

definition mrm_arm_ka_mngt ::
  "('q, 'tr, 'c, 'cb, 'u) master_env \<Rightarrow> int \<Rightarrow> (('q, 'tr, 'c, 'u) master_rm, unit) stmt" where
  "mrm_arm_ka_mngt E interval =
     bindE (mrm_add_repeating E (ticks interval) Ka_mngt_timer) (\<lambda>i.
     modifyE (\<lambda>s. s\<lparr>mr_keepalive_mngt_id := i\<rparr>))"

text \<open>"reset keepalive mngt": what is sent anyway need not be followed by a keep-alive.\<close>

definition mrm_reset_ka_mngt ::
  "('q, 'tr, 'c, 'cb, 'u) master_env \<Rightarrow> (('q, 'tr, 'c, 'u) master_rm, unit) stmt" where
  "mrm_reset_ka_mngt E = withE (\<lambda>s.
     whenE (mr_keepalive_mngt s)
       (blockE [mrm_erase_timer E (mr_keepalive_mngt_id s), mrm_arm_ka_mngt E keepalive_interval]))"

section \<open>Commands\<close>

text \<open>
  \<^verbatim>\<open>send_command\<close> up to the write, and the insertion of the request behind it. The two halves
  are separate because the answer can be processed by another thread in between.
\<close>

definition mrm_send_command_write ::
  "('q, 'tr, 'c, 'cb, 'u) master_env \<Rightarrow> u16 \<Rightarrow> bytes \<Rightarrow> int \<Rightarrow>
   (('q, 'tr, 'c, 'u) master_rm, nat \<times> packet) stmt" where
  "mrm_send_command_write E type data timeout =
     bindE (mrm_add_repeating E (ticks timeout) Cmd_timer) (\<lambda>i.
     bindE (mrm_reset_ka_mngt E) (\<lambda>_.
     bindE (mrm_make (\<lambda>pid. make_command (me_mem E) pid type data)) (\<lambda>cmd.
     bindE (mrm_write E cmd) (\<lambda>_. retE (i, cmd)))))"

definition mrm_insert ::
  "('q, 'tr, 'c, 'cb, 'u) master_env \<Rightarrow> 'cb request \<Rightarrow> (('q, 'tr, 'c, 'u) master_rm, unit) stmt" where
  "mrm_insert E r = withE (\<lambda>s.
     case mi_insert (me_set E) (mr_requests s) r of (new, c) \<Rightarrow>
       bindE (modifyE (\<lambda>s. s\<lparr>mr_requests := c\<rparr>)) (\<lambda>_.
       whenE (\<not> new) (throwE (Application_error Request_overrun))))"

definition mrm_send_command ::
  "('q, 'tr, 'c, 'cb, 'u) master_env \<Rightarrow> u16 \<Rightarrow> bytes \<Rightarrow> 'cb \<Rightarrow> int \<Rightarrow>
   (('q, 'tr, 'c, 'u) master_rm, unit) stmt" where
  "mrm_send_command E type data cb timeout =
     bindE (mrm_send_command_write E type data timeout) (\<lambda>(i, cmd).
     mrm_insert E (new_request i cmd cb))"

text \<open>\<^verbatim>\<open>r.call_callback()\<close>.\<close>

definition mrm_call ::
  "('q, 'tr, 'c, 'cb, 'u) master_env \<Rightarrow> 'cb request \<Rightarrow> (('q, 'tr, 'c, 'u) master_rm, unit) stmt" where
  "mrm_call E r = zoomE mr_user (\<lambda>u s. s\<lparr>mr_user := u\<rparr>) (me_call E (req_cb r) r)"

definition mrm_ack_command ::
  "('q, 'tr, 'c, 'cb, 'u) master_env \<Rightarrow> packet \<Rightarrow> (('q, 'tr, 'c, 'u) master_rm, unit) stmt" where
  "mrm_ack_command E packet =
     (case packet_blocks packet of
        [] \<Rightarrow> throwE (Std_exception Out_of_range)
      | b # _ \<Rightarrow>
          if length (b_data b) \<noteq> 2 then throwE (Application_error Invalid_cmd_ack_format)
          else let i = le_u16 (b_data b ! 0) (b_data b ! 1) in withE (\<lambda>s.
            case mi_find2 (me_set E) (mr_requests s) i of
              None \<Rightarrow> throwE (Application_error Request_not_found)
            | Some r \<Rightarrow>
                blockE [mrm_call E (r\<lparr>req_status := Fulfilled, req_ack := Some packet\<rparr>),
                        mrm_erase_timer E (req_id r),
                        modifyE (\<lambda>s. s\<lparr>mr_requests := mi_erase2 (me_set E) (mr_requests s) i\<rparr>)]))"

definition mrm_cmd_timeout_cb ::
  "('q, 'tr, 'c, 'cb, 'u) master_env \<Rightarrow> nat \<Rightarrow> (('q, 'tr, 'c, 'u) master_rm, unit) stmt" where
  "mrm_cmd_timeout_cb E i = withE (\<lambda>s.
     case mi_find1 (me_set E) (mr_requests s) i of
       None \<Rightarrow> throwE (Application_error Request_not_found)
     | Some r \<Rightarrow>
         if req_retry r < max_retry then
           blockE [modifyE (\<lambda>s. s\<lparr>mr_requests := mi_modify1 (me_set E) (mr_requests s) i inc_retry\<rparr>),
                   withE (\<lambda>s. whenE (mrm_open E s) (mrm_write E (req_command r))),
                   mrm_reset_ka_mngt E]
         else
           blockE [mrm_call E (r\<lparr>req_status := Timed_out\<rparr>),
                   mrm_erase_timer E (req_id r),
                   modifyE (\<lambda>s. s\<lparr>mr_requests := mi_erase1 (me_set E) (mr_requests s) i\<rparr>)])"

section \<open>Connection and keep-alives\<close>

definition mrm_send_hip ::
  "('q, 'tr, 'c, 'cb, 'u) master_env \<Rightarrow> identification \<Rightarrow> int \<Rightarrow>
   (('q, 'tr, 'c, 'u) master_rm, unit) stmt" where
  "mrm_send_hip E ident timeout =
     bindE (mrm_transmit E (\<lambda>pid. make_hip (me_mem E) pid ident)) (\<lambda>_.
     bindE (mrm_add_timer E (ticks timeout) Dip_timer) (\<lambda>i.
     modifyE (\<lambda>s. s\<lparr>mr_dip_id := i\<rparr>)))"

definition mrm_ack_dip ::
  "('q, 'tr, 'c, 'cb, 'u) master_env \<Rightarrow> (('q, 'tr, 'c, 'u) master_rm, unit) stmt" where
  "mrm_ack_dip E = withE (\<lambda>s. mrm_erase_timer E (mr_dip_id s))"

definition mrm_start_keepalive_management ::
  "('q, 'tr, 'c, 'cb, 'u) master_env \<Rightarrow> int \<Rightarrow> int \<Rightarrow> (('q, 'tr, 'c, 'u) master_rm, unit) stmt" where
  "mrm_start_keepalive_management E interval timeout =
     blockE
      [modifyE (\<lambda>s. s\<lparr>mr_keepalive_mngt := True\<rparr>),
       mrm_arm_ka_mngt E interval,
       mrm_transmit E (make_keepalive (me_mem E)),
       modifyE (\<lambda>s. s\<lparr>mr_timeout_keepalive := ticks timeout\<rparr>),
       withE (\<lambda>s. bindE (mrm_add_timer E (mr_timeout_keepalive s) Ka_timer) (\<lambda>i.
         modifyE (\<lambda>s. s\<lparr>mr_ka_ids := [i]\<rparr>)))]"

definition mrm_stop_keepalive_management ::
  "('q, 'tr, 'c, 'cb, 'u) master_env \<Rightarrow> (('q, 'tr, 'c, 'u) master_rm, unit) stmt" where
  "mrm_stop_keepalive_management E =
     blockE [modifyE (\<lambda>s. s\<lparr>mr_keepalive_mngt := False\<rparr>),
             withE (\<lambda>s. mrm_erase_timer E (mr_keepalive_mngt_id s))]"

definition mrm_ack_keepalive ::
  "('q, 'tr, 'c, 'cb, 'u) master_env \<Rightarrow> (('q, 'tr, 'c, 'u) master_rm, unit) stmt" where
  "mrm_ack_keepalive E =
     blockE [withE (\<lambda>s. foreachE (mrm_erase_timer E) (mr_ka_ids s)),
             modifyE (\<lambda>s. s\<lparr>mr_ka_ids := []\<rparr>)]"

text \<open>The callbacks of the three other timers; two of them call the owner's callback.\<close>

definition mrm_ka_mngt_timeout_cb ::
  "('q, 'tr, 'c, 'cb, 'u) master_env \<Rightarrow> (('q, 'tr, 'c, 'u) master_rm, unit) stmt" where
  "mrm_ka_mngt_timeout_cb E =
     bindE (mrm_transmit E (make_keepalive (me_mem E))) (\<lambda>_.
     withE (\<lambda>s. bindE (mrm_add_timer E (mr_timeout_keepalive s) Ka_timer) (\<lambda>i.
       modifyE (\<lambda>s. s\<lparr>mr_ka_ids := mr_ka_ids s @ [i]\<rparr>))))"

definition mrm_ka_timeout_cb ::
  "(timeout_type \<Rightarrow> ('s, unit) stmt) option \<Rightarrow> ('s, unit) stmt" where
  "mrm_ka_timeout_cb timeout_cb =
     (case timeout_cb of None \<Rightarrow> retE () | Some cb \<Rightarrow> cb Ka_timeout_type)"

definition mrm_dip_timeout_cb ::
  "(timeout_type \<Rightarrow> ('s, unit) stmt) option \<Rightarrow> ('s, unit) stmt" where
  "mrm_dip_timeout_cb timeout_cb =
     (case timeout_cb of None \<Rightarrow> retE () | Some cb \<Rightarrow> cb Dip_timeout_type)"

section \<open>Life cycle\<close>

text \<open>\<^verbatim>\<open>clear()\<close> does not touch the identifiers of the keep-alive timers.\<close>

definition mrm_clear ::
  "('q, 'tr, 'c, 'cb, 'u) master_env \<Rightarrow> ('q, 'tr, 'c, 'u) master_rm \<Rightarrow> ('q, 'tr, 'c, 'u) master_rm" where
  "mrm_clear E s =
     s\<lparr>mr_requests := mi_clear (me_set E) (mr_requests s),
       mr_timeout_queue := tq_clear (me_tq E) (mr_timeout_queue s), mr_now := 0, mr_packet_id := 0\<rparr>"

definition mrm_start ::
  "('q, 'tr, 'c, 'cb, 'u) master_env \<Rightarrow> (('q, 'tr, 'c, 'u) master_rm, unit) stmt" where
  "mrm_start E = withE (\<lambda>s.
     if mr_running s then retE ()
     else blockE [modifyE (mrm_clear E), modifyE (\<lambda>s. s\<lparr>mr_keepalive_mngt := False\<rparr>),
                  modifyE (\<lambda>s. s\<lparr>mr_running := True\<rparr>)])"

definition mrm_stop :: "(('q, 'tr, 'c, 'u) master_rm, unit) stmt" where
  "mrm_stop = withE (\<lambda>s.
     if \<not> mr_running s then retE () else modifyE (\<lambda>s. s\<lparr>mr_running := False\<rparr>))"

text \<open>
  One turn of \<^verbatim>\<open>run\<close>, while the thread runs. \<^verbatim>\<open>run_once\<close> is given the old tick, the callbacks
  it makes see the new one. Each callback it makes is a separate step.
\<close>

definition mrm_tick :: "(('q, 'tr, 'c, 'u) master_rm, unit) stmt" where
  "mrm_tick = withE (\<lambda>s. whenE (mr_running s) (modifyE (\<lambda>s. s\<lparr>mr_now := mr_now s + 1\<rparr>)))"

definition mrm_fire ::
  "('q, 'tr, 'c, 'cb, 'u) master_env \<Rightarrow> nat \<Rightarrow> (('q, 'tr, 'c, 'u) master_rm, unit) stmt" where
  "mrm_fire E i =
     modifyE (\<lambda>s. s\<lparr>mr_timeout_queue := tq_fire (me_tq E) (mr_timeout_queue s) i\<rparr>)"

end
