(* ===== verification/Master.thy ===== *)
theory Master
  imports Master_Request Identify
begin

text \<open>
  \<^verbatim>\<open>Master\<close> (\<^verbatim>\<open>src/master.*\<close>): the host's side of the connection, a state machine that
  identifies itself to the device, keeps the connection alive and sends the user's commands.
\<close>

section \<open>State\<close>

datatype master_event =
    Connection_requested | Disconnection_requested | Dip_received | Dip_timeout_event
  | Master_ka_timeout | Stop_event | Connection_attempt

record ('q, 'm, 'tr, 'c, 'cb, 'u) master_app_env =
  ma_rm :: "('q, 'tr, 'c, 'cb, 'u) master_env"
  ma_evt :: "('m, master_event) event_mngr_api"

text \<open>
  The members. \<open>ms_curr\<close> and \<open>ms_nb_loop\<close> are the state and the pass counter of
  \<^verbatim>\<open>statemachine_\<close>, \<open>ms_running\<close> the run flag of the thread. The transport the master owns is
  the one behind the pointer of its request manager, and the state of the user's callbacks is
  kept there as well: each is one object.
\<close>

record ('q, 'm, 'tr, 'c, 'u) master =
  ms_curr :: app_state
  ms_nb_loop :: nat
  ms_evt :: 'm
  ms_rm :: "('q, 'tr, 'c, 'u) master_rm"
  ms_master_id :: identification
  ms_slave_id :: identification
  ms_received_packet_id :: u16
  ms_connection_attempts :: u32
  ms_data_cb :: "(packet \<Rightarrow> ('u, unit) stmt) option"
  ms_status_cb :: "(app_state \<Rightarrow> error_code \<Rightarrow> ('u, unit) stmt) option"
  ms_errc :: error_code
  ms_running :: bool

text \<open>
  \<^verbatim>\<open>Master(logger, master_id, transport)\<close> around its request manager and a new event manager;
  \<open>pid\<close> and \<open>n\<close> are what the storage of two members without an initial value holds.
\<close>

definition ms_new ::
  "'m \<Rightarrow> ('q, 'tr, 'c, 'u) master_rm \<Rightarrow> identification \<Rightarrow> u16 \<Rightarrow> u32 \<Rightarrow> ('q, 'm, 'tr, 'c, 'u) master" where
  "ms_new m rm ident pid n =
     \<lparr>ms_curr = Init, ms_nb_loop = 0, ms_evt = m, ms_rm = rm, ms_master_id = ident,
      ms_slave_id = no_identification, ms_received_packet_id = pid, ms_connection_attempts = n,
      ms_data_cb = None, ms_status_cb = None, ms_errc = no_error_code, ms_running = False\<rparr>"

section \<open>Calls on the members\<close>

definition ms_on_rm ::
  "(('q, 'tr, 'c, 'u) master_rm, 'a) stmt \<Rightarrow> (('q, 'm, 'tr, 'c, 'u) master, 'a) stmt" where
  "ms_on_rm m = zoomE ms_rm (\<lambda>x s. s\<lparr>ms_rm := x\<rparr>) m"

definition ms_on_user :: "('u, 'a) stmt \<Rightarrow> (('q, 'm, 'tr, 'c, 'u) master, 'a) stmt" where
  "ms_on_user m = ms_on_rm (zoomE mr_user (\<lambda>x s. s\<lparr>mr_user := x\<rparr>) m)"

text \<open>A call on the transport; through a null pointer it has no defined behaviour.\<close>

definition ms_on_transport :: "('tr, 'a) stmt \<Rightarrow> (('q, 'm, 'tr, 'c, 'u) master, 'a) stmt" where
  "ms_on_transport m = ms_on_rm (\<lambda>s.
     case mr_transport s of
       None \<Rightarrow> (Inl Undefined_behaviour, s)
     | Some t \<Rightarrow> (case m t of (r, t') \<Rightarrow> (r, s\<lparr>mr_transport := Some t'\<rparr>)))"

definition ms_read ::
  "('q, 'm, 'tr, 'c, 'cb, 'u) master_app_env \<Rightarrow> (('q, 'm, 'tr, 'c, 'u) master, packet option) stmt" where
  "ms_read E = ms_on_transport (\<lambda>t. case tr_read (me_tr (ma_rm E)) t of (p, t') \<Rightarrow> (Inr p, t'))"

text \<open>A \<^verbatim>\<open>clear_queues\<close> that did not end would have no continuation.\<close>

definition ms_clear_queues ::
  "('q, 'm, 'tr, 'c, 'cb, 'u) master_app_env \<Rightarrow> (('q, 'm, 'tr, 'c, 'u) master, unit) stmt" where
  "ms_clear_queues E = ms_on_transport (\<lambda>t.
     case tr_clear_queues (me_tr (ma_rm E)) t of
       None \<Rightarrow> (Inl Undefined_behaviour, t)
     | Some t' \<Rightarrow> (Inr (), t'))"

definition ms_notify ::
  "('q, 'm, 'tr, 'c, 'cb, 'u) master_app_env \<Rightarrow> master_event \<Rightarrow>
   (('q, 'm, 'tr, 'c, 'u) master, unit) stmt" where
  "ms_notify E e = modifyE (\<lambda>s. s\<lparr>ms_evt := em_notify (ma_evt E) (ms_evt s) e\<rparr>)"

definition ms_erase ::
  "('q, 'm, 'tr, 'c, 'cb, 'u) master_app_env \<Rightarrow> master_event \<Rightarrow>
   (('q, 'm, 'tr, 'c, 'u) master, bool) stmt" where
  "ms_erase E e = (\<lambda>s. case em_erase (ma_evt E) (ms_evt s) e of (b, m) \<Rightarrow> (Inr b, s\<lparr>ms_evt := m\<rparr>))"

section \<open>The functions of the state machine\<close>

definition ms_handler_init ::
  "('q, 'm, 'tr, 'c, 'cb, 'u) master_app_env \<Rightarrow> (('q, 'm, 'tr, 'c, 'u) master, transition_status) stmt" where
  "ms_handler_init E =
     bindE (modifyE (\<lambda>s. s\<lparr>ms_errc := no_error_code, ms_evt := em_clear (ma_evt E) (ms_evt s)\<rparr>))
       (\<lambda>_. retE Stay_curr_state)"

text \<open>\<^verbatim>\<open>evt_mngr_.wait()\<close> blocks until there is an event; other threads may add some meanwhile.\<close>

definition ms_handler_disconnected ::
  "('q, 'm, 'tr, 'c, 'cb, 'u) master_app_env \<Rightarrow> (('q, 'm, 'tr, 'c, 'u) master, transition_status) stmt" where
  "ms_handler_disconnected E =
     bindE (withE (\<lambda>s. whenE (ms_nb_loop s = 1)
              (blockE [modifyE (\<lambda>s. s\<lparr>ms_slave_id := no_identification\<rparr>), ms_on_rm mrm_stop]))) (\<lambda>_.
     bindE (modifyE (\<lambda>s. s\<lparr>ms_evt := em_wait (ma_evt E) (ms_evt s)\<rparr>)) (\<lambda>_.
     retE Stay_curr_state))"

definition ms_set_slave_id :: "packet \<Rightarrow> (('q, 'm, 'tr, 'c, 'u) master, unit) stmt" where
  "ms_set_slave_id p = foreachE
     (\<lambda>b. modifyE (\<lambda>s. s\<lparr>ms_slave_id := set_id_block (ms_slave_id s) b\<rparr>)) (packet_blocks p)"

text \<open>
  \<^verbatim>\<open>connection_attempts_ == 0 || evt_mngr_.erase(Event::dip_timeout)\<close>: the event is only erased
  when this is not the first attempt.
\<close>

definition ms_attempt_due ::
  "('q, 'm, 'tr, 'c, 'cb, 'u) master_app_env \<Rightarrow> (('q, 'm, 'tr, 'c, 'u) master, bool) stmt" where
  "ms_attempt_due E = withE (\<lambda>s.
     if ms_connection_attempts s = 0 then retE True else ms_erase E Dip_timeout_event)"

definition ms_handler_connecting ::
  "('q, 'm, 'tr, 'c, 'cb, 'u) master_app_env \<Rightarrow> (('q, 'm, 'tr, 'c, 'u) master, transition_status) stmt" where
  "ms_handler_connecting E =
     bindE (withE (\<lambda>s. whenE (ms_nb_loop s = 1)
              (blockE [ms_clear_queues E,
                       ms_on_rm (mrm_start (ma_rm E)),
                       bindE (ms_erase E Dip_received) (\<lambda>_. retE ()),
                       modifyE (\<lambda>s. s\<lparr>ms_connection_attempts := 0\<rparr>)]))) (\<lambda>_.
     bindE (bindE (ms_attempt_due E) (\<lambda>due. whenE due
              (blockE [modifyE (\<lambda>s. s\<lparr>ms_connection_attempts := ms_connection_attempts s + 1\<rparr>),
                       withE (\<lambda>s. ms_on_rm (mrm_send_hip (ma_rm E) (ms_master_id s) connecting_timeout))]))) (\<lambda>_.
     bindE (ms_read E) (\<lambda>p.
     case p of
       None \<Rightarrow> retE Stay_curr_state
     | Some p \<Rightarrow>
         bindE (case packet_type p of
             Some Dip \<Rightarrow>
               blockE [modifyE (\<lambda>s. s\<lparr>ms_received_packet_id := packet_id p\<rparr>),
                       ms_set_slave_id p,
                       ms_on_rm (mrm_ack_dip (ma_rm E)),
                       ms_notify E Dip_received]
           | _ \<Rightarrow> retE ())
         (\<lambda>_. retE Stay_curr_state))))"

text \<open>\<^verbatim>\<open>if (++received_packet_id_ != p.id()) received_packet_id_ = p.id()\<close>.\<close>

definition ms_track_id :: "packet \<Rightarrow> (('q, 'm, 'tr, 'c, 'u) master, unit) stmt" where
  "ms_track_id p =
     bindE (modifyE (\<lambda>s. s\<lparr>ms_received_packet_id := ms_received_packet_id s + 1\<rparr>)) (\<lambda>_.
     withE (\<lambda>s. whenE (ms_received_packet_id s \<noteq> packet_id p)
       (modifyE (\<lambda>s. s\<lparr>ms_received_packet_id := packet_id p\<rparr>))))"

definition ms_handler_connected ::
  "('q, 'm, 'tr, 'c, 'cb, 'u) master_app_env \<Rightarrow> (('q, 'm, 'tr, 'c, 'u) master, transition_status) stmt" where
  "ms_handler_connected E =
     bindE (withE (\<lambda>s. whenE (ms_nb_loop s = 1)
              (ms_on_rm (mrm_start_keepalive_management (ma_rm E) keepalive_interval keepalive_timeout)))) (\<lambda>_.
     bindE (ms_read E) (\<lambda>p.
     case p of
       None \<Rightarrow> retE Stay_curr_state
     | Some p \<Rightarrow>
         bindE (ms_track_id p) (\<lambda>_.
         bindE (case packet_type p of
             Some Cmd_ack \<Rightarrow> ms_on_rm (mrm_ack_command (ma_rm E) p)
           | Some Data \<Rightarrow> withE (\<lambda>s.
               case ms_data_cb s of None \<Rightarrow> retE () | Some cb \<Rightarrow> ms_on_user (cb p))
           | Some Ka_ack \<Rightarrow> ms_on_rm (mrm_ack_keepalive (ma_rm E))
           | _ \<Rightarrow> retE ())
         (\<lambda>_. retE Stay_curr_state))))"

definition ms_check_true :: "(('q, 'm, 'tr, 'c, 'u) master, transition_status) stmt" where
  "ms_check_true = retE Goto_next_state"

text \<open>\<^verbatim>\<open>if (evt_mngr_.erase(e)) return goto_next_state;\<close> with what is done before the return.\<close>

definition ms_goto_if ::
  "('q, 'm, 'tr, 'c, 'cb, 'u) master_app_env \<Rightarrow> master_event \<Rightarrow>
   (('q, 'm, 'tr, 'c, 'u) master \<Rightarrow> ('q, 'm, 'tr, 'c, 'u) master) \<Rightarrow>
   (('q, 'm, 'tr, 'c, 'u) master, transition_status) stmt" where
  "ms_goto_if E e f =
     bindE (ms_erase E e) (\<lambda>b.
       if b then bindE (modifyE f) (\<lambda>_. retE Goto_next_state) else retE Stay_curr_state)"

definition ms_check_connection_requested ::
  "('q, 'm, 'tr, 'c, 'cb, 'u) master_app_env \<Rightarrow> (('q, 'm, 'tr, 'c, 'u) master, transition_status) stmt" where
  "ms_check_connection_requested E = ms_goto_if E Connection_requested (\<lambda>s. s)"

definition ms_check_connected ::
  "('q, 'm, 'tr, 'c, 'cb, 'u) master_app_env \<Rightarrow> (('q, 'm, 'tr, 'c, 'u) master, transition_status) stmt" where
  "ms_check_connected E = ms_goto_if E Dip_received (\<lambda>s. s)"

definition ms_check_disconnected ::
  "('q, 'm, 'tr, 'c, 'cb, 'u) master_app_env \<Rightarrow> (('q, 'm, 'tr, 'c, 'u) master, transition_status) stmt" where
  "ms_check_disconnected E = ms_goto_if E Disconnection_requested (\<lambda>s. s)"

definition ms_check_dip_timeout ::
  "('q, 'm, 'tr, 'c, 'cb, 'u) master_app_env \<Rightarrow> (('q, 'm, 'tr, 'c, 'u) master, transition_status) stmt" where
  "ms_check_dip_timeout E = withE (\<lambda>s.
     if em_contains (ma_evt E) (ms_evt s) Dip_timeout_event
        \<and> of_nat max_connection_attempts \<le> ms_connection_attempts s
     then bindE (ms_erase E Dip_timeout_event) (\<lambda>_.
          bindE (modifyE (\<lambda>s. s\<lparr>ms_errc := make_appli_code Dip_timeout\<rparr>)) (\<lambda>_.
          retE Goto_next_state))
     else retE Stay_curr_state)"

definition ms_check_ka_timeout ::
  "('q, 'm, 'tr, 'c, 'cb, 'u) master_app_env \<Rightarrow> (('q, 'm, 'tr, 'c, 'u) master, transition_status) stmt" where
  "ms_check_ka_timeout E =
     ms_goto_if E Master_ka_timeout (\<lambda>s. s\<lparr>ms_errc := make_appli_code Ka_timeout\<rparr>)"

definition ms_check_transport_closed ::
  "('q, 'm, 'tr, 'c, 'cb, 'u) master_app_env \<Rightarrow> (('q, 'm, 'tr, 'c, 'u) master, transition_status) stmt" where
  "ms_check_transport_closed E =
     bindE (ms_on_transport (\<lambda>t. (Inr (tr_is_open (me_tr (ma_rm E)) t), t))) (\<lambda>open.
     if open then retE Stay_curr_state
     else
       bindE (ms_on_transport (\<lambda>t. (Inr (tr_error_code (me_tr (ma_rm E)) t), t))) (\<lambda>e.
       bindE (modifyE (\<lambda>s. s\<lparr>ms_errc := e\<rparr>)) (\<lambda>_. retE Goto_next_state)))"

section \<open>The table\<close>

text \<open>\<^verbatim>\<open>states_\<close>: the handler of each state, and the other functions with where they lead.\<close>

fun ms_handler ::
  "('q, 'm, 'tr, 'c, 'cb, 'u) master_app_env \<Rightarrow> app_state \<Rightarrow>
   (('q, 'm, 'tr, 'c, 'u) master, transition_status) stmt" where
  "ms_handler E Init = ms_handler_init E"
| "ms_handler E Disconnected = ms_handler_disconnected E"
| "ms_handler E Connecting = ms_handler_connecting E"
| "ms_handler E Connected = ms_handler_connected E"

fun ms_checks ::
  "('q, 'm, 'tr, 'c, 'cb, 'u) master_app_env \<Rightarrow> app_state \<Rightarrow>
   (app_state \<times> (('q, 'm, 'tr, 'c, 'u) master, transition_status) stmt) list" where
  "ms_checks E Init = [(Disconnected, ms_check_true)]"
| "ms_checks E Disconnected = [(Connecting, ms_check_connection_requested E)]"
| "ms_checks E Connecting =
     [(Disconnected, ms_check_transport_closed E), (Disconnected, ms_check_dip_timeout E),
      (Connected, ms_check_connected E)]"
| "ms_checks E Connected =
     [(Disconnected, ms_check_transport_closed E), (Disconnected, ms_check_ka_timeout E),
      (Disconnected, ms_check_disconnected E)]"

text \<open>
  The transition handler: the user is told the new state and the error, once; whoever waits in
  \<^verbatim>\<open>connect\<close> is told that an attempt is over.
\<close>

definition ms_transition_handler ::
  "('q, 'm, 'tr, 'c, 'cb, 'u) master_app_env \<Rightarrow> app_state \<Rightarrow> app_state \<Rightarrow>
   (('q, 'm, 'tr, 'c, 'u) master, unit) stmt" where
  "ms_transition_handler E p c =
     blockE [withE (\<lambda>s. case ms_status_cb s of
                None \<Rightarrow> retE ()
              | Some cb \<Rightarrow> ms_on_user (cb c (ms_errc s))),
             modifyE (\<lambda>s. s\<lparr>ms_errc := no_error_code\<rparr>),
             whenE (p = Connecting) (ms_notify E Connection_attempt)]"

text \<open>
  What \<^verbatim>\<open>run\<close> catches: everything that is an exception; the code of an \<^verbatim>\<open>hdcp_error\<close> is kept for
  the next transition. The loop goes on.
\<close>

definition ms_catch :: "(('q, 'm, 'tr, 'c, 'u) master, unit) stmt \<Rightarrow> (('q, 'm, 'tr, 'c, 'u) master, unit) stmt" where
  "ms_catch m = catchE m (\<lambda>e.
     if e = Undefined_behaviour then throwE e
     else case exn_code e of
       Some c \<Rightarrow> modifyE (\<lambda>s. s\<lparr>ms_errc := c\<rparr>)
     | None \<Rightarrow> retE ())"

definition ms_timeout_cb ::
  "('q, 'm, 'tr, 'c, 'cb, 'u) master_app_env \<Rightarrow> timeout_type \<Rightarrow>
   (('q, 'm, 'tr, 'c, 'u) master, unit) stmt" where
  "ms_timeout_cb E t =
     (case t of
        Ka_timeout_type \<Rightarrow> ms_notify E Master_ka_timeout
      | Dip_timeout_type \<Rightarrow> ms_notify E Dip_timeout_event)"

section \<open>The interface of the user\<close>

definition ms_start ::
  "('q, 'm, 'tr, 'c, 'cb, 'u) master_app_env \<Rightarrow> (('q, 'm, 'tr, 'c, 'u) master, unit) stmt" where
  "ms_start E = withE (\<lambda>s.
     if ms_running s then retE ()
     else blockE [ms_on_transport (tr_start (me_tr (ma_rm E))),
                  modifyE (\<lambda>s. s\<lparr>ms_curr := Init, ms_nb_loop := 0\<rparr>),
                  modifyE (\<lambda>s. s\<lparr>ms_running := True\<rparr>)])"

definition ms_stop ::
  "('q, 'm, 'tr, 'c, 'cb, 'u) master_app_env \<Rightarrow> (('q, 'm, 'tr, 'c, 'u) master, unit) stmt" where
  "ms_stop E = withE (\<lambda>s.
     if \<not> ms_running s then retE ()
     else blockE [modifyE (\<lambda>s. s\<lparr>ms_running := False\<rparr>), ms_notify E Stop_event, ms_on_rm mrm_stop,
                  ms_on_transport (tr_stop (me_tr (ma_rm E)))])"

definition ms_send_command ::
  "('q, 'm, 'tr, 'c, 'cb, 'u) master_app_env \<Rightarrow> u16 \<Rightarrow> bytes \<Rightarrow> 'cb \<Rightarrow>
   (('q, 'm, 'tr, 'c, 'u) master, unit) stmt" where
  "ms_send_command E type data cb = withE (\<lambda>s.
     if ms_curr s \<noteq> Connected then throwE (Application_error Write_while_disconnected)
     else ms_on_rm (mrm_send_command (ma_rm E) type data cb command_timeout))"

definition ms_async_connect ::
  "('q, 'm, 'tr, 'c, 'cb, 'u) master_app_env \<Rightarrow> (('q, 'm, 'tr, 'c, 'u) master, unit) stmt" where
  "ms_async_connect E = withE (\<lambda>s.
     if ms_curr s = Connected then retE () else ms_notify E Connection_requested)"

definition ms_async_disconnect ::
  "('q, 'm, 'tr, 'c, 'cb, 'u) master_app_env \<Rightarrow> (('q, 'm, 'tr, 'c, 'u) master, unit) stmt" where
  "ms_async_disconnect E = withE (\<lambda>s.
     if ms_curr s = Disconnected then retE () else ms_notify E Disconnection_requested)"

text \<open>
  \<^verbatim>\<open>connect\<close> blocks between its two halves until the event \<^verbatim>\<open>connection_attempt\<close> is there, while
  the master's thread goes on: the second half runs in the state the wait ends in. The first
  half says whether there is something to wait for.
\<close>

definition ms_connect_begin ::
  "('q, 'm, 'tr, 'c, 'cb, 'u) master_app_env \<Rightarrow> (('q, 'm, 'tr, 'c, 'u) master, bool) stmt" where
  "ms_connect_begin E = withE (\<lambda>s.
     if ms_curr s = Connected then retE False
     else bindE (ms_notify E Connection_requested) (\<lambda>_. retE True))"

definition ms_connect_end ::
  "('q, 'm, 'tr, 'c, 'cb, 'u) master_app_env \<Rightarrow> (('q, 'm, 'tr, 'c, 'u) master, unit) stmt" where
  "ms_connect_end E =
     bindE (modifyE (\<lambda>s. s\<lparr>ms_evt := em_wait_for (ma_evt E) (ms_evt s) Connection_attempt\<rparr>)) (\<lambda>_.
     bindE (ms_erase E Connection_attempt) (\<lambda>_.
     withE (\<lambda>s. whenE (ms_curr s \<noteq> Connected) (throwE (Application_error Connection_failed)))))"

definition ms_set_data_cb ::
  "(packet \<Rightarrow> ('u, unit) stmt) option \<Rightarrow> (('q, 'm, 'tr, 'c, 'u) master, unit) stmt" where
  "ms_set_data_cb cb = modifyE (\<lambda>s. s\<lparr>ms_data_cb := cb\<rparr>)"

definition ms_set_status_cb ::
  "(app_state \<Rightarrow> error_code \<Rightarrow> ('u, unit) stmt) option \<Rightarrow> (('q, 'm, 'tr, 'c, 'u) master, unit) stmt" where
  "ms_set_status_cb cb = modifyE (\<lambda>s. s\<lparr>ms_status_cb := cb\<rparr>)"

end
