(* ===== verification/Master_Request_Laws.thy ===== *)
theory Master_Request_Laws
  imports Master_Request Tcp_Client "HOL-Library.Multiset"
begin

text \<open>
  What \<^verbatim>\<open>master::RequestManager\<close> promises: every pending command has the timer that
  retransmits it, every keep-alive timeout can be called off, and the callback of every
  command that was accepted is called once.
\<close>

section \<open>Views\<close>

definition master_laws :: "('q, 'tr, 'c, 'cb, 'u) master_env \<Rightarrow> bool" where
  "master_laws E \<longleftrightarrow> timeout_queue_laws (me_tq E) \<and> multi_index_laws req_id req_command_id (me_set E)"

definition mrm_timers ::
  "('q, 'tr, 'c, 'cb, 'u) master_env \<Rightarrow> ('q, 'tr, 'c, 'u) master_rm \<Rightarrow> nat \<Rightarrow> master_timer timer option" where
  "mrm_timers E s = tq_timers (me_tq E) (mr_timeout_queue s)"

definition mrm_used ::
  "('q, 'tr, 'c, 'cb, 'u) master_env \<Rightarrow> ('q, 'tr, 'c, 'u) master_rm \<Rightarrow> nat set" where
  "mrm_used E s = tq_used (me_tq E) (mr_timeout_queue s)"

definition mrm_reqs ::
  "('q, 'tr, 'c, 'cb, 'u) master_env \<Rightarrow> ('q, 'tr, 'c, 'u) master_rm \<Rightarrow> 'cb request set" where
  "mrm_reqs E s = mi_elems (me_set E) (mr_requests s)"

definition mrm_sent :: "('tr \<Rightarrow> packet list) \<Rightarrow> ('q, 'tr, 'c, 'u) master_rm \<Rightarrow> packet list" where
  "mrm_sent sent s = (case mr_transport s of None \<Rightarrow> [] | Some t \<Rightarrow> sent t)"

lemmas mrm_views = mrm_timers_def mrm_used_def mrm_reqs_def

section \<open>Requests and timers\<close>

definition is_timer :: "master_timer \<Rightarrow> bool \<Rightarrow> master_timer timer option \<Rightarrow> bool" where
  "is_timer cb rep t \<longleftrightarrow> (case t of None \<Rightarrow> False | Some t \<Rightarrow> t_callback t = cb \<and> t_repeating t = rep)"

definition waiting :: "'cb request \<Rightarrow> bool" where
  "waiting r \<longleftrightarrow> req_retry r \<le> max_retry \<and> req_status r = Pending \<and> req_ack r = None"

text \<open>
  The invariant over the views: requests \<open>R\<close>, timers \<open>T\<close>, used identifiers \<open>U\<close>, the keep-alive
  flag \<open>m\<close> with its timer \<open>k\<close>, and the identifiers \<open>K\<close> of the keep-alive timeouts.
\<close>

definition rm_view ::
  "'cb request set \<Rightarrow> (nat \<Rightarrow> master_timer timer option) \<Rightarrow> nat set \<Rightarrow> bool \<Rightarrow> nat \<Rightarrow> nat list \<Rightarrow> bool" where
  "rm_view R T U m k K \<longleftrightarrow>
     finite R \<and> dom T \<subseteq> U \<and> set K \<subseteq> U
     \<and> (\<forall>r\<in>R. waiting r \<and> is_timer Cmd_timer True (T (req_id r)))
     \<and> (m \<longrightarrow> is_timer Ka_mngt_timer True (T k))
     \<and> (\<forall>i t. T i = Some t \<longrightarrow> (t_callback t = Ka_timer) = (i \<in> set K))"

lemma is_timer_simps [simp]:
  "\<not> is_timer cb rep None" "is_timer cb rep (Some t) = (t_callback t = cb \<and> t_repeating t = rep)"
  by (simp_all add: is_timer_def)

lemma is_timerE: "is_timer cb rep x \<Longrightarrow> (\<And>t. x = Some t \<Longrightarrow> t_callback t = cb \<Longrightarrow> t_repeating t = rep \<Longrightarrow> P) \<Longrightarrow> P"
  by (cases x) auto

lemma rm_view_D:
  assumes "rm_view R T U m k K"
  shows "finite R" "dom T \<subseteq> U" "set K \<subseteq> U" "r \<in> R \<Longrightarrow> waiting r"
    "r \<in> R \<Longrightarrow> is_timer Cmd_timer True (T (req_id r))" "m \<Longrightarrow> is_timer Ka_mngt_timer True (T k)"
    "T i = Some t \<Longrightarrow> (t_callback t = Ka_timer) = (i \<in> set K)"
  using assms by (simp_all add: rm_view_def)

lemma rm_view_fresh:
  assumes "rm_view R T U m k K" and "i \<notin> U"
  shows "T i = None" "i \<notin> set K" "\<forall>r\<in>R. req_id r \<noteq> i" "m \<longrightarrow> k \<noteq> i"
proof -
  show none: "T i = None" using rm_view_D(2) [OF assms(1)] assms(2) by blast
  show "i \<notin> set K" using rm_view_D(3) [OF assms(1)] assms(2) by blast
  show "\<forall>r\<in>R. req_id r \<noteq> i"
    using rm_view_D(5) [OF assms(1)] none by (metis is_timer_simps(1))
  show "m \<longrightarrow> k \<noteq> i"
    using rm_view_D(6) [OF assms(1)] none by (metis is_timer_simps(1))
qed

lemma rm_view_add:
  assumes "rm_view R T U m k K" and "i \<notin> U" and "t_callback t \<noteq> Ka_timer"
  shows "rm_view R (T(i \<mapsto> t)) (insert i U) m k K"
  using assms(1,3) rm_view_fresh [OF assms(1,2)] by (simp add: rm_view_def subset_insertI2)

lemma rm_view_add_ka:
  assumes "rm_view R T U m k K" and "i \<notin> U" and "t_callback t = Ka_timer"
  shows "rm_view R (T(i \<mapsto> t)) (insert i U) m k (K @ [i])"
  using assms(1,3) rm_view_fresh [OF assms(1,2)] by (simp add: rm_view_def subset_insertI2)

lemma rm_view_new_ka:
  assumes "rm_view R T U m k K" and "i \<notin> U" and "t_callback t = Ka_timer"
    and "\<forall>j t. T j = Some t \<longrightarrow> t_callback t \<noteq> Ka_timer"
  shows "rm_view R (T(i \<mapsto> t)) (insert i U) m k [i]"
  using assms(1,3,4) rm_view_fresh [OF assms(1,2)] by (simp add: rm_view_def subset_insertI2)

lemma rm_view_off: "rm_view R T U m k K \<Longrightarrow> rm_view R T U False k' K"
  by (simp add: rm_view_def)

lemma rm_view_mngt:
  assumes "rm_view R T U m k K" and "i \<notin> U" and "t_callback t = Ka_mngt_timer" "t_repeating t"
  shows "rm_view R (T(i \<mapsto> t)) (insert i U) m' i K"
  using rm_view_add [OF rm_view_off [OF assms(1)] assms(2), of t] assms(3,4)
  by (simp add: rm_view_def)

lemma rm_view_erase:
  assumes "rm_view R T U m k K" and "\<not> is_timer Cmd_timer True (T i)" and "m \<longrightarrow> i \<noteq> k"
  shows "rm_view R (T(i := None)) U m k K"
  using assms unfolding rm_view_def by auto

lemma rm_view_done:
  assumes "rm_view R T U m k K" and "is_timer Cmd_timer True (T i)"
  shows "rm_view {r \<in> R. req_id r \<noteq> i} (T(i := None)) U m k K"
  using assms unfolding rm_view_def by (auto elim!: is_timerE)

lemma rm_view_insert:
  assumes "rm_view R T U m k K" and "waiting r" and "is_timer Cmd_timer True (T (req_id r))"
  shows "rm_view (insert r R) T U m k K"
  using assms by (simp add: rm_view_def)

lemma rm_view_subset:
  assumes "rm_view R T U m k K" and "R' \<subseteq> R"
  shows "rm_view R' T U m k K"
  using assms finite_subset unfolding rm_view_def by blast

lemma rm_view_ack:
  assumes "rm_view R T U m k K"
  shows "rm_view R (\<lambda>i. if i \<in> set K then None else T i) U m k []"
proof -
  have "\<not> is_timer Cmd_timer True (T i) \<and> \<not> is_timer Ka_mngt_timer True (T i)" if "i \<in> set K" for i
    using rm_view_D(7) [OF assms, of i] that by (cases "T i") auto
  with assms show ?thesis
    unfolding rm_view_def by (auto split: if_splits)
qed

lemma rm_view_fire:
  assumes "rm_view R T U m k K" and "T i = Some t"
  shows "rm_view R (T(i := if t_repeating t then Some (t\<lparr>t_start := b\<rparr>) else None)) U m k K"
  using assms unfolding rm_view_def by (auto elim!: is_timerE split: if_splits)

definition mrm_inv ::
  "('q, 'tr, 'c, 'cb, 'u) master_env \<Rightarrow> ('q, 'tr, 'c, 'u) master_rm \<Rightarrow> bool" where
  "mrm_inv E s \<longleftrightarrow> rm_view (mrm_reqs E s) (mrm_timers E s) (mrm_used E s)
     (mr_keepalive_mngt s) (mr_keepalive_mngt_id s) (mr_ka_ids s)"

section \<open>The operations keep the invariant\<close>

text \<open>Sending and calling back touch nothing the invariant speaks of.\<close>

definition mrm_frame :: "('q, 'tr, 'c, 'u) master_rm \<Rightarrow> 'c \<times> 'q \<times> bool \<times> nat \<times> nat list \<times> int \<times> nat" where
  "mrm_frame s = (mr_requests s, mr_timeout_queue s, mr_keepalive_mngt s, mr_keepalive_mngt_id s,
     mr_ka_ids s, mr_timeout_keepalive s, mr_dip_id s)"

lemma mrm_frame_inv:
  assumes "mrm_frame s' = mrm_frame s"
  shows "mrm_inv E s' = mrm_inv E s" "mrm_timers E s' = mrm_timers E s"
    "mrm_used E s' = mrm_used E s" "mrm_reqs E s' = mrm_reqs E s" "mr_ka_ids s' = mr_ka_ids s"
    "mr_keepalive_mngt s' = mr_keepalive_mngt s" "mr_keepalive_mngt_id s' = mr_keepalive_mngt_id s"
    "mr_timeout_keepalive s' = mr_timeout_keepalive s" "mr_requests s' = mr_requests s"
    "mr_timeout_queue s' = mr_timeout_queue s"
  using assms by (simp_all add: mrm_frame_def mrm_inv_def mrm_views)

lemma mrm_write_frame [hoare]: "preserves (\<lambda>s. mrm_frame s = x) (mrm_write E p)"
  by (rule preservesI) (auto simp: mrm_write_def mrm_frame_def split: option.split prod.split)

lemma mrm_make_frame [hoare]: "preserves (\<lambda>s. mrm_frame s = x) (mrm_make mk)"
  unfolding mrm_make_def by (intro hoare) (simp add: mrm_frame_def)

lemma mrm_transmit_frame [hoare]: "preserves (\<lambda>s. mrm_frame s = x) (mrm_transmit E mk)"
  unfolding mrm_transmit_def by (intro hoare)

lemma mrm_call_frame [hoare]: "preserves (\<lambda>s. mrm_frame s = x) (mrm_call E r)"
  unfolding mrm_call_def by (intro hoare) (simp add: mrm_frame_def)

lemma preserves_frame_inv:
  "(\<And>x. preserves (\<lambda>s. mrm_frame s = x) m) \<Longrightarrow> preserves (mrm_inv E) m"
  by (rule preservesI) (use mrm_frame_inv(1) in \<open>fastforce simp: preserves_def\<close>)

lemmas mrm_sends_inv [hoare] =
  preserves_frame_inv [OF mrm_write_frame] preserves_frame_inv [OF mrm_make_frame]
  preserves_frame_inv [OF mrm_transmit_frame] preserves_frame_inv [OF mrm_call_frame]

text \<open>New timers. The identifier that is returned was not in use.\<close>

lemma mrm_add_repeating_run:
  assumes "master_laws E" and "mrm_add_repeating E t cb s = (r, s')"
  shows "\<exists>i q. r = Inr i \<and> s' = s\<lparr>mr_timeout_queue := q\<rparr> \<and> i \<notin> mrm_used E s
    \<and> mrm_used E s' = insert i (mrm_used E s)
    \<and> mrm_timers E s' = (mrm_timers E s)
       (i \<mapsto> \<lparr>t_callback = cb, t_start = mr_now s, t_period = t, t_repeating = True\<rparr>)"
  using assms tq_add_repeating_law [of "me_tq E" "mr_timeout_queue s" "mr_now s" t cb]
  by (auto simp: mrm_add_repeating_def master_laws_def mrm_views split: prod.splits)

lemma mrm_add_timer_run:
  assumes "master_laws E" and "mrm_add_timer E t cb s = (r, s')"
  shows "\<exists>i q. r = Inr i \<and> s' = s\<lparr>mr_timeout_queue := q\<rparr> \<and> i \<notin> mrm_used E s
    \<and> mrm_used E s' = insert i (mrm_used E s)
    \<and> mrm_timers E s' = (mrm_timers E s)
       (i \<mapsto> \<lparr>t_callback = cb, t_start = mr_now s, t_period = t, t_repeating = False\<rparr>)"
  using assms tq_add_law [of "me_tq E" "mr_timeout_queue s" "mr_now s" t cb]
  by (auto simp: mrm_add_timer_def master_laws_def mrm_views split: prod.splits)

lemma mrm_queue_frame [simp]:
  "mrm_reqs E (s\<lparr>mr_timeout_queue := q\<rparr>) = mrm_reqs E s"
  "mrm_reqs E (s\<lparr>mr_keepalive_mngt_id := k\<rparr>) = mrm_reqs E s"
  "mrm_reqs E (s\<lparr>mr_ka_ids := K\<rparr>) = mrm_reqs E s"
  "mrm_reqs E (s\<lparr>mr_dip_id := i\<rparr>) = mrm_reqs E s"
  "mrm_reqs E (s\<lparr>mr_keepalive_mngt := m\<rparr>) = mrm_reqs E s"
  "mrm_reqs E (s\<lparr>mr_timeout_keepalive := t\<rparr>) = mrm_reqs E s"
  "mrm_reqs E (s\<lparr>mr_now := n\<rparr>) = mrm_reqs E s"
  "mrm_reqs E (s\<lparr>mr_running := b\<rparr>) = mrm_reqs E s"
  "mrm_timers E (s\<lparr>mr_keepalive_mngt_id := k\<rparr>) = mrm_timers E s"
  "mrm_timers E (s\<lparr>mr_ka_ids := K\<rparr>) = mrm_timers E s"
  "mrm_timers E (s\<lparr>mr_dip_id := i\<rparr>) = mrm_timers E s"
  "mrm_timers E (s\<lparr>mr_keepalive_mngt := m\<rparr>) = mrm_timers E s"
  "mrm_timers E (s\<lparr>mr_timeout_keepalive := t\<rparr>) = mrm_timers E s"
  "mrm_timers E (s\<lparr>mr_requests := c\<rparr>) = mrm_timers E s"
  "mrm_timers E (s\<lparr>mr_now := n\<rparr>) = mrm_timers E s"
  "mrm_timers E (s\<lparr>mr_running := b\<rparr>) = mrm_timers E s"
  "mrm_used E (s\<lparr>mr_keepalive_mngt_id := k\<rparr>) = mrm_used E s"
  "mrm_used E (s\<lparr>mr_ka_ids := K\<rparr>) = mrm_used E s"
  "mrm_used E (s\<lparr>mr_dip_id := i\<rparr>) = mrm_used E s"
  "mrm_used E (s\<lparr>mr_keepalive_mngt := m\<rparr>) = mrm_used E s"
  "mrm_used E (s\<lparr>mr_timeout_keepalive := t\<rparr>) = mrm_used E s"
  "mrm_used E (s\<lparr>mr_requests := c\<rparr>) = mrm_used E s"
  "mrm_used E (s\<lparr>mr_now := n\<rparr>) = mrm_used E s"
  "mrm_used E (s\<lparr>mr_running := b\<rparr>) = mrm_used E s"
  by (simp_all add: mrm_views)

lemma mrm_erase_queue [simp]:
  assumes "master_laws E"
  shows "mrm_timers E (s\<lparr>mr_timeout_queue := tq_erase (me_tq E) (mr_timeout_queue s) i\<rparr>)
      = (mrm_timers E s)(i := None)"
    "mrm_used E (s\<lparr>mr_timeout_queue := tq_erase (me_tq E) (mr_timeout_queue s) i\<rparr>) = mrm_used E s"
  using assms by (simp_all add: master_laws_def mrm_views)

text \<open>The timer that spaces the keep-alives.\<close>

lemma mrm_arm_ka_mngt_inv:
  assumes "master_laws E" and "mrm_inv E (s\<lparr>mr_keepalive_mngt := False\<rparr>)"
    and "mrm_arm_ka_mngt E t s = (r, s')"
  shows "r = Inr () \<and> mrm_inv E s' \<and> mrm_reqs E s' = mrm_reqs E s \<and> mr_user s' = mr_user s
    \<and> mr_transport s' = mr_transport s \<and> mr_ka_ids s' = mr_ka_ids s
    \<and> (\<forall>i. mrm_timers E s i \<noteq> None \<longrightarrow> mrm_timers E s' i = mrm_timers E s i)
    \<and> (\<forall>i t. mrm_timers E s' i = Some t \<longrightarrow>
         mrm_timers E s i = Some t \<or> t_callback t = Ka_mngt_timer)"
proof -
  obtain i s1 where add: "mrm_add_repeating E (ticks t) Ka_mngt_timer s = (Inr i, s1)"
    and s': "r = Inr ()" "s' = s1\<lparr>mr_keepalive_mngt_id := i\<rparr>"
    using assms(3) mrm_add_repeating_run [OF assms(1)]
    by (fastforce simp: mrm_arm_ka_mngt_def prog_run split: prod.splits sum.splits)
  from mrm_add_repeating_run [OF assms(1) add] obtain q where
    a: "s1 = s\<lparr>mr_timeout_queue := q\<rparr>" "i \<notin> mrm_used E s"
      "mrm_used E s1 = insert i (mrm_used E s)"
      "mrm_timers E s1 = (mrm_timers E s)(i \<mapsto> \<lparr>t_callback = Ka_mngt_timer, t_start = mr_now s,
         t_period = ticks t, t_repeating = True\<rparr>)"
    by auto
  have v: "rm_view (mrm_reqs E s) (mrm_timers E s) (mrm_used E s) False (mr_keepalive_mngt_id s) (mr_ka_ids s)"
    using assms(2) by (simp add: mrm_inv_def)
  have "mrm_inv E s'"
    using rm_view_mngt [OF v a(2)] by (simp add: mrm_inv_def s' a(3,4)) (simp add: a(1))
  moreover have "mrm_timers E s i = None" using rm_view_fresh(1) [OF v a(2)] .
  ultimately show ?thesis by (auto simp: s' a(4)) (simp_all add: a(1))
qed

lemma mrm_inv_flag_off: "mrm_inv E s \<Longrightarrow> mrm_inv E (s\<lparr>mr_keepalive_mngt := False\<rparr>)"
  by (simp add: mrm_inv_def rm_view_off)

lemma mrm_reset_run:
  assumes "master_laws E" and "mrm_inv E s" and "mrm_reset_ka_mngt E s = (r, s')"
  shows "r = Inr () \<and> mrm_inv E s' \<and> mrm_reqs E s' = mrm_reqs E s \<and> mr_user s' = mr_user s
    \<and> mr_transport s' = mr_transport s \<and> mr_ka_ids s' = mr_ka_ids s
    \<and> (\<forall>i. is_timer Cmd_timer True (mrm_timers E s i) \<longrightarrow> mrm_timers E s' i = mrm_timers E s i)"
proof (cases "mr_keepalive_mngt s")
  case False
  then show ?thesis using assms(2,3) by (simp add: mrm_reset_ka_mngt_def prog_run)
next
  case True
  let ?k = "mr_keepalive_mngt_id s"
  let ?s = "s\<lparr>mr_timeout_queue := tq_erase (me_tq E) (mr_timeout_queue s) ?k\<rparr>"
  have v: "rm_view (mrm_reqs E s) (mrm_timers E s) (mrm_used E s) True ?k (mr_ka_ids s)"
    using assms(2) True by (simp add: mrm_inv_def)
  then have k: "is_timer Ka_mngt_timer True (mrm_timers E s ?k)" using rm_view_D(6) by blast
  then have nc: "\<not> is_timer Cmd_timer True (mrm_timers E s ?k)" by (auto elim!: is_timerE)
  have inv: "mrm_inv E (?s\<lparr>mr_keepalive_mngt := False\<rparr>)"
    using rm_view_erase [OF rm_view_off [OF v] nc] assms(1) by (simp add: mrm_inv_def)
  have "mrm_arm_ka_mngt E keepalive_interval ?s = (r, s')"
    using assms(3) True
    by (auto simp: mrm_reset_ka_mngt_def mrm_erase_timer_def prog_run split: prod.splits sum.splits)
  note h = mrm_arm_ka_mngt_inv [OF assms(1) inv this]
  have "mrm_timers E s' i = mrm_timers E s i" if "is_timer Cmd_timer True (mrm_timers E s i)" for i
  proof -
    have "mrm_timers E ?s i = mrm_timers E s i" "mrm_timers E s i \<noteq> None"
      using that nc assms(1) by (auto elim!: is_timerE)
    then show ?thesis using h by metis
  qed
  then show ?thesis using h by auto
qed

lemma mrm_reset_inv: "master_laws E \<Longrightarrow> preserves (mrm_inv E) (mrm_reset_ka_mngt E)"
  by (rule preservesI) (metis mrm_reset_run surjective_pairing)

text \<open>\<^verbatim>\<open>send_command\<close>: what the write half leaves behind, and the insertion.\<close>

lemma mrm_send_command_write_run:
  assumes laws: "master_laws E" and inv: "mrm_inv E s"
    and run: "mrm_send_command_write E type data timeout s = (r, s')"
  shows "mrm_inv E s' \<and> mrm_reqs E s' = mrm_reqs E s \<and> mr_user s' = mr_user s
    \<and> (\<exists>i. i \<notin> mrm_used E s \<and> is_timer Cmd_timer True (mrm_timers E s' i)
         \<and> (\<forall>j cmd. r = Inr (j, cmd) \<longrightarrow> j = i
              \<and> make_command (me_mem E) (mr_packet_id s + 1) type data = Inr cmd))"
proof -
  obtain i s1 where add: "mrm_add_repeating E (ticks timeout) Cmd_timer s = (Inr i, s1)"
    using mrm_add_repeating_run [OF laws] by (metis surj_pair)
  from mrm_add_repeating_run [OF laws add] obtain q where
    a: "s1 = s\<lparr>mr_timeout_queue := q\<rparr>" "i \<notin> mrm_used E s"
      "mrm_used E s1 = insert i (mrm_used E s)"
      "mrm_timers E s1 = (mrm_timers E s)(i \<mapsto> \<lparr>t_callback = Cmd_timer, t_start = mr_now s,
         t_period = ticks timeout, t_repeating = True\<rparr>)"
    by auto
  have inv1: "mrm_inv E s1"
    using rm_view_add [OF inv [unfolded mrm_inv_def] a(2)] by (simp add: mrm_inv_def a(3,4)) (simp add: a(1))
  obtain r2 s2 where reset: "mrm_reset_ka_mngt E s1 = (r2, s2)" by fastforce
  note b = mrm_reset_run [OF laws inv1 reset]
  have pid: "mr_packet_id s2 = mr_packet_id s"
  proof -
    have "preserves (\<lambda>x. mr_packet_id x = mr_packet_id s) (mrm_reset_ka_mngt E)"
      unfolding mrm_reset_ka_mngt_def mrm_arm_ka_mngt_def mrm_erase_timer_def mrm_add_repeating_def
      by (rule preservesI) (auto simp: prog_run split: prod.splits)
    from preserves_run [OF this _ reset] show ?thesis by (simp add: a(1))
  qed
  let ?rest = "bindE (mrm_make (\<lambda>pid. make_command (me_mem E) pid type data)) (\<lambda>cmd.
     bindE (mrm_write E cmd) (\<lambda>_. retE (i, cmd)))"
  have rest: "?rest s2 = (r, s')"
    using run add reset b by (simp add: mrm_send_command_write_def run_bindE)
  have "preserves (\<lambda>x. mrm_frame x = mrm_frame s2) ?rest" by (intro hoare)
  from preserves_run [OF this refl rest] have f: "mrm_frame s' = mrm_frame s2" .
  have u: "mr_user s' = mr_user s2"
  proof -
    have "preserves (\<lambda>x. mr_user x = mr_user s2) ?rest"
      unfolding mrm_make_def mrm_write_def
      by (rule preservesI) (auto simp: prog_run split: prod.splits sum.splits option.splits)
    from preserves_run [OF this refl rest] show ?thesis .
  qed
  have "r = Inr (j, cmd) \<Longrightarrow> j = i \<and> make_command (me_mem E) (mr_packet_id s + 1) type data = Inr cmd" for j cmd
    using rest by (auto simp: mrm_make_def prog_run pid split: prod.splits sum.splits)
  moreover have "is_timer Cmd_timer True (mrm_timers E s' i)"
    using b by (simp add: mrm_frame_inv(2) [OF f] a(4))
  moreover have "mrm_inv E s'" "mrm_reqs E s' = mrm_reqs E s" "mr_user s' = mr_user s"
    using b u by (simp_all add: mrm_frame_inv [OF f]) (simp_all add: a(1))
  ultimately show ?thesis using a(2) by blast
qed

lemma mrm_insert_run:
  assumes laws: "master_laws E"
  shows "mrm_insert E r s =
    (let (new, c) = mi_insert (me_set E) (mr_requests s) r
     in (if new then Inr () else Inl (Application_error Request_overrun), s\<lparr>mr_requests := c\<rparr>))"
  by (simp add: mrm_insert_def prog_run split: prod.split)

lemma mrm_insert_reqs:
  assumes laws: "master_laws E" and run: "mrm_insert E r s = (res, s')"
  shows "(\<exists>c. s' = s\<lparr>mr_requests := c\<rparr>) \<and>
    (if res = Inr () then mrm_reqs E s' = insert r (mrm_reqs E s) \<and> r \<notin> mrm_reqs E s
     else mrm_reqs E s' = mrm_reqs E s)
    \<and> (res = Inr () \<longleftrightarrow> req_id r \<notin> req_id ` mrm_reqs E s \<and> req_command_id r \<notin> req_command_id ` mrm_reqs E s)
    \<and> (res \<noteq> Inr () \<longrightarrow> res = Inl (Application_error Request_overrun))"
proof -
  have M: "multi_index_laws req_id req_command_id (me_set E)" using laws by (simp add: master_laws_def)
  obtain new c where ins: "mi_insert (me_set E) (mr_requests s) r = (new, c)" by fastforce
  then have "new \<longleftrightarrow> req_id r \<notin> req_id ` mrm_reqs E s \<and> req_command_id r \<notin> req_command_id ` mrm_reqs E s"
    using mi_laws(1) [OF M, of "mr_requests s" r] by (simp add: mrm_reqs_def)
  moreover have "mi_elems (me_set E) c = (if new then insert r (mrm_reqs E s) else mrm_reqs E s)"
    using mi_laws(2) [OF M, of "mr_requests s" r] ins by (simp add: mrm_reqs_def)
  moreover have "res = (if new then Inr () else Inl (Application_error Request_overrun))"
    "s' = s\<lparr>mr_requests := c\<rparr>"
    using run ins by (auto simp: mrm_insert_run [OF laws])
  ultimately show ?thesis by (auto simp: mrm_reqs_def)
qed

lemma mrm_send_command_run:
  assumes laws: "master_laws E" and inv: "mrm_inv E s"
    and run: "mrm_send_command E type data cb timeout s = (r, s')"
  shows "mrm_inv E s' \<and> mr_user s' = mr_user s \<and>
    (\<exists>i. i \<notin> mrm_used E s \<and> is_timer Cmd_timer True (mrm_timers E s' i) \<and>
     (case r of
       Inl _ \<Rightarrow> mrm_reqs E s' = mrm_reqs E s
     | Inr _ \<Rightarrow> \<exists>cmd. make_command (me_mem E) (mr_packet_id s + 1) type data = Inr cmd
         \<and> new_request i cmd cb \<notin> mrm_reqs E s
         \<and> mrm_reqs E s' = insert (new_request i cmd cb) (mrm_reqs E s)))"
proof -
  obtain r1 s1 where w: "mrm_send_command_write E type data timeout s = (r1, s1)" by fastforce
  obtain i where inv1: "mrm_inv E s1" and reqs1: "mrm_reqs E s1 = mrm_reqs E s" "mr_user s1 = mr_user s"
    and i: "i \<notin> mrm_used E s" "is_timer Cmd_timer True (mrm_timers E s1 i)"
    and cmd: "\<And>j cmd. r1 = Inr (j, cmd) \<Longrightarrow> j = i \<and>
      make_command (me_mem E) (mr_packet_id s + 1) type data = Inr cmd"
    using mrm_send_command_write_run [OF laws inv w] by blast
  show ?thesis
  proof (cases r1)
    case (Inl e)
    then show ?thesis using run w inv1 reqs1 i by (auto simp: mrm_send_command_def run_bindE)
  next
    case (Inr x)
    then obtain cmd where x: "x = (i, cmd)"
      and mk: "make_command (me_mem E) (mr_packet_id s + 1) type data = Inr cmd"
      using cmd by (cases x) blast
    let ?r = "new_request i cmd cb"
    have ins: "mrm_insert E ?r s1 = (r, s')"
      using run w Inr x by (simp add: mrm_send_command_def run_bindE)
    note b = mrm_insert_reqs [OF laws ins]
    have req: "is_timer Cmd_timer True (mrm_timers E s1 (req_id ?r))" "waiting ?r"
      using i by (simp_all add: new_request_def waiting_def)
    note v = inv1 [unfolded mrm_inv_def]
    obtain c where c: "s' = s1\<lparr>mr_requests := c\<rparr>" using b [THEN conjunct1] by blast
    have same: "is_timer Cmd_timer True (mrm_timers E s' i)" "mr_user s' = mr_user s"
      using i reqs1 by (simp_all add: c)
    show ?thesis
    proof (cases "r = Inr ()")
      case True
      then have reqs: "mrm_reqs E s' = insert ?r (mrm_reqs E s1)" "?r \<notin> mrm_reqs E s1"
        using b [THEN conjunct2, THEN conjunct1] by simp_all
      have "mrm_inv E s'"
        unfolding mrm_inv_def reqs(1) using rm_view_insert [OF v req(2,1)] by (simp add: c)
      then show ?thesis using True reqs [unfolded reqs1(1)] mk same i(1) by auto
    next
      case False
      then have reqs: "mrm_reqs E s' = mrm_reqs E s1"
        using b [THEN conjunct2, THEN conjunct1] by (simp only: if_False)
      have res: "r = Inl (Application_error Request_overrun)"
        using b [THEN conjunct2, THEN conjunct2, THEN conjunct2] False by (rule mp)
      have "mrm_inv E s'"
        unfolding mrm_inv_def reqs using v by (simp add: c)
      then show ?thesis using same i(1) reqs reqs1(1) res by auto
    qed
  qed
qed

text \<open>A request that is over: its callback is called, then its timer and itself are erased.\<close>

lemma mrm_call_run:
  "mrm_call E r s = (case me_call E (req_cb r) r (mr_user s) of (x, u) \<Rightarrow> (x, s\<lparr>mr_user := u\<rparr>))"
  by (simp add: mrm_call_def run_zoomE)

lemma mrm_user_frame [simp]: "mrm_frame (s\<lparr>mr_user := u\<rparr>) = mrm_frame s"
  by (simp add: mrm_frame_def)

definition mrm_finish ::
  "('q, 'tr, 'c, 'cb, 'u) master_env \<Rightarrow> 'cb request \<Rightarrow> ('c \<Rightarrow> 'c) \<Rightarrow> (('q, 'tr, 'c, 'u) master_rm, unit) stmt" where
  "mrm_finish E r erase =
     blockE [mrm_call E r, mrm_erase_timer E (req_id r),
             modifyE (\<lambda>s. s\<lparr>mr_requests := erase (mr_requests s)\<rparr>)]"

lemma mrm_finish_run:
  assumes laws: "master_laws E" and inv: "mrm_inv E s" and r: "r \<in> mrm_reqs E s" and id: "req_id r' = req_id r"
    and er: "mi_elems (me_set E) (er (mr_requests s)) = mrm_reqs E s - {r}"
    and run: "mrm_finish E r' er s = (res, s')"
  shows "mrm_inv E s' \<and> res = fst (me_call E (req_cb r') r' (mr_user s))
    \<and> mr_user s' = snd (me_call E (req_cb r') r' (mr_user s))
    \<and> mr_transport s' = mr_transport s
    \<and> (if res = Inr () then mrm_reqs E s' = mrm_reqs E s - {r} \<and> mrm_timers E s' (req_id r) = None
       else s' = s\<lparr>mr_user := mr_user s'\<rparr>)"
proof -
  obtain x u where call: "me_call E (req_cb r') r' (mr_user s) = (x, u)" by fastforce
  let ?s = "s\<lparr>mr_user := u\<rparr>"
  have f: "mrm_frame ?s = mrm_frame s" by simp
  have M: "multi_index_laws req_id req_command_id (me_set E)" using laws by (simp add: master_laws_def)
  have v: "rm_view (mrm_reqs E s) (mrm_timers E s) (mrm_used E s) (mr_keepalive_mngt s)
      (mr_keepalive_mngt_id s) (mr_ka_ids s)"
    using inv by (simp add: mrm_inv_def)
  have "{q \<in> mrm_reqs E s. req_id q \<noteq> req_id r} = mrm_reqs E s - {r}"
    using r mi_unique1 [OF M] by (auto simp: mrm_reqs_def)
  with rm_view_done [OF v rm_view_D(5) [OF v r]]
  have fin: "rm_view (mrm_reqs E s - {r}) ((mrm_timers E s)(req_id r := None)) (mrm_used E s)
      (mr_keepalive_mngt s) (mr_keepalive_mngt_id s) (mr_ka_ids s)"
    by simp
  show ?thesis
  proof (cases x)
    case (Inl e)
    then have "res = x" "s' = ?s" using run call by (simp_all add: mrm_finish_def run_bindE mrm_call_run)
    then show ?thesis using call inv Inl by (simp add: mrm_frame_inv [OF f])
  next
    case (Inr w)
    have s': "s' = s\<lparr>mr_user := u, mr_timeout_queue := tq_erase (me_tq E) (mr_timeout_queue s) (req_id r),
        mr_requests := er (mr_requests s)\<rparr>" "res = Inr ()"
      using run call Inr id by (simp_all add: mrm_finish_def prog_run mrm_call_run mrm_erase_timer_def)
    have views: "mrm_reqs E s' = mrm_reqs E s - {r}"
      "mrm_timers E s' = (mrm_timers E s)(req_id r := None)" "mrm_used E s' = mrm_used E s"
      using laws er by (simp_all add: s' mrm_views master_laws_def)
    have "mrm_inv E s'"
      unfolding mrm_inv_def views using fin by (simp add: s')
    then show ?thesis using call Inr views by (simp add: s')
  qed
qed

definition acked_id :: "packet \<Rightarrow> exn + u16" where
  "acked_id p =
     (case packet_blocks p of
        [] \<Rightarrow> Inl (Std_exception Out_of_range)
      | b # _ \<Rightarrow> if length (b_data b) \<noteq> 2 then Inl (Application_error Invalid_cmd_ack_format)
                  else Inr (le_u16 (b_data b ! 0) (b_data b ! 1)))"

lemma mrm_ack_command_eq:
  "mrm_ack_command E p = bindE (liftE (acked_id p)) (\<lambda>i. withE (\<lambda>s.
     case mi_find2 (me_set E) (mr_requests s) i of
       None \<Rightarrow> throwE (Application_error Request_not_found)
     | Some r \<Rightarrow> mrm_finish E (r\<lparr>req_status := Fulfilled, req_ack := Some p\<rparr>)
                   (\<lambda>c. mi_erase2 (me_set E) c i)))"
  by (rule ext) (auto simp: mrm_ack_command_def acked_id_def mrm_finish_def Let_def prog_run
      split: list.split option.split)

lemma mrm_ack_command_run:
  assumes laws: "master_laws E" and inv: "mrm_inv E s" and run: "mrm_ack_command E p s = (res, s')"
  shows "mrm_inv E s' \<and>
    (case acked_id p of
       Inl e \<Rightarrow> res = Inl e \<and> s' = s
     | Inr i \<Rightarrow>
         if i \<in> req_command_id ` mrm_reqs E s
         then \<exists>r\<in>mrm_reqs E s. req_command_id r = i \<and>
           (let r' = r\<lparr>req_status := Fulfilled, req_ack := Some p\<rparr>
            in res = fst (me_call E (req_cb r) r' (mr_user s))
             \<and> mr_user s' = snd (me_call E (req_cb r) r' (mr_user s))
             \<and> mr_transport s' = mr_transport s
             \<and> (if res = Inr () then mrm_reqs E s' = mrm_reqs E s - {r} \<and> mrm_timers E s' (req_id r) = None
                else s' = s\<lparr>mr_user := mr_user s'\<rparr>))
         else res = Inl (Application_error Request_not_found) \<and> s' = s)"
proof (cases "acked_id p")
  case (Inl e)
  then show ?thesis using run inv by (simp add: mrm_ack_command_eq prog_run)
next
  case (Inr i)
  have M: "multi_index_laws req_id req_command_id (me_set E)" using laws by (simp add: master_laws_def)
  show ?thesis
  proof (cases "mi_find2 (me_set E) (mr_requests s) i")
    case None
    then have "i \<notin> req_command_id ` mrm_reqs E s"
      using mi_laws(4) [OF M, of "mr_requests s" i] by (auto simp: mrm_reqs_def)
    then show ?thesis using run inv Inr None by (simp add: mrm_ack_command_eq prog_run)
  next
    case (Some r)
    then have r: "r \<in> mrm_reqs E s" "req_command_id r = i"
      using mi_laws(4) [OF M, of "mr_requests s" i] by (auto simp: mrm_reqs_def)
    have "{q \<in> mrm_reqs E s. req_command_id q \<noteq> i} = mrm_reqs E s - {r}"
      using r mi_unique2 [OF M] by (auto simp: mrm_reqs_def)
    then have er: "mi_elems (me_set E) (mi_erase2 (me_set E) (mr_requests s) i) = mrm_reqs E s - {r}"
      using mi_laws(6) [OF M, of "mr_requests s" i] by (simp add: mrm_reqs_def)
    let ?r = "r\<lparr>req_status := Fulfilled, req_ack := Some p\<rparr>"
    have fin: "mrm_finish E ?r (\<lambda>c. mi_erase2 (me_set E) c i) s = (res, s')"
      using run Inr Some by (simp add: mrm_ack_command_eq prog_run)
    have "mrm_inv E s' \<and> res = fst (me_call E (req_cb ?r) ?r (mr_user s))
      \<and> mr_user s' = snd (me_call E (req_cb ?r) ?r (mr_user s))
      \<and> mr_transport s' = mr_transport s
      \<and> (if res = Inr () then mrm_reqs E s' = mrm_reqs E s - {r} \<and> mrm_timers E s' (req_id r) = None
         else s' = s\<lparr>mr_user := mr_user s'\<rparr>)"
      by (rule mrm_finish_run [OF laws inv r(1) _ er fin]) simp
    then show ?thesis using r Inr by (auto simp: Let_def intro!: bexI [of _ r])
  qed
qed

text \<open>A command timeout: a retransmission, or the end of the request.\<close>

lemma retry_bound: "x < max_retry \<Longrightarrow> x + 1 \<le> max_retry" for x :: u32
  by (rule inc_le)

lemma inc_retry_simps [simp]:
  "req_id (inc_retry r) = req_id r" "req_command (inc_retry r) = req_command r"
  "req_cb (inc_retry r) = req_cb r" "req_retry (inc_retry r) = req_retry r + 1"
  "req_command_id (inc_retry r) = req_command_id r" "req_status (inc_retry r) = req_status r"
  "req_ack (inc_retry r) = req_ack r"
  by (simp_all add: inc_retry_def req_command_id_def)

lemma mrm_cmd_timeout_none:
  assumes "master_laws E" and "i \<notin> req_id ` mrm_reqs E s"
  shows "mrm_cmd_timeout_cb E i s = (Inl (Application_error Request_not_found), s)"
proof -
  have M: "multi_index_laws req_id req_command_id (me_set E)" using assms by (simp add: master_laws_def)
  have "mi_find1 (me_set E) (mr_requests s) i = None"
    using mi_laws(3) [OF M, of "mr_requests s" i] assms(2) unfolding mrm_reqs_def
    by (metis image_eqI not_None_eq)
  then show ?thesis by (simp add: mrm_cmd_timeout_cb_def prog_run)
qed

lemma mrm_find_request:
  assumes "master_laws E" and "r \<in> mrm_reqs E s" and "req_id r = i"
  shows "mi_find1 (me_set E) (mr_requests s) i = Some r"
  using assms mi_laws(3) [of req_id req_command_id "me_set E"]
  by (simp add: master_laws_def mrm_reqs_def)

lemma mrm_retry_view:
  assumes v: "rm_view R T U m k K" and r: "r \<in> R" and less: "req_retry r < max_retry"
  shows "rm_view (insert (inc_retry r) (R - {r})) T U m k K"
proof (rule rm_view_insert)
  show "rm_view (R - {r}) T U m k K" using v by (rule rm_view_subset) blast
  show "waiting (inc_retry r)"
    using rm_view_D(4) [OF v r] less retry_bound by (simp add: waiting_def)
  show "is_timer Cmd_timer True (T (req_id (inc_retry r)))"
    using rm_view_D(5) [OF v r] by simp
qed

lemma mrm_retry_run:
  assumes laws: "master_laws E" and inv: "mrm_inv E s" and r: "r \<in> mrm_reqs E s" "req_id r = i"
    and less: "req_retry r < max_retry"
  shows "\<exists>c. mrm_cmd_timeout_cb E i s =
      blockE [withE (\<lambda>s. whenE (mrm_open E s) (mrm_write E (req_command r))), mrm_reset_ka_mngt E]
        (s\<lparr>mr_requests := c\<rparr>)
    \<and> mrm_reqs E (s\<lparr>mr_requests := c\<rparr>) = insert (inc_retry r) (mrm_reqs E s - {r})
    \<and> mrm_inv E (s\<lparr>mr_requests := c\<rparr>)"
proof -
  have M: "multi_index_laws req_id req_command_id (me_set E)" using laws by (simp add: master_laws_def)
  let ?c = "mi_modify1 (me_set E) (mr_requests s) i inc_retry"
  have reqs: "mrm_reqs E (s\<lparr>mr_requests := ?c\<rparr>) = insert (inc_retry r) (mrm_reqs E s - {r})"
    using mi_modify_law [OF M, of r "mr_requests s" i inc_retry] r by (simp add: mrm_reqs_def)
  have "rm_view (insert (inc_retry r) (mrm_reqs E s - {r})) (mrm_timers E s) (mrm_used E s)
      (mr_keepalive_mngt s) (mr_keepalive_mngt_id s) (mr_ka_ids s)"
    by (rule mrm_retry_view [OF _ r(1) less]) (use inv in \<open>simp add: mrm_inv_def\<close>)
  then have "mrm_inv E (s\<lparr>mr_requests := ?c\<rparr>)"
    unfolding mrm_inv_def reqs by simp
  moreover have "mrm_cmd_timeout_cb E i s =
      blockE [withE (\<lambda>s. whenE (mrm_open E s) (mrm_write E (req_command r))), mrm_reset_ka_mngt E]
        (s\<lparr>mr_requests := ?c\<rparr>)"
    using mrm_find_request [OF laws r] less
    by (simp add: mrm_cmd_timeout_cb_def run_withE run_bindE run_modifyE)
  ultimately show ?thesis using reqs by blast
qed

lemma mrm_cmd_timeout_last:
  assumes laws: "master_laws E" and r: "r \<in> mrm_reqs E s" "req_id r = i"
    and more: "\<not> req_retry r < max_retry"
  shows "mrm_cmd_timeout_cb E i s =
    mrm_finish E (r\<lparr>req_status := Timed_out\<rparr>) (\<lambda>c. mi_erase1 (me_set E) c i) s"
  using mrm_find_request [OF laws r] more
  by (simp add: mrm_cmd_timeout_cb_def mrm_finish_def run_withE)

lemma mrm_erase1_reqs:
  assumes "master_laws E" and "r \<in> mrm_reqs E s" "req_id r = i"
  shows "mi_elems (me_set E) (mi_erase1 (me_set E) (mr_requests s) i) = mrm_reqs E s - {r}"
proof -
  have M: "multi_index_laws req_id req_command_id (me_set E)" using assms by (simp add: master_laws_def)
  show ?thesis
    using assms(2,3) mi_unique1 [OF M] mi_laws(5) [OF M, of "mr_requests s" i]
    by (auto simp: mrm_reqs_def)
qed

text \<open>
  Either branch at once: what becomes of the requests and of the user's state.
\<close>

lemma mrm_cmd_timeout_run:
  assumes laws: "master_laws E" and inv: "mrm_inv E s" and r: "r \<in> mrm_reqs E s" "req_id r = i"
    and run: "mrm_cmd_timeout_cb E i s = (res, s')"
  shows "mrm_inv E s' \<and>
    (if req_retry r < max_retry
     then mrm_reqs E s' = insert (inc_retry r) (mrm_reqs E s - {r}) \<and> mr_user s' = mr_user s
     else let r' = r\<lparr>req_status := Timed_out\<rparr>
       in res = fst (me_call E (req_cb r) r' (mr_user s))
        \<and> mr_user s' = snd (me_call E (req_cb r) r' (mr_user s))
        \<and> mr_transport s' = mr_transport s
        \<and> (if res = Inr () then mrm_reqs E s' = mrm_reqs E s - {r} \<and> mrm_timers E s' (req_id r) = None
           else s' = s\<lparr>mr_user := mr_user s'\<rparr>))"
proof (cases "req_retry r < max_retry")
  case True
  obtain c where c: "mrm_cmd_timeout_cb E i s =
      blockE [withE (\<lambda>s. whenE (mrm_open E s) (mrm_write E (req_command r))), mrm_reset_ka_mngt E]
        (s\<lparr>mr_requests := c\<rparr>)"
    "mrm_reqs E (s\<lparr>mr_requests := c\<rparr>) = insert (inc_retry r) (mrm_reqs E s - {r})"
    "mrm_inv E (s\<lparr>mr_requests := c\<rparr>)"
    using mrm_retry_run [OF laws inv r True] by blast
  let ?s = "s\<lparr>mr_requests := c\<rparr>" and ?w = "withE (\<lambda>s. whenE (mrm_open E s) (mrm_write E (req_command r)))"
  obtain w s1 where w: "?w ?s = (w, s1)" by fastforce
  have "preserves (\<lambda>x. mrm_frame x = mrm_frame ?s) ?w" by (intro hoare)
  from preserves_run [OF this refl w] have f: "mrm_frame s1 = mrm_frame ?s" .
  have "preserves (\<lambda>x. mr_user x = mr_user s) ?w"
    unfolding mrm_write_def by (rule preservesI) (auto simp: prog_run split: prod.splits option.splits)
  from preserves_run [OF this _ w] have u: "mr_user s1 = mr_user s" by simp
  have "mrm_inv E s' \<and> mrm_reqs E s' = mrm_reqs E s1 \<and> mr_user s' = mr_user s1"
  proof (cases w)
    case (Inl e)
    then have "s' = s1" using run w by (simp add: c(1) run_bindE)
    then show ?thesis using c(3) by (simp add: mrm_frame_inv [OF f])
  next
    case (Inr x)
    then have "mrm_reset_ka_mngt E s1 = (res, s')"
      using run w by (auto simp: c(1) prog_run split: prod.splits sum.splits)
    moreover have "mrm_inv E s1" using c(3) by (simp add: mrm_frame_inv [OF f])
    ultimately show ?thesis using mrm_reset_run [OF laws] by blast
  qed
  then show ?thesis using True c(2) u by (simp add: mrm_frame_inv [OF f])
next
  case False
  let ?r = "r\<lparr>req_status := Timed_out\<rparr>"
  have fin: "mrm_finish E ?r (\<lambda>c. mi_erase1 (me_set E) c i) s = (res, s')"
    using run by (simp only: mrm_cmd_timeout_last [OF laws r False])
  have same: "req_id ?r = req_id r" and cb: "req_cb ?r = req_cb r" by simp_all
  show ?thesis
    unfolding if_not_P [OF False] Let_def
    by (rule mrm_finish_run [OF laws inv r(1) same mrm_erase1_reqs [OF laws r] fin, unfolded cb])
qed

text \<open>Keep-alives and the connection.\<close>

lemma mrm_add_ka_inv:
  assumes laws: "master_laws E" and inv: "mrm_inv E s"
    and run: "mrm_add_timer E t Ka_timer s = (Inr i, s1)"
  shows "mrm_inv E (s1\<lparr>mr_ka_ids := mr_ka_ids s1 @ [i]\<rparr>)"
    and "(\<forall>j t. mrm_timers E s j = Some t \<longrightarrow> t_callback t \<noteq> Ka_timer) \<Longrightarrow>
      mrm_inv E (s1\<lparr>mr_ka_ids := [i]\<rparr>)"
proof -
  from mrm_add_timer_run [OF laws run] obtain q where
    a: "s1 = s\<lparr>mr_timeout_queue := q\<rparr>" "i \<notin> mrm_used E s"
      "mrm_used E s1 = insert i (mrm_used E s)"
      "mrm_timers E s1 = (mrm_timers E s)(i \<mapsto> \<lparr>t_callback = Ka_timer, t_start = mr_now s,
         t_period = t, t_repeating = False\<rparr>)"
    by auto
  note v = inv [unfolded mrm_inv_def]
  show "mrm_inv E (s1\<lparr>mr_ka_ids := mr_ka_ids s1 @ [i]\<rparr>)"
    using rm_view_add_ka [OF v a(2)] by (simp add: mrm_inv_def a(3,4)) (simp add: a(1))
  show "mrm_inv E (s1\<lparr>mr_ka_ids := [i]\<rparr>)"
    if "\<forall>j t. mrm_timers E s j = Some t \<longrightarrow> t_callback t \<noteq> Ka_timer"
    using rm_view_new_ka [OF v a(2) _ that] by (simp add: mrm_inv_def a(3,4)) (simp add: a(1))
qed

lemma mrm_add_dip_inv:
  assumes laws: "master_laws E" and inv: "mrm_inv E s"
    and run: "mrm_add_timer E t Dip_timer s = (r, s1)"
  shows "mrm_inv E (s1\<lparr>mr_dip_id := j\<rparr>) \<and> mrm_inv E s1"
proof -
  from mrm_add_timer_run [OF laws run] obtain i q where
    a: "s1 = s\<lparr>mr_timeout_queue := q\<rparr>" "i \<notin> mrm_used E s"
      "mrm_used E s1 = insert i (mrm_used E s)"
      "mrm_timers E s1 = (mrm_timers E s)(i \<mapsto> \<lparr>t_callback = Dip_timer, t_start = mr_now s,
         t_period = t, t_repeating = False\<rparr>)"
    by auto
  show ?thesis
    using rm_view_add [OF inv [unfolded mrm_inv_def] a(2)] by (simp add: mrm_inv_def a(3,4)) (simp add: a(1))
qed

lemma mrm_transmit_reset:
  assumes "mrm_transmit E mk s = (r, s')"
  shows "mrm_frame s' = mrm_frame s" "mr_user s' = mr_user s"
proof -
  show "mrm_frame s' = mrm_frame s"
    using preserves_run [OF mrm_transmit_frame refl assms] .
  have "preserves (\<lambda>x. mr_user x = mr_user s) (mrm_transmit E mk)"
    unfolding mrm_transmit_def mrm_make_def mrm_write_def
    by (rule preservesI) (auto simp: prog_run split: prod.splits sum.splits option.splits)
  from preserves_run [OF this refl assms] show "mr_user s' = mr_user s" .
qed

lemma mrm_send_hip_run:
  assumes laws: "master_laws E" and inv: "mrm_inv E s" and run: "mrm_send_hip E ident t s = (r, s')"
  shows "mrm_inv E s' \<and> mrm_reqs E s' = mrm_reqs E s \<and> mr_user s' = mr_user s"
proof -
  obtain x s1 where tx: "mrm_transmit E (\<lambda>pid. make_hip (me_mem E) pid ident) s = (x, s1)" by fastforce
  note f = mrm_transmit_reset [OF tx]
  have inv1: "mrm_inv E s1" using inv by (simp add: mrm_frame_inv [OF f(1)])
  show ?thesis
  proof (cases x)
    case (Inl e)
    then have "s' = s1" using run tx by (auto simp: mrm_send_hip_def run_bindE)
    then show ?thesis using inv1 f(2) by (simp add: mrm_frame_inv [OF f(1)])
  next
    case (Inr u)
    obtain i s2 where add: "mrm_add_timer E (ticks t) Dip_timer s1 = (Inr i, s2)"
      using mrm_add_timer_run [OF laws] by (metis surj_pair)
    have "s' = s2\<lparr>mr_dip_id := i\<rparr>"
      using run tx Inr add by (simp add: mrm_send_hip_def prog_run)
    then show ?thesis
      using mrm_add_dip_inv [OF laws inv1 add] mrm_add_timer_run [OF laws add] f(2)
      by (auto simp: mrm_frame_inv [OF f(1)])
  qed
qed

lemma mrm_ka_mngt_run:
  assumes laws: "master_laws E" and inv: "mrm_inv E s" and run: "mrm_ka_mngt_timeout_cb E s = (r, s')"
  shows "mrm_inv E s' \<and> mrm_reqs E s' = mrm_reqs E s \<and> mr_user s' = mr_user s"
proof -
  obtain x s1 where tx: "mrm_transmit E (make_keepalive (me_mem E)) s = (x, s1)" by fastforce
  note f = mrm_transmit_reset [OF tx]
  have inv1: "mrm_inv E s1" using inv by (simp add: mrm_frame_inv [OF f(1)])
  show ?thesis
  proof (cases x)
    case (Inl e)
    then have "s' = s1" using run tx by (auto simp: mrm_ka_mngt_timeout_cb_def run_bindE)
    then show ?thesis using inv1 f(2) by (simp add: mrm_frame_inv [OF f(1)])
  next
    case (Inr u)
    obtain i s2 where add: "mrm_add_timer E (mr_timeout_keepalive s1) Ka_timer s1 = (Inr i, s2)"
      using mrm_add_timer_run [OF laws] by (metis surj_pair)
    have "s' = s2\<lparr>mr_ka_ids := mr_ka_ids s2 @ [i]\<rparr>"
      using run tx Inr add by (simp add: mrm_ka_mngt_timeout_cb_def prog_run)
    then show ?thesis
      using mrm_add_ka_inv(1) [OF laws inv1 add] mrm_add_timer_run [OF laws add] f(2)
      by (auto simp: mrm_frame_inv [OF f(1)])
  qed
qed

definition no_ka_timer :: "('q, 'tr, 'c, 'cb, 'u) master_env \<Rightarrow> ('q, 'tr, 'c, 'u) master_rm \<Rightarrow> bool" where
  "no_ka_timer E s \<longleftrightarrow> (\<forall>i t. mrm_timers E s i = Some t \<longrightarrow> t_callback t \<noteq> Ka_timer)"

lemma mrm_start_ka_run:
  assumes laws: "master_laws E" and inv: "mrm_inv E s" and none: "no_ka_timer E s"
    and run: "mrm_start_keepalive_management E interval timeout s = (r, s')"
  shows "mrm_inv E s' \<and> mrm_reqs E s' = mrm_reqs E s \<and> mr_user s' = mr_user s"
proof -
  let ?s = "s\<lparr>mr_keepalive_mngt := True\<rparr>"
  obtain x s1 where arm: "mrm_arm_ka_mngt E interval ?s = (x, s1)" by fastforce
  have off: "mrm_inv E (?s\<lparr>mr_keepalive_mngt := False\<rparr>)"
    using mrm_inv_flag_off [OF inv] by simp
  note a = mrm_arm_ka_mngt_inv [OF laws off arm]
  have none1: "\<forall>i t. mrm_timers E s1 i = Some t \<longrightarrow> t_callback t \<noteq> Ka_timer"
    using a none unfolding no_ka_timer_def by (metis master_timer.distinct(7) mrm_queue_frame(11) mrm_queue_frame(12))
  obtain y s2 where tx: "mrm_transmit E (make_keepalive (me_mem E)) s1 = (y, s2)" by fastforce
  note f = mrm_transmit_reset [OF tx]
  have inv2: "mrm_inv E s2" using a by (simp add: mrm_frame_inv [OF f(1)])
  show ?thesis
  proof (cases y)
    case (Inl e)
    then have "s' = s2"
      using run arm a tx by (simp add: mrm_start_keepalive_management_def run_bindE run_modifyE)
    then show ?thesis using inv2 a f(2) by (simp add: mrm_frame_inv [OF f(1)])
  next
    case (Inr u)
    let ?t = "s2\<lparr>mr_timeout_keepalive := ticks timeout\<rparr>"
    obtain i s3 where add: "mrm_add_timer E (ticks timeout) Ka_timer ?t = (Inr i, s3)"
      using mrm_add_timer_run [OF laws] by (metis surj_pair)
    have s': "s' = s3\<lparr>mr_ka_ids := [i]\<rparr>"
      using run arm a tx Inr add
      by (simp add: mrm_start_keepalive_management_def run_bindE run_modifyE run_withE retE_def)
    have inv3: "mrm_inv E ?t" using inv2 by (simp add: mrm_inv_def)
    have "mrm_inv E s'"
      unfolding s' by (rule mrm_add_ka_inv(2) [OF laws inv3 add])
        (use none1 in \<open>simp add: mrm_frame_inv [OF f(1)]\<close>)
    moreover obtain q where "s3 = ?t\<lparr>mr_timeout_queue := q\<rparr>"
      using mrm_add_timer_run [OF laws add] by auto
    ultimately show ?thesis using a f(2) by (simp add: s' mrm_frame_inv [OF f(1)])
  qed
qed

lemma mrm_erase_timer_run:
  "mrm_erase_timer E i s = (Inr (), s\<lparr>mr_timeout_queue := tq_erase (me_tq E) (mr_timeout_queue s) i\<rparr>)"
  by (simp add: mrm_erase_timer_def prog_run)

lemma foreach_erase_run:
  assumes laws: "master_laws E"
  shows "\<exists>q. foreachE (mrm_erase_timer E) K s = (Inr (), s\<lparr>mr_timeout_queue := q\<rparr>)
    \<and> mrm_timers E (s\<lparr>mr_timeout_queue := q\<rparr>) = (\<lambda>i. if i \<in> set K then None else mrm_timers E s i)
    \<and> mrm_used E (s\<lparr>mr_timeout_queue := q\<rparr>) = mrm_used E s"
proof (induction K arbitrary: s)
  case Nil
  then show ?case by (intro exI [of _ "mr_timeout_queue s"]) (simp add: prog_run)
next
  case (Cons k K)
  let ?s = "s\<lparr>mr_timeout_queue := tq_erase (me_tq E) (mr_timeout_queue s) k\<rparr>"
  obtain q where q: "foreachE (mrm_erase_timer E) K ?s = (Inr (), ?s\<lparr>mr_timeout_queue := q\<rparr>)"
    "mrm_timers E (?s\<lparr>mr_timeout_queue := q\<rparr>) = (\<lambda>i. if i \<in> set K then None else mrm_timers E ?s i)"
    "mrm_used E (?s\<lparr>mr_timeout_queue := q\<rparr>) = mrm_used E ?s"
    using Cons.IH [of ?s] by blast
  then show ?case
    using mrm_erase_queue [OF laws, of s k]
    by (intro exI [of _ q]) (auto simp: run_bindE mrm_erase_timer_run [of E k s] fun_eq_iff)
qed

lemma mrm_ack_keepalive_run:
  assumes laws: "master_laws E" and inv: "mrm_inv E s" and run: "mrm_ack_keepalive E s = (r, s')"
  shows "r = Inr () \<and> mrm_inv E s' \<and> mrm_reqs E s' = mrm_reqs E s \<and> mr_user s' = mr_user s
    \<and> mr_ka_ids s' = [] \<and> no_ka_timer E s'
    \<and> mrm_timers E s' = (\<lambda>i. if i \<in> set (mr_ka_ids s) then None else mrm_timers E s i)"
proof -
  obtain q where q: "foreachE (mrm_erase_timer E) (mr_ka_ids s) s = (Inr (), s\<lparr>mr_timeout_queue := q\<rparr>)"
    "mrm_timers E (s\<lparr>mr_timeout_queue := q\<rparr>) = (\<lambda>i. if i \<in> set (mr_ka_ids s) then None else mrm_timers E s i)"
    "mrm_used E (s\<lparr>mr_timeout_queue := q\<rparr>) = mrm_used E s"
    using foreach_erase_run [OF laws, of "mr_ka_ids s" s] by blast
  have s': "s' = s\<lparr>mr_timeout_queue := q, mr_ka_ids := []\<rparr>" "r = Inr ()"
    using run q(1) by (simp_all add: mrm_ack_keepalive_def prog_run)
  note v = inv [unfolded mrm_inv_def]
  have "mrm_inv E s'"
    using rm_view_ack [OF v] by (simp add: mrm_inv_def s' q(2,3))
  moreover have "no_ka_timer E s'"
    using rm_view_D(7) [OF v] by (auto simp: no_ka_timer_def s' q(2) split: if_splits)
  ultimately show ?thesis by (simp add: s' q(2))
qed

section \<open>The steps of the manager\<close>

text \<open>
  The callback of a timer, as the manager's thread runs it; the two that report to the owner
  change nothing of the manager.
\<close>

fun mrm_callback ::
  "('q, 'tr, 'c, 'cb, 'u) master_env \<Rightarrow> nat \<Rightarrow> master_timer \<Rightarrow> (('q, 'tr, 'c, 'u) master_rm, unit) stmt" where
  "mrm_callback E i Cmd_timer = mrm_cmd_timeout_cb E i"
| "mrm_callback E i Ka_mngt_timer = mrm_ka_mngt_timeout_cb E"
| "mrm_callback E i Ka_timer = retE ()"
| "mrm_callback E i Dip_timer = retE ()"

text \<open>
  One step between two starts, with the callbacks of the commands that were accepted in it.
  The owner starts keep-alives only when no keep-alive timeout is pending, and acknowledges a
  device identification only while \<^verbatim>\<open>dip_id_\<close> is the identifier \<^verbatim>\<open>send_hip\<close> stored (its value
  before that is indeterminate).
\<close>

inductive mrm_step ::
  "('q, 'tr, 'c, 'cb, 'u) master_env \<Rightarrow> ('q, 'tr, 'c, 'u) master_rm \<Rightarrow> 'cb list \<Rightarrow>
   ('q, 'tr, 'c, 'u) master_rm \<Rightarrow> bool" for E where
  send_command: "mrm_send_command E type data cb timeout s = (r, s') \<Longrightarrow>
    mrm_step E s (if r = Inr () then [cb] else []) s'"
| send_hip: "mrm_send_hip E ident timeout s = (r, s') \<Longrightarrow> mrm_step E s [] s'"
| ack_dip: "\<forall>t. mrm_timers E s (mr_dip_id s) = Some t \<longrightarrow> t_callback t = Dip_timer \<Longrightarrow>
    mrm_ack_dip E s = (r, s') \<Longrightarrow> mrm_step E s [] s'"
| start_keepalive: "no_ka_timer E s \<Longrightarrow>
    mrm_start_keepalive_management E interval timeout s = (r, s') \<Longrightarrow> mrm_step E s [] s'"
| ack_command: "mrm_ack_command E p s = (r, s') \<Longrightarrow> mrm_step E s [] s'"
| ack_keepalive: "mrm_ack_keepalive E s = (r, s') \<Longrightarrow> mrm_step E s [] s'"
| tick: "mrm_tick s = (r, s') \<Longrightarrow> mrm_step E s [] s'"
| timer: "mrm_timers E s i = Some t \<Longrightarrow>
    bindE (mrm_fire E i) (\<lambda>_. mrm_callback E i (t_callback t)) s = (r, s') \<Longrightarrow> mrm_step E s [] s'"
| stop: "mrm_stop s = (r, s') \<Longrightarrow> mrm_step E s [] s'"

text \<open>What \<^verbatim>\<open>start\<close> leaves: no request, no timer, keep-alives off.\<close>

definition mrm_begun ::
  "('q, 'tr, 'c, 'cb, 'u) master_env \<Rightarrow> ('q, 'tr, 'c, 'u) master_rm \<Rightarrow> bool" where
  "mrm_begun E s \<longleftrightarrow> mrm_reqs E s = {} \<and> mrm_timers E s = Map.empty \<and> \<not> mr_keepalive_mngt s
     \<and> set (mr_ka_ids s) \<subseteq> mrm_used E s"

lemma mrm_begun_inv: "mrm_begun E s \<Longrightarrow> mrm_inv E s"
  by (simp add: mrm_begun_def mrm_inv_def rm_view_def)

lemma mrm_start_begun:
  assumes "master_laws E" and "\<not> mr_running s" and "set (mr_ka_ids s) \<subseteq> mrm_used E s"
    and "mrm_start E s = (r, s')"
  shows "mrm_begun E s' \<and> r = Inr () \<and> mr_running s'"
proof -
  have M: "multi_index_laws req_id req_command_id (me_set E)" and T: "timeout_queue_laws (me_tq E)"
    using assms by (simp_all add: master_laws_def)
  have "s' = mrm_clear E s\<lparr>mr_keepalive_mngt := False, mr_running := True\<rparr>" "r = Inr ()"
    using assms(2,4) by (simp_all add: mrm_start_def prog_run)
  then show ?thesis
    using assms(3) mi_laws(7) [OF M] tq_clear_law [OF T]
    by (simp add: mrm_begun_def mrm_clear_def mrm_views)
qed

lemma mrm_fire_inv:
  assumes laws: "master_laws E" and inv: "mrm_inv E s" and t: "mrm_timers E s i = Some t"
    and run: "mrm_fire E i s = (r, s')"
  shows "r = Inr () \<and> mrm_inv E s' \<and> mrm_reqs E s' = mrm_reqs E s \<and> mr_user s' = mr_user s
    \<and> mr_transport s' = mr_transport s"
proof -
  have T: "timeout_queue_laws (me_tq E)" using laws by (simp add: master_laws_def)
  have s': "s' = s\<lparr>mr_timeout_queue := tq_fire (me_tq E) (mr_timeout_queue s) i\<rparr>" "r = Inr ()"
    using run by (simp_all add: mrm_fire_def prog_run)
  obtain b where b: "mrm_timers E s' = (mrm_timers E s)(i := if t_repeating t then Some (t\<lparr>t_start := b\<rparr>) else None)"
    "mrm_used E s' = mrm_used E s"
    using tq_fire_law [OF T t [unfolded mrm_timers_def]] by (auto simp: s' mrm_views)
  have "mrm_inv E s'"
    using rm_view_fire [OF inv [unfolded mrm_inv_def] t, of b] by (simp only: mrm_inv_def b) (simp add: s')
  then show ?thesis by (simp add: s')
qed

lemma mrm_step_inv:
  assumes laws: "master_laws E" and step: "mrm_step E s l s'" and inv: "mrm_inv E s"
  shows "mrm_inv E s'"
  using step
proof cases
  case (send_command type data cb timeout r)
  then show ?thesis using mrm_send_command_run [OF laws inv] by blast
next
  case (send_hip ident timeout r)
  then show ?thesis using mrm_send_hip_run [OF laws inv] by blast
next
  case (ack_dip r)
  have "\<not> is_timer Cmd_timer True (mrm_timers E s (mr_dip_id s))"
    "mr_keepalive_mngt s \<longrightarrow> mr_dip_id s \<noteq> mr_keepalive_mngt_id s"
    using ack_dip(2) rm_view_D(6) [OF inv [unfolded mrm_inv_def]] by (auto elim!: is_timerE)
  from rm_view_erase [OF inv [unfolded mrm_inv_def] this] show ?thesis
    using ack_dip(3) laws by (auto simp: mrm_ack_dip_def run_withE mrm_erase_timer_run mrm_inv_def)
next
  case (start_keepalive interval timeout r)
  then show ?thesis using mrm_start_ka_run [OF laws inv] by blast
next
  case (ack_command p r)
  then show ?thesis using mrm_ack_command_run [OF laws inv] by blast
next
  case (ack_keepalive r)
  then show ?thesis using mrm_ack_keepalive_run [OF laws inv] by blast
next
  case (tick r)
  then show ?thesis using inv by (auto simp: mrm_tick_def prog_run mrm_inv_def split: if_splits)
next
  case (timer i t r)
  obtain x s1 where fire: "mrm_fire E i s = (x, s1)" by fastforce
  note f = mrm_fire_inv [OF laws inv timer(2) fire]
  have cb: "mrm_callback E i (t_callback t) s1 = (r, s')"
    using timer(3) fire f by (simp add: run_bindE)
  have inv1: "mrm_inv E s1" using f by blast
  show ?thesis
  proof (cases "t_callback t")
    case Cmd_timer
    then have run: "mrm_cmd_timeout_cb E i s1 = (r, s')" using cb by simp
    show ?thesis
    proof (cases "i \<in> req_id ` mrm_reqs E s1")
      case True
      then show ?thesis using mrm_cmd_timeout_run [OF laws inv1 _ _ run] by blast
    next
      case False
      then show ?thesis using mrm_cmd_timeout_none [OF laws False] run inv1 by simp
    qed
  next
    case Ka_mngt_timer
    then show ?thesis using mrm_ka_mngt_run [OF laws inv1] cb by simp
  qed (use cb inv1 in \<open>simp_all add: run_retE\<close>)
next
  case (stop r)
  then show ?thesis using inv by (auto simp: mrm_stop_def prog_run mrm_inv_def split: if_splits)
qed

text \<open>
  The manager over any queue and container that keep their laws is a system with this
  invariant.
\<close>

locale master_rm_library =
  fixes E :: "('q, 'tr, 'c, 'cb, 'u) master_env"
  assumes library: "master_laws E"

sublocale master_rm_library \<subseteq>
  rm: invariant_system "mrm_begun E" "\<lambda>s s'. \<exists>l. mrm_step E s l s'" "mrm_inv E"
proof unfold_locales
  show "mrm_inv E s" if "mrm_begun E s" for s :: "('q, 'tr, 'c, 'u) master_rm"
    using that by (rule mrm_begun_inv)
  show "mrm_inv E t" if "mrm_inv E s" "\<exists>l. mrm_step E s l t" for s t :: "('q, 'tr, 'c, 'u) master_rm"
    using mrm_step_inv [OF library] that by blast
qed

context master_rm_library
begin

lemma rm_reach_inv: "reach (mrm_begun E) (\<lambda>s s'. \<exists>l. mrm_step E s l s') s \<Longrightarrow> mrm_inv E s"
  by (rule rm.reach_inv)

end

text \<open>
  The reference objects: callbacks that record the request they are called with, in a manager
  over an open client.
\<close>

type_synonym ref_rm =
  "(master_timer ref_queue, (bool, packet list, packet list) tcp_client, nat request list,
    nat request list) master_rm"

definition ref_master_env ::
  "(master_timer ref_queue, (bool, packet list, packet list) tcp_client, nat request list, nat,
    nat request list) master_env" where
  "ref_master_env =
     \<lparr>me_mem = replicate 2048 0, me_tq = ref_timeout_queue, me_tr = tc_api ref_client_env,
      me_set = ref_multi_index req_id req_command_id, me_call = (\<lambda>cb r u. (Inr (), u @ [r]))\<rparr>"

definition ref_rm :: ref_rm where
  "ref_rm =
     \<lparr>mr_requests = [], mr_timeout_queue = ref_queue_empty, mr_keepalive_mngt_id = 0, mr_dip_id = 0,
      mr_ka_ids = [], mr_keepalive_mngt = False, mr_now = 0, mr_packet_id = 0,
      mr_timeout_keepalive = 0, mr_transport = Some ref_client, mr_running = True, mr_user = []\<rparr>"

lemma ref_master_laws [simp]: "master_laws ref_master_env"
  by (simp add: master_laws_def ref_master_env_def)

lemma ref_rm_begun [simp]: "mrm_begun ref_master_env ref_rm"
  by (simp add: mrm_begun_def mrm_views ref_master_env_def ref_rm_def ref_multi_index_def
      ref_timeout_queue_def ref_queue_empty_def distinct_keys_def Let_def)

interpretation ref_master: master_rm_library ref_master_env
  by unfold_locales simp

section \<open>On a transport that accepts every packet while it is open\<close>

lemma mrm_transport_frame [simp]: "mrm_frame (s\<lparr>mr_transport := t\<rparr>) = mrm_frame s"
  "mrm_frame (s\<lparr>mr_packet_id := i\<rparr>) = mrm_frame s"
  by (simp_all add: mrm_frame_def)

lemma mrm_reset_sent:
  assumes "mrm_reset_ka_mngt E s = (r, s')"
  shows "mr_transport s' = mr_transport s" "mr_packet_id s' = mr_packet_id s"
proof -
  have "preserves (\<lambda>x. (mr_transport x, mr_packet_id x) = (mr_transport s, mr_packet_id s))
      (mrm_reset_ka_mngt E)"
    unfolding mrm_reset_ka_mngt_def mrm_arm_ka_mngt_def mrm_erase_timer_def mrm_add_repeating_def
    by (rule preservesI) (auto simp: prog_run split: prod.splits)
  from preserves_run [OF this refl assms]
  show "mr_transport s' = mr_transport s" "mr_packet_id s' = mr_packet_id s" by simp_all
qed

context posting_transport
begin

lemma mrm_write_posts:
  assumes "me_tr E = A" and "mrm_open E s"
  shows "\<exists>t. mrm_write E p s = (Inr (), s\<lparr>mr_transport := Some t\<rparr>)
    \<and> mrm_open E (s\<lparr>mr_transport := Some t\<rparr>)
    \<and> mrm_sent sent (s\<lparr>mr_transport := Some t\<rparr>) = mrm_sent sent s @ [p]"
proof -
  obtain t where t: "mr_transport s = Some t" "tr_is_open A t"
    using assms by (auto simp: mrm_open_def split: option.splits)
  obtain t' where w: "tr_write A p t = (Inr (), t')"
    using write_accepts [OF t(2), of p] by (cases "tr_write A p t") auto
  then show ?thesis
    using assms t write_open [of p t] write_sent [OF w]
    by (intro exI [of _ t']) (simp add: mrm_write_def mrm_open_def mrm_sent_def)
qed

lemma mrm_retry_sends:
  assumes E: "me_tr E = A" and laws: "master_laws E" and inv: "mrm_inv E s" and op: "mrm_open E s"
    and r: "r \<in> mrm_reqs E s" and less: "req_retry r < max_retry"
  shows "\<exists>s'. mrm_cmd_timeout_cb E (req_id r) s = (Inr (), s') \<and> mrm_inv E s' \<and> mrm_open E s'
    \<and> mrm_sent sent s' = mrm_sent sent s @ [req_command r]
    \<and> mrm_reqs E s' = insert (inc_retry r) (mrm_reqs E s - {r}) \<and> mr_user s' = mr_user s"
proof -
  obtain c where c: "mrm_cmd_timeout_cb E (req_id r) s =
      blockE [withE (\<lambda>s. whenE (mrm_open E s) (mrm_write E (req_command r))), mrm_reset_ka_mngt E]
        (s\<lparr>mr_requests := c\<rparr>)"
    "mrm_reqs E (s\<lparr>mr_requests := c\<rparr>) = insert (inc_retry r) (mrm_reqs E s - {r})"
    "mrm_inv E (s\<lparr>mr_requests := c\<rparr>)"
    using mrm_retry_run [OF laws inv r refl less] by blast
  let ?s = "s\<lparr>mr_requests := c\<rparr>"
  have "mrm_open E ?s" using op by (simp add: mrm_open_def)
  then obtain t where w: "mrm_write E (req_command r) ?s = (Inr (), ?s\<lparr>mr_transport := Some t\<rparr>)"
    "mrm_open E (?s\<lparr>mr_transport := Some t\<rparr>)"
    "mrm_sent sent (?s\<lparr>mr_transport := Some t\<rparr>) = mrm_sent sent ?s @ [req_command r]"
    using mrm_write_posts [OF E] by blast
  let ?t = "?s\<lparr>mr_transport := Some t\<rparr>"
  have f: "mrm_frame ?t = mrm_frame ?s" by simp
  obtain x s' where reset: "mrm_reset_ka_mngt E ?t = (x, s')" by fastforce
  have "mrm_inv E ?t" using c(3) by (simp only: mrm_frame_inv [OF f])
  note b = mrm_reset_run [OF laws this reset]
  have run: "mrm_cmd_timeout_cb E (req_id r) s = (Inr (), s')"
    using \<open>mrm_open E ?s\<close> w(1) reset b
    by (simp add: c(1) run_bindE run_withE run_whenE retE_def)
  have "mrm_reqs E s' = insert (inc_retry r) (mrm_reqs E s - {r})" "mr_user s' = mr_user s"
    using b c(2) by (simp_all add: mrm_frame_inv(4) [OF f])
  moreover have "mrm_open E s'" "mrm_sent sent s' = mrm_sent sent s @ [req_command r]"
    using mrm_reset_sent(1) [OF reset] w(2,3) by (simp_all add: mrm_open_def mrm_sent_def)
  ultimately show ?thesis using run b by blast
qed

text \<open>Up to the bound, each timeout sends the command once more.\<close>

lemma mrm_retries:
  assumes E: "me_tr E = A" and laws: "master_laws E"
  shows "mrm_inv E s \<Longrightarrow> mrm_open E s \<Longrightarrow> r \<in> mrm_reqs E s \<Longrightarrow> req_id r = i \<Longrightarrow>
    unat (req_retry r) + n \<le> 3 \<Longrightarrow>
    \<exists>s' r'. foreachE (\<lambda>_. mrm_cmd_timeout_cb E i) (replicate n ()) s = (Inr (), s')
      \<and> mrm_inv E s' \<and> mrm_open E s' \<and> r' = r\<lparr>req_retry := req_retry r + of_nat n\<rparr>
      \<and> mrm_sent sent s' = mrm_sent sent s @ replicate n (req_command r)
      \<and> mrm_reqs E s' = insert r' (mrm_reqs E s - {r}) \<and> mr_user s' = mr_user s"
proof (induction n arbitrary: s r)
  case 0
  then show ?case by (auto simp: prog_run)
next
  case (Suc n)
  have less: "req_retry r < max_retry" "unat (req_retry r + 1) = Suc (unat (req_retry r))"
  proof -
    have "unat (req_retry r) < 3" using Suc.prems(5) by simp
    then show "req_retry r < max_retry" "unat (req_retry r + 1) = Suc (unat (req_retry r))"
      by (simp_all add: max_retry_def word_less_nat_alt unat_word_ariths)
  qed
  obtain s1 where s1: "mrm_cmd_timeout_cb E i s = (Inr (), s1)" "mrm_inv E s1" "mrm_open E s1"
    "mrm_sent sent s1 = mrm_sent sent s @ [req_command r]"
    "mrm_reqs E s1 = insert (inc_retry r) (mrm_reqs E s - {r})" "mr_user s1 = mr_user s"
    using mrm_retry_sends [OF E laws Suc.prems(1,2,3) less(1)] Suc.prems(4) by auto
  have M: "multi_index_laws req_id req_command_id (me_set E)" using laws by (simp add: master_laws_def)
  have "inc_retry r \<notin> mrm_reqs E s - {r}"
    using mi_unique1 [OF M] Suc.prems(3) unfolding mrm_reqs_def
    by (metis DiffD1 DiffD2 inc_retry_simps(1) singletonI)
  then have rest: "mrm_reqs E s1 - {inc_retry r} = mrm_reqs E s - {r}" by (simp add: s1(5))
  have in1: "inc_retry r \<in> mrm_reqs E s1" "req_id (inc_retry r) = i"
    "unat (req_retry (inc_retry r)) + n \<le> 3"
    using Suc.prems(4,5) less(2) by (simp_all add: s1(5))
  from Suc.IH [OF s1(2,3) in1] obtain s' where s': "foreachE (\<lambda>_. mrm_cmd_timeout_cb E i) (replicate n ()) s1 = (Inr (), s')"
    "mrm_inv E s'" "mrm_open E s'"
    "mrm_sent sent s' = mrm_sent sent s1 @ replicate n (req_command (inc_retry r))"
    "mrm_reqs E s' = insert (inc_retry r\<lparr>req_retry := req_retry (inc_retry r) + of_nat n\<rparr>)
       (mrm_reqs E s1 - {inc_retry r})" "mr_user s' = mr_user s1"
    by auto
  let ?r = "r\<lparr>req_retry := req_retry r + of_nat (Suc n)\<rparr>"
  have "inc_retry r\<lparr>req_retry := req_retry (inc_retry r) + of_nat n\<rparr> = ?r"
    by (simp add: inc_retry_def algebra_simps)
  then have "mrm_reqs E s' = insert ?r (mrm_reqs E s - {r})" using s'(5) rest by (simp only:)
  moreover have "foreachE (\<lambda>_. mrm_cmd_timeout_cb E i) (replicate (Suc n) ()) s = (Inr (), s')"
    using s1(1) s'(1) by (simp add: run_bindE)
  moreover have "mrm_sent sent s' = mrm_sent sent s @ replicate (Suc n) (req_command r)"
    using s'(4) s1(4) by simp
  moreover have "mr_user s' = mr_user s" using s'(6) s1(6) by simp
  ultimately show ?case using s'(2,3) by blast
qed

lemma mrm_send_command_posts:
  assumes E: "me_tr E = A" and laws: "master_laws E" and inv: "mrm_inv E s" and op: "mrm_open E s"
    and mk: "make_command (me_mem E) (mr_packet_id s + 1) type data = Inr cmd"
    and free: "packet_id cmd \<notin> req_command_id ` mrm_reqs E s"
  shows "\<exists>s' i. mrm_send_command E type data cb timeout s = (Inr (), s') \<and> mrm_open E s'
    \<and> mrm_sent sent s' = mrm_sent sent s @ [cmd]
    \<and> mrm_reqs E s' = insert (new_request i cmd cb) (mrm_reqs E s) \<and> i \<notin> mrm_used E s"
proof -
  obtain i s1 where add: "mrm_add_repeating E (ticks timeout) Cmd_timer s = (Inr i, s1)"
    using mrm_add_repeating_run [OF laws] by (metis surj_pair)
  from mrm_add_repeating_run [OF laws add] obtain q where
    a: "s1 = s\<lparr>mr_timeout_queue := q\<rparr>" "i \<notin> mrm_used E s"
      "mrm_used E s1 = insert i (mrm_used E s)"
      "mrm_timers E s1 = (mrm_timers E s)(i \<mapsto> \<lparr>t_callback = Cmd_timer, t_start = mr_now s,
         t_period = ticks timeout, t_repeating = True\<rparr>)"
    by auto
  have inv1: "mrm_inv E s1"
    using rm_view_add [OF inv [unfolded mrm_inv_def] a(2)] by (simp add: mrm_inv_def a(3,4)) (simp add: a(1))
  obtain x s2 where reset: "mrm_reset_ka_mngt E s1 = (x, s2)" by fastforce
  note b = mrm_reset_run [OF laws inv1 reset] and k = mrm_reset_sent [OF reset]
  let ?s = "s2\<lparr>mr_packet_id := mr_packet_id s2 + 1\<rparr>"
  have "mrm_open E ?s" using op k(1) by (simp add: mrm_open_def a(1))
  then obtain t where w: "mrm_write E cmd ?s = (Inr (), ?s\<lparr>mr_transport := Some t\<rparr>)"
    "mrm_open E (?s\<lparr>mr_transport := Some t\<rparr>)"
    "mrm_sent sent (?s\<lparr>mr_transport := Some t\<rparr>) = mrm_sent sent ?s @ [cmd]"
    using mrm_write_posts [OF E] by blast
  let ?t = "?s\<lparr>mr_transport := Some t\<rparr>"
  have f: "mrm_frame ?t = mrm_frame s2" by simp
  have "mr_packet_id s2 = mr_packet_id s" using k(2) by (simp add: a(1))
  then have first: "mrm_send_command_write E type data timeout s = (Inr (i, cmd), ?t)"
    using add reset b w(1) mk
    by (simp add: mrm_send_command_write_def mrm_make_def run_bindE run_modifyE run_withE run_liftE retE_def)
  have reqs: "mrm_reqs E ?t = mrm_reqs E s"
    using b by (simp only: mrm_frame_inv(4) [OF f]) (simp add: a(1))
  obtain y s' where ins: "mrm_insert E (new_request i cmd cb) ?t = (y, s')" by fastforce
  have ids: "i \<notin> req_id ` mrm_reqs E s"
    using rm_view_fresh(3) [OF inv [unfolded mrm_inv_def] a(2)] by auto
  note j = mrm_insert_reqs [OF laws ins, unfolded reqs]
  have y: "y = Inr ()"
    using j [THEN conjunct2, THEN conjunct2, THEN conjunct1] ids free
    by (simp add: new_request_def req_command_id_def)
  obtain c where c: "s' = ?t\<lparr>mr_requests := c\<rparr>" using j by blast
  have "mrm_send_command E type data cb timeout s = (Inr (), s')"
    using first ins y by (simp add: mrm_send_command_def run_bindE)
  moreover have "mrm_reqs E s' = insert (new_request i cmd cb) (mrm_reqs E s)"
    using j [THEN conjunct2, THEN conjunct1] y by simp
  moreover have "mrm_open E s'" "mrm_sent sent s' = mrm_sent sent s @ [cmd]"
    using w(2,3) k(1) by (simp_all add: c mrm_open_def mrm_sent_def a(1))
  ultimately show ?thesis using a(2) by blast
qed

end

section \<open>Properties\<close>

text \<open>
  C15: However the operations and the timers follow each other after a start, every command
  that waits for its acknowledgement has a repeating timer of its own that retransmits it, has
  been retransmitted at most three times, and no two of them share a packet identifier.
\<close>

theorem master_requests_have_timers:
  assumes "master_laws E" and "reach (mrm_begun E) (\<lambda>s s'. \<exists>l. mrm_step E s l s') s"
    and "r \<in> mrm_reqs E s"
  shows "is_timer Cmd_timer True (mrm_timers E s (req_id r)) \<and> req_retry r \<le> 3
    \<and> req_status r = Pending
    \<and> (\<forall>q\<in>mrm_reqs E s. q \<noteq> r \<longrightarrow> req_id q \<noteq> req_id r \<and> req_command_id q \<noteq> req_command_id r)"
proof -
  have "master_rm_library E" using assms(1) by unfold_locales
  then have "mrm_inv E s" using assms(2) by (rule master_rm_library.rm_reach_inv)
  then have v: "rm_view (mrm_reqs E s) (mrm_timers E s) (mrm_used E s) (mr_keepalive_mngt s)
      (mr_keepalive_mngt_id s) (mr_ka_ids s)"
    by (simp add: mrm_inv_def)
  have M: "multi_index_laws req_id req_command_id (me_set E)" using assms(1) by (simp add: master_laws_def)
  show ?thesis
    using rm_view_D(4,5) [OF v assms(3)] mi_unique1 [OF M] mi_unique2 [OF M] assms(3)
    unfolding waiting_def max_retry_def mrm_reqs_def by blast
qed

text \<open>One command that was sent from the start, for the witnesses.\<close>

lemma ref_rm_open [simp]: "mrm_open ref_master_env ref_rm"
  by (simp add: mrm_open_def ref_rm_def ref_master_env_def tc_api_def tc_is_open_def ref_client_env_def
      ref_socket_def ref_client_def)

lemma ref_rm_inv [simp]: "mrm_inv ref_master_env ref_rm"
  by (rule mrm_begun_inv) simp

lemma ref_rm_reqs [simp]: "mrm_reqs ref_master_env ref_rm = {}"
  using ref_rm_begun by (simp add: mrm_begun_def)

lemma ref_master_fields [simp]:
  "me_mem ref_master_env = replicate 2048 0" "me_tr ref_master_env = tc_api ref_client_env"
  "me_call ref_master_env cb r u = (Inr (), u @ [r])"
  "mr_packet_id ref_rm = 0" "mr_user ref_rm = []"
  by (simp_all add: ref_master_env_def ref_rm_def)

lemma ref_storage [simp]: "storage (replicate 2048 0)"
  by (simp add: storage_def max_size_def)

lemma ref_send_command:
  "\<exists>s' i cmd. mrm_send_command ref_master_env 5 [1] cb 1000 ref_rm = (Inr (), s')
     \<and> mrm_open ref_master_env s' \<and> mrm_inv ref_master_env s'
     \<and> packet_id cmd = 1 \<and> valid_packet cmd
     \<and> mrm_reqs ref_master_env s' = {new_request i cmd cb}
     \<and> mrm_step ref_master_env ref_rm [cb] s' \<and> mr_user s' = []"
proof -
  obtain cmd where cmd: "make_command (replicate 2048 0) 1 5 [1] = Inr cmd" "packet_id cmd = 1" "valid_packet cmd"
    using make_command_ok [of "replicate 2048 0" "[1]" 1 5] by auto
  obtain s' i where s': "mrm_send_command ref_master_env 5 [1] cb 1000 ref_rm = (Inr (), s')"
    "mrm_open ref_master_env s'" "mrm_reqs ref_master_env s' = {new_request i cmd cb}"
    using posting_transport.mrm_send_command_posts [OF tc_posting [OF ref_client_laws], of ref_master_env ref_rm 5 "[1]" cmd cb 1000]
      cmd by auto
  have "mrm_inv ref_master_env s' \<and> mr_user s' = []"
    using mrm_send_command_run [OF ref_master_laws ref_rm_inv s'(1)] by simp
  moreover have "mrm_step ref_master_env ref_rm [cb] s'"
    using mrm_step.send_command [OF s'(1)] by simp
  ultimately show ?thesis using s' cmd by blast
qed

theorem master_requests_have_timers_witness:
  "\<exists>s r. r \<in> mrm_reqs ref_master_env s \<and> is_timer Cmd_timer True (mrm_timers ref_master_env s (req_id r))"
proof -
  obtain s i cmd where s: "mrm_reqs ref_master_env s = {new_request i cmd 9}"
    "mrm_step ref_master_env ref_rm [9] s"
    using ref_send_command by blast
  have "reach (mrm_begun ref_master_env) (\<lambda>s s'. \<exists>l. mrm_step ref_master_env s l s') s"
    using s(2) by (intro reach_step [OF reach_init]) auto
  from master_requests_have_timers [OF ref_master_laws this, of "new_request i cmd 9"] s(1)
  show ?thesis by blast
qed

text \<open>
  An accepted command is on its way and waits: \<^verbatim>\<open>send_command\<close> on an open transport that
  posts its packets sends the command once, under the next identifier, and adds one pending
  request for it under a timer identifier that was never used before.
\<close>

theorem master_send_command:
  assumes "posting_transport (me_tr E) sent received" and "master_laws E" and "mrm_inv E s"
    and "mrm_open E s" and "storage (me_mem E)" and "length data \<le> 2031"
    and "mr_packet_id s + 1 \<notin> req_command_id ` mrm_reqs E s"
  shows "\<exists>s' i cmd. mrm_send_command E type data cb timeout s = (Inr (), s')
    \<and> mrm_sent sent s' = mrm_sent sent s @ [cmd] \<and> valid_packet cmd
    \<and> packet_id cmd = mr_packet_id s + 1 \<and> packet_blocks cmd = [\<lparr>b_type = type, b_data = data\<rparr>]
    \<and> mrm_reqs E s' = insert (new_request i cmd cb) (mrm_reqs E s)
    \<and> i \<notin> mrm_used E s \<and> mrm_inv E s'"
proof -
  obtain cmd where cmd: "make_command (me_mem E) (mr_packet_id s + 1) type data = Inr cmd"
    "valid_packet cmd" "packet_id cmd = mr_packet_id s + 1"
    "packet_blocks cmd = [\<lparr>b_type = type, b_data = data\<rparr>]"
    using make_command_ok [OF assms(5,6)] by blast
  have free: "packet_id cmd \<notin> req_command_id ` mrm_reqs E s" using assms(7) cmd(3) by simp
  show ?thesis
    using posting_transport.mrm_send_command_posts [OF assms(1) refl assms(2-4) cmd(1) free]
      mrm_send_command_run [OF assms(2,3)] cmd by blast
qed

theorem master_send_command_witness:
  "\<exists>s' i cmd. mrm_send_command ref_master_env 5 [1] 9 1000 ref_rm = (Inr (), s') \<and> packet_id cmd = 1
     \<and> mrm_reqs ref_master_env s' = {new_request i cmd 9}"
  using master_send_command [of ref_master_env "tc_sent ref_client_env" "tc_received ref_client_env" ref_rm "[1]" 5 9 1000]
    tc_posting [OF ref_client_laws] by auto

text \<open>
  C28: A command acknowledgement. One without a block, or whose data is not two bytes long, or
  that names no waiting command, throws and changes nothing. Otherwise the command it names is
  the only one concerned: its callback is called once, with the status \<open>Fulfilled\<close> and the
  acknowledgement; then the request and its timer are gone. A callback that throws leaves both
  in place, so that the request goes on as if it had not been acknowledged.
\<close>

theorem master_ack_command:
  assumes "master_laws E" and "mrm_inv E s" and "mrm_ack_command E p s = (res, s')"
  shows "case acked_id p of
       Inl e \<Rightarrow> res = Inl e \<and> s' = s
     | Inr i \<Rightarrow>
         if i \<notin> req_command_id ` mrm_reqs E s
         then res = Inl (Application_error Request_not_found) \<and> s' = s
         else \<exists>r\<in>mrm_reqs E s. req_command_id r = i \<and>
           (let r' = r\<lparr>req_status := Fulfilled, req_ack := Some p\<rparr>
            in res = fst (me_call E (req_cb r) r' (mr_user s))
             \<and> mr_user s' = snd (me_call E (req_cb r) r' (mr_user s))
             \<and> (if res = Inr () then mrm_reqs E s' = mrm_reqs E s - {r} \<and> mrm_timers E s' (req_id r) = None
                else s' = s\<lparr>mr_user := mr_user s'\<rparr>))"
proof (cases "acked_id p")
  case (Inl e)
  then show ?thesis using mrm_ack_command_run [OF assms] by simp
next
  case (Inr i)
  then show ?thesis
    using mrm_ack_command_run [OF assms] unfolding Inr sum.case Let_def
    by (cases "i \<in> req_command_id ` mrm_reqs E s") (simp_all only: if_True if_False not_True_eq_False not_False_eq_True, blast)
qed

theorem master_ack_command_witness:
  "mrm_ack_command ref_master_env \<lparr>p_data = overwrite (replicate 2048 0) ka15\<rparr> ref_rm
     = (Inl (Std_exception Out_of_range), ref_rm)"
proof -
  let ?p = "\<lparr>p_data = overwrite (replicate 2048 0) ka15\<rparr>"
  obtain res s' where run: "mrm_ack_command ref_master_env ?p ref_rm = (res, s')" by fastforce
  have "acked_id ?p = Inl (Std_exception Out_of_range)"
    using holds_fields [OF ka15_holds] by (simp add: acked_id_def)
  then show ?thesis
    using master_ack_command [OF ref_master_laws ref_rm_inv run] run by simp
qed

text \<open>
  C27: A command nobody acknowledges. Each of the first three timeouts sends it again, and the
  fourth calls its callback, once, with the status \<open>Timed_out\<close>, and forgets the request and
  its timer; nothing is sent for it any more.
\<close>

theorem master_gives_up:
  assumes "posting_transport (me_tr E) sent received" and "master_laws E" and "mrm_inv E s"
    and "mrm_open E s" and "r \<in> mrm_reqs E s" and "req_retry r = 0"
    and "fst (me_call E (req_cb r) (r\<lparr>req_retry := 3, req_status := Timed_out\<rparr>) (mr_user s)) = Inr ()"
  shows "\<exists>s'. foreachE (\<lambda>_. mrm_cmd_timeout_cb E (req_id r)) (replicate 4 ()) s = (Inr (), s')
    \<and> mrm_sent sent s' = mrm_sent sent s @ replicate 3 (req_command r)
    \<and> mr_user s' = snd (me_call E (req_cb r) (r\<lparr>req_retry := 3, req_status := Timed_out\<rparr>) (mr_user s))
    \<and> mrm_reqs E s' = mrm_reqs E s - {r} \<and> mrm_timers E s' (req_id r) = None"
proof -
  let ?r = "r\<lparr>req_retry := 3\<rparr>" and ?cb = "\<lambda>_ :: unit. mrm_cmd_timeout_cb E (req_id r)"
  have bound: "unat (req_retry r) + 3 \<le> 3" using assms(6) by simp
  have three: "r\<lparr>req_retry := req_retry r + of_nat 3\<rparr> = ?r" using assms(6) by simp
  obtain s1 where s1: "foreachE ?cb (replicate 3 ()) s = (Inr (), s1)" "mrm_inv E s1"
    "mrm_sent sent s1 = mrm_sent sent s @ replicate 3 (req_command r)"
    "mrm_reqs E s1 = insert ?r (mrm_reqs E s - {r})" "mr_user s1 = mr_user s"
    using posting_transport.mrm_retries [OF assms(1) refl assms(2-5) refl bound] unfolding three by blast
  obtain x s' where last: "mrm_cmd_timeout_cb E (req_id r) s1 = (x, s')" by fastforce
  have in1: "?r \<in> mrm_reqs E s1" "req_id ?r = req_id r" by (simp_all add: s1(4))
  have more: "\<not> req_retry ?r < max_retry" by (simp add: max_retry_def)
  note h = mrm_cmd_timeout_run [OF assms(2) s1(2) in1 last, unfolded if_not_P [OF more] Let_def s1(5)]
  have x: "x = Inr ()" using h assms(7) by simp
  have "?r \<notin> mrm_reqs E s - {r}"
    using mi_unique1 [of req_id req_command_id "me_set E" _ "mr_requests s" r] assms(2,5)
    unfolding mrm_reqs_def master_laws_def by (metis DiffD1 DiffD2 in1(2) singletonI)
  then have "mrm_reqs E s1 - {?r} = mrm_reqs E s - {r}" by (simp add: s1(4))
  then have "mrm_reqs E s' = mrm_reqs E s - {r}" "mrm_timers E s' (req_id r) = None"
    using h x by simp_all
  moreover have "mr_user s' = snd (me_call E (req_cb r) (r\<lparr>req_retry := 3, req_status := Timed_out\<rparr>) (mr_user s))"
    using h by simp
  moreover have "mrm_sent sent s' = mrm_sent sent s @ replicate 3 (req_command r)"
    using h s1(3) by (simp add: mrm_sent_def)
  moreover have "foreachE ?cb (replicate 4 ()) s = (Inr (), s')"
    using foreachE_append [of ?cb "replicate 3 ()" "[()]"] s1(1) last x
    by (simp add: run_bindE retE_def replicate_append_same [symmetric] numeral_eq_Suc)
  ultimately show ?thesis by blast
qed

theorem master_gives_up_witness:
  "\<exists>s i s' cmd. foreachE (\<lambda>_. mrm_cmd_timeout_cb ref_master_env i) (replicate 4 ()) s = (Inr (), s')
     \<and> mrm_sent (tc_sent ref_client_env) s' = mrm_sent (tc_sent ref_client_env) s @ replicate 3 cmd
     \<and> map req_status (mr_user s') = [Timed_out] \<and> mrm_reqs ref_master_env s' = {}"
proof -
  obtain s i cmd where s: "mrm_open ref_master_env s" "mrm_inv ref_master_env s"
    "mrm_reqs ref_master_env s = {new_request i cmd 9}" "mr_user s = []"
    using ref_send_command by blast
  let ?r = "new_request i cmd (9 :: nat)"
  have r: "?r \<in> mrm_reqs ref_master_env s" "req_retry ?r = 0" by (simp_all add: s(3) new_request_def)
  show ?thesis
    using master_gives_up [where E = ref_master_env, OF _ ref_master_laws s(2,1) r]
      tc_posting [OF ref_client_laws] s(3,4) by fastforce
qed

text \<open>
  Acknowledged keep-alives do not time out: however the operations and the timers follow
  each other, after the acknowledgement of a keep-alive no keep-alive timeout is pending, and
  only keep-alive timeouts have been called off.
\<close>

theorem master_ack_keepalive:
  assumes "master_laws E" and "reach (mrm_begun E) (\<lambda>s s'. \<exists>l. mrm_step E s l s') s"
    and "mrm_ack_keepalive E s = (r, s')"
  shows "r = Inr () \<and> no_ka_timer E s'
    \<and> (\<forall>i t. mrm_timers E s i = Some t \<and> t_callback t \<noteq> Ka_timer \<longrightarrow> mrm_timers E s' i = Some t)"
proof -
  have "master_rm_library E" using assms(1) by unfold_locales
  then have inv: "mrm_inv E s" using assms(2) by (rule master_rm_library.rm_reach_inv)
  then show ?thesis
    using mrm_ack_keepalive_run [OF assms(1) inv assms(3)] rm_view_D(7) [OF inv [unfolded mrm_inv_def]]
    by auto
qed

theorem master_ack_keepalive_witness:
  "no_ka_timer ref_master_env (snd (mrm_ack_keepalive ref_master_env ref_rm))"
proof -
  obtain r s' where run: "mrm_ack_keepalive ref_master_env ref_rm = (r, s')" by fastforce
  have "reach (mrm_begun ref_master_env) (\<lambda>s s'. \<exists>l. mrm_step ref_master_env s l s') ref_rm"
    by (rule reach_init) simp
  from master_ack_keepalive [OF ref_master_laws this run] show ?thesis using run by simp
qed

subsection \<open>What goes wrong\<close>

text \<open>
  A command that is not accepted leaves its timer behind. Whatever makes
  \<^verbatim>\<open>send_command\<close> throw, the repeating timer it began with is still pending and belongs to no
  request; when it runs out, the callback throws \<open>request_not_found\<close> in the thread of the
  request manager, which catches nothing.
\<close>

theorem master_failed_command_leaks_timer:
  assumes "master_laws E" and "mrm_inv E s"
    and "mrm_send_command E type data cb timeout s = (Inl e, s')"
  shows "\<exists>i. mrm_timers E s i = None \<and> is_timer Cmd_timer True (mrm_timers E s' i)
    \<and> mrm_cmd_timeout_cb E i s' = (Inl (Application_error Request_not_found), s')"
proof -
  obtain i where i: "i \<notin> mrm_used E s" "is_timer Cmd_timer True (mrm_timers E s' i)"
    "mrm_reqs E s' = mrm_reqs E s"
    using mrm_send_command_run [OF assms] by auto
  note f = rm_view_fresh [OF assms(2) [unfolded mrm_inv_def] i(1)]
  then have "i \<notin> req_id ` mrm_reqs E s'" by (auto simp: i(3))
  from mrm_cmd_timeout_none [OF assms(1) this] f(1) i(2) show ?thesis by blast
qed

theorem master_failed_command_leaks_timer_witness:
  "\<exists>s' i. mrm_send_command ref_master_env 5 (replicate 2032 0) 9 1000 ref_rm
       = (Inl (Packet_error Payload_exceed_max_size), s')
     \<and> mrm_cmd_timeout_cb ref_master_env i s' = (Inl (Application_error Request_not_found), s')"
proof -
  have mk: "make_command (me_mem ref_master_env) pid 5 (replicate 2032 0)
      = Inl (Packet_error Payload_exceed_max_size)" for pid
    by (rule make_command_too_big) simp_all
  obtain r s' where run: "mrm_send_command ref_master_env 5 (replicate 2032 0) 9 1000 ref_rm = (r, s')"
    by fastforce
  have "r = Inl (Packet_error Payload_exceed_max_size)"
  proof -
    have off: "\<not> mr_keepalive_mngt ref_rm" by (simp add: ref_rm_def)
    show ?thesis
      using run mk off
      by (auto simp: mrm_send_command_def mrm_send_command_write_def mrm_add_repeating_def
          mrm_reset_ka_mngt_def mrm_make_def prog_run split: prod.splits)
  qed
  with run master_failed_command_leaks_timer [OF ref_master_laws ref_rm_inv] show ?thesis by blast
qed

text \<open>
  C40: An acknowledgement can come too early. The request is inserted only after its command
  was written; if another thread handles the acknowledgement in between, it throws
  \<open>request_not_found\<close> and is lost, although the command was sent and will be pending.
\<close>

theorem master_ack_before_insert:
  assumes "master_laws E" and "mrm_inv E s"
    and "mrm_send_command_write E type data timeout s = (Inr (i, cmd), s')"
    and "acked_id p = Inr (packet_id cmd)" and "packet_id cmd \<notin> req_command_id ` mrm_reqs E s"
  shows "mrm_ack_command E p s' = (Inl (Application_error Request_not_found), s')
    \<and> (\<exists>s''. mrm_insert E (new_request i cmd cb) s' = (Inr (), s'')
         \<and> new_request i cmd cb \<in> mrm_reqs E s'')"
proof -
  obtain j where a: "mrm_inv E s'" "mrm_reqs E s' = mrm_reqs E s" "j = i" "j \<notin> mrm_used E s"
    using mrm_send_command_write_run [OF assms(1-3)] by blast
  obtain r s1 where run: "mrm_ack_command E p s' = (r, s1)" by fastforce
  have "r = Inl (Application_error Request_not_found) \<and> s1 = s'"
    using mrm_ack_command_run [OF assms(1) a(1) run] assms(4,5) a(2) by simp
  moreover obtain y s2 where ins: "mrm_insert E (new_request i cmd cb) s' = (y, s2)" by fastforce
  moreover have "i \<notin> req_id ` mrm_reqs E s"
    using rm_view_fresh(3) [OF assms(2) [unfolded mrm_inv_def]] a(3,4) by auto
  then have "y = Inr ()"
    using mrm_insert_reqs [OF assms(1) ins, THEN conjunct2, THEN conjunct2, THEN conjunct1] assms(5)
    by (simp add: a(2) new_request_def req_command_id_def)
  moreover from this have "new_request i cmd cb \<in> mrm_reqs E s2"
    using mrm_insert_reqs [OF assms(1) ins, THEN conjunct2, THEN conjunct1] by simp
  ultimately show ?thesis using run by blast
qed

theorem master_ack_before_insert_witness:
  "\<exists>s' p i cmd. mrm_send_command_write ref_master_env 5 [1] 1000 ref_rm = (Inr (i, cmd), s')
     \<and> mrm_ack_command ref_master_env p s' = (Inl (Application_error Request_not_found), s')"
proof -
  obtain s1 where "mrm_send_command ref_master_env 5 [1] 9 1000 ref_rm = (Inr (), s1)"
    using ref_send_command by blast
  then obtain i cmd s' where run: "mrm_send_command_write ref_master_env 5 [1] 1000 ref_rm = (Inr (i, cmd), s')"
    by (auto simp: mrm_send_command_def run_bindE split: prod.splits sum.splits)
  obtain p where p: "make_cmd_ack (replicate 2048 0) 1 5 (packet_id cmd) = Inr p"
    "packet_blocks p = [\<lparr>b_type = 5, b_data = u16_le (packet_id cmd)\<rparr>]"
    using make_cmd_ack_ok [of "replicate 2048 0" 1 5 "packet_id cmd"] by auto
  have ack: "acked_id p = Inr (packet_id cmd)" by (simp add: acked_id_def p(2) u16_le_def)
  have "packet_id cmd \<notin> req_command_id ` mrm_reqs ref_master_env ref_rm" by simp
  from master_ack_before_insert [OF ref_master_laws ref_rm_inv run ack this] run show ?thesis by blast
qed

subsection \<open>Every callback is called once\<close>

text \<open>
  Callbacks that return, and leave in the user's state a record of the request they were
  called with.
\<close>

definition recording ::
  "('q, 'tr, 'c, 'cb, 'cb request list) master_env \<Rightarrow> bool" where
  "recording E \<longleftrightarrow> (\<forall>cb r u. me_call E cb r u = (Inr (), u @ [r]))"

text \<open>A step, with the callbacks of all commands accepted so far.\<close>

inductive mrm_hist ::
  "('q, 'tr, 'c, 'cb, 'u) master_env \<Rightarrow> ('q, 'tr, 'c, 'u) master_rm \<times> 'cb list \<Rightarrow>
   ('q, 'tr, 'c, 'u) master_rm \<times> 'cb list \<Rightarrow> bool" for E where
  "mrm_step E s l s' \<Longrightarrow> mrm_hist E (s, acc) (s', acc @ l)"

text \<open>How a request that is over has ended.\<close>

definition ended :: "'cb request \<Rightarrow> bool" where
  "ended r \<longleftrightarrow>
     (case req_status r of
        Pending \<Rightarrow> False
      | Timed_out \<Rightarrow> req_retry r = max_retry
      | Fulfilled \<Rightarrow> (\<exists>p. req_ack r = Some p \<and> acked_id p = Inr (req_command_id r)))"

definition accounted :: "'cb request set \<Rightarrow> 'cb request list \<Rightarrow> 'cb list \<Rightarrow> bool" where
  "accounted R called acc \<longleftrightarrow>
     image_mset req_cb (mset_set R) + mset (map req_cb called) = mset acc \<and> (\<forall>r\<in>set called. ended r)"

lemma accounted_new:
  assumes "accounted R called acc" and "finite R" and "r \<notin> R"
  shows "accounted (insert r R) called (acc @ [req_cb r])"
  using assms by (auto simp: accounted_def)

lemma accounted_new_request:
  assumes "accounted R called acc" and "finite R" and "new_request i cmd cb \<notin> R"
  shows "accounted (insert (new_request i cmd cb) R) called (acc @ [cb])"
  using accounted_new [OF assms] by (simp add: new_request_def)

lemma accounted_over:
  assumes "accounted R called acc" and "finite R" and "r \<in> R" and "req_cb r' = req_cb r" and "ended r'"
  shows "accounted (R - {r}) (called @ [r']) acc"
proof -
  have "mset_set R = add_mset r (mset_set (R - {r}))"
    using assms(2,3) by (simp add: mset_set.remove)
  then show ?thesis using assms(1,4,5) by (auto simp: accounted_def)
qed

lemma accounted_retry:
  assumes "accounted R called acc" and "finite R" and "r \<in> R" and "r' \<notin> R - {r}" and "req_cb r' = req_cb r"
  shows "accounted (insert r' (R - {r})) called acc"
proof -
  have "mset_set R = add_mset r (mset_set (R - {r}))"
    "mset_set (insert r' (R - {r})) = add_mset r' (mset_set (R - {r}))"
    using assms(2-4) by (simp_all add: mset_set.remove)
  then show ?thesis using assms(1,5) by (auto simp: accounted_def)
qed

lemma mrm_step_accounted:
  assumes laws: "master_laws E" and rec: "recording E" and step: "mrm_step E s l s'"
    and inv: "mrm_inv E s" and acc: "accounted (mrm_reqs E s) (mr_user s) acc"
  shows "accounted (mrm_reqs E s') (mr_user s') (acc @ l)"
  using step
proof cases
  have fin: "finite (mrm_reqs E s)" using inv by (simp add: mrm_inv_def rm_view_def)
  have wait: "r \<in> mrm_reqs E s \<Longrightarrow> waiting r" for r
    using rm_view_D(4) [OF inv [unfolded mrm_inv_def]] .
  {
    case (send_command type data cb timeout r)
    then show ?thesis
      using mrm_send_command_run [OF laws inv send_command(2)] acc accounted_new_request [OF acc fin]
      by (cases r) auto
  next
    case (send_hip ident timeout r)
    then show ?thesis using mrm_send_hip_run [OF laws inv] acc by auto
  next
    case (ack_dip r)
    then show ?thesis using acc by (auto simp: mrm_ack_dip_def run_withE mrm_erase_timer_run)
  next
    case (start_keepalive interval timeout r)
    then show ?thesis using mrm_start_ka_run [OF laws inv] acc by auto
  next
    case (ack_command p r)
    note h = mrm_ack_command_run [OF laws inv ack_command(2)]
    show ?thesis
    proof (cases "acked_id p")
      case (Inl e)
      then show ?thesis using h acc ack_command(1) by simp
    next
      case (Inr i)
      show ?thesis
      proof (cases "i \<in> req_command_id ` mrm_reqs E s")
        case True
        then obtain q where q: "q \<in> mrm_reqs E s" "req_command_id q = i"
          "mr_user s' = mr_user s @ [q\<lparr>req_status := Fulfilled, req_ack := Some p\<rparr>]"
          "mrm_reqs E s' = mrm_reqs E s - {q}"
          using h Inr rec by (auto simp: recording_def Let_def)
        have "ended (q\<lparr>req_status := Fulfilled, req_ack := Some p\<rparr>)"
          using q(2) Inr by (simp add: ended_def req_command_id_def)
        from accounted_over [OF acc fin q(1) _ this] show ?thesis
          using q(3,4) ack_command(1) by simp
      next
        case False
        then show ?thesis using h acc Inr ack_command(1) by simp
      qed
    qed
  next
    case (ack_keepalive r)
    then show ?thesis using mrm_ack_keepalive_run [OF laws inv] acc by auto
  next
    case (tick r)
    then show ?thesis using acc by (auto simp: mrm_tick_def prog_run split: if_splits)
  next
    case (timer i t r)
    obtain x s1 where fire: "mrm_fire E i s = (x, s1)" by fastforce
    note f = mrm_fire_inv [OF laws inv timer(2) fire]
    have cb: "mrm_callback E i (t_callback t) s1 = (r, s')"
      using timer(3) fire f by (simp add: run_bindE)
    have inv1: "mrm_inv E s1" and same: "mrm_reqs E s1 = mrm_reqs E s" "mr_user s1 = mr_user s"
      using f by auto
    show ?thesis
    proof (cases "t_callback t")
      case Cmd_timer
      then have run: "mrm_cmd_timeout_cb E i s1 = (r, s')" using cb by simp
      show ?thesis
      proof (cases "i \<in> req_id ` mrm_reqs E s1")
        case True
        then obtain q where q: "q \<in> mrm_reqs E s" "req_id q = i" by (auto simp: same)
        note h = mrm_cmd_timeout_run [OF laws inv1 _ q(2) run, unfolded same, OF q(1)]
        show ?thesis
        proof (cases "req_retry q < max_retry")
          case True
          have M: "multi_index_laws req_id req_command_id (me_set E)" using laws by (simp add: master_laws_def)
          have "inc_retry q \<notin> mrm_reqs E s - {q}"
            using mi_unique1 [OF M] q(1) unfolding mrm_reqs_def
            by (metis DiffD1 DiffD2 inc_retry_simps(1) singletonI)
          from accounted_retry [OF acc fin q(1) this] show ?thesis
            using h True timer(1) by simp
        next
          case False
          let ?q = "q\<lparr>req_status := Timed_out\<rparr>"
          have u: "mr_user s' = mr_user s @ [?q]" "mrm_reqs E s' = mrm_reqs E s - {q}"
            using h [unfolded if_not_P [OF False] Let_def] rec by (simp_all add: recording_def)
          have "ended ?q"
            using wait [OF q(1)] False by (auto simp: ended_def waiting_def)
          from accounted_over [OF acc fin q(1) _ this] show ?thesis using u timer(1) by simp
        qed
      next
        case False
        then show ?thesis using mrm_cmd_timeout_none [OF laws False] run same acc timer(1) by simp
      qed
    next
      case Ka_mngt_timer
      then show ?thesis using mrm_ka_mngt_run [OF laws inv1] cb same acc timer(1) by auto
    qed (use cb same acc timer(1) in \<open>simp_all add: run_retE\<close>)
  next
    case (stop r)
    then show ?thesis using acc by (auto simp: mrm_stop_def prog_run split: if_splits)
  }
qed

text \<open>The accounting is an invariant of the manager with its history.\<close>

locale master_rm_recording =
  fixes E :: "('q, 'tr, 'c, 'cb, 'cb request list) master_env"
  assumes library: "master_laws E" and records: "recording E"

sublocale master_rm_recording \<subseteq> master_rm_library E
  by unfold_locales (rule library)

sublocale master_rm_recording \<subseteq>
  hist: invariant_system "\<lambda>(s, acc). mrm_begun E s \<and> mr_user s = [] \<and> acc = []" "mrm_hist E"
    "\<lambda>(s, acc). mrm_inv E s \<and> accounted (mrm_reqs E s) (mr_user s) acc"
proof unfold_locales
  fix x :: "('q, 'tr, 'c, 'cb request list) master_rm \<times> 'cb list"
  assume "case x of (s, acc) \<Rightarrow> mrm_begun E s \<and> mr_user s = [] \<and> acc = []"
  then show "case x of (s, acc) \<Rightarrow> mrm_inv E s \<and> accounted (mrm_reqs E s) (mr_user s) acc"
    using mrm_begun_inv by (auto simp: mrm_begun_def accounted_def)
next
  fix x y :: "('q, 'tr, 'c, 'cb request list) master_rm \<times> 'cb list"
  assume "case x of (s, acc) \<Rightarrow> mrm_inv E s \<and> accounted (mrm_reqs E s) (mr_user s) acc"
    and "mrm_hist E x y"
  then show "case y of (s, acc) \<Rightarrow> mrm_inv E s \<and> accounted (mrm_reqs E s) (mr_user s) acc"
    using mrm_step_inv [OF library] mrm_step_accounted [OF library records]
    by (auto elim!: mrm_hist.cases)
qed

context master_rm_recording
begin

lemma history_accounted:
  "reach (\<lambda>(s, acc). mrm_begun E s \<and> mr_user s = [] \<and> acc = []) (mrm_hist E) (s, acc) \<Longrightarrow>
     accounted (mrm_reqs E s) (mr_user s) acc"
  using hist.reach_inv by fastforce

end

interpretation ref_recording: master_rm_recording ref_master_env
  by unfold_locales (simp_all add: recording_def)



end
