(* ===== verification/Master_Laws.thy ===== *)
theory Master_Laws
  imports Master Master_Request_Laws
begin

text \<open>
  The host's state machine with everything that runs beside it: the timer thread of its
  request manager, the transport, and the user. It keeps the contract of the request manager,
  so the manager's invariant holds in every state it reaches.
\<close>

section \<open>Which timers there are\<close>

text \<open>
  Keep-alives are off and every pending timer is one of \<open>C\<close>.
\<close>

definition timers_in ::
  "('q, 'tr, 'c, 'cb, 'u) master_env \<Rightarrow> master_timer set \<Rightarrow> ('q, 'tr, 'c, 'u) master_rm \<Rightarrow> bool" where
  "timers_in R C s \<longleftrightarrow> \<not> mr_keepalive_mngt s
     \<and> (\<forall>i t. mrm_timers R s i = Some t \<longrightarrow> t_callback t \<in> C)"

text \<open>The invariant of the manager together with it.\<close>

definition rm_in ::
  "('q, 'tr, 'c, 'cb, 'u) master_env \<Rightarrow> master_timer set \<Rightarrow> ('q, 'tr, 'c, 'u) master_rm \<Rightarrow> bool" where
  "rm_in R C s \<longleftrightarrow> mrm_inv R s \<and> timers_in R C s"

lemma rm_in_frame:
  assumes "mrm_frame s' = mrm_frame s"
  shows "rm_in R C s' = rm_in R C s"
  by (simp add: rm_in_def timers_in_def mrm_frame_inv [OF assms])

lemma rm_in_sends:
  "(\<And>x. preserves (\<lambda>s. mrm_frame s = x) m) \<Longrightarrow> preserves (rm_in R C) m"
  by (rule preservesI) (use rm_in_frame in \<open>fastforce simp: preserves_def\<close>)

lemma rm_in_reset:
  assumes "rm_in R C s"
  shows "mrm_reset_ka_mngt R s = (Inr (), s)"
  using assms by (simp add: rm_in_def timers_in_def mrm_reset_ka_mngt_def prog_run)

lemma rm_in_erase:
  assumes laws: "master_laws R" and s: "rm_in R C s" and "\<not> is_timer Cmd_timer True (mrm_timers R s i)"
  shows "rm_in R C (s\<lparr>mr_timeout_queue := tq_erase (me_tq R) (mr_timeout_queue s) i\<rparr>)"
proof -
  note v = s [unfolded rm_in_def mrm_inv_def, THEN conjunct1]
  have "mr_keepalive_mngt s \<longrightarrow> i \<noteq> mr_keepalive_mngt_id s"
    using s by (simp add: rm_in_def timers_in_def)
  from rm_view_erase [OF v assms(3) this] s laws show ?thesis
    by (auto simp: rm_in_def mrm_inv_def timers_in_def split: if_splits)
qed

lemma rm_in_send_hip:
  assumes laws: "master_laws R" and s: "rm_in R C s" and C: "Dip_timer \<in> C"
    and run: "mrm_send_hip R i t s = (r, s')"
  shows "rm_in R C s' \<and> mrm_reqs R s' = mrm_reqs R s \<and> mr_running s' = mr_running s"
proof -
  obtain x s1 where tx: "mrm_transmit R (\<lambda>pid. make_hip (me_mem R) pid i) s = (x, s1)" by fastforce
  note f = mrm_transmit_reset(1) [OF tx]
  have run1: "mr_running s1 = mr_running s"
  proof -
    have "preserves (\<lambda>x. mr_running x = mr_running s) (mrm_transmit R (\<lambda>pid. make_hip (me_mem R) pid i))"
      unfolding mrm_transmit_def mrm_make_def mrm_write_def
      by (rule preservesI) (auto simp: prog_run split: prod.splits sum.splits option.splits)
    from preserves_run [OF this refl tx] show ?thesis .
  qed
  have s1: "rm_in R C s1" using s by (simp add: rm_in_frame [OF f])
  have inv': "mrm_inv R s'" "mrm_reqs R s' = mrm_reqs R s"
    using mrm_send_hip_run [OF laws _ run] s by (simp_all add: rm_in_def)
  show ?thesis
  proof (cases x)
    case (Inl e)
    then have "s' = s1" using run tx by (auto simp: mrm_send_hip_def run_bindE)
    then show ?thesis using s1 inv' run1 by simp
  next
    case (Inr u)
    obtain j s2 where add: "mrm_add_timer R (ticks t) Dip_timer s1 = (Inr j, s2)"
      using mrm_add_timer_run [OF laws] by (metis surj_pair)
    have s': "s' = s2\<lparr>mr_dip_id := j\<rparr>" using run tx Inr add by (simp add: mrm_send_hip_def prog_run)
    obtain q where q: "s2 = s1\<lparr>mr_timeout_queue := q\<rparr>"
      "mrm_timers R s2 = (mrm_timers R s1)(j \<mapsto> \<lparr>t_callback = Dip_timer, t_start = mr_now s1,
         t_period = ticks t, t_repeating = False\<rparr>)"
      using mrm_add_timer_run [OF laws add] by auto
    have "timers_in R C s'"
      using s1 C by (auto simp: rm_in_def timers_in_def s' q(2)) (simp add: q(1))
    then show ?thesis using inv' run1 by (simp add: rm_in_def s' q(1))
  qed
qed

text \<open>The statements a command is made of.\<close>

lemma timers_in_frame:
  assumes "mrm_frame s' = mrm_frame s"
  shows "timers_in R C s' = timers_in R C s"
  by (simp add: timers_in_def mrm_frame_inv [OF assms])

lemma timers_in_sends:
  "(\<And>x. preserves (\<lambda>s. mrm_frame s = x) m) \<Longrightarrow> preserves (timers_in R C) m"
  by (rule preservesI) (use timers_in_frame in \<open>fastforce simp: preserves_def\<close>)

lemmas timers_in_sends' [hoare] =
  timers_in_sends [OF mrm_write_frame] timers_in_sends [OF mrm_make_frame]
  timers_in_sends [OF mrm_transmit_frame] timers_in_sends [OF mrm_call_frame]

lemma timers_in_reset [hoare]: "preserves (timers_in R C) (mrm_reset_ka_mngt R')"
  by (rule preservesI) (simp add: timers_in_def mrm_reset_ka_mngt_def prog_run)

lemma timers_in_add_repeating:
  assumes "master_laws R" and "cb \<in> C"
  shows "preserves (timers_in R C) (mrm_add_repeating R t cb)"
proof (rule preservesI)
  fix s assume s: "timers_in R C s"
  obtain r s' where run: "mrm_add_repeating R t cb s = (r, s')" by fastforce
  obtain i q where "s' = s\<lparr>mr_timeout_queue := q\<rparr>" and
    T: "mrm_timers R s' = (mrm_timers R s)(i \<mapsto> \<lparr>t_callback = cb, t_start = mr_now s, t_period = t, t_repeating = True\<rparr>)"
    using mrm_add_repeating_run [OF assms(1) run] by auto
  then have "mr_keepalive_mngt s' = mr_keepalive_mngt s" by simp
  then show "timers_in R C (snd (mrm_add_repeating R t cb s))"
    using s assms(2) by (auto simp: run timers_in_def T split: if_splits)
qed

lemma timers_in_insert [hoare]: "preserves (timers_in R C) (mrm_insert R' r)"
  by (rule preservesI) (auto simp: mrm_insert_def prog_run timers_in_def split: prod.split)

lemma timers_in_requests [hoare]: "preserves (timers_in R C) (modifyE (\<lambda>s. s\<lparr>mr_requests := f s\<rparr>))"
  by (rule preserves_modifyE) (simp add: timers_in_def)

lemma timers_in_erase:
  "master_laws R \<Longrightarrow> preserves (timers_in R C) (mrm_erase_timer R i)"
  by (rule preservesI) (simp add: mrm_erase_timer_run timers_in_def)

lemma rm_in_send_command:
  assumes laws: "master_laws R" and C: "Cmd_timer \<in> C"
  shows "preserves (rm_in R C) (mrm_send_command R type data cb t)"
proof -
  have "preserves (timers_in R C) (mrm_send_command R type data cb t)"
    unfolding mrm_send_command_def mrm_send_command_write_def
    by (intro hoare timers_in_add_repeating [OF laws C]) (auto intro: hoare)
  then show ?thesis
    using mrm_send_command_run [OF laws] unfolding rm_in_def preserves_def by (metis surjective_pairing)
qed

lemma mrm_cmd_timeout_inv:
  assumes "master_laws R" and "mrm_inv R s"
  shows "mrm_inv R (snd (mrm_cmd_timeout_cb R i s))"
proof (cases "i \<in> req_id ` mrm_reqs R s")
  case True
  then obtain r where "r \<in> mrm_reqs R s" "req_id r = i" by blast
  then show ?thesis using mrm_cmd_timeout_run [OF assms] by (metis surjective_pairing)
next
  case False
  then show ?thesis using mrm_cmd_timeout_none [OF assms(1) False] assms(2) by simp
qed

lemma rm_in_cmd_timeout:
  assumes laws: "master_laws R"
  shows "preserves (rm_in R C) (mrm_cmd_timeout_cb R i)"
proof -
  have "preserves (timers_in R C) (mrm_cmd_timeout_cb R i)"
    unfolding mrm_cmd_timeout_cb_def
    by (intro hoare) (auto intro!: hoare timers_in_erase [OF laws] split: option.split)
  then show ?thesis
    using mrm_cmd_timeout_inv [OF laws] unfolding rm_in_def preserves_def by blast
qed

lemma rm_in_fire:
  assumes laws: "master_laws R" and t: "mrm_timers R s i = Some t" and s: "rm_in R C s"
  shows "rm_in R C (snd (mrm_fire R i s))"
proof -
  have T: "timeout_queue_laws (me_tq R)" using laws by (simp add: master_laws_def)
  obtain r s' where run: "mrm_fire R i s = (r, s')" by fastforce
  have s': "s' = s\<lparr>mr_timeout_queue := tq_fire (me_tq R) (mr_timeout_queue s) i\<rparr>"
    using run by (simp add: mrm_fire_def prog_run)
  obtain b where b: "mrm_timers R s' = (mrm_timers R s)(i := if t_repeating t then Some (t\<lparr>t_start := b\<rparr>) else None)"
    using tq_fire_law(2) [OF T t [unfolded mrm_timers_def]] by (auto simp: s' mrm_views)
  have "mr_keepalive_mngt s' = mr_keepalive_mngt s" by (simp add: s')
  then have "timers_in R C s'"
    using s t b by (auto simp: rm_in_def timers_in_def split: if_splits)
  moreover have "mrm_inv R s'" using mrm_fire_inv [OF laws _ t run] s by (simp add: rm_in_def)
  ultimately show ?thesis by (simp add: run rm_in_def)
qed

lemma rm_in_start:
  assumes laws: "master_laws R" and inv: "mrm_inv R s" and off: "\<not> mr_running s"
    and run: "mrm_start R s = (r, s')"
  shows "rm_in R C s' \<and> mr_running s' \<and> r = Inr ()"
proof -
  have "set (mr_ka_ids s) \<subseteq> mrm_used R s" using inv by (simp add: mrm_inv_def rm_view_def)
  from mrm_start_begun [OF laws off this run] show ?thesis
    using mrm_begun_inv by (auto simp: rm_in_def timers_in_def mrm_begun_def)
qed

lemma rm_in_none: "rm_in R C s \<Longrightarrow> Ka_timer \<notin> C \<Longrightarrow> no_ka_timer R s"
  unfolding rm_in_def timers_in_def no_ka_timer_def by metis

lemma rm_in_mono: "rm_in R C s \<Longrightarrow> C \<subseteq> D \<Longrightarrow> rm_in R D s"
  by (auto simp: rm_in_def timers_in_def)

section \<open>Steps\<close>

text \<open>The callback of a timer, as the timer thread runs it.\<close>

fun ms_timer ::
  "('q, 'm, 'tr, 'c, 'cb, 'u) master_app_env \<Rightarrow> nat \<Rightarrow> master_timer \<Rightarrow>
   (('q, 'm, 'tr, 'c, 'u) master, unit) stmt" where
  "ms_timer E i Cmd_timer = ms_on_rm (mrm_cmd_timeout_cb (ma_rm E) i)"
| "ms_timer E i Ka_mngt_timer = ms_on_rm (mrm_ka_mngt_timeout_cb (ma_rm E))"
| "ms_timer E i Ka_timer = mrm_ka_timeout_cb (Some (ms_timeout_cb E))"
| "ms_timer E i Dip_timer = mrm_dip_timeout_cb (Some (ms_timeout_cb E))"

text \<open>
  One step: the handler of a pass, one of the other functions of the state, a timer that runs
  out, a tick of the timer thread, anything the transport does by itself, or a call of the
  user. \<open>ms_catch\<close> ends with \<open>Inr ()\<close> unless the run has no defined continuation: there is no
  next state then.
\<close>

inductive ms_step ::
  "('q, 'm, 'tr, 'c, 'cb, 'u) master_app_env \<Rightarrow> ('q, 'm, 'tr, 'c, 'u) master \<Rightarrow>
   ('q, 'm, 'tr, 'c, 'u) master \<Rightarrow> bool" for E where
  pass: "ms_running s \<Longrightarrow>
    ms_catch (bindE (ms_handler E (ms_curr s)) (\<lambda>_. retE ())) (s\<lparr>ms_nb_loop := ms_nb_loop s + 1\<rparr>)
      = (Inr (), s') \<Longrightarrow> ms_step E s s'"
| stay: "ms_running s \<Longrightarrow> 0 < ms_nb_loop s \<Longrightarrow> (c, check) \<in> set (ms_checks E (ms_curr s)) \<Longrightarrow>
    check s = (Inr Stay_curr_state, s') \<Longrightarrow> ms_step E s s'"
| goto: "ms_running s \<Longrightarrow> 0 < ms_nb_loop s \<Longrightarrow> (c, check) \<in> set (ms_checks E (ms_curr s)) \<Longrightarrow>
    check s = (Inr Goto_next_state, s1) \<Longrightarrow>
    ms_catch (ms_transition_handler E (ms_curr s) c) (s1\<lparr>ms_curr := c, ms_nb_loop := 0\<rparr>) = (Inr (), s') \<Longrightarrow>
    ms_step E s s'"
| timer: "mr_running (ms_rm s) \<Longrightarrow> mrm_timers (ma_rm E) (ms_rm s) i = Some t \<Longrightarrow>
    bindE (ms_on_rm (mrm_fire (ma_rm E) i)) (\<lambda>_. ms_timer E i (t_callback t)) s = (r, s') \<Longrightarrow>
    ms_step E s s'"
| tick: "ms_on_rm mrm_tick s = (r, s') \<Longrightarrow> ms_step E s s'"
| transport: "ms_step E s (s\<lparr>ms_rm := (ms_rm s)\<lparr>mr_transport := t\<rparr>\<rparr>)"
| send_command: "ms_send_command E type data cb s = (r, s') \<Longrightarrow> ms_step E s s'"
| async_connect: "ms_async_connect E s = (r, s') \<Longrightarrow> ms_step E s s'"
| async_disconnect: "ms_async_disconnect E s = (r, s') \<Longrightarrow> ms_step E s s'"
| connect_begin: "ms_connect_begin E s = (b, s') \<Longrightarrow> ms_step E s s'"
| connect_end: "ms_connect_end E s = (r, s') \<Longrightarrow> ms_step E s s'"
| start: "ms_start E s = (r, s') \<Longrightarrow> ms_step E s s'"
| stop: "ms_stop E s = (r, s') \<Longrightarrow> ms_step E s s'"

text \<open>A master that was constructed.\<close>

definition ms_made ::
  "('q, 'm, 'tr, 'c, 'cb, 'u) master_app_env \<Rightarrow> ('q, 'm, 'tr, 'c, 'u) master \<Rightarrow> bool" where
  "ms_made E s \<longleftrightarrow> ms_curr s = Init \<and> ms_nb_loop s = 0 \<and> \<not> ms_running s
     \<and> \<not> mr_running (ms_rm s) \<and> mrm_begun (ma_rm E) (ms_rm s)"

definition master_app_laws :: "('q, 'm, 'tr, 'c, 'cb, 'u) master_app_env \<Rightarrow> bool" where
  "master_app_laws E \<longleftrightarrow> master_laws (ma_rm E) \<and> event_mngr_laws (ma_evt E)"

section \<open>The invariant\<close>

text \<open>
  What is known of the request manager: before the first pass of \<open>Connecting\<close> it is stopped,
  after it only identification timeouts can be pending; before the first pass of \<open>Connected\<close>
  the user may have sent commands, but keep-alives are off.
\<close>

definition ms_phase ::
  "('q, 'tr, 'c, 'cb, 'u) master_env \<Rightarrow> app_state \<Rightarrow> bool \<Rightarrow> ('q, 'tr, 'c, 'u) master_rm \<Rightarrow> bool" where
  "ms_phase R c passed x \<longleftrightarrow> mrm_inv R x \<and>
     (case c of
        Init \<Rightarrow> \<not> mr_running x
      | Disconnected \<Rightarrow> passed \<longrightarrow> \<not> mr_running x
      | Connecting \<Rightarrow> if passed then rm_in R {Dip_timer} x else \<not> mr_running x
      | Connected \<Rightarrow> \<not> passed \<longrightarrow> rm_in R {Cmd_timer, Dip_timer} x)"

definition ms_inv ::
  "('q, 'm, 'tr, 'c, 'cb, 'u) master_app_env \<Rightarrow> ('q, 'm, 'tr, 'c, 'u) master \<Rightarrow> bool" where
  "ms_inv E s \<longleftrightarrow> (\<not> ms_running s \<longrightarrow> \<not> mr_running (ms_rm s))
     \<and> ms_phase (ma_rm E) (ms_curr s) (0 < ms_nb_loop s) (ms_rm s)"

lemma ms_made_inv: "ms_made E s \<Longrightarrow> ms_inv E s"
  by (simp add: ms_made_def ms_inv_def ms_phase_def mrm_begun_inv)

text \<open>
  A property of the request manager, with the control state of the master fixed, and the
  statements that keep it.
\<close>

definition ms_with ::
  "(('q, 'tr, 'c, 'u) master_rm \<Rightarrow> bool) \<Rightarrow> app_state \<times> nat \<times> bool \<Rightarrow>
   ('q, 'm, 'tr, 'c, 'u) master \<Rightarrow> bool" where
  "ms_with P x s \<longleftrightarrow> P (ms_rm s) \<and> (ms_curr s, ms_nb_loop s, ms_running s) = x"

definition framed :: "(('q, 'tr, 'c, 'u) master_rm \<Rightarrow> bool) \<Rightarrow> bool" where
  "framed P \<longleftrightarrow> (\<forall>x y. mrm_frame y = mrm_frame x \<longrightarrow> mr_running y = mr_running x \<longrightarrow> P x \<longrightarrow> P y)"

lemma framedI:
  "(\<And>x y. mrm_frame y = mrm_frame x \<Longrightarrow> mr_running y = mr_running x \<Longrightarrow> P x \<Longrightarrow> P y) \<Longrightarrow> framed P"
  unfolding framed_def by blast

lemma framedD: "framed P \<Longrightarrow> mrm_frame y = mrm_frame x \<Longrightarrow> mr_running y = mr_running x \<Longrightarrow> P x \<Longrightarrow> P y"
  unfolding framed_def by blast

lemma framed_phase: "framed (ms_phase (R :: ('q, 'tr, 'c, 'cb, 'u) master_env) c b)"
proof (rule framedI)
  fix x y :: "('q, 'tr, 'c, 'u) master_rm"
  assume f: "mrm_frame y = mrm_frame x" and r: "mr_running y = mr_running x" and p: "ms_phase R c b x"
  show "ms_phase R c b y"
    using p by (cases c; cases b)
      (simp_all add: ms_phase_def r mrm_frame_inv(1) [OF f] rm_in_frame [OF f])
qed

lemma with_on_rm [hoare]: "preserves P m \<Longrightarrow> preserves (ms_with P x) (ms_on_rm m)"
  unfolding ms_on_rm_def
  by (rule preserves_zoomE) (simp add: ms_with_def preserves_def)

lemma with_on_transport:
  assumes "framed P"
  shows "preserves (ms_with P x) (ms_on_transport m)"
  unfolding ms_on_transport_def
proof (rule with_on_rm, rule preservesI)
  fix s assume s: "P s"
  show "P (snd (case mr_transport s of None \<Rightarrow> (Inl Undefined_behaviour, s)
      | Some t \<Rightarrow> (case m t of (r, t') \<Rightarrow> (r, s\<lparr>mr_transport := Some t'\<rparr>))))"
    using s framedD [OF assms _ _ s] by (simp split: option.split prod.split)
qed

lemma with_on_user:
  assumes "framed P"
  shows "preserves (ms_with P x) (ms_on_user m)"
  unfolding ms_on_user_def
proof (rule with_on_rm, rule preservesI)
  fix s assume s: "P s"
  show "P (snd (zoomE mr_user (\<lambda>u s. s\<lparr>mr_user := u\<rparr>) m s))"
    using framedD [OF assms _ _ s] by (simp add: run_zoomE split: prod.split)
qed

lemma with_read: "framed P \<Longrightarrow> preserves (ms_with P x) (ms_read E)"
  unfolding ms_read_def by (rule with_on_transport)

lemma with_clear_queues: "framed P \<Longrightarrow> preserves (ms_with P x) (ms_clear_queues E)"
  unfolding ms_clear_queues_def by (rule with_on_transport)

lemma with_notify [hoare]: "preserves (ms_with P x) (ms_notify E e)"
  by (rule preservesI) (simp add: ms_notify_def prog_run ms_with_def)

lemma with_erase [hoare]: "preserves (ms_with P x) (ms_erase E e)"
  by (rule preservesI) (simp add: ms_erase_def ms_with_def split: prod.split)

lemma with_modify:
  "(\<And>s. (ms_rm (f s), ms_curr (f s), ms_nb_loop (f s), ms_running (f s))
       = (ms_rm s, ms_curr s, ms_nb_loop s, ms_running s)) \<Longrightarrow>
     preserves (ms_with P x) (modifyE f)"
  by (rule preserves_modifyE) (simp add: ms_with_def)

lemma with_set_slave_id [hoare]: "preserves (ms_with P x) (ms_set_slave_id p)"
  unfolding ms_set_slave_id_def by (intro hoare) (simp add: ms_with_def)

lemma with_track_id [hoare]: "preserves (ms_with P x) (ms_track_id p)"
  unfolding ms_track_id_def by (intro hoare) (simp_all add: ms_with_def)

lemma with_weaken: "ms_with P x s \<Longrightarrow> (\<And>y. P y \<Longrightarrow> Q y) \<Longrightarrow> ms_with Q x s"
  by (simp add: ms_with_def)

section \<open>The handlers keep the invariant\<close>

abbreviation here :: "('q, 'm, 'tr, 'c, 'u) master \<Rightarrow> app_state \<times> nat \<times> bool" where
  "here s \<equiv> (ms_curr s, ms_nb_loop s, ms_running s)"

lemma ms_disconnected_pass:
  assumes "mrm_inv R (ms_rm s)" and "ms_nb_loop s = 1 \<or> \<not> mr_running (ms_rm s)"
  shows "ms_with (\<lambda>x. mrm_inv R x \<and> \<not> mr_running x) (here s) (snd (ms_handler_disconnected E s))"
  unfolding ms_handler_disconnected_def
proof (rule preserves_after)
  show "ms_with (\<lambda>x. mrm_inv R x \<and> \<not> mr_running x) (here s) (snd (withE (\<lambda>s. whenE (ms_nb_loop s = 1)
      (blockE [modifyE (\<lambda>s. s\<lparr>ms_slave_id := no_identification\<rparr>), ms_on_rm mrm_stop])) s))"
    using assms by (auto simp: prog_run ms_on_rm_def mrm_stop_def ms_with_def mrm_inv_def)
  show "preserves (ms_with (\<lambda>x. mrm_inv R x \<and> \<not> mr_running x) (here s))
      (bindE (modifyE (\<lambda>s. s\<lparr>ms_evt := em_wait (ma_evt E) (ms_evt s)\<rparr>)) (\<lambda>_. retE Stay_curr_state))"
    by (intro hoare) (simp add: ms_with_def)
qed

text \<open>In \<open>Connecting\<close> only identification timers are made, and \<^verbatim>\<open>ack_dip\<close> can only hit one of them.\<close>

lemma rm_in_hip [hoare]:
  "master_laws R \<Longrightarrow> Dip_timer \<in> C \<Longrightarrow> preserves (rm_in R C) (mrm_send_hip R i t)"
  by (rule preservesI) (metis rm_in_send_hip surjective_pairing)

lemma rm_in_ack_dip [hoare]:
  assumes "master_laws R" and "Cmd_timer \<notin> C"
  shows "preserves (rm_in R C) (mrm_ack_dip R)"
proof (rule preservesI)
  fix s assume s: "rm_in R C s"
  have "\<not> is_timer Cmd_timer True (mrm_timers R s (mr_dip_id s))"
    using s assms(2) unfolding rm_in_def timers_in_def by (metis is_timerE)
  from rm_in_erase [OF assms(1) s this] show "rm_in R C (snd (mrm_ack_dip R s))"
    by (simp add: mrm_ack_dip_def run_withE mrm_erase_timer_run)
qed

lemma framed_rm_in: "framed (rm_in R C)"
proof (rule framedI)
  show "rm_in R C y" if "mrm_frame y = mrm_frame x" "rm_in R C x" for x y
    using that(2) by (simp only: rm_in_frame [OF that(1)])
qed

lemma framed_inv: "framed (mrm_inv R)"
proof (rule framedI)
  show "mrm_inv R y" if "mrm_frame y = mrm_frame x" "mrm_inv R x" for x y
    using that(2) by (simp only: mrm_frame_inv(1) [OF that(1)])
qed

lemma framed_off: "framed (\<lambda>x. mrm_inv R x \<and> \<not> mr_running x)"
proof (rule framedI)
  show "mrm_inv R y \<and> \<not> mr_running y"
    if "mrm_frame y = mrm_frame x" "mr_running y = mr_running x" "mrm_inv R x \<and> \<not> mr_running x" for x y
    using that(2,3) by (simp only: mrm_frame_inv(1) [OF that(1)]) simp
qed

text \<open>\<^verbatim>\<open>handler_connecting\<close> behind its first-pass block.\<close>

definition ms_connecting_body ::
  "('q, 'm, 'tr, 'c, 'cb, 'u) master_app_env \<Rightarrow> (('q, 'm, 'tr, 'c, 'u) master, transition_status) stmt" where
  "ms_connecting_body E =
     bindE (bindE (ms_attempt_due E) (\<lambda>due. whenE due
              (blockE [modifyE (\<lambda>s. s\<lparr>ms_connection_attempts := ms_connection_attempts s + 1\<rparr>),
                       withE (\<lambda>s. ms_on_rm (mrm_send_hip (ma_rm E) (ms_master_id s) connecting_timeout))]))) (\<lambda>_.
     bindE (ms_read E) (\<lambda>p.
     case p of
       None \<Rightarrow> retE Stay_curr_state
     | Some p \<Rightarrow>
         bindE (case packet_type p of
             Some Dip \<Rightarrow>
               blockE [modifyE (\<lambda>s. s\<lparr>ms_received_packet_id := packet_id p\<rparr>),
                       ms_set_slave_id p,
                       ms_on_rm (mrm_ack_dip (ma_rm E)),
                       ms_notify E Dip_received]
           | _ \<Rightarrow> retE ())
         (\<lambda>_. retE Stay_curr_state)))"

definition ms_connecting_first ::
  "('q, 'm, 'tr, 'c, 'cb, 'u) master_app_env \<Rightarrow> (('q, 'm, 'tr, 'c, 'u) master, unit) stmt" where
  "ms_connecting_first E = withE (\<lambda>s. whenE (ms_nb_loop s = 1)
     (blockE [ms_clear_queues E,
              ms_on_rm (mrm_start (ma_rm E)),
              bindE (ms_erase E Dip_received) (\<lambda>_. retE ()),
              modifyE (\<lambda>s. s\<lparr>ms_connection_attempts := 0\<rparr>)]))"

lemma ms_handler_connecting_split:
  "ms_handler_connecting E = bindE (ms_connecting_first E) (\<lambda>_. ms_connecting_body E)"
  unfolding ms_handler_connecting_def ms_connecting_first_def ms_connecting_body_def ..

lemma ms_connecting_rest:
  assumes laws: "master_laws (ma_rm E)"
  shows "preserves (ms_with (rm_in (ma_rm E) {Dip_timer}) x) (ms_connecting_body E)"
proof -
  have due: "preserves (ms_with (rm_in (ma_rm E) {Dip_timer}) x) (ms_attempt_due E)"
    unfolding ms_attempt_due_def by (intro hoare)
  show ?thesis
    unfolding ms_connecting_body_def
    by (intro hoare due laws)
      (auto intro!: hoare with_modify with_read framed_rm_in laws simp: ms_with_def [of _ _ "f s" for f s]
        ms_with_def split: option.split packet_type.split)
qed

text \<open>The first pass of \<open>Connecting\<close> starts the request manager afresh.\<close>

lemma ms_clear_queues_throws:
  "ms_clear_queues E s = (Inl e, s') \<Longrightarrow> e = Undefined_behaviour"
  by (auto simp: ms_clear_queues_def ms_on_transport_def ms_on_rm_def run_zoomE
    split: option.splits prod.splits)

lemma ms_connecting_started:
  assumes laws: "master_laws (ma_rm E)" and inv: "mrm_inv (ma_rm E) (ms_rm s)"
    and off: "\<not> mr_running (ms_rm s)" and nb: "ms_nb_loop s = 1"
    and run: "ms_connecting_first E s = (r, s')" and def_r: "r \<noteq> Inl Undefined_behaviour"
  shows "r = Inr () \<and> ms_with (rm_in (ma_rm E) {Dip_timer}) (here s) s' \<and> ms_connection_attempts s' = 0
    \<and> em_events (ma_evt E) (ms_evt s') \<subseteq> em_events (ma_evt E) (snd (em_erase (ma_evt E) (ms_evt s) Dip_received))"
proof -
  have cq: "preserves (ms_with (\<lambda>x. mrm_inv (ma_rm E) x \<and> \<not> mr_running x) (here s)) (ms_clear_queues E)"
    by (rule with_clear_queues [OF framed_off])
  obtain r1 s1 where clear: "ms_clear_queues E s = (r1, s1)" by fastforce
  have s1: "ms_with (\<lambda>x. mrm_inv (ma_rm E) x \<and> \<not> mr_running x) (here s) s1"
    using preserves_run [OF cq _ clear] off inv by (simp add: ms_with_def)
  have evt: "ms_evt s1 = ms_evt s"
    using clear by (auto simp: ms_clear_queues_def ms_on_transport_def ms_on_rm_def run_zoomE
      split: option.splits prod.splits)
  obtain u where r1: "r1 = Inr u"
  proof (cases r1)
    case (Inl e)
    then have "r = Inl Undefined_behaviour"
      using run clear ms_clear_queues_throws nb by (fastforce simp: ms_connecting_first_def prog_run)
    with def_r show ?thesis by contradiction
  qed
  obtain r2 x2 where start: "mrm_start (ma_rm E) (ms_rm s1) = (r2, x2)" by fastforce
  have x2: "rm_in (ma_rm E) {Dip_timer} x2" "r2 = Inr ()"
    using rm_in_start [OF laws _ _ start] s1 by (simp_all add: ms_with_def)
  show ?thesis
    using run clear nb x2 s1 evt start
    by (auto simp: ms_connecting_first_def prog_run r1 ms_on_rm_def ms_erase_def ms_with_def split: prod.splits)
qed

lemma ms_connecting_pass:
  assumes laws: "master_laws (ma_rm E)" and inv: "mrm_inv (ma_rm E) (ms_rm s)"
    and first: "ms_nb_loop s = 1 \<Longrightarrow> \<not> mr_running (ms_rm s)"
    and later: "ms_nb_loop s \<noteq> 1 \<Longrightarrow> rm_in (ma_rm E) {Dip_timer} (ms_rm s)"
    and run: "ms_handler_connecting E s = (r, s')" and def_r: "r \<noteq> Inl Undefined_behaviour"
  shows "ms_with (rm_in (ma_rm E) {Dip_timer}) (here s) s'"
proof -
  obtain r1 s1 where one: "ms_connecting_first E s = (r1, s1)" by fastforce
  have "r1 = Inr () \<and> ms_with (rm_in (ma_rm E) {Dip_timer}) (here s) s1"
  proof (cases "ms_nb_loop s = 1")
    case True
    have "r1 \<noteq> Inl Undefined_behaviour"
      using run one def_r by (auto simp: ms_handler_connecting_split run_bindE)
    from ms_connecting_started [OF laws inv first [OF True] True one this] show ?thesis by blast
  next
    case False
    then show ?thesis using one later by (auto simp: ms_connecting_first_def prog_run ms_with_def)
  qed
  then show ?thesis
    using preserves_run [OF ms_connecting_rest [OF laws]] run one
    by (auto simp: ms_handler_connecting_split run_bindE)
qed

text \<open>In \<open>Connected\<close> keep-alives are started once, before any was sent.\<close>

lemma ms_connected_pass:
  assumes laws: "master_laws (ma_rm E)" and inv: "mrm_inv (ma_rm E) (ms_rm s)"
    and first: "ms_nb_loop s = 1 \<Longrightarrow> rm_in (ma_rm E) {Cmd_timer, Dip_timer} (ms_rm s)"
  shows "ms_with (mrm_inv (ma_rm E)) (here s) (snd (ms_handler_connected E s))"
  unfolding ms_handler_connected_def
proof (rule preserves_after)
  let ?R = "ma_rm E"
  show "ms_with (mrm_inv ?R) (here s) (snd (withE (\<lambda>s. whenE (ms_nb_loop s = 1)
      (ms_on_rm (mrm_start_keepalive_management ?R keepalive_interval keepalive_timeout))) s))"
  proof (cases "ms_nb_loop s = 1")
    case False
    then show ?thesis using inv by (simp add: prog_run ms_with_def)
  next
    case True
    obtain r x where run: "mrm_start_keepalive_management ?R keepalive_interval keepalive_timeout (ms_rm s) = (r, x)"
      by fastforce
    have "no_ka_timer ?R (ms_rm s)" by (rule rm_in_none [OF first [OF True]]) simp
    from mrm_start_ka_run [OF laws inv this run] True run show ?thesis
      by (simp add: prog_run ms_on_rm_def ms_with_def)
  qed
  have ack: "preserves (mrm_inv ?R) (mrm_ack_command ?R p)" for p
    by (rule preservesI) (metis mrm_ack_command_run [OF laws] surjective_pairing)
  have ka: "preserves (mrm_inv ?R) (mrm_ack_keepalive ?R)"
    by (rule preservesI) (metis mrm_ack_keepalive_run [OF laws] surjective_pairing)
  show "preserves (ms_with (mrm_inv ?R) (here s)) (bindE (ms_read E) (\<lambda>p.
     case p of
       None \<Rightarrow> retE Stay_curr_state
     | Some p \<Rightarrow>
         bindE (ms_track_id p) (\<lambda>_.
         bindE (case packet_type p of
             Some Cmd_ack \<Rightarrow> ms_on_rm (mrm_ack_command (ma_rm E) p)
           | Some Data \<Rightarrow> withE (\<lambda>s.
               case ms_data_cb s of None \<Rightarrow> retE () | Some cb \<Rightarrow> ms_on_user (cb p))
           | Some Ka_ack \<Rightarrow> ms_on_rm (mrm_ack_keepalive (ma_rm E))
           | _ \<Rightarrow> retE ())
         (\<lambda>_. retE Stay_curr_state))))"
    by (intro hoare) (auto intro!: hoare with_read with_on_user framed_inv ack ka
      split: option.split packet_type.split)
qed

section \<open>The invariant is kept\<close>

text \<open>What the invariant says of the request manager, with the control state given.\<close>

definition ms_holds ::
  "('q, 'tr, 'c, 'cb, 'u) master_env \<Rightarrow> app_state \<times> nat \<times> bool \<Rightarrow> ('q, 'tr, 'c, 'u) master_rm \<Rightarrow> bool" where
  "ms_holds R y x \<longleftrightarrow> (case y of (c, n, run) \<Rightarrow> (\<not> run \<longrightarrow> \<not> mr_running x) \<and> ms_phase R c (0 < n) x)"

lemma framed_holds: "framed (ms_holds R y)"
  using framed_phase unfolding ms_holds_def framed_def by (cases y) (simp, blast)

lemma ms_inv_with: "ms_inv E s \<longleftrightarrow> ms_with (ms_holds (ma_rm E) (here s)) (here s) s"
  by (simp add: ms_inv_def ms_with_def ms_holds_def)

lemma ms_invI: "ms_with (ms_holds (ma_rm E) y) y s \<Longrightarrow> ms_inv E s"
  unfolding ms_inv_with by (simp add: ms_with_def)

lemma ms_inv_keep:
  assumes "preserves (ms_with (ms_holds (ma_rm E) (here s)) (here s)) m" and "ms_inv E s" and "m s = (r, s')"
  shows "ms_inv E s'"
  using preserves_run [OF assms(1) _ assms(3)] assms(2) ms_invI unfolding ms_inv_with by blast

lemma ms_catch_keep:
  assumes "ms_catch m s = (Inr (), s')"
  obtains r s1 where "m s = (r, s1)" "r \<noteq> Inl Undefined_behaviour" "\<And>P y. ms_with P y s1 \<Longrightarrow> ms_with P y s'"
proof -
  obtain r s1 where m: "m s = (r, s1)" by fastforce
  then have "r \<noteq> Inl Undefined_behaviour" "ms_rm s' = ms_rm s1 \<and> here s' = here s1"
    using assms by (auto simp: ms_catch_def prog_run split: sum.splits if_splits option.splits)
  with m show thesis using that by (simp add: ms_with_def)
qed

lemma ms_checks_keep:
  assumes "(c, check) \<in> set (ms_checks E d)" and P: "framed P"
  shows "preserves (ms_with P y) check"
proof -
  note d = ms_check_true_def ms_check_connection_requested_def ms_check_connected_def
    ms_check_disconnected_def ms_check_dip_timeout_def ms_check_ka_timeout_def
    ms_check_transport_closed_def ms_goto_if_def
  show ?thesis
    using assms(1) by (cases d)
      (auto simp: d intro!: hoare preserves_if with_modify with_on_transport P)
qed

lemma ms_checks_next:
  assumes "(c, check) \<in> set (ms_checks E d)" and "ms_phase R d True x"
  shows "ms_phase R c False x"
  using assms by (cases d) (auto simp: ms_phase_def rm_in_def timers_in_def)

lemma ms_transition_keep:
  "framed P \<Longrightarrow> preserves (ms_with P y) (ms_transition_handler E d c)"
  unfolding ms_transition_handler_def
  by (intro hoare with_modify) (auto intro!: hoare with_on_user split: option.split)

lemma ms_pass_inv:
  assumes laws: "master_laws (ma_rm E)" and inv: "ms_inv E s" and run: "ms_running s"
    and pass: "ms_catch (bindE (ms_handler E (ms_curr s)) (\<lambda>_. retE ())) (s\<lparr>ms_nb_loop := ms_nb_loop s + 1\<rparr>)
      = (Inr (), s')"
  shows "ms_inv E s'"
proof -
  let ?s = "s\<lparr>ms_nb_loop := ms_nb_loop s + 1\<rparr>"
  obtain r s1 where h: "bindE (ms_handler E (ms_curr s)) (\<lambda>_. retE ()) ?s = (r, s1)"
    "r \<noteq> Inl Undefined_behaviour" "\<And>P y. ms_with P y s1 \<Longrightarrow> ms_with P y s'"
    using ms_catch_keep [OF pass] by metis
  obtain r2 where h2: "ms_handler E (ms_curr s) ?s = (r2, s1)" "r2 \<noteq> Inl Undefined_behaviour"
    using h(1,2) by (auto simp: run_bindE run_retE split: prod.splits sum.splits)
  have h2': "ms_curr s = Disconnected \<Longrightarrow> s1 = snd (ms_handler_disconnected E ?s)"
    "ms_curr s = Connected \<Longrightarrow> s1 = snd (ms_handler_connected E ?s)"
    "ms_curr s = Connecting \<Longrightarrow> ms_handler_connecting E ?s = (r2, s1)"
    "ms_curr s = Init \<Longrightarrow> s1 = snd (ms_handler_init E ?s)"
    using h2(1) by simp_all
  have ph: "ms_phase (ma_rm E) (ms_curr s) (0 < ms_nb_loop s) (ms_rm s)" using inv by (simp add: ms_inv_def)
  then have v: "mrm_inv (ma_rm E) (ms_rm ?s)" by (simp add: ms_phase_def)
  have "ms_with (ms_phase (ma_rm E) (ms_curr s) True) (here ?s) s1"
  proof (cases "ms_curr s")
    case Init
    then show ?thesis using h2'(4) ph by (simp add: ms_handler_init_def prog_run ms_with_def ms_phase_def)
  next
    case Disconnected
    have "ms_nb_loop ?s = 1 \<or> \<not> mr_running (ms_rm ?s)" using ph Disconnected by (auto simp: ms_phase_def)
    from ms_disconnected_pass [OF v this, of E, folded h2'(1) [OF Disconnected]] show ?thesis
      by (rule with_weaken) (simp add: Disconnected ms_phase_def)
  next
    case Connecting
    have "ms_nb_loop ?s = 1 \<Longrightarrow> \<not> mr_running (ms_rm ?s)"
      and "ms_nb_loop ?s \<noteq> 1 \<Longrightarrow> rm_in (ma_rm E) {Dip_timer} (ms_rm ?s)"
      using ph Connecting by (auto simp: ms_phase_def)
    from ms_connecting_pass [OF laws v this h2'(3) [OF Connecting] h2(2)] show ?thesis
    proof (rule with_weaken)
      fix y assume "rm_in (ma_rm E) {Dip_timer} y"
      then show "ms_phase (ma_rm E) (ms_curr s) True y" unfolding Connecting ms_phase_def by (auto simp: rm_in_def)
    qed
  next
    case Connected
    have "ms_nb_loop ?s = 1 \<Longrightarrow> rm_in (ma_rm E) {Cmd_timer, Dip_timer} (ms_rm ?s)"
      using ph Connected by (auto simp: ms_phase_def)
    from ms_connected_pass [OF laws v this, folded h2'(2) [OF Connected]] show ?thesis
    proof (rule with_weaken)
      fix y assume "mrm_inv (ma_rm E) y"
      then show "ms_phase (ma_rm E) (ms_curr s) True y" unfolding Connected ms_phase_def by auto
    qed
  qed
  then have "ms_with (ms_holds (ma_rm E) (here ?s)) (here ?s) s1"
    using run by (simp add: ms_with_def ms_holds_def)
  then show ?thesis by (rule ms_invI [OF h(3)])
qed

lemma ms_goto_inv:
  assumes inv: "ms_inv E s" and run: "ms_running s" and nb: "0 < ms_nb_loop s"
    and c: "(c, check) \<in> set (ms_checks E (ms_curr s))" and check: "check s = (r, s1)"
    and goto: "ms_catch (ms_transition_handler E (ms_curr s) c) (s1\<lparr>ms_curr := c, ms_nb_loop := 0\<rparr>) = (Inr (), s')"
  shows "ms_inv E s'"
proof -
  let ?y = "(c, 0 :: nat, True)"
  have "ms_with (ms_phase (ma_rm E) (ms_curr s) True) (here s) s"
    using inv nb by (simp add: ms_inv_def ms_with_def)
  from preserves_run [OF ms_checks_keep [OF c framed_phase] this check]
  have "ms_phase (ma_rm E) (ms_curr s) True (ms_rm s1)" "ms_running s1"
    using run by (simp_all add: ms_with_def)
  then have s1: "ms_with (ms_holds (ma_rm E) ?y) ?y (s1\<lparr>ms_curr := c, ms_nb_loop := 0\<rparr>)"
    using ms_checks_next [OF c] by (simp add: ms_with_def ms_holds_def)
  obtain r2 s2 where h: "ms_transition_handler E (ms_curr s) c (s1\<lparr>ms_curr := c, ms_nb_loop := 0\<rparr>) = (r2, s2)"
    "\<And>P y. ms_with P y s2 \<Longrightarrow> ms_with P y s'"
    using ms_catch_keep [OF goto] by metis
  from preserves_run [OF ms_transition_keep [OF framed_holds] s1 h(1)] show ?thesis
    by (rule ms_invI [OF h(2)])
qed

text \<open>Timers run only while the manager does.\<close>

lemma ms_timer_inv:
  assumes laws: "master_laws (ma_rm E)" and inv: "ms_inv E s" and on: "mr_running (ms_rm s)"
    and t: "mrm_timers (ma_rm E) (ms_rm s) i = Some t"
    and run: "bindE (ms_on_rm (mrm_fire (ma_rm E) i)) (\<lambda>_. ms_timer E i (t_callback t)) s = (r, s')"
  shows "ms_inv E s'"
proof -
  let ?R = "ma_rm E"
  obtain q where fire: "mrm_fire ?R i (ms_rm s) = (Inr (), q)" "mr_running q = mr_running (ms_rm s)"
    by (simp add: mrm_fire_def prog_run)
  have ph: "ms_phase ?R (ms_curr s) (0 < ms_nb_loop s) (ms_rm s)" and on_s: "ms_running s"
    using inv on by (auto simp: ms_inv_def)
  have v: "mrm_inv ?R (ms_rm s)" using ph by (simp add: ms_phase_def)
  have v1: "mrm_inv ?R q" using mrm_fire_inv [OF laws v t fire(1)] by blast
  have in1: "rm_in ?R C q \<and> t_callback t \<in> C" if "rm_in ?R C (ms_rm s)" for C
    using rm_in_fire [OF laws t that] that t by (simp add: fire(1)) (auto simp: rm_in_def timers_in_def)
  have run1: "ms_timer E i (t_callback t) (s\<lparr>ms_rm := q\<rparr>) = (r, s')"
    using run by (simp add: run_bindE ms_on_rm_def run_zoomE fire(1))
  have notified: "preserves (ms_with P y) (mrm_ka_timeout_cb (Some (ms_timeout_cb E)))"
    "preserves (ms_with P y) (mrm_dip_timeout_cb (Some (ms_timeout_cb E)))" for P y
    by (auto simp: mrm_ka_timeout_cb_def mrm_dip_timeout_cb_def ms_timeout_cb_def intro!: hoare)
  have cmd: "preserves (mrm_inv ?R) (mrm_cmd_timeout_cb ?R i)"
    by (rule preservesI) (rule mrm_cmd_timeout_inv [OF laws])
  have mngt: "preserves (mrm_inv ?R) (mrm_ka_mngt_timeout_cb ?R)"
    by (rule preservesI) (metis mrm_ka_mngt_run [OF laws] surjective_pairing)
  have keep: "ms_with P (here s) s'"
    if "P q" "preserves P (mrm_cmd_timeout_cb ?R i)"
      "t_callback t = Ka_mngt_timer \<Longrightarrow> preserves P (mrm_ka_mngt_timeout_cb ?R)" for P
  proof -
    have "ms_with P (here s) (s\<lparr>ms_rm := q\<rparr>)" using that(1) by (simp add: ms_with_def)
    moreover have "preserves (ms_with P (here s)) (ms_timer E i (t_callback t))"
      using that(2,3) by (cases "t_callback t") (auto intro!: with_on_rm notified)
    ultimately show ?thesis using preserves_run run1 by metis
  qed
  have keep_in: "ms_with (rm_in ?R C) (here s) s'" if "rm_in ?R C (ms_rm s)" "Ka_mngt_timer \<notin> C" for C
    by (rule keep) (use in1 [OF that(1)] that(2) rm_in_cmd_timeout [OF laws] in auto)
  have "ms_with (ms_phase ?R (ms_curr s) (0 < ms_nb_loop s)) (here s) s'"
  proof -
    have "ms_with (mrm_inv ?R) (here s) s'" by (rule keep [OF v1 cmd mngt])
    moreover have "ms_curr s = Connecting \<Longrightarrow> 0 < ms_nb_loop s \<Longrightarrow> ms_with (rm_in ?R {Dip_timer}) (here s) s'"
      by (rule keep_in) (use ph in \<open>simp_all add: ms_phase_def\<close>)
    moreover have "ms_curr s = Connected \<Longrightarrow> \<not> 0 < ms_nb_loop s \<Longrightarrow>
        ms_with (rm_in ?R {Cmd_timer, Dip_timer}) (here s) s'"
      by (rule keep_in) (use ph in \<open>simp_all add: ms_phase_def\<close>)
    ultimately show ?thesis
      using ph on by (cases "ms_curr s") (auto simp: ms_phase_def ms_with_def)
  qed
  then have "ms_with (ms_holds ?R (here s)) (here s) s'"
    using on_s by (simp add: ms_with_def ms_holds_def)
  then show ?thesis by (rule ms_invI)
qed

text \<open>The other steps.\<close>

lemma ms_start_inv:
  assumes "ms_inv E s" and "ms_start E s = (r, s')"
  shows "ms_inv E s'"
proof (cases "ms_running s")
  case True
  then show ?thesis using assms by (simp add: ms_start_def prog_run)
next
  case False
  obtain r1 s1 where tr: "ms_on_transport (tr_start (me_tr (ma_rm E))) s = (r1, s1)" by fastforce
  have inv1: "ms_inv E s1"
    by (rule ms_inv_keep [OF with_on_transport [OF framed_holds] assms(1) tr])
  have off1: "\<not> ms_running s1"
  proof -
    have "preserves (ms_with (\<lambda>_. True) (here s)) (ms_on_transport (tr_start (me_tr (ma_rm E))))"
      by (rule with_on_transport) (simp add: framed_def)
    from preserves_run [OF this _ tr] False show ?thesis by (simp add: ms_with_def)
  qed
  show ?thesis
  proof (cases r1)
    case (Inl e)
    then show ?thesis using assms(2) False tr inv1 by (simp add: ms_start_def prog_run)
  next
    case (Inr u)
    then have "s' = s1\<lparr>ms_curr := Init, ms_nb_loop := 0, ms_running := True\<rparr>"
      using assms(2) False tr by (simp add: ms_start_def prog_run)
    then show ?thesis using inv1 off1 by (simp add: ms_inv_def ms_phase_def)
  qed
qed

lemma ms_stop_inv:
  assumes "ms_inv E s" and "ms_stop E s = (r, s')"
  shows "ms_inv E s'"
proof (cases "ms_running s")
  case False
  then show ?thesis using assms by (simp add: ms_stop_def prog_run)
next
  case True
  obtain x where x: "mrm_stop (ms_rm s) = (Inr (), x)" "x = (ms_rm s)\<lparr>mr_running := False\<rparr>"
    by (cases "mr_running (ms_rm s)") (simp_all add: mrm_stop_def prog_run)
  define s1 where "s1 = s\<lparr>ms_running := False, ms_evt := em_notify (ma_evt E) (ms_evt s) Stop_event, ms_rm := x\<rparr>"
  have "ms_inv E s1"
    using assms(1) True
    by (cases "ms_curr s") (auto simp: s1_def x(2) ms_inv_def ms_phase_def mrm_inv_def rm_in_def timers_in_def)
  moreover obtain r1 s2 where tr: "ms_on_transport (tr_stop (me_tr (ma_rm E))) s1 = (r1, s2)" by fastforce
  moreover have "s' = s2"
    using assms(2) True tr x
    by (auto simp: ms_stop_def prog_run ms_notify_def ms_on_rm_def s1_def split: sum.splits)
  ultimately show ?thesis
    using ms_inv_keep [OF with_on_transport [OF framed_holds]] by blast
qed

lemma ms_send_command_inv:
  assumes laws: "master_laws (ma_rm E)" and inv: "ms_inv E s" and run: "ms_send_command E type data cb s = (r, s')"
  shows "ms_inv E s'"
proof (cases "ms_curr s = Connected")
  case False
  then show ?thesis using run inv by (simp add: ms_send_command_def prog_run)
next
  case True
  let ?R = "ma_rm E"
  let ?m = "mrm_send_command ?R type data cb command_timeout"
  obtain r1 x where cmd: "?m (ms_rm s) = (r1, x)" by fastforce
  have s': "s' = s\<lparr>ms_rm := x\<rparr>"
    using run True cmd by (simp add: ms_send_command_def prog_run ms_on_rm_def)
  have "preserves (\<lambda>y. mr_running y = mr_running (ms_rm s)) ?m"
    unfolding mrm_send_command_def mrm_send_command_write_def mrm_insert_def mrm_reset_ka_mngt_def
      mrm_arm_ka_mngt_def mrm_erase_timer_def mrm_add_repeating_def mrm_make_def mrm_write_def
    by (rule preservesI) (auto simp: prog_run split: prod.splits option.splits sum.splits)
  from preserves_run [OF this refl cmd] have "mr_running x = mr_running (ms_rm s)" .
  moreover have "mrm_inv ?R x"
    using mrm_send_command_run [OF laws _ cmd] inv by (simp add: ms_inv_def ms_phase_def)
  moreover have "rm_in ?R {Cmd_timer, Dip_timer} x" if "rm_in ?R {Cmd_timer, Dip_timer} (ms_rm s)"
    using preserves_run [OF rm_in_send_command [OF laws] that cmd] by simp
  ultimately show ?thesis using inv True by (simp add: s' ms_inv_def ms_phase_def)
qed

lemma ms_tick_inv:
  assumes "ms_inv E s" and "ms_on_rm mrm_tick s = (r, s')"
  shows "ms_inv E s'"
proof -
  let ?x = "ms_rm s"
  have s': "s' = (if mr_running ?x then s\<lparr>ms_rm := ?x\<lparr>mr_now := mr_now ?x + 1\<rparr>\<rparr> else s)"
    using assms(2) by (simp add: ms_on_rm_def mrm_tick_def prog_run split: if_splits)
  have "mrm_frame (?x\<lparr>mr_now := n\<rparr>) = mrm_frame ?x" for n by (simp add: mrm_frame_def)
  then have "ms_holds (ma_rm E) y ?x \<Longrightarrow> ms_holds (ma_rm E) y (?x\<lparr>mr_now := n\<rparr>)" for y n
    by (rule framedD [OF framed_holds]) simp
  then show ?thesis using assms(1) by (simp add: s' ms_inv_with ms_with_def)
qed

lemma ms_step_inv:
  assumes laws: "master_laws (ma_rm E)" and step: "ms_step E s s'" and inv: "ms_inv E s"
  shows "ms_inv E s'"
  using step
proof cases
  case pass
  then show ?thesis using ms_pass_inv [OF laws inv] by blast
next
  case (stay c check)
  then show ?thesis using ms_inv_keep [OF ms_checks_keep [OF _ framed_holds] inv] by blast
next
  case (goto c check s1)
  then show ?thesis using ms_goto_inv [OF inv] by blast
next
  case (timer i t r)
  then show ?thesis using ms_timer_inv [OF laws inv] by blast
next
  case (tick r)
  then show ?thesis using ms_tick_inv [OF inv] by blast
next
  case (transport t)
  then show ?thesis
    using framedD [OF framed_holds, of "(ms_rm s)\<lparr>mr_transport := t\<rparr>" "ms_rm s"] inv
    by (simp add: ms_inv_with ms_with_def)
next
  case (send_command type data cb r)
  then show ?thesis using ms_send_command_inv [OF laws inv] by blast
next
  case (async_connect r)
  have "preserves (ms_with (ms_holds (ma_rm E) (here s)) (here s)) (ms_async_connect E)"
    unfolding ms_async_connect_def by (intro hoare)
  from ms_inv_keep [OF this inv async_connect] show ?thesis .
next
  case (async_disconnect r)
  have "preserves (ms_with (ms_holds (ma_rm E) (here s)) (here s)) (ms_async_disconnect E)"
    unfolding ms_async_disconnect_def by (intro hoare)
  from ms_inv_keep [OF this inv async_disconnect] show ?thesis .
next
  case (connect_begin b)
  have "preserves (ms_with (ms_holds (ma_rm E) (here s)) (here s)) (ms_connect_begin E)"
    unfolding ms_connect_begin_def by (intro hoare)
  from ms_inv_keep [OF this inv connect_begin] show ?thesis .
next
  case (connect_end r)
  have "preserves (ms_with (ms_holds (ma_rm E) (here s)) (here s)) (ms_connect_end E)"
    unfolding ms_connect_end_def by (intro hoare with_modify) simp
  from ms_inv_keep [OF this inv connect_end] show ?thesis .
next
  case (start r)
  then show ?thesis using ms_start_inv [OF inv] by blast
next
  case (stop r)
  then show ?thesis using ms_stop_inv [OF inv] by blast
qed

end
