(* ===== verification/Master_Properties.thy ===== *)
theory Master_Properties
  imports Master_Laws
begin

text \<open>
  What the host's state machine promises, in every state it can reach and for every pass, and
  where it does not: how connections are attempted and given up, what happens to answers, and
  how errors reach the user.
\<close>

section \<open>Reachable states\<close>

locale master_library =
  fixes E :: "('q, 'm, 'tr, 'c, 'cb, 'u) master_app_env"
  assumes library: "master_app_laws E"

sublocale master_library \<subseteq> app: invariant_system "ms_made E" "ms_step E" "ms_inv E"
proof unfold_locales
  have laws: "master_laws (ma_rm E)" using library by (simp add: master_app_laws_def)
  show "ms_inv E s" if "ms_made E s" for s :: "('q, 'm, 'tr, 'c, 'u) master"
    using that by (rule ms_made_inv)
  show "ms_inv E t" if "ms_inv E s" "ms_step E s t" for s t :: "('q, 'm, 'tr, 'c, 'u) master"
    using ms_step_inv [OF laws that(2,1)] .
qed

sublocale master_library \<subseteq> rm: master_rm_library "ma_rm E"
  using library by unfold_locales (simp add: master_app_laws_def)

context master_library
begin

lemma master_reach_inv: "reach (ms_made E) (ms_step E) s \<Longrightarrow> ms_inv E s"
  by (rule app.reach_inv)

end

text \<open>The reference objects: a master over an open client.\<close>

type_synonym ref_master_env_type =
  "(master_timer ref_queue, master_event set, (bool, packet list, packet list) tcp_client, nat request list, nat,
    nat request list) master_app_env"

type_synonym ref_master =
  "(master_timer ref_queue, master_event set, (bool, packet list, packet list) tcp_client, nat request list,
    nat request list) master"

definition ref_master_app :: ref_master_env_type where
  "ref_master_app = \<lparr>ma_rm = ref_master_env, ma_evt = ref_event_mngr\<rparr>"

definition ref_master_ident :: identification where
  "ref_master_ident = \<lparr>id_name = [72], id_serial_number = [1, 2], id_hw_version = [], id_sw_version = [3]\<rparr>"

definition ref_master :: ref_master where
  "ref_master =
     \<lparr>ms_curr = Init, ms_nb_loop = 0, ms_evt = {}, ms_rm = ref_rm\<lparr>mr_running := False\<rparr>,
      ms_master_id = ref_master_ident, ms_slave_id = no_identification, ms_received_packet_id = 0,
      ms_connection_attempts = 0, ms_data_cb = None, ms_status_cb = None, ms_errc = no_error_code,
      ms_running = False\<rparr>"

lemma ref_master_app_fields [simp]:
  "ma_rm ref_master_app = ref_master_env" "ma_evt ref_master_app = ref_event_mngr"
  by (simp_all add: ref_master_app_def)

lemma ref_master_app_laws [simp]: "master_app_laws ref_master_app"
  by (simp add: master_app_laws_def)

lemma ref_master_made: "ms_made ref_master_app ref_master"
  using ref_rm_begun by (simp add: ms_made_def ref_master_def mrm_begun_def)

interpretation ref_master_library: master_library ref_master_app
  by unfold_locales simp



section \<open>Runs of the pieces\<close>

text \<open>The transport's answer to a read.\<close>

definition ms_reads ::
  "('q, 'm, 'tr, 'c, 'cb, 'u) master_app_env \<Rightarrow> ('q, 'm, 'tr, 'c, 'u) master \<Rightarrow> packet option \<Rightarrow> 'tr \<Rightarrow> bool" where
  "ms_reads E s p t' \<longleftrightarrow>
     (\<exists>t. mr_transport (ms_rm s) = Some t \<and> tr_read (me_tr (ma_rm E)) t = (p, t'))"

lemma ms_read_run:
  "ms_reads E s p t' \<Longrightarrow>
     ms_read E s = (Inr p, s\<lparr>ms_rm := (ms_rm s)\<lparr>mr_transport := Some t'\<rparr>\<rparr>)"
  by (auto simp: ms_reads_def ms_read_def ms_on_transport_def ms_on_rm_def run_zoomE)

lemma ms_set_slave_id_run:
  "ms_set_slave_id p s = (Inr (), s\<lparr>ms_slave_id := set_id (ms_slave_id s) (packet_blocks p)\<rparr>)"
proof -
  have "foreachE (\<lambda>b. modifyE (\<lambda>s. s\<lparr>ms_slave_id := set_id_block (ms_slave_id s) b\<rparr>)) bs s
      = (Inr (), s\<lparr>ms_slave_id := set_id (ms_slave_id s) bs\<rparr>)" for bs
    by (induction bs arbitrary: s) (simp_all add: prog_run)
  then show ?thesis by (simp add: ms_set_slave_id_def)
qed

lemma ms_track_id_run: "ms_track_id p s = (Inr (), s\<lparr>ms_received_packet_id := packet_id p\<rparr>)"
  by (cases s) (simp add: ms_track_id_def prog_run)

lemma ms_notify_run: "ms_notify E e s = (Inr (), s\<lparr>ms_evt := em_notify (ma_evt E) (ms_evt s) e\<rparr>)"
  by (simp add: ms_notify_def prog_run)

lemma ms_erase_run:
  "ms_erase E e s = (Inr (fst (em_erase (ma_evt E) (ms_evt s) e)),
     s\<lparr>ms_evt := snd (em_erase (ma_evt E) (ms_evt s) e)\<rparr>)"
  by (simp add: ms_erase_def split: prod.split)

lemma ms_goto_if_run:
  "ms_goto_if E e f s =
     (let s1 = s\<lparr>ms_evt := snd (em_erase (ma_evt E) (ms_evt s) e)\<rparr>
      in if fst (em_erase (ma_evt E) (ms_evt s) e) then (Inr Goto_next_state, f s1) else (Inr Stay_curr_state, s1))"
  by (simp add: ms_goto_if_def run_bindE ms_erase_run prog_run Let_def)

lemma ms_on_rm_run: "ms_on_rm m s = (case m (ms_rm s) of (r, x) \<Rightarrow> (r, s\<lparr>ms_rm := x\<rparr>))"
  by (simp add: ms_on_rm_def run_zoomE)

section \<open>Attempts to connect\<close>

text \<open>On an open transport that posts its packets, an identification goes out and its timeout is armed.\<close>

context posting_transport
begin

lemma mrm_transmit_posts:
  assumes E: "me_tr E = A" and t0: "mr_transport s = Some t0" "tr_is_open A t0"
    and mk: "mk (mr_packet_id s + 1) = Inr p"
  shows "\<exists>t. mrm_transmit E mk s = (Inr (), s\<lparr>mr_packet_id := mr_packet_id s + 1, mr_transport := Some t\<rparr>)
    \<and> sent t = sent t0 @ [p] \<and> tr_is_open A t \<and> received t = received t0"
proof -
  obtain t where w: "tr_write A p t0 = (Inr (), t)"
    using write_accepts [OF t0(2), of p] by (cases "tr_write A p t0") auto
  show ?thesis
    using t0 mk E w write_open [of p t0] write_sent [OF w] write_received [of p t0]
    by (intro exI [of _ t]) (simp add: mrm_transmit_def mrm_make_def mrm_write_def mrm_open_def prog_run)
qed

lemma mrm_send_hip_posts:
  assumes E: "me_tr E = A" and laws: "master_laws E"
    and t0: "mr_transport s = Some t0" "tr_is_open A t0"
    and mk: "make_hip (me_mem E) (mr_packet_id s + 1) ident = Inr p"
  shows "\<exists>q t i. mrm_send_hip E ident time s = (Inr (), s\<lparr>mr_packet_id := mr_packet_id s + 1,
        mr_transport := Some t, mr_timeout_queue := q, mr_dip_id := i\<rparr>)
    \<and> sent t = sent t0 @ [p] \<and> tr_is_open A t \<and> received t = received t0
    \<and> mrm_timers E (s\<lparr>mr_timeout_queue := q\<rparr>) = (mrm_timers E s)(i \<mapsto>
        \<lparr>t_callback = Dip_timer, t_start = mr_now s, t_period = ticks time, t_repeating = False\<rparr>)"
proof -
  obtain t where t: "mrm_transmit E (\<lambda>pid. make_hip (me_mem E) pid ident) s
      = (Inr (), s\<lparr>mr_packet_id := mr_packet_id s + 1, mr_transport := Some t\<rparr>)"
    "sent t = sent t0 @ [p]" "tr_is_open A t" "received t = received t0"
    using mrm_transmit_posts [where mk = "\<lambda>pid. make_hip (me_mem E) pid ident", OF E t0 mk] by blast
  let ?s = "s\<lparr>mr_packet_id := mr_packet_id s + 1, mr_transport := Some t\<rparr>"
  obtain i s2 where add: "mrm_add_timer E (ticks time) Dip_timer ?s = (Inr i, s2)"
    using mrm_add_timer_run [OF laws] by (metis surj_pair)
  obtain q where q: "s2 = ?s\<lparr>mr_timeout_queue := q\<rparr>"
    "mrm_timers E s2 = (mrm_timers E ?s)(i \<mapsto>
        \<lparr>t_callback = Dip_timer, t_start = mr_now ?s, t_period = ticks time, t_repeating = False\<rparr>)"
    using mrm_add_timer_run [OF laws add] by auto
  have "mrm_send_hip E ident time s = (Inr (), s2\<lparr>mr_dip_id := i\<rparr>)"
    using t(1) add by (simp add: mrm_send_hip_def prog_run)
  then show ?thesis
    using q t(2,3,4) E by (intro exI [of _ q] exI [of _ t] exI [of _ i]) (simp add: mrm_views)
qed

lemma reads_nothing: "received t = [] \<Longrightarrow> tr_read A t = (None, t)"
  using read_some read_none by (cases "tr_read A t"; cases "fst (tr_read A t)") fastforce+

end

lemma master_attempt_run:
  assumes "posting_transport (me_tr (ma_rm E)) sent received" and "master_app_laws E"
    and "storage (me_mem (ma_rm E))" and "identification_size (ms_master_id s) \<le> 2019"
    and "ms_nb_loop s \<noteq> 1"
    and "ms_connection_attempts s = 0 \<or> Dip_timeout_event \<in> em_events (ma_evt E) (ms_evt s)"
    and "mr_transport (ms_rm s) = Some t" and "tr_is_open (me_tr (ma_rm E)) t" and "received t = []"
  shows "\<exists>s' hip. ms_handler_connecting E s = (Inr Stay_curr_state, s')
    \<and> mrm_sent sent (ms_rm s') = mrm_sent sent (ms_rm s) @ [hip]
    \<and> valid_packet hip \<and> packet_type hip = Some Hip \<and> packet_blocks hip = identification_blocks (ms_master_id s)
    \<and> mrm_timers (ma_rm E) (ms_rm s') = (mrm_timers (ma_rm E) (ms_rm s))(mr_dip_id (ms_rm s') \<mapsto>
        \<lparr>t_callback = Dip_timer, t_start = mr_now (ms_rm s), t_period = 10, t_repeating = False\<rparr>)
    \<and> ms_connection_attempts s' = ms_connection_attempts s + 1
    \<and> (ms_connection_attempts s \<noteq> 0 \<longrightarrow> Dip_timeout_event \<notin> em_events (ma_evt E) (ms_evt s'))"
proof -
  note post = assms(1)
  let ?R = "ma_rm E" and ?x = "ms_rm s"
  have laws: "master_laws ?R" and M: "event_mngr_laws (ma_evt E)"
    using assms(2) by (simp_all add: master_app_laws_def)
  obtain hip where hip: "make_hip (me_mem ?R) (mr_packet_id ?x + 1) (ms_master_id s) = Inr hip"
    "valid_packet hip" "packet_type hip = Some Hip" "packet_blocks hip = identification_blocks (ms_master_id s)"
    using make_hip_ok [OF assms(3,4)] by blast
  obtain q t1 i where send: "mrm_send_hip ?R (ms_master_id s) connecting_timeout ?x
      = (Inr (), ?x\<lparr>mr_packet_id := mr_packet_id ?x + 1, mr_transport := Some t1,
           mr_timeout_queue := q, mr_dip_id := i\<rparr>)"
    "sent t1 = sent t @ [hip]" "received t1 = received t"
    "mrm_timers ?R (?x\<lparr>mr_timeout_queue := q\<rparr>) = (mrm_timers ?R ?x)(i \<mapsto>
        \<lparr>t_callback = Dip_timer, t_start = mr_now ?x, t_period = 10, t_repeating = False\<rparr>)"
    using posting_transport.mrm_send_hip_posts [OF post refl laws assms(7,8) hip(1), of connecting_timeout] by auto
  let ?y = "?x\<lparr>mr_packet_id := mr_packet_id ?x + 1, mr_transport := Some t1,
           mr_timeout_queue := q, mr_dip_id := i\<rparr>"
  obtain m where due: "ms_attempt_due E s = (Inr True, s\<lparr>ms_evt := m\<rparr>)"
    "ms_connection_attempts s \<noteq> 0 \<longrightarrow> Dip_timeout_event \<notin> em_events (ma_evt E) m"
  proof (cases "ms_connection_attempts s = 0")
    case True
    then show thesis using that [of "ms_evt s"] by (simp add: ms_attempt_due_def prog_run)
  next
    case False
    then show thesis
      using that [of "snd (em_erase (ma_evt E) (ms_evt s) Dip_timeout_event)"] assms(6) M
      by (simp add: ms_attempt_due_def prog_run ms_erase_run)
  qed
  let ?s = "s\<lparr>ms_evt := m, ms_connection_attempts := ms_connection_attempts s + 1, ms_rm := ?y\<rparr>"
  have "tr_read (me_tr ?R) t1 = (None, t1)"
    by (rule posting_transport.reads_nothing [OF post]) (simp add: send(3) assms(9))
  then have "ms_reads E ?s None t1" by (simp add: ms_reads_def)
  then have "ms_handler_connecting E s = (Inr Stay_curr_state, ?s)"
    using assms(5) due(1) send(1) ms_read_run [of E ?s None t1]
    by (simp add: ms_handler_connecting_def prog_run ms_on_rm_run)
  moreover have "mrm_timers ?R ?y = mrm_timers ?R (?x\<lparr>mr_timeout_queue := q\<rparr>)" by (simp add: mrm_views)
  ultimately show ?thesis
    using hip send(2,4) due(2) assms(7) by (intro exI [of _ ?s] exI [of _ hip]) (simp add: mrm_sent_def)
qed

text \<open>
  An attempt to connect: in a pass of \<open>Connecting\<close> on an open transport, when it is the first
  attempt or the previous one has timed out, the host sends exactly one packet, its own
  identification, arms a timeout of one second that does not repeat, remembers it as the one
  to call off, counts the attempt and uses the timeout event up.
\<close>

theorem master_attempt:
  assumes "posting_transport (me_tr (ma_rm E)) sent received" and "master_app_laws E"
    and "storage (me_mem (ma_rm E))" and "identification_size (ms_master_id s) \<le> 2019"
    and "ms_nb_loop s \<noteq> 1"
    and "ms_connection_attempts s = 0 \<or> Dip_timeout_event \<in> em_events (ma_evt E) (ms_evt s)"
    and "mr_transport (ms_rm s) = Some t" and "tr_is_open (me_tr (ma_rm E)) t" and "received t = []"
  shows "\<exists>s' hip. ms_handler_connecting E s = (Inr Stay_curr_state, s')
    \<and> mrm_sent sent (ms_rm s') = mrm_sent sent (ms_rm s) @ [hip]
    \<and> packet_type hip = Some Hip \<and> packet_blocks hip = identification_blocks (ms_master_id s)
    \<and> mrm_timers (ma_rm E) (ms_rm s') = (mrm_timers (ma_rm E) (ms_rm s))(mr_dip_id (ms_rm s') \<mapsto>
        \<lparr>t_callback = Dip_timer, t_start = mr_now (ms_rm s), t_period = 10, t_repeating = False\<rparr>)
    \<and> ms_connection_attempts s' = ms_connection_attempts s + 1
    \<and> (ms_connection_attempts s \<noteq> 0 \<longrightarrow> Dip_timeout_event \<notin> em_events (ma_evt E) (ms_evt s'))"
  using master_attempt_run [OF assms] by blast

text \<open>A reference master that tries to connect, and has timed out once.\<close>

definition ref_connecting :: ref_master where
  "ref_connecting = ref_master
     \<lparr>ms_curr := Connecting, ms_nb_loop := 2, ms_evt := {Dip_timeout_event}, ms_rm := ref_rm,
      ms_connection_attempts := 1, ms_running := True\<rparr>"

lemma ref_rm_transport [simp]: "mr_transport ref_rm = Some ref_client"
  by (simp add: ref_rm_def)

lemma ref_client_views [simp]:
  "tr_is_open (tc_api ref_client_env) ref_client" "tc_received ref_client_env ref_client = []"
  by (simp_all add: tc_api_def tc_is_open_def ref_client_env_def ref_socket_def ref_client_def
      tc_received_def ref_queue_api_def)

theorem master_attempt_witness:
  "\<exists>s' hip. ms_handler_connecting ref_master_app ref_connecting = (Inr Stay_curr_state, s')
     \<and> packet_blocks hip = identification_blocks ref_master_ident
     \<and> ms_connection_attempts s' = 2"
proof -
  have post: "posting_transport (me_tr (ma_rm ref_master_app)) (tc_sent ref_client_env) (tc_received ref_client_env)"
    using tc_posting [OF ref_client_laws] by simp
  have "ms_master_id ref_connecting = ref_master_ident" "ms_connection_attempts ref_connecting = 1"
    by (simp_all add: ref_connecting_def ref_master_def)
  then show ?thesis
    using master_attempt [OF post ref_master_app_laws, of ref_connecting ref_client]
    by (force simp: ref_connecting_def ref_master_def ref_master_ident_def identification_size_def
        ref_event_mngr_def)
qed

text \<open>
  The answer of the device, read between two attempts: it is taken as it is, its timeout is
  called off, and the next check leads to \<open>Connected\<close>.
\<close>

lemma master_learns_run:
  assumes "master_app_laws E" and "ms_reads E s (Some p) t'"
    and p: "packet_type p = Some Dip" "packet_blocks p = identification_blocks i"
    and "ms_nb_loop s \<noteq> 1" and "ms_connection_attempts s \<noteq> 0"
    and "Dip_timeout_event \<notin> em_events (ma_evt E) (ms_evt s)"
  shows "\<exists>s'. ms_handler_connecting E s = (Inr Stay_curr_state, s') \<and> ms_slave_id s' = i
    \<and> ms_received_packet_id s' = packet_id p
    \<and> mrm_timers (ma_rm E) (ms_rm s') = (mrm_timers (ma_rm E) (ms_rm s))(mr_dip_id (ms_rm s) := None)
    \<and> fst (ms_check_connected E s') = Inr Goto_next_state"
proof -
  have M: "event_mngr_laws (ma_evt E)" and L: "timeout_queue_laws (me_tq (ma_rm E))"
    using assms(1) by (simp_all add: master_app_laws_def master_laws_def)
  let ?m = "snd (em_erase (ma_evt E) (ms_evt s) Dip_timeout_event)"
  have due: "ms_attempt_due E s = (Inr False, s\<lparr>ms_evt := ?m\<rparr>)"
    using assms(6,7) M by (simp add: ms_attempt_due_def prog_run ms_erase_run)
  have rd: "ms_reads E (s\<lparr>ms_evt := ?m\<rparr>) (Some p) t'" using assms(2) by (simp add: ms_reads_def)
  let ?x = "(ms_rm s)\<lparr>mr_transport := Some t'\<rparr>"
  obtain x where x: "mrm_ack_dip (ma_rm E) ?x = (Inr (), x)"
    "mrm_timers (ma_rm E) x = (mrm_timers (ma_rm E) (ms_rm s))(mr_dip_id (ms_rm s) := None)"
    using tq_erase_law [OF L] by (simp add: mrm_ack_dip_def mrm_erase_timer_def prog_run mrm_views)
  show ?thesis
    using due x assms(5) p M
    by (simp add: ms_handler_connecting_def run_bindE run_withE run_whenE run_modifyE ms_read_run [OF rd]
        ms_set_slave_id_run set_id_identification ms_on_rm_run ms_notify_run run_retE retE_def
        ms_check_connected_def ms_goto_if_run Let_def)
qed

text \<open>
  C29: The host gives up after three attempts, not before: while fewer were made a timeout leads
  nowhere, and the event stays for the next attempt. With three made, the check leads to
  \<open>Disconnected\<close>, the user is told that state with the code \<open>dip_timeout\<close>, and the thread that
  waits in \<^verbatim>\<open>connect\<close> is woken up and gets the exception \<open>connection_failed\<close>.
\<close>

theorem master_gives_up_connecting:
  assumes "master_app_laws E" and "Dip_timeout_event \<in> em_events (ma_evt E) (ms_evt s)"
    and "ms_status_cb s = Some cb"
    and "fst (cb Disconnected (make_appli_code Dip_timeout) (mr_user (ms_rm s))) = Inr ()"
  shows "if ms_connection_attempts s < 3 then ms_check_dip_timeout E s = (Inr Stay_curr_state, s)
    else \<exists>s1 s'. ms_check_dip_timeout E s = (Inr Goto_next_state, s1)
      \<and> ms_transition_handler E Connecting Disconnected (s1\<lparr>ms_curr := Disconnected, ms_nb_loop := 0\<rparr>) = (Inr (), s')
      \<and> mr_user (ms_rm s') = snd (cb Disconnected (make_appli_code Dip_timeout) (mr_user (ms_rm s)))
      \<and> ms_errc s' = no_error_code
      \<and> Dip_timeout_event \<notin> em_events (ma_evt E) (ms_evt s')
      \<and> Connection_attempt \<in> em_events (ma_evt E) (ms_evt s')
      \<and> fst (ms_connect_end E s') = Inl (Application_error Connection_failed)"
proof -
  have M: "event_mngr_laws (ma_evt E)" using assms(1) by (simp add: master_app_laws_def)
  obtain r u where u: "cb Disconnected (make_appli_code Dip_timeout) (mr_user (ms_rm s)) = (r, u)" by fastforce
  have three: "(of_nat max_connection_attempts \<le> ms_connection_attempts s) = (\<not> ms_connection_attempts s < 3)"
    by (simp add: max_connection_attempts_def not_less)
  show ?thesis
  proof (cases "ms_connection_attempts s < 3")
    case True
    then show ?thesis using assms(2) M by (simp add: ms_check_dip_timeout_def prog_run three)
  next
    case False
    let ?m = "snd (em_erase (ma_evt E) (ms_evt s) Dip_timeout_event)"
    let ?s1 = "s\<lparr>ms_evt := ?m, ms_errc := make_appli_code Dip_timeout\<rparr>"
    let ?s' = "?s1\<lparr>ms_curr := Disconnected, ms_nb_loop := 0, ms_rm := (ms_rm s)\<lparr>mr_user := u\<rparr>,
      ms_errc := no_error_code, ms_evt := em_notify (ma_evt E) ?m Connection_attempt\<rparr>"
    have "ms_check_dip_timeout E s = (Inr Goto_next_state, ?s1)"
      using False assms(2) M by (simp add: ms_check_dip_timeout_def prog_run three ms_erase_run)
    moreover have "ms_transition_handler E Connecting Disconnected (?s1\<lparr>ms_curr := Disconnected, ms_nb_loop := 0\<rparr>)
        = (Inr (), ?s')"
      using assms(3,4) u
      by (simp add: ms_transition_handler_def prog_run ms_on_user_def ms_on_rm_run ms_notify_run)
    moreover have "fst (ms_connect_end E ?s') = Inl (Application_error Connection_failed)"
      by (simp add: ms_connect_end_def prog_run ms_erase_run)
    ultimately show ?thesis
      unfolding if_not_P [OF False] using M u by (intro exI [of _ ?s1] exI [of _ ?s'] conjI) simp_all
  qed
qed

theorem master_gives_up_connecting_witness:
  "\<exists>s1 s'. ms_check_dip_timeout ref_master_app
       (ref_connecting\<lparr>ms_connection_attempts := 3, ms_status_cb := Some (\<lambda>c e u. (Inr (), []))\<rparr>)
         = (Inr Goto_next_state, s1)
     \<and> fst (ms_connect_end ref_master_app s') = Inl (Application_error Connection_failed)"
proof -
  let ?s = "ref_connecting\<lparr>ms_connection_attempts := 3, ms_status_cb := Some (\<lambda>c e u. (Inr (), []))\<rparr>"
  have "Dip_timeout_event \<in> em_events (ma_evt ref_master_app) (ms_evt ?s)"
    by (simp add: ref_connecting_def ref_event_mngr_def)
  from master_gives_up_connecting [OF ref_master_app_laws this, of "\<lambda>c e u. (Inr (), [])"]
  show ?thesis by (auto simp: ref_connecting_def)
qed

end
