(* ===== verification/Sending.thy ===== *)
theory Sending
  imports Agreement Slave_Laws Master_Properties
begin

text \<open>
  What each side hands to its transport, and what it finds there: a predicate \<open>P\<close> on the packets
  sent and a predicate \<open>Q\<close> on the packets received, kept by every operation of the two request
  managers that sends only packets of \<open>P\<close>.
\<close>

section \<open>Packets of either side\<close>

definition host_packet :: "packet \<Rightarrow> bool" where
  "host_packet p \<longleftrightarrow> valid_packet p \<and>
     (packet_type p = Some Hip \<or> packet_type p = Some Ka
      \<or> (packet_type p = Some Cmd \<and> length (packet_blocks p) = 1))"

definition device_packet :: "packet \<Rightarrow> bool" where
  "device_packet p \<longleftrightarrow> valid_packet p \<and>
     (packet_type p = Some Dip \<or> packet_type p = Some Ka_ack \<or> packet_type p = Some Data
      \<or> (packet_type p = Some Cmd_ack \<and> \<not> isl (acked_id p)))"

text \<open>What the makers of the packets return, when they return.\<close>

lemma made_command:
  assumes "storage mem" and "length data < 65532" and "make_command mem i type data = Inr p"
  shows "host_packet p" "packet_type p = Some Cmd" "packet_id p = i"
    "packet_blocks p = [\<lparr>b_type = type, b_data = data\<rparr>]"
proof -
  have "length data \<le> 2031"
    using make_command_too_big [of data mem i type] assms(2,3) by (cases "length data \<le> 2031") auto
  from make_command_ok [OF assms(1) this, of i type] assms(3)
  show "host_packet p" "packet_type p = Some Cmd" "packet_id p = i"
    "packet_blocks p = [\<lparr>b_type = type, b_data = data\<rparr>]"
    by (auto simp: host_packet_def)
qed

lemma made_keepalive:
  "storage mem \<Longrightarrow> make_keepalive mem i = Inr p \<Longrightarrow> host_packet p \<and> packet_type p = Some Ka"
  using make_keepalive_ok [of mem i] by (auto simp: host_packet_def)

lemma made_keepalive_ack:
  "storage mem \<Longrightarrow> make_keepalive_ack mem i = Inr p \<Longrightarrow> device_packet p \<and> packet_type p = Some Ka_ack"
  using make_keepalive_ack_ok [of mem i] by (auto simp: device_packet_def)

lemma made_cmd_ack:
  assumes "storage mem" and "make_cmd_ack mem i type j = Inr p"
  shows "device_packet p \<and> packet_type p = Some Cmd_ack \<and> acked_id p = Inr j"
proof -
  have p: "valid_packet p" "packet_type p = Some Cmd_ack"
    "packet_blocks p = [\<lparr>b_type = type, b_data = u16_le j\<rparr>]"
    using make_cmd_ack_ok [OF assms(1), of i type j] assms(2) by auto
  then have "acked_id p = Inr j" by (simp add: acked_id_def u16_le_def)
  with p show ?thesis by (simp add: device_packet_def)
qed

lemma made_data:
  assumes "storage mem" and "sum_list (map block_size bs) \<le> max_pl_size" and "make_data mem i bs = Inr p"
  shows "device_packet p \<and> packet_type p = Some Data"
  using make_data_InrD [OF assms] by (simp add: device_packet_def)

lemma made_dip:
  assumes "storage mem" and "identification_size ident \<le> 2019" and "make_dip mem i ident = Inr p"
  shows "device_packet p \<and> packet_type p = Some Dip"
  using make_dip_ok [OF assms(1,2), of i] assms(3) by (auto simp: device_packet_def)

section \<open>Transports\<close>

definition carries ::
  "('tr \<Rightarrow> packet list) \<Rightarrow> ('tr \<Rightarrow> packet list) \<Rightarrow> (packet \<Rightarrow> bool) \<Rightarrow> (packet \<Rightarrow> bool) \<Rightarrow>
   'tr option \<Rightarrow> bool" where
  "carries sent received P Q tr \<longleftrightarrow>
     (case tr of None \<Rightarrow> True | Some t \<Rightarrow> list_all P (sent t) \<and> list_all Q (received t))"

definition srm_carries ::
  "('tr \<Rightarrow> packet list) \<Rightarrow> ('tr \<Rightarrow> packet list) \<Rightarrow> (packet \<Rightarrow> bool) \<Rightarrow> (packet \<Rightarrow> bool) \<Rightarrow>
   ('q, 'tr) slave_rm \<Rightarrow> bool" where
  "srm_carries sent received P Q x \<longleftrightarrow> carries sent received P Q (sr_transport x)"

definition mrm_carries ::
  "('tr \<Rightarrow> packet list) \<Rightarrow> ('tr \<Rightarrow> packet list) \<Rightarrow> (packet \<Rightarrow> bool) \<Rightarrow> (packet \<Rightarrow> bool) \<Rightarrow>
   ('q, 'tr, 'c, 'u) master_rm \<Rightarrow> bool" where
  "mrm_carries sent received P Q x \<longleftrightarrow> carries sent received P Q (mr_transport x)"

lemma carries_mono:
  "carries sent received P Q tr \<Longrightarrow> (\<And>p. P p \<Longrightarrow> P' p) \<Longrightarrow> (\<And>q. Q q \<Longrightarrow> Q' q) \<Longrightarrow>
     carries sent received P' Q' tr"
  by (auto simp: carries_def list_all_iff split: option.splits)

context transport_contract
begin

lemma carries_write:
  assumes "carries sent received P Q (Some t)" and "fst (tr_write A p t) = Inr () \<longrightarrow> P p"
  shows "carries sent received P Q (Some (snd (tr_write A p t)))"
  using assms write_sent_cases [of p t] write_received [of p t]
  by (auto simp: carries_def split: sum.splits)

lemma carries_read:
  assumes "carries sent received P Q (Some t)" and "tr_read A t = (r, t')"
  shows "carries sent received P Q (Some t') \<and> (\<forall>q. r = Some q \<longrightarrow> Q q)"
  using assms read_order [of t] read_frame(1) [of t] read_none [of t t']
  by (cases r) (auto simp: carries_def)

section \<open>The request manager of the device\<close>

lemma srm_write_carries [hoare]:
  fixes R :: "('q, 'tr) slave_env"
  assumes "se_tr R = A" and "P p"
  shows "preserves (srm_carries sent received P Q) (srm_write R p)"
proof (rule preservesI)
  fix s :: "('q, 'tr) slave_rm" assume s: "srm_carries sent received P Q s"
  show "srm_carries sent received P Q (snd (srm_write R p s))"
  proof (cases "sr_transport s")
    case (Some t)
    with s have "carries sent received P Q (Some (snd (tr_write A p t)))"
      by (intro carries_write) (simp_all add: assms(2) srm_carries_def)
    with Some assms(1) show ?thesis by (cases "tr_write A p t") (simp add: srm_write_def srm_carries_def)
  qed (use s in \<open>simp add: srm_write_def srm_carries_def\<close>)
qed

lemma srm_transmit_carries:
  fixes R :: "('q, 'tr) slave_env"
  assumes "se_tr R = A" and "\<And>i p. mk i = Inr p \<Longrightarrow> P p"
  shows "preserves (srm_carries sent received P Q) (srm_transmit R mk)"
proof (rule preservesI)
  fix s :: "('q, 'tr) slave_rm" assume s: "srm_carries sent received P Q s"
  let ?s = "s\<lparr>sr_packet_id := sr_packet_id s + 1\<rparr>"
  show "srm_carries sent received P Q (snd (srm_transmit R mk s))"
  proof (cases "mk (sr_packet_id s + 1)")
    case (Inr p)
    then have "preserves (srm_carries sent received P Q) (srm_write R p)"
      using assms by (intro srm_write_carries) auto
    from preservesD [OF this, of ?s] s Inr show ?thesis
      by (simp add: srm_transmit_def prog_run srm_carries_def)
  qed (use s in \<open>simp add: srm_transmit_def prog_run srm_carries_def\<close>)
qed

text \<open>A packet that was not accepted leaves nothing behind.\<close>

lemma srm_transmit_failed:
  assumes "se_tr R = A" and "srm_transmit R mk s = (Inl e, s')"
    and "srm_carries sent received P Q s"
  shows "srm_carries sent received P Q s'"
proof (cases "mk (sr_packet_id s + 1)")
  case (Inl x)
  with assms show ?thesis by (auto simp: srm_transmit_def prog_run srm_carries_def)
next
  case (Inr p)
  show ?thesis
  proof (cases "sr_transport s")
    case (Some t)
    then have w: "fst (tr_write A p t) = Inl e" "sr_transport s' = Some (snd (tr_write A p t))"
      using assms(1,2) Inr by (auto simp: srm_transmit_def prog_run srm_write_def split: prod.splits)
    from assms(3) Some have "carries sent received P Q (Some (snd (tr_write A p t)))"
      by (intro carries_write) (simp_all add: w(1) srm_carries_def)
    with w(2) show ?thesis by (simp add: srm_carries_def)
  qed (use assms Inr in \<open>auto simp: srm_transmit_def prog_run srm_write_def srm_carries_def\<close>)
qed

lemma srm_send_loop_carries:
  assumes R: "se_tr R = A" and mem: "storage (se_mem R)"
    and P: "\<And>p. device_packet p \<Longrightarrow> packet_type p = Some Data \<Longrightarrow> P p"
  shows "srm_carries sent received P Q s \<Longrightarrow> blocks_bytes pl \<le> max_pl_size \<Longrightarrow>
    srm_send_loop R bs pl (blocks_bytes pl) s = (r, s') \<Longrightarrow>
    srm_carries sent received P Q s' \<and> (\<forall>rest. r = Inr rest \<longrightarrow> blocks_bytes rest \<le> max_pl_size)"
proof (induction bs arbitrary: pl s)
  case Nil
  then show ?case by (auto simp: prog_run)
next
  case (Cons b bs)
  show ?case
  proof (cases "block_size b > max_pl_size")
    case True
    then show ?thesis using Cons.prems by (auto simp: prog_run)
  next
    case small: False
    show ?thesis
    proof (cases "blocks_bytes pl + block_size b > max_pl_size")
      case True
      let ?mk = "\<lambda>i. make_data (se_mem R) i pl"
      have "preserves (srm_carries sent received P Q) (srm_transmit R ?mk)"
        using made_data [OF mem] Cons.prems(2)
        by (intro srm_transmit_carries [OF R]) (simp add: blocks_bytes_def P)
      from preservesD [OF this Cons.prems(1)]
      obtain x s1 where send: "srm_transmit R ?mk s = (x, s1)" "srm_carries sent received P Q s1"
        by (metis surjective_pairing)
      show ?thesis
      proof (cases x)
        case (Inl e)
        then show ?thesis using Cons.prems(3) send small True by (auto simp: run_bindE)
      next
        case (Inr u)
        then have "srm_send_loop R bs [b] (blocks_bytes [b]) s1 = (r, s')"
          using Cons.prems(3) send small True by (simp add: run_bindE)
        from Cons.IH [OF send(2) _ this] small show ?thesis by simp
      qed
    next
      case False
      then have "srm_send_loop R bs (pl @ [b]) (blocks_bytes (pl @ [b])) s = (r, s')"
        using Cons.prems(3) small by simp
      from Cons.IH [OF Cons.prems(1) _ this] False show ?thesis by simp
    qed
  qed
qed

lemma srm_send_data_carries:
  fixes R :: "('q, 'tr) slave_env"
  assumes R: "se_tr R = A" and mem: "storage (se_mem R)"
    and P: "\<And>p. device_packet p \<Longrightarrow> packet_type p = Some Data \<Longrightarrow> P p"
  shows "preserves (srm_carries sent received P Q) (srm_send_data R bs)"
proof (rule preservesI)
  fix s :: "('q, 'tr) slave_rm" assume s: "srm_carries sent received P Q s"
  obtain r s1 where loop: "srm_send_loop R bs [] (blocks_bytes []) s = (r, s1)" by fastforce
  have s1: "srm_carries sent received P Q s1"
    "\<And>rest. r = Inr rest \<Longrightarrow> blocks_bytes rest \<le> max_pl_size"
    using srm_send_loop_carries [OF R mem P s _ loop] by simp_all
  show "srm_carries sent received P Q (snd (srm_send_data R bs s))"
  proof (cases r)
    case (Inl e)
    then show ?thesis using loop s1(1) by (simp add: srm_send_data_def run_bindE)
  next
    case (Inr rest)
    have "preserves (srm_carries sent received P Q)
        (srm_transmit R (\<lambda>i. make_data (se_mem R) i rest))"
      using made_data [OF mem] s1(2) [OF Inr]
      by (intro srm_transmit_carries [OF R]) (simp add: blocks_bytes_def P)
    from preservesD [OF this s1(1)] Inr loop s1(1) show ?thesis
      by (simp add: srm_send_data_def run_bindE run_whenE)
  qed
qed

lemma srm_keepalive_carries:
  assumes R: "se_tr R = A" and mem: "storage (se_mem R)"
    and P: "\<And>p. device_packet p \<Longrightarrow> packet_type p = Some Ka_ack \<Longrightarrow> P p"
  shows "preserves (srm_carries sent received P Q) (srm_keepalive R)"
  unfolding srm_keepalive_def
  by (intro hoare srm_transmit_carries [OF R])
    (use made_keepalive_ack [OF mem] in \<open>auto simp: srm_carries_def srm_arm_def srm_disarm_def intro: P split: prod.split\<close>)

lemma srm_send_dip_carries:
  assumes R: "se_tr R = A" and mem: "storage (se_mem R)" and size: "identification_size i \<le> 2019"
    and P: "\<And>p. device_packet p \<Longrightarrow> packet_type p = Some Dip \<Longrightarrow> P p"
  shows "preserves (srm_carries sent received P Q) (srm_send_dip R i)"
  unfolding srm_send_dip_def
  by (intro hoare srm_transmit_carries [OF R]) (use made_dip [OF mem size] in \<open>auto intro: P\<close>)

end

text \<open>The other operations do not touch the transport.\<close>

lemma srm_timers_carries [hoare]:
  "preserves (srm_carries sent received P Q) (srm_start R)"
  "preserves (srm_carries sent received P Q) srm_stop"
  "preserves (srm_carries sent received P Q) srm_tick"
  "preserves (srm_carries sent received P Q) (srm_start_keepalive_management R t)"
  "preserves (srm_carries sent received P Q) (srm_stop_keepalive_management R)"
  unfolding srm_start_def srm_stop_def srm_tick_def srm_start_keepalive_management_def
    srm_stop_keepalive_management_def
  by (intro hoare; simp add: srm_carries_def srm_clear_def srm_arm_def srm_disarm_def split: prod.split)+

section \<open>The request manager of the host\<close>

text \<open>
  It keeps the commands that are pending and sends them again: they satisfy a predicate \<open>C\<close>
  that implies \<open>P\<close>.
\<close>

definition mrm_sends ::
  "('q, 'tr, 'c, 'cb, 'u) master_env \<Rightarrow> ('tr \<Rightarrow> packet list) \<Rightarrow> ('tr \<Rightarrow> packet list) \<Rightarrow>
   (packet \<Rightarrow> bool) \<Rightarrow> (packet \<Rightarrow> bool) \<Rightarrow> (packet \<Rightarrow> bool) \<Rightarrow> ('q, 'tr, 'c, 'u) master_rm \<Rightarrow> bool" where
  "mrm_sends R sent received P C Q x \<longleftrightarrow>
     mrm_carries sent received P Q x \<and> (\<forall>r\<in>mrm_reqs R x. C (req_command r))"

text \<open>What leaves the requests and the transport alone.\<close>

definition mrm_inert :: "(('q, 'tr, 'c, 'u) master_rm, 'a) stmt \<Rightarrow> bool" where
  "mrm_inert m \<longleftrightarrow> (\<forall>x. preserves (\<lambda>s. (mr_requests s, mr_transport s, mr_user s) = x) m)"

lemma mrm_inertD:
  assumes "mrm_inert m" and "m s = (r, s')"
  shows "mr_requests s' = mr_requests s" "mr_transport s' = mr_transport s" "mr_user s' = mr_user s"
proof -
  have "preserves (\<lambda>x. (mr_requests x, mr_transport x, mr_user x)
      = (mr_requests s, mr_transport s, mr_user s)) m"
    using assms(1) unfolding mrm_inert_def by (rule spec)
  from preserves_run [OF this refl assms(2)]
  show "mr_requests s' = mr_requests s" "mr_transport s' = mr_transport s" "mr_user s' = mr_user s"
    by simp_all
qed

lemma mrm_inert_sends:
  assumes "mrm_inert m"
  shows "preserves (mrm_sends R sent received P C Q) m"
proof (rule preservesI)
  fix s :: "('a, 'b, 'c, 'd) master_rm" assume "mrm_sends R sent received P C Q s"
  then show "mrm_sends R sent received P C Q (snd (m s))"
    using mrm_inertD [OF assms] by (cases "m s") (simp add: mrm_sends_def mrm_carries_def mrm_reqs_def)
qed

lemma mrm_inertI:
  "(\<And>x. preserves (\<lambda>s. (mr_requests s, mr_transport s, mr_user s) = x) m) \<Longrightarrow> mrm_inert m"
  by (simp add: mrm_inert_def)

lemma mrm_inert_add:
  "mrm_inert (mrm_add_timer R t cb)" "mrm_inert (mrm_add_repeating R t cb)"
  by (rule mrm_inertI, rule preservesI,
      simp add: mrm_add_timer_def mrm_add_repeating_def split: prod.split)+

lemmas mrm_inert_preserves [hoare] =
  mrm_inert_add [unfolded mrm_inert_def, THEN spec]

lemma mrm_inert_timers:
  "mrm_inert (mrm_erase_timer R i)" "mrm_inert (mrm_arm_ka_mngt R t)"
  "mrm_inert (mrm_reset_ka_mngt R)" "mrm_inert (mrm_ack_dip R)"
  "mrm_inert (mrm_stop_keepalive_management R)" "mrm_inert (mrm_ack_keepalive R)"
  "mrm_inert mrm_tick" "mrm_inert (mrm_fire R i)" "mrm_inert mrm_stop"
  unfolding mrm_erase_timer_def mrm_arm_ka_mngt_def mrm_reset_ka_mngt_def mrm_ack_dip_def
    mrm_stop_keepalive_management_def mrm_ack_keepalive_def mrm_tick_def mrm_fire_def mrm_stop_def
  by (rule mrm_inertI; intro hoare; simp)+

lemmas mrm_timers_sends [hoare] = mrm_inert_add [THEN mrm_inert_sends] mrm_inert_timers [THEN mrm_inert_sends]

lemma mrm_sends_queue [simp]:
  "mrm_sends R sent received P C Q (s\<lparr>mr_packet_id := i\<rparr>) = mrm_sends R sent received P C Q s"
  "mrm_sends R sent received P C Q (s\<lparr>mr_keepalive_mngt := b\<rparr>) = mrm_sends R sent received P C Q s"
  "mrm_sends R sent received P C Q (s\<lparr>mr_timeout_keepalive := t\<rparr>) = mrm_sends R sent received P C Q s"
  "mrm_sends R sent received P C Q (s\<lparr>mr_ka_ids := K\<rparr>) = mrm_sends R sent received P C Q s"
  "mrm_sends R sent received P C Q (s\<lparr>mr_user := u\<rparr>) = mrm_sends R sent received P C Q s"
  by (simp_all add: mrm_sends_def mrm_carries_def mrm_reqs_def)

lemma mrm_sends_run:
  "preserves (mrm_sends R sent received P C Q) m \<Longrightarrow> mrm_sends R sent received P C Q s \<Longrightarrow> m s = (r, t) \<Longrightarrow>
     mrm_sends R sent received P C Q t"
  by (rule preserves_run)

lemma mrm_make_sends [hoare]: "preserves (mrm_sends R sent received P C Q) (mrm_make mk)"
  unfolding mrm_make_def by (intro hoare) simp

lemma mrm_call_sends [hoare]: "preserves (mrm_sends R sent received P C Q) (mrm_call R' r)"
  unfolding mrm_call_def by (intro hoare) simp

context transport_contract
begin

lemma mrm_write_sends:
  fixes R :: "('q, 'tr, 'c, 'cb, 'u) master_env"
  assumes "me_tr R = A" and "P p"
  shows "preserves (mrm_sends R sent received P C Q) (mrm_write R p)"
proof (rule preservesI)
  fix s :: "('q, 'tr, 'c, 'u) master_rm" assume s: "mrm_sends R sent received P C Q s"
  show "mrm_sends R sent received P C Q (snd (mrm_write R p s))"
  proof (cases "mr_transport s")
    case (Some t)
    with s have "carries sent received P Q (Some (snd (tr_write A p t)))"
      by (intro carries_write) (simp_all add: assms(2) mrm_sends_def mrm_carries_def)
    with s Some assms(1) show ?thesis
      by (cases "tr_write A p t") (simp add: mrm_write_def mrm_sends_def mrm_carries_def mrm_reqs_def)
  qed (use s in \<open>simp add: mrm_write_def\<close>)
qed

lemma mrm_transmit_sends:
  fixes R :: "('q, 'tr, 'c, 'cb, 'u) master_env"
  assumes "me_tr R = A" and mk: "\<And>i p. mk i = Inr p \<Longrightarrow> P p"
  shows "preserves (mrm_sends R sent received P C Q) (mrm_transmit R mk)"
proof (rule preservesI)
  fix s :: "('q, 'tr, 'c, 'u) master_rm" assume s: "mrm_sends R sent received P C Q s"
  let ?s = "s\<lparr>mr_packet_id := mr_packet_id s + 1\<rparr>"
  show "mrm_sends R sent received P C Q (snd (mrm_transmit R mk s))"
  proof (cases "mk (mr_packet_id s + 1)")
    case (Inr p)
    have "mrm_sends R sent received P C Q (snd (mrm_write R p ?s))"
      by (rule preservesD [OF mrm_write_sends [OF assms(1)]]) (use mk [OF Inr] s in simp_all)
    with s Inr show ?thesis by (simp add: mrm_transmit_def mrm_make_def prog_run)
  qed (use s in \<open>simp add: mrm_transmit_def mrm_make_def prog_run\<close>)
qed

lemma mrm_keepalive_sends:
  assumes R: "me_tr R = A" and mem: "storage (me_mem R)"
    and P: "\<And>p. host_packet p \<Longrightarrow> packet_type p = Some Ka \<Longrightarrow> P p"
  shows "preserves (mrm_sends R sent received P C Q) (mrm_ka_mngt_timeout_cb R)"
    and "preserves (mrm_sends R sent received P C Q) (mrm_start_keepalive_management R i t)"
proof -
  have "preserves (mrm_sends R sent received P C Q) (mrm_transmit R (make_keepalive (me_mem R)))"
    by (rule mrm_transmit_sends [OF R]) (use made_keepalive [OF mem] in \<open>auto intro: P\<close>)
  then show "preserves (mrm_sends R sent received P C Q) (mrm_ka_mngt_timeout_cb R)"
    and "preserves (mrm_sends R sent received P C Q) (mrm_start_keepalive_management R i t)"
    unfolding mrm_ka_mngt_timeout_cb_def mrm_start_keepalive_management_def by (intro hoare; simp)+
qed

end

text \<open>A request that is pending is one of those that were, or the new one.\<close>

lemma mrm_insert_sends:
  assumes "master_laws R" and "C (req_command r)"
  shows "preserves (mrm_sends R sent received P C Q) (mrm_insert R r)"
proof (rule preservesI)
  fix s :: "('a, 'b, 'c, 'e) master_rm" assume s: "mrm_sends R sent received P C Q s"
  obtain res s' where run: "mrm_insert R r s = (res, s')" by fastforce
  obtain c where c: "s' = s\<lparr>mr_requests := c\<rparr>" and sub: "mrm_reqs R s' \<subseteq> insert r (mrm_reqs R s)"
    using mrm_insert_reqs [OF assms(1) run] by (auto split: if_splits)
  then show "mrm_sends R sent received P C Q (snd (mrm_insert R r s))"
    using s assms(2) unfolding run snd_conv by (auto simp: mrm_sends_def mrm_carries_def)
qed

lemma mrm_write_only:
  assumes "mrm_write R p s = (r, s')"
  shows "mr_requests s' = mr_requests s" "mr_user s' = mr_user s" "mr_packet_id s' = mr_packet_id s"
  using assms by (auto simp: mrm_write_def split: option.splits prod.splits)

lemma mrm_insert_only:
  assumes "master_laws R" and "mrm_insert R q s = (r, s')"
  shows "mr_transport s' = mr_transport s" "mr_user s' = mr_user s" "mr_packet_id s' = mr_packet_id s"
  using mrm_insert_reqs [OF assms] by auto

text \<open>Before the command is made, only timers change.\<close>

lemma mrm_send_command_prefix:
  assumes laws: "master_laws R" and run: "mrm_send_command R type data cb timeout s = (r, s')"
  obtains i s1 where "mr_requests s1 = mr_requests s" "mr_transport s1 = mr_transport s"
    "mr_user s1 = mr_user s" "mr_packet_id s1 = mr_packet_id s"
    "bindE (mrm_make (\<lambda>pid. make_command (me_mem R) pid type data)) (\<lambda>cmd.
       bindE (mrm_write R cmd) (\<lambda>_. mrm_insert R (new_request i cmd cb))) s1 = (r, s')"
proof -
  obtain q i where "tq_add_repeating (me_tq R) (mr_timeout_queue s) (mr_now s) (ticks timeout) Cmd_timer = (q, i)"
    by fastforce
  then have add: "mrm_add_repeating R (ticks timeout) Cmd_timer s = (Inr i, s\<lparr>mr_timeout_queue := q\<rparr>)"
    by (simp add: mrm_add_repeating_def)
  obtain x s1 where reset: "mrm_reset_ka_mngt R (s\<lparr>mr_timeout_queue := q\<rparr>) = (x, s1)" by fastforce
  have x: "x = Inr ()"
    using reset by (auto simp: mrm_reset_ka_mngt_def mrm_arm_ka_mngt_def mrm_erase_timer_def
        mrm_add_repeating_def prog_run split: prod.splits if_splits)
  note f = mrm_inertD [OF mrm_inert_timers(3) reset] and k = mrm_reset_sent(2) [OF reset]
  have "mrm_send_command R type data cb timeout s =
      bindE (mrm_make (\<lambda>pid. make_command (me_mem R) pid type data)) (\<lambda>cmd.
        bindE (mrm_write R cmd) (\<lambda>_. mrm_insert R (new_request i cmd cb))) s1"
    using add reset x by (simp add: mrm_send_command_def mrm_send_command_write_def bindE_assoc run_bindE
        run_retE split: prod.split sum.split)
  then show thesis using that [of s1 i] f k run by simp
qed

lemma mrm_send_command_frame:
  assumes laws: "master_laws R" and run: "mrm_send_command R type data cb timeout s = (r, s')"
  shows "mr_packet_id s' = mr_packet_id s + 1 \<and> mr_user s' = mr_user s"
proof -
  obtain i s1 where s1: "mr_user s1 = mr_user s" "mr_packet_id s1 = mr_packet_id s"
    "bindE (mrm_make (\<lambda>pid. make_command (me_mem R) pid type data)) (\<lambda>cmd.
       bindE (mrm_write R cmd) (\<lambda>_. mrm_insert R (new_request i cmd cb))) s1 = (r, s')"
    by (rule mrm_send_command_prefix [OF laws run])
  then show ?thesis
    using mrm_write_only(2,3) mrm_insert_only(2,3) [OF laws]
    by (fastforce simp: mrm_make_def prog_run split: sum.splits prod.splits)
qed

context transport_contract
begin

lemma mrm_send_command_sends:
  assumes laws: "master_laws R" and R: "me_tr R = A" and s: "mrm_sends R sent received P C Q s"
    and mk: "\<And>cmd. make_command (me_mem R) (mr_packet_id s + 1) type data = Inr cmd \<Longrightarrow> P cmd \<and> C cmd"
    and run: "mrm_send_command R type data cb timeout s = (r, s')"
  shows "mrm_sends R sent received P C Q s'"
proof -
  obtain i s1 where s1: "mr_requests s1 = mr_requests s" "mr_transport s1 = mr_transport s"
    "mr_packet_id s1 = mr_packet_id s"
    "bindE (mrm_make (\<lambda>pid. make_command (me_mem R) pid type data)) (\<lambda>cmd.
       bindE (mrm_write R cmd) (\<lambda>_. mrm_insert R (new_request i cmd cb))) s1 = (r, s')"
    by (rule mrm_send_command_prefix [OF laws run])
  let ?s = "s1\<lparr>mr_packet_id := mr_packet_id s + 1\<rparr>"
  have ok: "mrm_sends R sent received P C Q ?s"
    using s s1(1,2) by (simp add: mrm_sends_def mrm_carries_def mrm_reqs_def)
  show ?thesis
  proof (cases "make_command (me_mem R) (mr_packet_id s + 1) type data")
    case (Inl e)
    then show ?thesis using s1(3,4) ok by (auto simp: mrm_make_def prog_run)
  next
    case (Inr cmd)
    have "preserves (mrm_sends R sent received P C Q)
        (bindE (mrm_write R cmd) (\<lambda>_. mrm_insert R (new_request i cmd cb)))"
      using mk [OF Inr]
      by (intro hoare mrm_write_sends [OF R] mrm_insert_sends [OF laws]) (simp_all add: new_request_def)
    moreover have "bindE (mrm_write R cmd) (\<lambda>_. mrm_insert R (new_request i cmd cb)) ?s = (r, s')"
      using s1(3,4) Inr by (simp add: mrm_make_def run_bindE [of "bindE _ _"] prog_run)
    ultimately show ?thesis by (rule mrm_sends_run [OF _ ok])
  qed
qed

lemma mrm_cmd_timeout_sends:
  assumes laws: "master_laws R" and E: "me_tr R = A" and s: "mrm_sends R sent received P C Q s"
    and CP: "\<And>p. C p \<Longrightarrow> P p" and run: "mrm_cmd_timeout_cb R i s = (res, s')"
  shows "mrm_sends R sent received P C Q s'"
proof (cases "mi_find1 (me_set R) (mr_requests s) i")
  case None
  then show ?thesis using run s by (simp add: mrm_cmd_timeout_cb_def prog_run)
next
  case (Some r)
  have M: "multi_index_laws req_id req_command_id (me_set R)" using laws by (simp add: master_laws_def)
  have r: "r \<in> mrm_reqs R s" "req_id r = i"
    using mi_laws(3) [OF M, of "mr_requests s" i r] Some by (simp_all add: mrm_reqs_def)
  then have C: "C (req_command r)" using s by (simp add: mrm_sends_def)
  have set: "mrm_sends R sent received P C Q (s\<lparr>mr_requests := c\<rparr>)"
    if "\<forall>q\<in>mrm_reqs R (s\<lparr>mr_requests := c\<rparr>). C (req_command q)" for c
    using s that by (simp add: mrm_sends_def mrm_carries_def)
  show ?thesis
  proof (cases "req_retry r < max_retry")
    case True
    let ?c = "mi_modify1 (me_set R) (mr_requests s) i inc_retry"
    let ?m = "blockE [withE (\<lambda>s. whenE (mrm_open R s) (mrm_write R (req_command r))), mrm_reset_ka_mngt R]"
    have "mrm_reqs R (s\<lparr>mr_requests := ?c\<rparr>) = insert (inc_retry r) (mrm_reqs R s - {r})"
      using mi_modify_law [OF M, of r "mr_requests s" i inc_retry] r by (simp add: mrm_reqs_def)
    then have c: "mrm_sends R sent received P C Q (s\<lparr>mr_requests := ?c\<rparr>)"
      using C s by (intro set) (simp add: mrm_sends_def)
    have "?m (s\<lparr>mr_requests := ?c\<rparr>) = (res, s')"
      using run Some True by (simp add: mrm_cmd_timeout_cb_def run_withE run_bindE run_modifyE)
    moreover have "preserves (mrm_sends R sent received P C Q) ?m"
      using CP [OF C] by (intro hoare mrm_write_sends [OF E])
    ultimately show ?thesis by (rule mrm_sends_run [OF _ c, rotated])
  next
    case False
    let ?e = "\<lambda>s. s\<lparr>mr_requests := mi_erase1 (me_set R) (mr_requests s) i\<rparr>"
    have e: "preserves (mrm_sends R sent received P C Q) (modifyE ?e)"
      by (rule preserves_modifyE)
        (simp add: mrm_sends_def mrm_carries_def mrm_reqs_def mi_laws(5) [OF M])
    have "preserves (mrm_sends R sent received P C Q)
        (blockE [mrm_call R (r\<lparr>req_status := Timed_out\<rparr>), mrm_erase_timer R (req_id r), modifyE ?e])"
      by (intro hoare e)
    moreover have "blockE [mrm_call R (r\<lparr>req_status := Timed_out\<rparr>), mrm_erase_timer R (req_id r), modifyE ?e] s
        = (res, s')"
      using run Some False by (simp add: mrm_cmd_timeout_cb_def run_withE)
    ultimately show ?thesis by (rule mrm_sends_run [OF _ s])
  qed
qed

lemma mrm_ack_command_sends:
  assumes laws: "master_laws R"
  shows "preserves (mrm_sends R sent received P C Q) (mrm_ack_command R p)"
proof -
  have M: "multi_index_laws req_id req_command_id (me_set R)" using laws by (simp add: master_laws_def)
  have e: "preserves (mrm_sends R sent received P C Q)
      (modifyE (\<lambda>s. s\<lparr>mr_requests := mi_erase2 (me_set R) (mr_requests s) i\<rparr>))" for i
    by (rule preserves_modifyE)
      (simp add: mrm_sends_def mrm_carries_def mrm_reqs_def mi_laws(6) [OF M])
  have "preserves (mrm_sends R sent received P C Q)
      (mrm_finish R r (\<lambda>c. mi_erase2 (me_set R) c i))" for r i
    unfolding mrm_finish_def by (intro hoare e)
  then show ?thesis
    unfolding mrm_ack_command_eq by (intro hoare) (auto intro!: hoare split: option.split)
qed

end

end
