(* ===== verification/Link.thy ===== *)
theory Link
  imports Sending
begin

text \<open>
  One connection as a closed system: a connected host, the device, and between them a channel
  that may lose, repeat, delay and reorder what was sent, but invents nothing. It implements
  the abstract agreement: no command is executed that was not issued, and none is reported as
  fulfilled that was not executed.
\<close>

section \<open>The channel\<close>

text \<open>The bytes of \<open>p\<close> at the start of a buffer are what a transport makes \<open>q\<close> of.\<close>

definition carried :: "packet \<Rightarrow> packet \<Rightarrow> bool" where
  "carried p q \<longleftrightarrow> (\<exists>mem w. storage mem \<and> packet_of_view mem (packet_bytes p @ w) = Inr q)"

lemma carried_fields:
  assumes "valid_packet p" and "carried p q"
  shows "packet_type q = packet_type p" "packet_id q = packet_id p" "packet_blocks q = packet_blocks p"
    "acked_id q = acked_id p"
proof -
  obtain mem w where q: "storage mem" "packet_of_view mem (packet_bytes p @ w) = Inr q"
    using assms(2) by (auto simp: carried_def)
  show "packet_type q = packet_type p" "packet_id q = packet_id p" "packet_blocks q = packet_blocks p"
    using wire_fields [OF assms(1) q(1), of w] q(2) by (metis sum.inject(2))+
  then show "acked_id q = acked_id p" by (simp add: acked_id_def)
qed

section \<open>The moves\<close>

text \<open>
  What a connected host does: passes of its handler, the other functions of the state, timers,
  ticks, and what its user asks for. A transition may end the connection; there is no pass then.
  A command of 65532 bytes or more is outside (its length is cut when the packet is made).
\<close>

inductive host_move ::
  "('q, 'm, 'tr, 'c, 'cb, 'u) master_app_env \<Rightarrow> ('q, 'm, 'tr, 'c, 'u) master \<Rightarrow>
   ('q, 'm, 'tr, 'c, 'u) master \<Rightarrow> bool" for E where
  pass: "ms_running m \<Longrightarrow> ms_curr m = Connected \<Longrightarrow>
    ms_catch (bindE (ms_handler E (ms_curr m)) (\<lambda>_. retE ())) (m\<lparr>ms_nb_loop := ms_nb_loop m + 1\<rparr>)
      = (r, m') \<Longrightarrow> host_move E m m'"
| stay: "ms_running m \<Longrightarrow> (c, check) \<in> set (ms_checks E (ms_curr m)) \<Longrightarrow>
    check m = (Inr Stay_curr_state, m') \<Longrightarrow> host_move E m m'"
| goto: "ms_running m \<Longrightarrow> (c, check) \<in> set (ms_checks E (ms_curr m)) \<Longrightarrow>
    check m = (Inr Goto_next_state, m1) \<Longrightarrow>
    ms_catch (ms_transition_handler E (ms_curr m) c) (m1\<lparr>ms_curr := c, ms_nb_loop := 0\<rparr>) = (r, m') \<Longrightarrow>
    host_move E m m'"
| timer: "mr_running (ms_rm m) \<Longrightarrow> mrm_timers (ma_rm E) (ms_rm m) i = Some t \<Longrightarrow>
    bindE (ms_on_rm (mrm_fire (ma_rm E) i)) (\<lambda>_. ms_timer E i (t_callback t)) m = (r, m') \<Longrightarrow>
    host_move E m m'"
| tick: "ms_on_rm mrm_tick m = (r, m') \<Longrightarrow> host_move E m m'"
| send_command: "length data < 65532 \<Longrightarrow> ms_send_command E type data cb m = (r, m') \<Longrightarrow> host_move E m m'"
| async_disconnect: "ms_async_disconnect E m = (r, m') \<Longrightarrow> host_move E m m'"

text \<open>The device, in \<open>Connecting\<close> and \<open>Connected\<close>.\<close>

inductive device_move ::
  "('q, 'm, 'tr) slave_app_env \<Rightarrow> ('q, 'm, 'tr, 'u) slave \<Rightarrow> ('q, 'm, 'tr, 'u) slave \<Rightarrow> bool"
  for F where
  pass: "sl_running d \<Longrightarrow> sl_curr d = Connecting \<or> sl_curr d = Connected \<Longrightarrow>
    sl_catch (bindE (sl_handler F (sl_curr d)) (\<lambda>_. retE ())) (d\<lparr>sl_nb_loop := sl_nb_loop d + 1\<rparr>)
      = (r, d') \<Longrightarrow> device_move F d d'"
| stay: "sl_running d \<Longrightarrow> (c, check) \<in> set (sl_checks F (sl_curr d)) \<Longrightarrow>
    check d = (Inr Stay_curr_state, d') \<Longrightarrow> device_move F d d'"
| goto: "sl_running d \<Longrightarrow> (c, check) \<in> set (sl_checks F (sl_curr d)) \<Longrightarrow>
    check d = (Inr Goto_next_state, d1) \<Longrightarrow>
    sl_catch (sl_transition_handler c) (d1\<lparr>sl_curr := c, sl_nb_loop := 0\<rparr>) = (r, d') \<Longrightarrow>
    device_move F d d'"
| timer: "sr_running (sl_rm d) \<Longrightarrow> srm_timers (sa_rm F) (sl_rm d) i = Some t \<Longrightarrow>
    q = tq_fire (se_tq (sa_rm F)) (sr_timeout_queue (sl_rm d)) i \<Longrightarrow>
    srm_ka_timeout_cb (Some (sl_timeout_cb F)) (d\<lparr>sl_rm := (sl_rm d)\<lparr>sr_timeout_queue := q\<rparr>\<rparr>) = (r, d') \<Longrightarrow>
    device_move F d d'"
| tick: "sl_on_rm srm_tick d = (r, d') \<Longrightarrow> device_move F d d'"
| send_data: "sl_send_data F bs d = (r, d') \<Longrightarrow> device_move F d d'"

text \<open>
  The whole link. The host moves while it has identifiers left (65535 packets of one
  connection): from then on they repeat. The channel may drop packets that were accepted and
  puts into a receiving queue what the bytes of a sent packet parse to, as often as it likes.
\<close>

record ('q, 'm, 'tr, 'c, 'cb, 'u, 'p, 'n, 'td) link_env =
  le_host :: "('q, 'm, 'tr, 'c, 'cb, 'u) master_app_env"
  le_device :: "('p, 'n, 'td) slave_app_env"
  le_sent :: "'tr \<Rightarrow> packet list"
  le_received :: "'tr \<Rightarrow> packet list"
  le_device_sent :: "'td \<Rightarrow> packet list"
  le_device_received :: "'td \<Rightarrow> packet list"

inductive link_step ::
  "('q, 'm, 'tr, 'c, 'cb, 'u, 'p, 'n, 'td) link_env \<Rightarrow>
   ('q, 'm, 'tr, 'c, 'u) master \<times> ('p, 'n, 'td, 'v) slave \<Rightarrow>
   ('q, 'm, 'tr, 'c, 'u) master \<times> ('p, 'n, 'td, 'v) slave \<Rightarrow> bool" for L where
  host: "host_move (le_host L) m m' \<Longrightarrow> unat (mr_packet_id (ms_rm m)) < 65535 \<Longrightarrow>
    link_step L (m, d) (m', d)"
| device: "device_move (le_device L) d d' \<Longrightarrow> link_step L (m, d) (m, d')"
| to_host: "mr_transport (ms_rm m) = Some t \<Longrightarrow> set (le_sent L t') \<subseteq> set (le_sent L t) \<Longrightarrow>
    \<forall>q\<in>set (le_received L t'). q \<in> set (le_received L t)
      \<or> (\<exists>p\<in>set (srm_sent (le_device_sent L) (sl_rm d)). carried p q) \<Longrightarrow>
    link_step L (m, d) (m\<lparr>ms_rm := (ms_rm m)\<lparr>mr_transport := Some t'\<rparr>\<rparr>, d)"
| to_device: "sr_transport (sl_rm d) = Some t \<Longrightarrow> set (le_device_sent L t') \<subseteq> set (le_device_sent L t) \<Longrightarrow>
    \<forall>q\<in>set (le_device_received L t'). q \<in> set (le_device_received L t)
      \<or> (\<exists>p\<in>set (mrm_sent (le_sent L) (ms_rm m)). carried p q) \<Longrightarrow>
    link_step L (m, d) (m, d\<lparr>sl_rm := (sl_rm d)\<lparr>sr_transport := Some t'\<rparr>\<rparr>)"

section \<open>What the users see\<close>

text \<open>The commands reported as fulfilled, in the log the host's callbacks leave.\<close>

definition command_of :: "'cb request \<Rightarrow> issued_command" where
  "command_of r = (packet_id (req_command r), hd (packet_blocks (req_command r)))"

definition fulfilled :: "'cb request list \<Rightarrow> issued_command list" where
  "fulfilled u = map command_of [r \<leftarrow> u. req_status r = Fulfilled]"

text \<open>
  The users: the host's command callbacks record the request they are called with, the device's
  command callback records the block and may throw, and no other callback touches the logs.
\<close>

definition host_user :: "('q, 'm, 'tr, 'c, 'cb request list) master \<Rightarrow> bool" where
  "host_user m \<longleftrightarrow>
     (case ms_data_cb m of None \<Rightarrow> True | Some cb \<Rightarrow> \<forall>p u. snd (cb p u) = u)
     \<and> (case ms_status_cb m of None \<Rightarrow> True | Some cb \<Rightarrow> \<forall>c e u. snd (cb c e u) = u)"

definition device_user :: "('q, 'm, 'tr, block list) slave \<Rightarrow> bool" where
  "device_user d \<longleftrightarrow>
     (case sl_cmd_cb d of None \<Rightarrow> False | Some cb \<Rightarrow> \<forall>b u. snd (cb b u) = u @ [b])
     \<and> (case sl_status_cb d of None \<Rightarrow> True | Some cb \<Rightarrow> \<forall>c e u. snd (cb c e u) = u)
     \<and> identification_size (sl_slave_id d) \<le> 2019"

text \<open>
  The start of a connection: no command is pending, sent, received or executed yet, and no
  acknowledgement either.
\<close>

definition link_begun ::
  "('q, 'm, 'tr, 'c, 'cb, 'cb request list, 'p, 'n, 'td) link_env \<Rightarrow>
   ('q, 'm, 'tr, 'c, 'cb request list) master \<times> ('p, 'n, 'td, block list) slave \<Rightarrow> bool" where
  "link_begun L = (\<lambda>(m, d).
     mrm_carries (le_sent L) (le_received L) (\<lambda>p. host_packet p \<and> packet_type p \<noteq> Some Cmd)
       (\<lambda>q. packet_type q \<noteq> Some Cmd_ack) (ms_rm m)
     \<and> mrm_reqs (ma_rm (le_host L)) (ms_rm m) = {} \<and> mr_user (ms_rm m) = [] \<and> host_user m
     \<and> srm_carries (le_device_sent L) (le_device_received L)
       (\<lambda>p. device_packet p \<and> packet_type p \<noteq> Some Cmd_ack) (\<lambda>q. packet_type q \<noteq> Some Cmd) (sl_rm d)
     \<and> sl_user d = [] \<and> device_user d)"

section \<open>The relation to the abstract agreement\<close>

text \<open>
  What is known of the packets, given the issued commands \<open>I\<close>, the executed \<open>X\<close> and the
  fulfilled \<open>Y\<close>: of those the host sends, of its pending commands, of those the device finds in
  its queue, of those it sends, and of those the host finds in its queue.
\<close>

definition issued_in :: "issued_command set \<Rightarrow> packet \<Rightarrow> bool" where
  "issued_in I p \<longleftrightarrow> packet_type p = Some Cmd \<longrightarrow> (\<exists>b. packet_blocks p = [b] \<and> (packet_id p, b) \<in> I)"

definition acks_in :: "issued_command list \<Rightarrow> packet \<Rightarrow> bool" where
  "acks_in X p \<longleftrightarrow> packet_type p = Some Cmd_ack \<longrightarrow> (\<exists>i. acked_id p = Inr i \<and> i \<in> fst ` set X)"

definition pending_in :: "issued_command set \<Rightarrow> issued_command list \<Rightarrow> packet \<Rightarrow> bool" where
  "pending_in I Y p \<longleftrightarrow> host_packet p \<and> issued_in I p \<and> packet_type p = Some Cmd \<and> packet_id p \<notin> fst ` set Y"

definition host_ok ::
  "('q, 'tr, 'c, 'cb, 'cb request list) master_env \<Rightarrow> ('tr \<Rightarrow> packet list) \<Rightarrow> ('tr \<Rightarrow> packet list) \<Rightarrow>
   agreement \<Rightarrow> ('q, 'tr, 'c, 'cb request list) master_rm \<Rightarrow> bool" where
  "host_ok R sent received a x \<longleftrightarrow>
     mrm_sends R sent received (\<lambda>p. host_packet p \<and> issued_in (ag_issued a) p)
       (pending_in (ag_issued a) (ag_fulfilled a)) (acks_in (ag_executed a)) x
     \<and> (\<forall>c\<in>ag_issued a. unat (fst c) \<le> unat (mr_packet_id x)) \<and> fulfilled (mr_user x) = ag_fulfilled a"

definition device_ok ::
  "('tr \<Rightarrow> packet list) \<Rightarrow> ('tr \<Rightarrow> packet list) \<Rightarrow> agreement \<Rightarrow> ('q, 'm, 'tr, block list) slave \<Rightarrow> bool" where
  "device_ok sent received a d \<longleftrightarrow>
     srm_carries sent received (\<lambda>p. device_packet p \<and> acks_in (ag_executed a) p)
       (issued_in (ag_issued a)) (sl_rm d)
     \<and> sl_user d = map snd (ag_executed a) \<and> device_user d"

lemma issued_mono: "issued_in I p \<Longrightarrow> I \<subseteq> J \<Longrightarrow> issued_in J p"
  by (auto simp: issued_in_def)

lemmas issued_more = issued_mono [OF _ subset_insertI]

end
