(* ===== verification/Link_Device.thy ===== *)
theory Link_Device
  imports Link
begin

text \<open>
  The device's half of a link: every move of it executes one issued command, or none, and an
  acknowledgement is sent only for a command that is executed.
\<close>

section \<open>The device\<close>

lemma device_ok_frame [simp]:
  "device_ok sent received a (d\<lparr>sl_evt := m\<rparr>) = device_ok sent received a d"
  "device_ok sent received a (d\<lparr>sl_errc := e\<rparr>) = device_ok sent received a d"
  "device_ok sent received a (d\<lparr>sl_received_packet_id := i\<rparr>) = device_ok sent received a d"
  "device_ok sent received a (d\<lparr>sl_master_id := n\<rparr>) = device_ok sent received a d"
  "device_ok sent received a (d\<lparr>sl_nb_loop := k\<rparr>) = device_ok sent received a d"
  "device_ok sent received a (d\<lparr>sl_curr := c\<rparr>) = device_ok sent received a d"
  by (simp_all add: device_ok_def device_user_def)

lemma device_on_rm [hoare]:
  assumes "\<And>P Q. (\<And>p. device_packet p \<Longrightarrow> packet_type p \<noteq> Some Cmd_ack \<Longrightarrow> P p) \<Longrightarrow>
      preserves (srm_carries sent received P Q) m"
  shows "preserves (device_ok sent received a) (sl_on_rm m)"
proof -
  have "preserves (srm_carries sent received (\<lambda>p. device_packet p \<and> acks_in (ag_executed a) p)
      (issued_in (ag_issued a))) m"
    by (rule assms) (simp add: acks_in_def)
  then show ?thesis
    unfolding sl_on_rm_def
    by (intro preserves_zoomE) (simp add: device_ok_def device_user_def preserves_def)
qed

lemma device_quiet [hoare]:
  "preserves (device_ok sent received a) (sl_notify E e)"
  "preserves (device_ok sent received a) (sl_erase E e)"
  "preserves (device_ok sent received a) (sl_track_id p)"
  by (rule preservesI, simp add: sl_notify_def sl_erase_def sl_track_id_def prog_run split: prod.split)+

lemma device_catch [hoare]: "preserves (device_ok sent received a) m \<Longrightarrow> preserves (device_ok sent received a) (sl_catch m)"
  unfolding sl_catch_def by (intro hoare)

text \<open>One more execution spoils nothing.\<close>

lemma executed_more: "acks_in X p \<Longrightarrow> acks_in (X @ [x]) p"
  by (auto simp: acks_in_def)

lemma device_on_transport:
  fixes f :: "'tr \<Rightarrow> 'x"
  shows "preserves (device_ok sent received a) (sl_on_transport (\<lambda>t. (Inr (f t), t)))"
proof (rule preservesI)
  fix d :: "('a, 'b, 'tr, block list) slave" assume d: "device_ok sent received a d"
  have "snd (sl_on_transport (\<lambda>t. (Inr (f t), t)) d) = d"
    by (cases "sr_transport (sl_rm d)") (simp_all add: sl_on_transport_def)
  with d show "device_ok sent received a (snd (sl_on_transport (\<lambda>t. (Inr (f t), t)) d))" by simp
qed

locale linked_device =
  transport_contract "se_tr (sa_rm F)" sent received
  for F :: "('q, 'm, 'tr) slave_app_env" and sent received +
  assumes device_storage: "storage (se_mem (sa_rm F))"
begin

lemma device_read:
  assumes "device_ok sent received a d" and "sl_read F d = (r, d')"
  shows "device_ok sent received a d' \<and> (\<forall>q. r = Inr (Some q) \<longrightarrow> issued_in (ag_issued a) q)"
proof (cases "sr_transport (sl_rm d)")
  case None
  then show ?thesis using assms by (auto simp: sl_read_def sl_on_transport_def)
next
  case (Some t)
  obtain p t' where rd: "tr_read (se_tr (sa_rm F)) t = (p, t')" by fastforce
  have run: "r = Inr p" "d' = d\<lparr>sl_rm := (sl_rm d)\<lparr>sr_transport := Some t'\<rparr>\<rparr>"
    using assms(2) Some rd by (simp_all add: sl_read_def sl_on_transport_def)
  show ?thesis
    using assms(1) Some carries_read [OF _ rd]
    by (auto simp: run device_ok_def device_user_def srm_carries_def)
qed

lemma device_handlers [hoare]:
  "preserves (device_ok sent received a) (sl_on_rm (srm_keepalive (sa_rm F)))"
  "preserves (device_ok sent received a) (sl_on_rm (srm_send_data (sa_rm F) bs))"
  by (rule device_on_rm, (rule srm_keepalive_carries srm_send_data_carries; simp add: device_storage))+

lemma device_send_dip:
  "device_ok sent received a d \<Longrightarrow>
     device_ok sent received a (snd (sl_on_rm (srm_send_dip (sa_rm F) (sl_slave_id d)) d))"
  by (rule preservesD [OF device_on_rm], rule srm_send_dip_carries)
    (simp_all add: device_storage device_ok_def device_user_def)

text \<open>
  A command: acknowledged and executed, or neither. The acknowledgement is written before the
  user's callback is called; when it cannot be written the callback is not called.
\<close>

lemma device_executes:
  assumes "device_user d"
  shows "snd (sl_call_cmd_cb b d) = d\<lparr>sl_user := sl_user d @ [b]\<rparr>"
proof -
  obtain cb where cb: "sl_cmd_cb d = Some cb" "\<And>b u. snd (cb b u) = u @ [b]"
    using assms by (auto simp: device_user_def split: option.splits)
  obtain r where "cb b (sl_user d) = (r, sl_user d @ [b])"
    using cb(2) [of b "sl_user d"] by (metis surjective_pairing)
  then show ?thesis
    by (cases r) (simp_all add: sl_call_cmd_cb_def cb(1) prog_run sl_on_user_def)
qed

lemma device_acks:
  assumes q: "packet_blocks q = [b]" and a': "a' = a\<lparr>ag_executed := ag_executed a @ [(packet_id q, b)]\<rparr>"
    and d: "device_ok sent received a d" and run: "sl_on_rm (srm_send_cmd_ack (sa_rm F) q) d = (r, d')"
  shows "(r = Inr () \<longrightarrow> device_user d' \<and> sl_user d' = sl_user d
      \<and> srm_carries sent received (\<lambda>p. device_packet p \<and> acks_in (ag_executed a') p)
          (issued_in (ag_issued a)) (sl_rm d'))
    \<and> (r \<noteq> Inr () \<longrightarrow> device_ok sent received a d')"
proof -
  let ?R = "sa_rm F" and ?P = "\<lambda>a p. device_packet p \<and> acks_in (ag_executed a) p"
  let ?mk = "\<lambda>i. make_cmd_ack (se_mem ?R) i (b_type b) (packet_id q)"
  have "preserves (srm_carries sent received (?P a') (issued_in (ag_issued a))) (srm_transmit ?R ?mk)"
    using made_cmd_ack [OF device_storage]
    by (intro srm_transmit_carries [OF refl]) (fastforce simp: a' acks_in_def)
  then have ok: "preserves (srm_carries sent received (?P a') (issued_in (ag_issued a))) (srm_send_cmd_ack ?R q)"
    unfolding srm_send_cmd_ack_def q by (intro hoare) simp
  obtain x where x: "srm_send_cmd_ack ?R q (sl_rm d) = (r, x)" "d' = d\<lparr>sl_rm := x\<rparr>"
    using run by (auto simp: sl_on_rm_def run_zoomE split: prod.splits)
  have c: "srm_carries sent received (?P a) (issued_in (ag_issued a)) (sl_rm d)"
    using d by (simp add: device_ok_def)
  then have "srm_carries sent received (?P a') (issued_in (ag_issued a)) (sl_rm d)"
    unfolding srm_carries_def by (rule carries_mono) (simp_all add: a' executed_more)
  from preserves_run [OF ok this x(1)]
  have sent: "srm_carries sent received (?P a') (issued_in (ag_issued a)) x" .
  have failed: "srm_carries sent received (?P a) (issued_in (ag_issued a)) x" if fail: "r \<noteq> Inr ()"
  proof -
    obtain e where "r = Inl e" using fail by (cases r) auto
    then have "srm_transmit ?R ?mk (sl_rm d) = (Inl e, x)"
      using x(1) q by (auto simp: srm_send_cmd_ack_def prog_run split: if_splits)
    from srm_transmit_failed [OF refl this c] show ?thesis .
  qed
  show ?thesis
    using d sent failed by (auto simp: x(2) device_ok_def device_user_def)
qed

lemma device_command:
  assumes q: "packet_type q = Some Cmd" "issued_in (ag_issued a) q" and d: "device_ok sent received a d"
    and run: "sl_on_cmd F q d = (r, d')"
  shows "device_ok sent received a d' \<or>
    (\<exists>x\<in>ag_issued a. device_ok sent received (a\<lparr>ag_executed := ag_executed a @ [x]\<rparr>) d')"
proof -
  obtain b where b: "packet_blocks q = [b]" "(packet_id q, b) \<in> ag_issued a"
    using q by (auto simp: issued_in_def)
  obtain r1 d1 where ka: "sl_on_rm (srm_keepalive (sa_rm F)) d = (r1, d1)" by fastforce
  have d1: "device_ok sent received a d1" by (rule preserves_run [OF device_handlers(1) d ka])
  show ?thesis
  proof (cases r1)
    case (Inl e)
    then show ?thesis using run ka d1 by (simp add: sl_on_cmd_def run_bindE)
  next
    case (Inr u)
    obtain r2 d2 where ack: "sl_on_rm (srm_send_cmd_ack (sa_rm F) q) d1 = (r2, d2)" by fastforce
    note k = device_acks [OF b(1) refl d1 ack]
    show ?thesis
    proof (cases r2)
      case (Inl e)
      then have "d' = d2" using run ka Inr ack by (simp add: sl_on_cmd_def run_bindE)
      then show ?thesis using k Inl by simp
    next
      case Inr2: (Inr v)
      have "d' = snd (bindE (sl_call_cmd_cb b) (\<lambda>_. retE ()) d2)"
        using run ka Inr ack Inr2 b(1) by (simp add: sl_on_cmd_def run_bindE)
      then have "d' = snd (sl_call_cmd_cb b d2)"
        by (simp add: run_bindE run_retE split: prod.split sum.split)
      then have "device_ok sent received (a\<lparr>ag_executed := ag_executed a @ [(packet_id q, b)]\<rparr>) d'"
        using k Inr2 d1 device_executes [of d2 b] by (simp add: device_ok_def device_user_def)
      then show ?thesis using b(2) by blast
    qed
  qed
qed

text \<open>The handlers of the two states.\<close>

lemma device_on_timers [hoare]:
  "preserves (device_ok sent received a) (sl_on_rm (srm_start R))"
  "preserves (device_ok sent received a) (sl_on_rm srm_stop)"
  "preserves (device_ok sent received a) (sl_on_rm srm_tick)"
  "preserves (device_ok sent received a) (sl_on_rm (srm_start_keepalive_management R t))"
  "preserves (device_ok sent received a) (sl_on_rm (srm_stop_keepalive_management R))"
  by (rule device_on_rm, rule srm_timers_carries)+

lemma device_connecting: "preserves (device_ok sent received a) (sl_handler_connecting F)"
proof -
  have dip: "preserves (device_ok sent received a) (sl_on_rm (srm_send_dip (sa_rm F) ident))"
    if "identification_size ident \<le> 2019" for ident
    by (rule device_on_rm, rule srm_send_dip_carries) (simp_all add: device_storage that)
  have first: "device_ok sent received a (snd (withE (\<lambda>s. whenE (sl_nb_loop s = 1)
      (blockE [sl_on_rm (srm_start (sa_rm F)), sl_on_rm (srm_send_dip (sa_rm F) (sl_slave_id s)),
        sl_on_rm (srm_start_keepalive_management (sa_rm F) keepalive_timeout)])) d))"
    if d: "device_ok sent received a d" for d
  proof -
    have "identification_size (sl_slave_id d) \<le> 2019"
      using d by (simp add: device_ok_def device_user_def)
    then have "preserves (device_ok sent received a) (whenE (sl_nb_loop d = 1)
      (blockE [sl_on_rm (srm_start (sa_rm F)), sl_on_rm (srm_send_dip (sa_rm F) (sl_slave_id d)),
        sl_on_rm (srm_start_keepalive_management (sa_rm F) keepalive_timeout)]))"
      by (intro hoare dip)
    from preservesD [OF this d] show ?thesis by (simp add: run_withE)
  qed
  have read: "preserves (device_ok sent received a) (sl_read F)"
    by (rule preservesI) (metis device_read surjective_pairing)
  show ?thesis
    unfolding sl_handler_connecting_def
    by (rule preservesI, rule preserves_after, erule first)
      (auto intro!: hoare read split: option.split packet_type.split)
qed

lemma device_connected:
  assumes d: "device_ok sent received a d" and run: "sl_handler_connected F d = (r, d')"
  shows "device_ok sent received a d' \<or>
    (\<exists>x\<in>ag_issued a. device_ok sent received (a\<lparr>ag_executed := ag_executed a @ [x]\<rparr>) d')"
proof -
  obtain p d1 where rd: "sl_read F d = (p, d1)" by fastforce
  note d1 = device_read [OF d rd]
  consider (none) "p = Inr None \<or> isl p" | (some) q where "p = Inr (Some q)"
    by (cases p) auto
  then show ?thesis
  proof cases
    case none
    then have "d' = d1"
      using run rd by (auto simp: sl_handler_connected_def run_bindE run_retE split: sum.splits)
    then show ?thesis using d1 by simp
  next
    case (some q)
    obtain d2 where tr: "sl_track_id q d1 = (Inr (), d2)" using sl_track_id_run by blast
    have d2: "device_ok sent received a d2" by (rule preserves_run [OF device_quiet(3) _ tr]) (simp add: d1)
    let ?m = "case packet_type q of
             Some Hip \<Rightarrow>
               blockE [modifyE (\<lambda>s. s\<lparr>sl_master_id := no_identification\<rparr>),
                       sl_on_rm (srm_stop_keepalive_management (sa_rm F)),
                       sl_on_rm srm_stop,
                       sl_notify F Hip_received]
           | Some Cmd \<Rightarrow> sl_on_cmd F q
           | Some Ka \<Rightarrow> sl_on_rm (srm_keepalive (sa_rm F))
           | _ \<Rightarrow> retE ()"
    obtain y d3 where m: "?m d2 = (y, d3)" by fastforce
    have "d' = d3"
      using run rd some tr m by (auto simp: sl_handler_connected_def run_bindE run_retE split: sum.splits)
    show ?thesis
    proof (cases "packet_type q = Some Cmd")
      case True
      then show ?thesis
        using device_command [OF _ _ d2, of q y d3] d1 some m \<open>d' = d3\<close> by simp
    next
      case False
      then have "preserves (device_ok sent received a) ?m"
        by (auto intro!: hoare split: option.split packet_type.split)
      from preserves_run [OF this d2 m] \<open>d' = d3\<close> show ?thesis by simp
    qed
  qed
qed

text \<open>Every move of the device executes one issued command, or none.\<close>

lemma device_check:
  "(c, check) \<in> set (sl_checks F st) \<Longrightarrow> preserves (device_ok sent received a) check"
  by (cases st) (auto simp: sl_check_true_def sl_check_transport_closed_def sl_check_hip_received_def
      sl_check_ka_timeout_def sl_check_connected_def sl_goto_if_def
      intro!: hoare preserves_if device_on_transport)

lemma device_transition: "preserves (device_ok sent received a) (sl_transition_handler c)"
proof -
  have "preserves (device_ok sent received a) (withE (\<lambda>s. case sl_status_cb s of
      None \<Rightarrow> retE () | Some cb \<Rightarrow> sl_on_user (cb c (sl_errc s))))"
    by (rule preservesI)
      (auto simp: prog_run device_ok_def device_user_def sl_on_user_def split: option.splits prod.splits,
        (metis snd_conv)+)
  note cb = this
  show ?thesis
    unfolding sl_transition_handler_def
    by (rule preserves_block_Cons [OF cb], intro hoare) simp
qed

lemma device_simulates:
  assumes "device_move F d d'" and d: "device_ok sent received a d"
  shows "device_ok sent received a d' \<or>
    (\<exists>x\<in>ag_issued a. device_ok sent received (a\<lparr>ag_executed := ag_executed a @ [x]\<rparr>) d')"
  using assms(1)
proof cases
  case (pass r)
  let ?d = "d\<lparr>sl_nb_loop := sl_nb_loop d + 1\<rparr>"
  obtain y d1 where h: "sl_handler F (sl_curr d) ?d = (y, d1)" by fastforce
  have "d' = d1"
    using pass(3) h by (auto simp: sl_catch_def prog_run split: sum.splits if_splits)
  moreover have ok: "device_ok sent received a ?d" using d by simp
  ultimately show ?thesis
    using pass(2) h device_connected [OF ok, of y d1] preserves_run [OF device_connecting ok, of y d1]
    by (auto simp del: device_ok_frame)
next
  case (stay c check)
  then show ?thesis using preserves_run [OF device_check d] by blast
next
  case (goto c check d1 r)
  have "device_ok sent received a d1" using preserves_run [OF device_check d] goto(2,3) by blast
  then have "device_ok sent received a (d1\<lparr>sl_curr := c, sl_nb_loop := 0\<rparr>)" by simp
  from preserves_run [OF device_catch [OF device_transition] this goto(4)] show ?thesis ..
next
  case (timer i t q r)
  have "device_ok sent received a (d\<lparr>sl_rm := (sl_rm d)\<lparr>sr_timeout_queue := q\<rparr>\<rparr>)"
    using d by (simp add: device_ok_def device_user_def srm_carries_def)
  moreover have "sl_timeout_cb F (d\<lparr>sl_rm := (sl_rm d)\<lparr>sr_timeout_queue := q\<rparr>\<rparr>) = (r, d')"
    using timer(4) by (simp add: srm_ka_timeout_cb_def)
  ultimately show ?thesis
    using preserves_run [OF device_quiet(1), of sent received a "d\<lparr>sl_rm := (sl_rm d)\<lparr>sr_timeout_queue := q\<rparr>\<rparr>"]
    unfolding sl_timeout_cb_def by blast
next
  case (tick r)
  from preserves_run [OF device_on_timers(3) d tick] show ?thesis ..
next
  case (send_data bs r)
  have "preserves (device_ok sent received a) (sl_send_data F bs)"
    unfolding sl_send_data_def by (intro hoare)
  from preserves_run [OF this d send_data] show ?thesis ..
qed

end

end
