(* ===== verification/Link_Host.thy ===== *)
theory Link_Host
  imports Link
begin

text \<open>
  The host's half of a link: every move of it issues one command under a new identifier,
  reports one that is acknowledged, or does neither.
\<close>

section \<open>The host\<close>

text \<open>What the operations of the request manager do to the identifier and to the log.\<close>

definition mrm_still :: "('u \<times> u16) \<Rightarrow> ('q, 'tr, 'c, 'u) master_rm \<Rightarrow> bool" where
  "mrm_still c x \<longleftrightarrow> (mr_user x, mr_packet_id x) = c"

lemma mrm_still_run:
  "preserves (mrm_still c) m \<Longrightarrow> m s = (r, t) \<Longrightarrow> mrm_still c s \<Longrightarrow> mrm_still c t"
  by (rule preserves_run)

definition mrm_one_packet :: "('u \<times> u16) \<Rightarrow> ('q, 'tr, 'c, 'u) master_rm \<Rightarrow> bool" where
  "mrm_one_packet c x \<longleftrightarrow> mr_user x = fst c \<and> (mr_packet_id x = snd c \<or> mr_packet_id x = snd c + 1)"

lemma mrm_still_ops [hoare]:
  "preserves (mrm_still c) (mrm_add_timer R t cb)" "preserves (mrm_still c) (mrm_add_repeating R t cb)"
  "preserves (mrm_still c) (mrm_write R p)"
  "preserves (mrm_one_packet c) (mrm_add_timer R t cb)"
  by (rule preservesI, simp add: mrm_add_timer_def mrm_add_repeating_def mrm_write_def mrm_still_def
      mrm_one_packet_def split: prod.split option.split)+

lemma mrm_still_timers [hoare]:
  "preserves (mrm_still c) (mrm_erase_timer R i)" "preserves (mrm_still c) (mrm_arm_ka_mngt R t)"
  "preserves (mrm_still c) (mrm_reset_ka_mngt R)" "preserves (mrm_still c) (mrm_ack_keepalive R)"
  "preserves (mrm_still c) mrm_tick" "preserves (mrm_still c) (mrm_fire R i)"
  unfolding mrm_erase_timer_def mrm_arm_ka_mngt_def mrm_reset_ka_mngt_def mrm_ack_keepalive_def
    mrm_tick_def mrm_fire_def
  by (intro hoare; simp add: mrm_still_def)+

lemma mrm_transmit_one_packet:
  "mrm_still c s \<Longrightarrow> mrm_one_packet c (snd (mrm_transmit R mk s))"
  by (auto simp: mrm_transmit_def mrm_make_def mrm_write_def mrm_still_def mrm_one_packet_def prog_run
      split: prod.split sum.split option.split)

lemma mrm_keepalive_one_packet:
  assumes "mrm_still c s"
  shows "mrm_one_packet c (snd (mrm_ka_mngt_timeout_cb R s))"
    and "mrm_one_packet c (snd (mrm_start_keepalive_management R i t s))"
proof -
  show "mrm_one_packet c (snd (mrm_ka_mngt_timeout_cb R s))"
    unfolding mrm_ka_mngt_timeout_cb_def
    by (rule preserves_after, rule mrm_transmit_one_packet [OF assms], intro hoare)
      (simp add: mrm_one_packet_def)
  obtain x s1 where arm: "mrm_arm_ka_mngt R i (s\<lparr>mr_keepalive_mngt := True\<rparr>) = (x, s1)" by fastforce
  have x: "x = Inr ()"
    using arm by (auto simp: mrm_arm_ka_mngt_def mrm_add_repeating_def prog_run split: prod.splits)
  have "mrm_still c s1"
    by (rule preserves_run [OF mrm_still_timers(2) _ arm]) (use assms in \<open>simp add: mrm_still_def\<close>)
  from mrm_transmit_one_packet [OF this]
  have "mrm_one_packet c (snd (bindE (mrm_transmit R (make_keepalive (me_mem R))) (\<lambda>_. blockE
      [modifyE (\<lambda>s. s\<lparr>mr_timeout_keepalive := ticks t\<rparr>),
       withE (\<lambda>s. bindE (mrm_add_timer R (mr_timeout_keepalive s) Ka_timer) (\<lambda>i.
         modifyE (\<lambda>s. s\<lparr>mr_ka_ids := [i]\<rparr>)))]) s1))"
    by (rule preserves_after) (intro hoare; simp add: mrm_one_packet_def)
  then show "mrm_one_packet c (snd (mrm_start_keepalive_management R i t s))"
    using arm x by (simp add: mrm_start_keepalive_management_def run_bindE [of "modifyE _"]
        run_bindE [of "mrm_arm_ka_mngt _ _"] run_modifyE)
qed

lemma no_wrap: "unat (i :: u16) < 65535 \<Longrightarrow> unat i < unat (i + 1)"
  by (simp add: unat_word_ariths)

text \<open>The log: a timeout reports nothing as fulfilled, an acknowledgement the request it names.\<close>

lemma fulfilled_more:
  "fulfilled (u @ [r]) = fulfilled u @ (if req_status r = Fulfilled then [command_of r] else [])"
  by (simp add: fulfilled_def)

lemma mrm_call_records:
  "recording R \<Longrightarrow> mrm_call R r s = (Inr (), s\<lparr>mr_user := mr_user s @ [r]\<rparr>)"
  by (simp add: mrm_call_run recording_def)

lemma mrm_finish_records:
  "recording R \<Longrightarrow> mrm_finish R r er s = (Inr (), s\<lparr>mr_user := mr_user s @ [r],
     mr_timeout_queue := tq_erase (me_tq R) (mr_timeout_queue s) (req_id r),
     mr_requests := er (mr_requests s)\<rparr>)"
  by (simp add: mrm_finish_def run_bindE mrm_call_records mrm_erase_timer_run run_modifyE run_retE)

lemma mrm_timeout_log:
  assumes rec: "recording R" and run: "mrm_cmd_timeout_cb R i s = (res, s')"
  shows "fulfilled (mr_user s') = fulfilled (mr_user s) \<and> mr_packet_id s' = mr_packet_id s"
proof (cases "mi_find1 (me_set R) (mr_requests s) i")
  case None
  then show ?thesis using run by (simp add: mrm_cmd_timeout_cb_def prog_run)
next
  case (Some r)
  show ?thesis
  proof (cases "req_retry r < max_retry")
    case True
    let ?c = "(mr_user s, mr_packet_id s)"
    let ?m = "blockE [modifyE (\<lambda>s. s\<lparr>mr_requests := mi_modify1 (me_set R) (mr_requests s) i inc_retry\<rparr>),
      withE (\<lambda>s. whenE (mrm_open R s) (mrm_write R (req_command r))), mrm_reset_ka_mngt R]"
    have "preserves (mrm_still ?c) ?m"
      by (intro hoare) (simp add: mrm_still_def)
    moreover have "?m s = (res, s')"
      using run Some True by (simp add: mrm_cmd_timeout_cb_def run_withE)
    ultimately have "mrm_still ?c s'" by (rule mrm_still_run) (simp add: mrm_still_def)
    then show ?thesis by (simp add: mrm_still_def)
  next
    case False
    then show ?thesis
      using run Some
      by (auto simp: mrm_cmd_timeout_cb_def run_withE run_bindE run_modifyE mrm_erase_timer_run
          run_retE mrm_call_records [OF rec] fulfilled_more)
  qed
qed

lemma mrm_ack_log:
  assumes laws: "master_laws R" and rec: "recording R" and run: "mrm_ack_command R p s = (res, s')"
  shows "s' = s \<or> (\<exists>r\<in>mrm_reqs R s. acked_id p = Inr (packet_id (req_command r))
    \<and> fulfilled (mr_user s') = fulfilled (mr_user s) @ [command_of r]
    \<and> mrm_reqs R s' = mrm_reqs R s - {r} \<and> mr_transport s' = mr_transport s
    \<and> mr_packet_id s' = mr_packet_id s)"
proof (cases "acked_id p")
  case (Inl e)
  then show ?thesis using run by (simp add: mrm_ack_command_eq prog_run)
next
  case (Inr i)
  have M: "multi_index_laws req_id req_command_id (me_set R)" using laws by (simp add: master_laws_def)
  show ?thesis
  proof (cases "mi_find2 (me_set R) (mr_requests s) i")
    case None
    then show ?thesis using run Inr by (simp add: mrm_ack_command_eq prog_run)
  next
    case (Some r)
    then have r: "r \<in> mrm_reqs R s" "packet_id (req_command r) = i"
      using mi_laws(4) [OF M, of "mr_requests s" i r] by (simp_all add: mrm_reqs_def req_command_id_def)
    have "{q \<in> mrm_reqs R s. req_command_id q \<noteq> i} = mrm_reqs R s - {r}"
      using r mi_unique2 [OF M] by (auto simp: mrm_reqs_def req_command_id_def)
    then have "mi_elems (me_set R) (mi_erase2 (me_set R) (mr_requests s) i) = mrm_reqs R s - {r}"
      using mi_laws(6) [OF M, of "mr_requests s" i] by (simp add: mrm_reqs_def)
    moreover have "s' = snd (mrm_finish R (r\<lparr>req_status := Fulfilled, req_ack := Some p\<rparr>)
        (\<lambda>c. mi_erase2 (me_set R) c i) s)"
      using run Inr Some by (simp add: mrm_ack_command_eq run_bindE run_liftE run_withE)
    ultimately have "fulfilled (mr_user s') = fulfilled (mr_user s) @ [command_of r]
        \<and> mrm_reqs R s' = mrm_reqs R s - {r} \<and> mr_transport s' = mr_transport s
        \<and> mr_packet_id s' = mr_packet_id s"
      by (simp add: mrm_finish_records [OF rec] fulfilled_more command_of_def mrm_reqs_def)
    then show ?thesis using r Inr by blast
  qed
qed

text \<open>A move within the relation: the packets are kept, the identifier does not fall.\<close>

lemma host_okI:
  assumes "host_ok R sent received a x"
    and "mrm_sends R sent received (\<lambda>p. host_packet p \<and> issued_in (ag_issued a) p)
       (pending_in (ag_issued a) (ag_fulfilled a)) (acks_in (ag_executed a)) y"
    and "fulfilled (mr_user y) = fulfilled (mr_user x)" and "unat (mr_packet_id x) \<le> unat (mr_packet_id y)"
  shows "host_ok R sent received a y"
  using assms by (force simp: host_ok_def)

lemma host_ok_sends:
  "host_ok R sent received a x \<Longrightarrow>
     mrm_sends R sent received (\<lambda>p. host_packet p \<and> issued_in (ag_issued a) p)
       (pending_in (ag_issued a) (ag_fulfilled a)) (acks_in (ag_executed a)) x"
  by (simp add: host_ok_def)

lemma host_ok_still:
  assumes "\<And>P C Q. preserves (mrm_sends R sent received P C Q) m" and "\<And>c. preserves (mrm_still c) m"
  shows "preserves (host_ok R sent received a) m"
proof (rule preservesI)
  fix x :: "('a, 'b, 'c, 'd request list) master_rm" assume x: "host_ok R sent received a x"
  obtain r y where run: "m x = (r, y)" by fastforce
  have "mrm_still (mr_user x, mr_packet_id x) y"
    by (rule mrm_still_run [OF assms(2) run]) (simp add: mrm_still_def)
  moreover note mrm_sends_run [OF assms(1) host_ok_sends [OF x] run]
  ultimately show "host_ok R sent received a (snd (m x))"
    by (intro host_okI [OF x]) (simp_all add: run mrm_still_def)
qed

lemma host_ok_timers [hoare]:
  "preserves (host_ok R sent received a) (mrm_ack_keepalive R)"
  "preserves (host_ok R sent received a) mrm_tick" "preserves (host_ok R sent received a) (mrm_fire R i)"
  by (rule host_ok_still; rule mrm_timers_sends mrm_still_timers)+

locale linked_rm =
  transport_contract "me_tr R" sent received
  for R :: "('q, 'tr, 'c, 'cb, 'cb request list) master_env" and sent received +
  assumes host_storage: "storage (me_mem R)" and host_laws: "master_laws R" and host_records: "recording R"
begin

lemma host_ka_sends:
  "preserves (mrm_sends R sent received (\<lambda>p. host_packet p \<and> issued_in I p) C Q) (mrm_ka_mngt_timeout_cb R)"
  "preserves (mrm_sends R sent received (\<lambda>p. host_packet p \<and> issued_in I p) C Q)
     (mrm_start_keepalive_management R i t)"
  by (rule mrm_keepalive_sends; simp add: host_storage issued_in_def)+

lemma host_ok_one:
  assumes x: "host_ok R sent received a x" and less: "unat (mr_packet_id x) < 65535"
    and "mrm_one_packet (mr_user x, mr_packet_id x) y"
    and "mrm_sends R sent received (\<lambda>p. host_packet p \<and> issued_in (ag_issued a) p)
       (pending_in (ag_issued a) (ag_fulfilled a)) (acks_in (ag_executed a)) y"
  shows "host_ok R sent received a y"
  using host_okI [OF x assms(4)] assms(3) no_wrap [OF less] by (auto simp: mrm_one_packet_def)

lemma host_ok_keepalive:
  assumes x: "host_ok R sent received a x" and less: "unat (mr_packet_id x) < 65535"
  shows "host_ok R sent received a (snd (mrm_ka_mngt_timeout_cb R x))"
    and "host_ok R sent received a (snd (mrm_start_keepalive_management R i t x))"
  by (rule host_ok_one [OF x less], rule mrm_keepalive_one_packet, simp add: mrm_still_def,
      rule preservesD [OF host_ka_sends(1) host_ok_sends [OF x]] preservesD [OF host_ka_sends(2) host_ok_sends [OF x]])+

lemma host_ok_timeout: "preserves (host_ok R sent received a) (mrm_cmd_timeout_cb R i)"
proof (rule preservesI)
  fix x assume x: "host_ok R sent received a x"
  obtain r y where run: "mrm_cmd_timeout_cb R i x = (r, y)" by fastforce
  have "mrm_sends R sent received (\<lambda>p. host_packet p \<and> issued_in (ag_issued a) p)
       (pending_in (ag_issued a) (ag_fulfilled a)) (acks_in (ag_executed a)) y"
    by (rule mrm_cmd_timeout_sends [OF host_laws refl host_ok_sends [OF x] _ run]) (simp add: pending_in_def)
  with mrm_timeout_log [OF host_records run] show "host_ok R sent received a (snd (mrm_cmd_timeout_cb R i x))"
    unfolding run snd_conv by (intro host_okI [OF x]) simp_all
qed

text \<open>An acknowledgement: nothing happens, or a command that was executed is reported.\<close>

lemma host_ok_ack:
  assumes inv: "ag_inv a" and x: "host_ok R sent received a x" and p: "packet_type p = Some Cmd_ack"
    "acks_in (ag_executed a) p" and run: "mrm_ack_command R p x = (r, y)"
  shows "host_ok R sent received a y \<or>
    (\<exists>c. ag_step a (a\<lparr>ag_fulfilled := ag_fulfilled a @ [c]\<rparr>)
       \<and> host_ok R sent received (a\<lparr>ag_fulfilled := ag_fulfilled a @ [c]\<rparr>) y)"
proof (cases "y = x")
  case True
  then show ?thesis using x by simp
next
  case False
  then obtain q where q: "q \<in> mrm_reqs R x" "acked_id p = Inr (packet_id (req_command q))"
    "fulfilled (mr_user y) = fulfilled (mr_user x) @ [command_of q]"
    "mrm_reqs R y = mrm_reqs R x - {q}" "mr_transport y = mr_transport x" "mr_packet_id y = mr_packet_id x"
    using mrm_ack_log [OF host_laws host_records run] by blast
  let ?i = "packet_id (req_command q)" and ?c = "command_of q"
  let ?a = "a\<lparr>ag_fulfilled := ag_fulfilled a @ [?c]\<rparr>"
  have pend: "pending_in (ag_issued a) (ag_fulfilled a) (req_command s)" if "s \<in> mrm_reqs R x" for s
    using x that by (simp add: host_ok_def mrm_sends_def)
  from pend [OF q(1)] obtain b where b: "packet_blocks (req_command q) = [b]" "(?i, b) \<in> ag_issued a"
    "?i \<notin> fst ` set (ag_fulfilled a)"
    by (auto simp: pending_in_def issued_in_def)
  then have c: "?c = (?i, b)" by (simp add: command_of_def)
  obtain b' where b': "(?i, b') \<in> set (ag_executed a)" using p q(2) by (auto simp: acks_in_def)
  have "(?i, b') \<in> ag_issued a" "inj_on fst (ag_issued a)" using inv b' by (auto simp: ag_inv_def)
  then have "(?i, b') = (?i, b)"
    using inj_onD [of fst "ag_issued a" "(?i, b')" "(?i, b)"] b(2) by simp
  then have step: "ag_step a ?a" using b' b(3) c by (intro ag_step.fulfil) simp_all
  have M: "multi_index_laws req_id req_command_id (me_set R)" using host_laws by (simp add: master_laws_def)
  have other: "packet_id (req_command s) \<noteq> ?i" if "s \<in> mrm_reqs R x" "s \<noteq> q" for s
    using mi_unique2 [OF M] that q(1) unfolding mrm_reqs_def req_command_id_def by blast
  have "pending_in (ag_issued a) (ag_fulfilled a @ [?c]) (req_command s)" if "s \<in> mrm_reqs R y" for s
    using pend [of s] other [of s] that by (simp add: q(4) c pending_in_def)
  then have "host_ok R sent received ?a y"
    using x q(3,5,6) by (simp add: host_ok_def mrm_sends_def mrm_carries_def)
  then show ?thesis using step by blast
qed

text \<open>A command of the user: issued under an identifier that was not used before.\<close>

lemma host_ok_command:
  assumes x: "host_ok R sent received a x" and less: "unat (mr_packet_id x) < 65535"
    and inv: "ag_inv a" and data: "length data < 65532"
    and run: "mrm_send_command R type data cb timeout x = (r, y)"
  shows "\<exists>c. ag_step a (a\<lparr>ag_issued := insert c (ag_issued a)\<rparr>)
    \<and> host_ok R sent received (a\<lparr>ag_issued := insert c (ag_issued a)\<rparr>) y"
proof -
  let ?i = "mr_packet_id x + 1" and ?b = "\<lparr>b_type = type, b_data = data\<rparr>"
  let ?I = "insert (?i, ?b) (ag_issued a)"
  let ?a = "a\<lparr>ag_issued := ?I\<rparr>"
  have old: "unat (fst c) \<le> unat (mr_packet_id x)" if "c \<in> ag_issued a" for c
    using x that by (simp add: host_ok_def)
  have new: "unat (mr_packet_id x) < unat ?i" by (rule no_wrap [OF less])
  have fresh: "?i \<notin> fst ` ag_issued a" using old new by fastforce
  have "fst ` set (ag_fulfilled a) \<subseteq> fst ` ag_issued a" using inv by (auto simp: ag_inv_def)
  then have unused: "?i \<notin> fst ` set (ag_fulfilled a)" using fresh by blast
  have start: "mrm_sends R sent received (\<lambda>p. host_packet p \<and> issued_in ?I p)
      (pending_in ?I (ag_fulfilled a)) (acks_in (ag_executed a)) x"
    using host_ok_sends [OF x]
    by (auto simp: mrm_sends_def mrm_carries_def pending_in_def intro!: issued_more elim!: carries_mono)
  have "mrm_sends R sent received (\<lambda>p. host_packet p \<and> issued_in ?I p)
      (pending_in ?I (ag_fulfilled a)) (acks_in (ag_executed a)) y"
  proof (rule mrm_send_command_sends [OF host_laws refl start _ run])
    fix cmd assume "make_command (me_mem R) ?i type data = Inr cmd"
    note m = made_command [OF host_storage data this]
    then show "(host_packet cmd \<and> issued_in ?I cmd) \<and> pending_in ?I (ag_fulfilled a) cmd"
      using unused by (simp add: pending_in_def issued_in_def)
  qed
  moreover have "mr_packet_id y = ?i" "mr_user y = mr_user x"
    using mrm_send_command_frame [OF host_laws run] by simp_all
  ultimately have "host_ok R sent received ?a y"
    using x old new by (auto simp: host_ok_def intro: order.trans [OF _ less_imp_le])
  moreover have "ag_step a ?a" using fresh by (intro ag_step.issue) simp
  ultimately show ?thesis by blast
qed

end

text \<open>The host around its request manager.\<close>

definition host_keeps ::
  "('q, 'm, 'tr, 'c, 'cb, 'cb request list) master_app_env \<Rightarrow> ('tr \<Rightarrow> packet list) \<Rightarrow>
   ('tr \<Rightarrow> packet list) \<Rightarrow> agreement \<Rightarrow> ('q, 'm, 'tr, 'c, 'cb request list) master \<Rightarrow> bool" where
  "host_keeps E sent received a m \<longleftrightarrow> host_ok (ma_rm E) sent received a (ms_rm m) \<and> host_user m"

lemma host_keeps_frame [simp]:
  "host_keeps E sent received a (m\<lparr>ms_evt := v\<rparr>) = host_keeps E sent received a m"
  "host_keeps E sent received a (m\<lparr>ms_errc := e\<rparr>) = host_keeps E sent received a m"
  "host_keeps E sent received a (m\<lparr>ms_received_packet_id := i\<rparr>) = host_keeps E sent received a m"
  "host_keeps E sent received a (m\<lparr>ms_nb_loop := k\<rparr>) = host_keeps E sent received a m"
  "host_keeps E sent received a (m\<lparr>ms_curr := c\<rparr>) = host_keeps E sent received a m"
  by (simp_all add: host_keeps_def host_user_def)

lemma host_keeps_rm:
  "host_keeps E sent received a m \<Longrightarrow> host_ok (ma_rm E) sent received b x \<Longrightarrow>
     host_keeps E sent received b (m\<lparr>ms_rm := x\<rparr>)"
  by (simp add: host_keeps_def host_user_def)

lemma host_on_rm [hoare]:
  "preserves (host_ok (ma_rm E) sent received a) op \<Longrightarrow> preserves (host_keeps E sent received a) (ms_on_rm op)"
  unfolding ms_on_rm_def
  by (intro preserves_zoomE host_keeps_rm) (auto simp: host_keeps_def preserves_def)

lemma host_quiet [hoare]:
  "preserves (host_keeps E sent received a) (ms_notify F e)"
  "preserves (host_keeps E sent received a) (ms_erase F e)"
  "preserves (host_keeps E sent received a) (ms_track_id p)"
  by (rule preservesI, simp add: ms_notify_def ms_erase_def ms_track_id_def prog_run split: prod.split)+

lemma host_on_user:
  fixes E :: "('q, 'm, 'tr, 'c, 'cb, 'cb request list) master_app_env"
  assumes "\<And>u. snd (f u) = u"
  shows "preserves (host_keeps E sent received a) (ms_on_user f)"
  unfolding ms_on_user_def
proof (rule host_on_rm, rule preservesI)
  fix x :: "('q, 'tr, 'c, 'cb request list) master_rm" assume x: "host_ok (ma_rm E) sent received a x"
  have "snd (zoomE mr_user (\<lambda>u s. s\<lparr>mr_user := u\<rparr>) f x) = x"
    using assms [of "mr_user x"] by (simp add: run_zoomE split: prod.split) (metis snd_conv master_rm.surjective master_rm.update_convs(12))
  with x show "host_ok (ma_rm E) sent received a (snd (zoomE mr_user (\<lambda>u s. s\<lparr>mr_user := u\<rparr>) f x))" by simp
qed

lemma host_catch [hoare]: "preserves (host_keeps E sent received a) m \<Longrightarrow> preserves (host_keeps E sent received a) (ms_catch m)"
  unfolding ms_catch_def by (intro hoare) (auto intro!: hoare split: option.split)

lemma host_on_transport: "snd (ms_on_transport (\<lambda>t. (Inr (f t), t)) m) = m"
  by (cases "mr_transport (ms_rm m)") (simp_all add: ms_on_transport_def ms_on_rm_def run_zoomE)

lemma host_check:
  fixes E :: "('q, 'm, 'tr, 'c, 'cb, 'cb request list) master_app_env"
  shows "(c, check) \<in> set (ms_checks F st) \<Longrightarrow> preserves (host_keeps E sent received a) check"
proof -
  have on: "preserves (host_keeps E sent received a) (ms_on_transport (\<lambda>t. (Inr (f t), t)))" for f :: "'tr \<Rightarrow> bool"
    by (rule preservesI) (simp add: host_on_transport)
  have on': "preserves (host_keeps E sent received a) (ms_on_transport (\<lambda>t. (Inr (f t), t)))" for f :: "'tr \<Rightarrow> error_code"
    by (rule preservesI) (simp add: host_on_transport)
  show "(c, check) \<in> set (ms_checks F st) \<Longrightarrow> preserves (host_keeps E sent received a) check"
    by (cases st) (auto simp: ms_check_true_def ms_check_connection_requested_def ms_check_transport_closed_def
        ms_check_dip_timeout_def ms_check_connected_def ms_check_ka_timeout_def ms_check_disconnected_def
        ms_goto_if_def intro!: hoare preserves_if on on')
qed

lemma host_transition:
  fixes E :: "('q, 'm, 'tr, 'c, 'cb, 'cb request list) master_app_env"
  shows "preserves (host_keeps E sent received a) (ms_transition_handler F p c)"
proof -
  have cb: "preserves (host_keeps E sent received a) (withE (\<lambda>s. case ms_status_cb s of
      None \<Rightarrow> retE () | Some cb \<Rightarrow> ms_on_user (cb c (ms_errc s))))"
  proof (rule preservesI)
    fix m :: "('q, 'm, 'tr, 'c, 'cb request list) master" assume m: "host_keeps E sent received a m"
    show "host_keeps E sent received a (snd (withE (\<lambda>s. case ms_status_cb s of
        None \<Rightarrow> retE () | Some cb \<Rightarrow> ms_on_user (cb c (ms_errc s))) m))"
    proof (cases "ms_status_cb m")
      case (Some cb)
      then have "\<And>u. snd (cb c (ms_errc m) u) = u"
        using m by (simp add: host_keeps_def host_user_def)
      from preservesD [OF host_on_user [OF this] m] Some show ?thesis by (simp add: run_withE)
    qed (use m in \<open>simp add: run_withE run_retE\<close>)
  qed
  show ?thesis
    unfolding ms_transition_handler_def
    by (rule preserves_block_Cons [OF cb], intro hoare) simp
qed

text \<open>Where a move of the host leads: nowhere, or one step of the abstract system.\<close>

definition host_next :: "agreement \<Rightarrow> agreement \<Rightarrow> bool" where
  "host_next a b \<longleftrightarrow> (b = a \<or> ag_step a b) \<and> ag_executed b = ag_executed a \<and> ag_issued a \<subseteq> ag_issued b"

lemma host_next_refl [simp]: "host_next a a"
  by (simp add: host_next_def)

locale linked_host = linked_rm "ma_rm E" sent received
  for E :: "('q, 'm, 'tr, 'c, 'cb, 'cb request list) master_app_env" and sent received
begin

lemma host_read:
  assumes "host_keeps E sent received a m" and "ms_read E m = (r, m')"
  shows "host_keeps E sent received a m' \<and> (\<forall>q. r = Inr (Some q) \<longrightarrow> acks_in (ag_executed a) q)"
proof (cases "mr_transport (ms_rm m)")
  case None
  then have "r = Inl Undefined_behaviour" "m' = m"
    using assms(2) by (simp_all add: ms_read_def ms_on_transport_def ms_on_rm_def run_zoomE)
  then show ?thesis using assms(1) by simp
next
  case (Some t)
  obtain p t' where rd: "tr_read (me_tr (ma_rm E)) t = (p, t')" by fastforce
  have run: "r = Inr p" "m' = m\<lparr>ms_rm := (ms_rm m)\<lparr>mr_transport := Some t'\<rparr>\<rparr>"
    using assms(2) Some rd by (simp_all add: ms_read_def ms_on_transport_def ms_on_rm_def run_zoomE)
  show ?thesis
    using assms(1) Some carries_read [OF _ rd]
    by (auto simp: run host_keeps_def host_ok_def host_user_def mrm_sends_def mrm_carries_def mrm_reqs_def)
qed

lemma host_first_pass:
  assumes m: "host_keeps E sent received a m" and less: "unat (mr_packet_id (ms_rm m)) < 65535"
  shows "host_keeps E sent received a (snd (withE (\<lambda>s. whenE (ms_nb_loop s = 1)
    (ms_on_rm (mrm_start_keepalive_management (ma_rm E) keepalive_interval keepalive_timeout))) m))"
proof (cases "ms_nb_loop m = 1")
  case True
  obtain r x where x: "mrm_start_keepalive_management (ma_rm E) keepalive_interval keepalive_timeout (ms_rm m) = (r, x)"
    by fastforce
  have "host_ok (ma_rm E) sent received a x"
    using host_ok_keepalive(2) [OF _ less, of a keepalive_interval keepalive_timeout] m x
    by (simp add: host_keeps_def)
  then show ?thesis using host_keeps_rm [OF m] True x by (simp add: run_withE run_whenE ms_on_rm_run)
qed (use m in \<open>simp add: run_withE run_whenE\<close>)

text \<open>A packet that was read.\<close>

lemma host_packet_read:
  assumes inv: "ag_inv a" and m: "host_keeps E sent received a m" and q: "acks_in (ag_executed a) q"
    and run: "(case packet_type q of
             Some Cmd_ack \<Rightarrow> ms_on_rm (mrm_ack_command (ma_rm E) q)
           | Some Data \<Rightarrow> withE (\<lambda>s.
               case ms_data_cb s of None \<Rightarrow> retE () | Some cb \<Rightarrow> ms_on_user (cb q))
           | Some Ka_ack \<Rightarrow> ms_on_rm (mrm_ack_keepalive (ma_rm E))
           | _ \<Rightarrow> retE ()) m = (r, m')" (is "?m m = _")
  shows "\<exists>b. host_next a b \<and> host_keeps E sent received b m'"
proof (cases "packet_type q = Some Cmd_ack")
  case True
  obtain x where x: "mrm_ack_command (ma_rm E) q (ms_rm m) = (r, x)" "m' = m\<lparr>ms_rm := x\<rparr>"
    using run True by (auto simp: ms_on_rm_run split: prod.splits)
  have "host_ok (ma_rm E) sent received a (ms_rm m)" using m by (simp add: host_keeps_def)
  from host_ok_ack [OF inv this True q x(1)] show ?thesis
  proof (elim disjE exE conjE)
    assume "host_ok (ma_rm E) sent received a x"
    from host_keeps_rm [OF m this] show ?thesis by (intro exI [of _ a]) (simp add: x(2))
  next
    fix c let ?b = "a\<lparr>ag_fulfilled := ag_fulfilled a @ [c]\<rparr>"
    assume "ag_step a ?b" and "host_ok (ma_rm E) sent received ?b x"
    then show ?thesis using host_keeps_rm [OF m, of ?b x] by (intro exI [of _ ?b]) (simp add: x(2) host_next_def)
  qed
next
  case False
  have data: "host_keeps E sent received a (snd (withE (\<lambda>s.
      case ms_data_cb s of None \<Rightarrow> retE () | Some cb \<Rightarrow> ms_on_user (cb q)) m))"
  proof (cases "ms_data_cb m")
    case (Some cb)
    then have "\<And>u. snd (cb q u) = u" using m by (simp add: host_keeps_def host_user_def)
    from preservesD [OF host_on_user [OF this] m] Some show ?thesis by (simp add: run_withE)
  qed (use m in \<open>simp add: run_withE run_retE\<close>)
  have ka: "host_keeps E sent received a (snd (ms_on_rm (mrm_ack_keepalive (ma_rm E)) m))"
    by (rule preservesD [OF host_on_rm [OF host_ok_timers(1)] m])
  have "host_keeps E sent received a (snd (?m m))"
    using False data ka m by (auto simp: run_retE split: option.split packet_type.split)
  then show ?thesis using run by (intro exI [of _ a]) simp
qed

lemma host_connected:
  assumes inv: "ag_inv a" and m: "host_keeps E sent received a m"
    and less: "unat (mr_packet_id (ms_rm m)) < 65535" and run: "ms_handler_connected E m = (r, m')"
  shows "\<exists>b. host_next a b \<and> host_keeps E sent received b m'"
proof -
  obtain y1 m1 where first: "withE (\<lambda>s. whenE (ms_nb_loop s = 1)
    (ms_on_rm (mrm_start_keepalive_management (ma_rm E) keepalive_interval keepalive_timeout))) m = (y1, m1)"
    by fastforce
  have m1: "host_keeps E sent received a m1" using host_first_pass [OF m less] first by simp
  obtain p m2 where rd: "ms_read E m1 = (p, m2)" by fastforce
  note m2 = host_read [OF m1 rd]
  consider (none) "isl y1" | (nothing) "y1 = Inr ()" "p = Inr None \<or> isl p" | (some) q where "y1 = Inr ()" "p = Inr (Some q)"
    by (cases y1; cases p) auto
  then show ?thesis
  proof cases
    case none
    then have "m' = m1" using run first by (auto simp: ms_handler_connected_def run_bindE split: sum.splits)
    then show ?thesis using m1 by (intro exI [of _ a]) simp
  next
    case nothing
    then have "m' = m2"
      using run first rd by (auto simp: ms_handler_connected_def run_bindE run_retE split: sum.splits)
    then show ?thesis using m2 by (intro exI [of _ a]) simp
  next
    case (some q)
    obtain m3 where tr: "ms_track_id q m2 = (Inr (), m3)" using ms_track_id_run by blast
    have m3: "host_keeps E sent received a m3" by (rule preserves_run [OF host_quiet(3) _ tr]) (simp add: m2)
    let ?m = "case packet_type q of
             Some Cmd_ack \<Rightarrow> ms_on_rm (mrm_ack_command (ma_rm E) q)
           | Some Data \<Rightarrow> withE (\<lambda>s.
               case ms_data_cb s of None \<Rightarrow> retE () | Some cb \<Rightarrow> ms_on_user (cb q))
           | Some Ka_ack \<Rightarrow> ms_on_rm (mrm_ack_keepalive (ma_rm E))
           | _ \<Rightarrow> retE ()"
    obtain y m4 where r4: "?m m3 = (y, m4)" by fastforce
    have "m' = m4"
      using run first rd some tr r4
      by (auto simp: ms_handler_connected_def run_bindE run_retE split: sum.splits)
    then show ?thesis using host_packet_read [OF inv m3 _ r4] m2 some by blast
  qed
qed

lemma host_timer:
  assumes m: "host_keeps E sent received a m" and less: "unat (mr_packet_id (ms_rm m)) < 65535"
  shows "host_keeps E sent received a (snd (ms_timer E i cb m))"
proof (cases cb)
  case Cmd_timer
  then show ?thesis using preservesD [OF host_on_rm [OF host_ok_timeout] m] by simp
next
  case Ka_mngt_timer
  obtain r x where x: "mrm_ka_mngt_timeout_cb (ma_rm E) (ms_rm m) = (r, x)" by fastforce
  have "host_ok (ma_rm E) sent received a x"
    using host_ok_keepalive(1) [OF _ less, of a] m x by (simp add: host_keeps_def)
  from host_keeps_rm [OF m this] x Ka_mngt_timer show ?thesis by (simp add: ms_on_rm_run)
qed (use preservesD [OF host_quiet(1) m] in
    \<open>simp_all add: mrm_ka_timeout_cb_def mrm_dip_timeout_cb_def ms_timeout_cb_def\<close>)

text \<open>Every move of the host issues one command, reports one, or neither.\<close>

lemma host_simulates:
  assumes "host_move E m m'" and inv: "ag_inv a" and m: "host_keeps E sent received a m"
    and less: "unat (mr_packet_id (ms_rm m)) < 65535"
  shows "\<exists>b. host_next a b \<and> host_keeps E sent received b m'"
  using assms(1)
proof cases
  case (pass r)
  let ?m = "m\<lparr>ms_nb_loop := ms_nb_loop m + 1\<rparr>"
  obtain y m1 where h: "ms_handler_connected E ?m = (y, m1)" by fastforce
  have ok: "host_keeps E sent received a ?m" and l: "unat (mr_packet_id (ms_rm ?m)) < 65535"
    using m less by simp_all
  obtain b where b: "host_next a b" "host_keeps E sent received b m1"
    using host_connected [OF inv ok l h] by blast
  have "host_keeps E sent received b (snd (ms_catch (bindE (\<lambda>s. (y, m1)) (\<lambda>_. retE ())) m1))"
    by (rule preservesD [OF host_catch b(2)]) (cases y; simp add: preserves_def run_bindE run_retE b(2))
  moreover have "ms_catch (bindE (\<lambda>s. (y, m1)) (\<lambda>_. retE ())) m1
      = ms_catch (bindE (ms_handler E (ms_curr m)) (\<lambda>_. retE ())) ?m"
    using pass(2) h by (simp add: ms_catch_def run_catchE run_bindE)
  ultimately show ?thesis using pass(3) b(1) by auto
next
  case (stay c check)
  then have "host_keeps E sent received a m'" using preserves_run [OF host_check m] by blast
  then show ?thesis by (intro exI [of _ a]) simp
next
  case (goto c check m1 r)
  have "host_keeps E sent received a m1" using preserves_run [OF host_check m] goto(2,3) by blast
  then have "host_keeps E sent received a (m1\<lparr>ms_curr := c, ms_nb_loop := 0\<rparr>)" by simp
  from preserves_run [OF host_catch [OF host_transition] this goto(4)]
  show ?thesis by (intro exI [of _ a]) simp
next
  case (timer i t r)
  obtain u m1 where fire: "ms_on_rm (mrm_fire (ma_rm E) i) m = (u, m1)" by fastforce
  have m1: "host_keeps E sent received a m1"
    by (rule preserves_run [OF host_on_rm [OF host_ok_timers(3)] m fire])
  have "u = Inr ()" "mr_packet_id (ms_rm m1) = mr_packet_id (ms_rm m)"
    using fire by (auto simp: ms_on_rm_run mrm_fire_def prog_run)
  then have "ms_timer E i (t_callback t) m1 = (r, m')" "unat (mr_packet_id (ms_rm m1)) < 65535"
    using timer(3) fire less by (simp_all add: run_bindE)
  then show ?thesis using host_timer [OF m1, of i "t_callback t"] by (intro exI [of _ a]) simp
next
  case (tick r)
  from preserves_run [OF host_on_rm [OF host_ok_timers(2)] m tick] show ?thesis by (intro exI [of _ a]) simp
next
  case (send_command data type cb r)
  show ?thesis
  proof (cases "ms_curr m = Connected")
    case False
    then have "m' = m" using send_command(2) by (simp add: ms_send_command_def run_withE run_throwE)
    then show ?thesis using m by (intro exI [of _ a]) simp
  next
    case True
    obtain x where x: "mrm_send_command (ma_rm E) type data cb command_timeout (ms_rm m) = (r, x)" "m' = m\<lparr>ms_rm := x\<rparr>"
      using send_command(2) True by (auto simp: ms_send_command_def run_withE ms_on_rm_run split: prod.splits)
    have "host_ok (ma_rm E) sent received a (ms_rm m)" using m by (simp add: host_keeps_def)
    from host_ok_command [OF this less inv send_command(1) x(1)]
    obtain c where c: "ag_step a (a\<lparr>ag_issued := insert c (ag_issued a)\<rparr>)"
      "host_ok (ma_rm E) sent received (a\<lparr>ag_issued := insert c (ag_issued a)\<rparr>) x"
      by blast
    then show ?thesis
      using host_keeps_rm [OF m c(2)]
      by (intro exI [of _ "a\<lparr>ag_issued := insert c (ag_issued a)\<rparr>"]) (auto simp: x(2) host_next_def)
  qed
next
  case (async_disconnect r)
  have "preserves (host_keeps E sent received a) (ms_async_disconnect E)"
    unfolding ms_async_disconnect_def by (intro hoare)
  from preserves_run [OF this m async_disconnect] show ?thesis by (intro exI [of _ a]) simp
qed

end

end
