(* ===== verification/Session.thy ===== *)
theory Session
  imports Slave_Laws Master_Properties
begin

text \<open>
  Host and device together. What one side gives to its transport is, byte for byte, what the
  other side's transport parses; between the two there is only the wire. The theorems follow
  an identification in each direction, and a command with its acknowledgement.
\<close>

section \<open>Identification\<close>

text \<open>
  The device's answer to an identification, in its first pass of \<open>Connecting\<close>: its own
  identification goes out as packet number one, and one keep-alive timeout is armed.
\<close>

lemma slave_identifies_run:
  assumes post: "posting_transport (se_tr (sa_rm F)) sent received" and laws: "slave_app_laws F"
    and mem: "storage (se_mem (sa_rm F))" and size: "identification_size (sl_slave_id s) \<le> 2019"
    and first: "sl_nb_loop s = 1" "\<not> sr_running (sl_rm s)"
    and t: "sr_transport (sl_rm s) = Some t" "tr_is_open (se_tr (sa_rm F)) t" "received t = []"
  shows "\<exists>s' dip. sl_handler_connecting F s = (Inr Stay_curr_state, s')
    \<and> srm_sent sent (sl_rm s') = srm_sent sent (sl_rm s) @ [dip] \<and> valid_packet dip
    \<and> packet_type dip = Some Dip \<and> packet_id dip = 1
    \<and> packet_blocks dip = identification_blocks (sl_slave_id s)
    \<and> srm_timers (sa_rm F) (sl_rm s') = [sr_keepalive_id (sl_rm s') \<mapsto>
        \<lparr>t_callback = Slave_ka_timer, t_start = 0, t_period = ticks keepalive_timeout, t_repeating = False\<rparr>]
    \<and> s' = s\<lparr>sl_rm := sl_rm s'\<rparr> \<and> sr_keepalive_mngt (sl_rm s') \<and> (\<exists>t'. sr_transport (sl_rm s') = Some t'
        \<and> tr_is_open (se_tr (sa_rm F)) t' \<and> received t' = [])"
proof -
  let ?R = "sa_rm F"
  have T: "timeout_queue_laws (se_tq ?R)" using laws by (simp add: slave_app_laws_def)
  let ?x1 = "(srm_clear ?R (sl_rm s))\<lparr>sr_keepalive_mngt := False, sr_running := True\<rparr>"
  have start: "srm_start ?R (sl_rm s) = (Inr (), ?x1)"
    using first(2) by (simp add: srm_start_def prog_run)
  have x1: "sr_packet_id ?x1 = 0" "sr_transport ?x1 = Some t" "sr_now ?x1 = 0" "srm_timers ?R ?x1 = Map.empty"
    using t(1) T by (simp_all add: srm_clear_def srm_timers_def)
  obtain dip where dip: "make_dip (se_mem ?R) (sr_packet_id ?x1 + 1) (sl_slave_id s) = Inr dip" "valid_packet dip"
    "packet_id dip = 1" "packet_type dip = Some Dip" "packet_blocks dip = identification_blocks (sl_slave_id s)"
    using make_dip_ok [OF mem size, of "sr_packet_id ?x1 + 1"] x1(1) by auto
  obtain t' where w: "tr_write (se_tr ?R) dip t = (Inr (), t')"
    using posting_transport.write_accepts [OF post t(2), of dip] by (cases "tr_write (se_tr ?R) dip t") auto
  have con: "transport_contract (se_tr ?R) sent received" using post by (rule posting_transport.axioms(1))
  have t': "sent t' = sent t @ [dip]" "received t' = []" "tr_is_open (se_tr ?R) t'"
    using transport_contract.write_sent [OF con w] transport_contract.write_received [OF con, of dip t]
      transport_contract.write_open [OF con, of dip t] w t(2,3)
    by simp_all
  let ?x2 = "?x1\<lparr>sr_packet_id := 1, sr_transport := Some t'\<rparr>"
  have send: "srm_send_dip ?R (sl_slave_id s) ?x1 = (Inr (), ?x2)"
    using t(2) dip(1) w x1
    by (simp add: srm_send_dip_def srm_transmit_def srm_open_def srm_write_def prog_run)
  let ?x3 = "?x2\<lparr>sr_keepalive_mngt := True, sr_timeout_keepalive := ticks keepalive_timeout\<rparr>"
  have ka: "srm_start_keepalive_management ?R keepalive_timeout ?x2 = (Inr (), srm_arm ?R ?x3)"
    by (simp add: srm_start_keepalive_management_def prog_run)
  have "srm_timers ?R ?x3 = Map.empty" using x1(4) by (simp add: srm_timers_def)
  then have timers: "srm_timers ?R (srm_arm ?R ?x3) = [sr_keepalive_id (srm_arm ?R ?x3) \<mapsto>
      \<lparr>t_callback = Slave_ka_timer, t_start = 0, t_period = ticks keepalive_timeout, t_repeating = False\<rparr>]"
    using srm_arm_timers(1) [OF T, of ?x3] x1(3) by simp
  let ?s = "s\<lparr>sl_rm := srm_arm ?R ?x3\<rparr>"
  have "tr_read (se_tr ?R) t' = (None, t')"
    by (rule posting_transport.reads_nothing [OF post]) (rule t'(2))
  then have "sl_read F ?s = (Inr None, ?s)"
    by (simp add: sl_read_def sl_on_transport_def)
  then have "sl_handler_connecting F s = (Inr Stay_curr_state, ?s)"
    using first(1) start send ka
    by (simp add: sl_handler_connecting_def run_bindE run_withE run_whenE sl_on_rm_run run_retE retE_def)
  then show ?thesis
    using dip timers t' t(1) by (intro exI [of _ ?s] exI [of _ dip]) (simp add: srm_sent_def)
qed

text \<open>
  The host becomes known to the device: an attempt of the host to connect sends one packet,
  that packet parses on the other side, whatever follows it in the buffer, and a disconnected
  device that reads it holds exactly the host's identification and is about to connect.
\<close>

theorem session_identifies_host:
  assumes "posting_transport (me_tr (ma_rm E)) sent received" and "master_app_laws E"
    and "storage (me_mem (ma_rm E))" and "identification_size (ms_master_id m) \<le> 2019"
    and "ms_nb_loop m \<noteq> 1"
    and "ms_connection_attempts m = 0 \<or> Dip_timeout_event \<in> em_events (ma_evt E) (ms_evt m)"
    and "mr_transport (ms_rm m) = Some t" and "tr_is_open (me_tr (ma_rm E)) t" and "received t = []"
    and "slave_app_laws F" and "storage mem"
  shows "\<exists>m' hip q. ms_handler_connecting E m = (Inr Stay_curr_state, m')
    \<and> mrm_sent sent (ms_rm m') = mrm_sent sent (ms_rm m) @ [hip]
    \<and> packet_of_view mem (packet_bytes hip @ w) = Inr q
    \<and> (\<forall>s t'. sl_nb_loop s \<noteq> 1 \<and> sl_reads F s q t' \<longrightarrow> (\<exists>s'. sl_handler_disconnected F s = (Inr Stay_curr_state, s')
        \<and> sl_master_id s' = ms_master_id m \<and> fst (sl_check_hip_received F s') = Inr Goto_next_state))"
proof -
  obtain m' hip where hip: "ms_handler_connecting E m = (Inr Stay_curr_state, m')"
    "mrm_sent sent (ms_rm m') = mrm_sent sent (ms_rm m) @ [hip]" "valid_packet hip"
    "packet_type hip = Some Hip" "packet_blocks hip = identification_blocks (ms_master_id m)"
    using master_attempt_run [OF assms(1-9)] by blast
  obtain q where q: "packet_of_view mem (packet_bytes hip @ w) = Inr q"
    "packet_type q = Some Hip" "packet_blocks q = identification_blocks (ms_master_id m)"
    using wire_fields [OF hip(3) assms(11), of w] hip(4,5) by metis
  show ?thesis using hip(1,2) q(1) slave_learns_run [OF assms(10) q(2,3)] by blast
qed

text \<open>Reference objects for the witnesses: host and device on open clients.\<close>

lemma ref_app_posting:
  "posting_transport (me_tr (ma_rm ref_master_app)) (tc_sent ref_client_env) (tc_received ref_client_env)"
  "posting_transport (se_tr (sa_rm ref_slave_app)) (tc_sent ref_client_env) (tc_received ref_client_env)"
  using ref_posting by simp_all

lemma ref_connecting_fields [simp]:
  "ms_master_id ref_connecting = ref_master_ident" "ms_nb_loop ref_connecting = 2"
  "ms_connection_attempts ref_connecting = 1" "ms_evt ref_connecting = {Dip_timeout_event}"
  "ms_rm ref_connecting = ref_rm"
  by (simp_all add: ref_connecting_def ref_master_def)

lemma ref_master_ident_size [simp]: "identification_size ref_master_ident \<le> 2019"
  by (simp add: ref_master_ident_def identification_size_def)

lemma ref_events [simp]: "em_events ref_event_mngr m = m"
  by (simp add: ref_event_mngr_def)

lemma ref_client_open' [simp]: "tr_is_open (tc_api ref_client_env) (ref_client\<lparr>read_queue := q\<rparr>)"
  by (simp add: tc_api_def tc_is_open_def ref_client_env_def ref_socket_def ref_client_def)

theorem session_identifies_host_witness:
  "\<exists>m' hip q s'. ms_handler_connecting ref_master_app ref_connecting = (Inr Stay_curr_state, m')
     \<and> packet_of_view (replicate 2048 0) (packet_bytes hip @ [1]) = Inr q
     \<and> sl_handler_disconnected ref_slave_app (ref_reading Disconnected q) = (Inr Stay_curr_state, s')
     \<and> sl_master_id s' = ref_master_ident"
proof -
  have "sl_nb_loop (ref_reading Disconnected q) \<noteq> 1" for q by (simp add: ref_reading_def)
  then show ?thesis
    using session_identifies_host [OF ref_app_posting(1) ref_master_app_laws, of ref_connecting ref_client
        ref_slave_app "replicate 2048 0" "[1]"] ref_reading_reads [of Disconnected]
    by simp blast
qed


text \<open>
  The device becomes known to the host: in its first pass of \<open>Connecting\<close> the device sends
  its identification, which parses on the other side, and a host between two attempts that
  reads it holds exactly the device's identification, has called the timeout of the attempt
  off, and goes to \<open>Connected\<close>.
\<close>

theorem session_identifies_device:
  assumes "posting_transport (se_tr (sa_rm F)) sent received" and "slave_app_laws F"
    and "storage (se_mem (sa_rm F))" and "identification_size (sl_slave_id s) \<le> 2019"
    and "sl_nb_loop s = 1" and "\<not> sr_running (sl_rm s)"
    and "sr_transport (sl_rm s) = Some t" and "tr_is_open (se_tr (sa_rm F)) t" and "received t = []"
    and "master_app_laws E" and "storage mem"
  shows "\<exists>s' dip q. sl_handler_connecting F s = (Inr Stay_curr_state, s')
    \<and> srm_sent sent (sl_rm s') = srm_sent sent (sl_rm s) @ [dip]
    \<and> packet_of_view mem (packet_bytes dip @ w) = Inr q
    \<and> (\<forall>m t'. ms_nb_loop m \<noteq> 1 \<and> ms_connection_attempts m \<noteq> 0
          \<and> Dip_timeout_event \<notin> em_events (ma_evt E) (ms_evt m) \<and> ms_reads E m (Some q) t' \<longrightarrow> (\<exists>m'. ms_handler_connecting E m = (Inr Stay_curr_state, m')
        \<and> ms_slave_id m' = sl_slave_id s
        \<and> mrm_timers (ma_rm E) (ms_rm m') = (mrm_timers (ma_rm E) (ms_rm m))(mr_dip_id (ms_rm m) := None)
        \<and> fst (ms_check_connected E m') = Inr Goto_next_state))"
proof -
  obtain s' dip where dip: "sl_handler_connecting F s = (Inr Stay_curr_state, s')"
    "srm_sent sent (sl_rm s') = srm_sent sent (sl_rm s) @ [dip]" "valid_packet dip"
    "packet_type dip = Some Dip" "packet_blocks dip = identification_blocks (sl_slave_id s)"
    using slave_identifies_run [OF assms(1-9)] by blast
  obtain q where q: "packet_of_view mem (packet_bytes dip @ w) = Inr q"
    "packet_type q = Some Dip" "packet_blocks q = identification_blocks (sl_slave_id s)"
    using wire_fields [OF dip(3) assms(11), of w] dip(4,5) by metis
  show ?thesis using dip(1,2) q(1) master_learns_run [OF assms(10) _ q(2,3)] by blast
qed

definition ref_awaiting :: "packet \<Rightarrow> ref_master" where
  "ref_awaiting p = ref_connecting\<lparr>ms_evt := {}, ms_rm := ref_rm\<lparr>mr_transport := Some (ref_client\<lparr>read_queue := [p]\<rparr>)\<rparr>\<rparr>"

lemma ref_awaiting_reads:
  "ms_reads ref_master_app (ref_awaiting p) (Some p) (ref_client\<lparr>read_queue := []\<rparr>)"
  by (simp add: ms_reads_def ref_awaiting_def ref_client_def tc_api_def
      transport_read_def ref_client_env_def ref_queue_api_def)

theorem session_identifies_device_witness:
  "\<exists>s' dip q m'. sl_handler_connecting ref_slave_app
       (ref_slave\<lparr>sl_curr := Connecting, sl_nb_loop := 1, sl_running := True, sl_slave_id := ref_ident\<rparr>)
         = (Inr Stay_curr_state, s')
     \<and> packet_of_view (replicate 2048 0) (packet_bytes dip @ []) = Inr q
     \<and> ms_handler_connecting ref_master_app (ref_awaiting q) = (Inr Stay_curr_state, m')
     \<and> ms_slave_id m' = ref_ident"
proof -
  let ?s = "ref_slave\<lparr>sl_curr := Connecting, sl_nb_loop := 1, sl_running := True, sl_slave_id := ref_ident\<rparr>"
  have s: "sl_nb_loop ?s = 1" "\<not> sr_running (sl_rm ?s)" "sr_transport (sl_rm ?s) = Some ref_client"
    "identification_size (sl_slave_id ?s) \<le> 2019" "sl_slave_id ?s = ref_ident"
    using ref_ident_size by (simp_all add: ref_slave_def ref_slave_rm_def)
  have m: "ms_nb_loop (ref_awaiting q) \<noteq> 1 \<and> ms_connection_attempts (ref_awaiting q) \<noteq> 0
      \<and> Dip_timeout_event \<notin> em_events (ma_evt ref_master_app) (ms_evt (ref_awaiting q))" for q
    by (simp add: ref_awaiting_def)
  have mem: "storage (se_mem (sa_rm ref_slave_app))" by simp
  have tr: "tr_is_open (se_tr (sa_rm ref_slave_app)) ref_client" by simp
  show ?thesis
    using session_identifies_device [OF ref_app_posting(2) ref_slave_laws mem s(4,1,2,3) tr ref_client_views(2)
        ref_master_app_laws ref_storage, of "[]"] ref_awaiting_reads m unfolding s(5) by blast
qed


section \<open>A command and its acknowledgement\<close>

text \<open>Requests are known by their command's identifier, and no two share one.\<close>

lemma acked_by:
  assumes "packet_blocks a = [\<lparr>b_type = n, b_data = u16_le i\<rparr>]"
  shows "acked_id a = Inr i"
  using assms by (simp add: acked_id_def u16_le_def)

lemma ack_of_request:
  assumes laws: "master_laws E" and inv: "mrm_inv E m" and r: "r \<in> mrm_reqs E m"
    and a: "acked_id a = Inr (packet_id (req_command r))" and run: "mrm_ack_command E a m = (res, m')"
    and r': "r' = r\<lparr>req_status := Fulfilled, req_ack := Some a\<rparr>"
  shows "res = fst (me_call E (req_cb r) r' (mr_user m)) \<and> mr_user m' = snd (me_call E (req_cb r) r' (mr_user m))
    \<and> (res = Inr () \<longrightarrow> mrm_reqs E m' = mrm_reqs E m - {r} \<and> mrm_timers E m' (req_id r) = None)"
proof -
  have M: "multi_index_laws req_id req_command_id (me_set E)" using laws by (simp add: master_laws_def)
  have same: "q = r" if "q \<in> mrm_reqs E m" "req_command_id q = packet_id (req_command r)" for q
    using mi_unique2 [OF M] that r unfolding mrm_reqs_def req_command_id_def by blast
  have "packet_id (req_command r) \<in> req_command_id ` mrm_reqs E m"
    using r by (force simp: req_command_id_def)
  then show ?thesis
    using mrm_ack_command_run [OF laws inv run] same r' unfolding a sum.case Let_def
    by (simp only: if_True) metis
qed

text \<open>
  C3: A command and its acknowledgement cross the wire: the bytes of a pending command parse on
  the device's side; a connected device that reads it calls the user's callback with the
  command's block and sends an acknowledgement; the bytes of that acknowledgement parse on the
  host's side, and reading it there calls the callback of exactly this command, with the
  status \<open>Fulfilled\<close>, after which the command and its timer are gone.
\<close>

theorem session_command_answered:
  assumes "master_laws E" and "mrm_inv E m" and "r \<in> mrm_reqs E m"
    and "valid_packet (req_command r)" and "packet_type (req_command r) = Some Cmd"
    and "packet_blocks (req_command r) = [b]"
    and "posting_transport (se_tr (sa_rm F)) sent received" and "storage (se_mem (sa_rm F))"
    and "storage memd" and "storage memh"
  shows "\<exists>q. packet_of_view memd (packet_bytes (req_command r) @ w) = Inr q
    \<and> (\<forall>s cb t'. sl_reads F s q t' \<and> tr_is_open (se_tr (sa_rm F)) t' \<and> sl_cmd_cb s = Some cb
          \<and> (\<forall>e. fst (cb b (sl_user s)) = Inl e \<longrightarrow> is_std_exception e) \<longrightarrow> (\<exists>s' k a q' r' res m'.
        sl_handler_connected F s = (Inr Stay_curr_state, s') \<and> sl_user s' = snd (cb b (sl_user s))
        \<and> srm_sent sent (sl_rm s') = srm_sent sent (sl_rm s) @ [k, a]
        \<and> packet_of_view memh (packet_bytes a @ w') = Inr q'
        \<and> mrm_ack_command E q' m = (res, m') \<and> r' = r\<lparr>req_status := Fulfilled, req_ack := Some q'\<rparr>
        \<and> res = fst (me_call E (req_cb r) r' (mr_user m)) \<and> mr_user m' = snd (me_call E (req_cb r) r' (mr_user m))
        \<and> (res = Inr () \<longrightarrow> mrm_reqs E m' = mrm_reqs E m - {r} \<and> mrm_timers E m' (req_id r) = None)))"
proof -
  obtain q where q: "packet_of_view memd (packet_bytes (req_command r) @ w) = Inr q"
    "packet_type q = Some Cmd" "packet_blocks q = [b]" "packet_id q = packet_id (req_command r)"
    using wire_fields [OF assms(4,9), of w] assms(5,6) by metis
  have "\<exists>s' k a q' r' res m'.
        sl_handler_connected F s = (Inr Stay_curr_state, s') \<and> sl_user s' = snd (cb b (sl_user s))
        \<and> srm_sent sent (sl_rm s') = srm_sent sent (sl_rm s) @ [k, a]
        \<and> packet_of_view memh (packet_bytes a @ w') = Inr q'
        \<and> mrm_ack_command E q' m = (res, m') \<and> r' = r\<lparr>req_status := Fulfilled, req_ack := Some q'\<rparr>
        \<and> res = fst (me_call E (req_cb r) r' (mr_user m)) \<and> mr_user m' = snd (me_call E (req_cb r) r' (mr_user m))
        \<and> (res = Inr () \<longrightarrow> mrm_reqs E m' = mrm_reqs E m - {r} \<and> mrm_timers E m' (req_id r) = None)"
    if reads: "sl_reads F s q t'" and op: "tr_is_open (se_tr (sa_rm F)) t'" and cb: "sl_cmd_cb s = Some cb"
      "\<forall>e. fst (cb b (sl_user s)) = Inl e \<longrightarrow> is_std_exception e" for s cb t'
  proof -
    obtain s' k a x where s': "sl_handler_connected F s = (Inr Stay_curr_state, s')"
      "s' = s\<lparr>sl_received_packet_id := packet_id q, sl_rm := x, sl_user := snd (cb b (sl_user s))\<rparr>"
      "srm_sent sent (sl_rm s') = srm_sent sent (sl_rm s) @ [k, a]"
      "valid_packet a" "packet_blocks a = [\<lparr>b_type = b_type b, b_data = u16_le (packet_id q)\<rparr>]"
      using slave_answers_run [OF assms(7,8) reads op q(2,3) cb] by blast
    have user: "sl_user s' = snd (cb b (sl_user s))" by (simp add: s'(2))
    obtain q' where q': "packet_of_view memh (packet_bytes a @ w') = Inr q'"
      "packet_blocks q' = [\<lparr>b_type = b_type b, b_data = u16_le (packet_id (req_command r))\<rparr>]"
      using wire_fields [OF s'(4) assms(10), of w'] s'(5) q(4) by metis
    obtain res m' where run: "mrm_ack_command E q' m = (res, m')" by fastforce
    note acked = ack_of_request [OF assms(1-3) acked_by [OF q'(2)] run refl]
    show ?thesis
      by (intro exI conjI) (rule s'(1) user s'(3) q'(1) run refl acked [THEN conjunct1]
        acked [THEN conjunct2, THEN conjunct1] acked [THEN conjunct2, THEN conjunct2])+
  qed
  then show ?thesis using q(1) by blast
qed

text \<open>A host on the reference objects with one pending command.\<close>

lemma ref_pending:
  obtains m i cmd where "mrm_inv ref_master_env m" "mrm_open ref_master_env m" "valid_packet cmd"
    "packet_type cmd = Some Cmd" "packet_blocks cmd = [\<lparr>b_type = 5, b_data = [1]\<rparr>]"
    "mrm_reqs ref_master_env m = {new_request i cmd (9::nat)}" "mr_user m = []"
proof -
  obtain cmd where cmd: "make_command (me_mem ref_master_env) (mr_packet_id ref_rm + 1) 5 [1] = Inr cmd" "valid_packet cmd"
    "packet_type cmd = Some Cmd" "packet_blocks cmd = [\<lparr>b_type = 5, b_data = [1]\<rparr>]"
    using make_command_ok [of "me_mem ref_master_env" "[1]" "mr_packet_id ref_rm + 1" 5] by auto
  have free: "packet_id cmd \<notin> req_command_id ` mrm_reqs ref_master_env ref_rm" by simp
  have E: "me_tr ref_master_env = tc_api ref_client_env" by simp
  obtain m i where m: "mrm_send_command ref_master_env 5 [1] (9::nat) 1000 ref_rm = (Inr (), m)" "mrm_open ref_master_env m"
    "mrm_reqs ref_master_env m = insert (new_request i cmd (9::nat)) (mrm_reqs ref_master_env ref_rm)"
    using posting_transport.mrm_send_command_posts [OF ref_posting E ref_master_laws ref_rm_inv ref_rm_open cmd(1) free]
    by blast
  have inv: "mrm_inv ref_master_env m" "mr_user m = []"
    using mrm_send_command_run [OF ref_master_laws ref_rm_inv m(1)] by simp_all
  have "mrm_reqs ref_master_env m = {new_request i cmd 9}" by (simp add: m(3))
  then show thesis by (rule that [OF inv(1) m(2) cmd(2-4) _ inv(2)])
qed

theorem session_command_answered_witness:
  "\<exists>m r q s' q' m'. mrm_reqs ref_master_env m = {r}
     \<and> packet_of_view (replicate 2048 0) (packet_bytes (req_command r) @ []) = Inr q
     \<and> sl_handler_connected ref_slave_app (ref_reading Connected q) = (Inr Stay_curr_state, s')
     \<and> sl_user s' = [\<lparr>b_type = 5, b_data = [1]\<rparr>]
     \<and> mrm_ack_command ref_master_env q' m = (Inr (), m') \<and> mrm_reqs ref_master_env m' = {}
     \<and> mr_user m' = [r\<lparr>req_status := Fulfilled, req_ack := Some q'\<rparr>]"
proof -
  obtain m i cmd where m: "mrm_inv ref_master_env m" "mrm_open ref_master_env m" "valid_packet cmd"
    "packet_type cmd = Some Cmd" "packet_blocks cmd = [\<lparr>b_type = 5, b_data = [1]\<rparr>]"
    "mrm_reqs ref_master_env m = {new_request i cmd (9::nat)}" "mr_user m = []"
    by (rule ref_pending)
  let ?r = "new_request i cmd (9::nat)"
  have r: "?r \<in> mrm_reqs ref_master_env m" "req_command ?r = cmd" by (simp_all add: m(6) new_request_def)
  have mem: "storage (se_mem (sa_rm ref_slave_app))" by simp
  have cb: "sl_cmd_cb (ref_reading Connected q) = Some (\<lambda>b u. (Inr (), u @ [b]))" "sl_user (ref_reading Connected q) = []"
    "tr_is_open (se_tr (sa_rm ref_slave_app)) (ref_client\<lparr>read_queue := []\<rparr>)" for q
    by (simp_all add: ref_reading_def ref_slave_def)
  obtain q where q: "packet_of_view (replicate 2048 0) (packet_bytes cmd @ []) = Inr q"
    and all: "\<forall>(s :: ref_slave) cb t'. sl_reads ref_slave_app s q t' \<and> tr_is_open (se_tr (sa_rm ref_slave_app)) t' \<and> sl_cmd_cb s = Some cb
          \<and> (\<forall>e. fst (cb \<lparr>b_type = 5, b_data = [1]\<rparr> (sl_user s)) = Inl e \<longrightarrow> is_std_exception e) \<longrightarrow> (\<exists>s' k a q' r' res m'.
        sl_handler_connected ref_slave_app s = (Inr Stay_curr_state, s')
        \<and> sl_user s' = snd (cb \<lparr>b_type = 5, b_data = [1]\<rparr> (sl_user s))
        \<and> srm_sent (tc_sent ref_client_env) (sl_rm s') = srm_sent (tc_sent ref_client_env) (sl_rm s) @ [k, a]
        \<and> packet_of_view (replicate 2048 0) (packet_bytes a @ []) = Inr q'
        \<and> mrm_ack_command ref_master_env q' m = (res, m') \<and> r' = ?r\<lparr>req_status := Fulfilled, req_ack := Some q'\<rparr>
        \<and> res = fst (me_call ref_master_env (req_cb ?r) r' (mr_user m))
        \<and> mr_user m' = snd (me_call ref_master_env (req_cb ?r) r' (mr_user m))
        \<and> (res = Inr () \<longrightarrow> mrm_reqs ref_master_env m' = mrm_reqs ref_master_env m - {?r}
           \<and> mrm_timers ref_master_env m' (req_id ?r) = None))"
    using session_command_answered [OF ref_master_laws m(1) r(1) _ _ _ ref_app_posting(2) mem ref_storage ref_storage,
        of "\<lparr>b_type = 5, b_data = [1]\<rparr>" "[]" "[]"] m(3-5) unfolding r(2) by blast
  from all [rule_format, of "ref_reading Connected q" "ref_client\<lparr>read_queue := []\<rparr>" "\<lambda>b u. (Inr (), u @ [b])"]
  show ?thesis
    using ref_reading_reads [of Connected q] cb q m(6,7) r(2)
    by (intro exI [of _ m] exI [of _ ?r] exI [of _ q]) auto
qed


text \<open>
  C37: A command is executed at least once, and may be executed again: when the acknowledgement
  is lost and the timer of the command runs out, the host sends the same packet once more, and
  a device that has already executed it executes it again. The device keeps the identifier of
  the last packet but looks at it only for its log.
\<close>

theorem session_command_repeated:
  assumes "posting_transport (me_tr E) sentm receivedm" and "master_laws E" and "mrm_inv E m"
    and "mrm_open E m" and "r \<in> mrm_reqs E m" and "req_retry r < max_retry"
    and "valid_packet (req_command r)" and "packet_type (req_command r) = Some Cmd"
    and "packet_blocks (req_command r) = [b]"
    and "posting_transport (se_tr (sa_rm F)) sent received" and "storage (se_mem (sa_rm F))"
    and "sl_cmd_cb s = Some cb" and "\<forall>u e. fst (cb b u) = Inl e \<longrightarrow> is_std_exception e"
    and "storage memd" and "packet_of_view memd (packet_bytes (req_command r) @ w) = Inr q"
    and "sl_reads F s q t1" and "tr_is_open (se_tr (sa_rm F)) t1"
    and "sl_handler_connected F s = (x, s1)"
    and "tr_read (se_tr (sa_rm F)) t2 = (Some q, t3)" and "tr_is_open (se_tr (sa_rm F)) t3"
  shows "(\<exists>m'. mrm_cmd_timeout_cb E (req_id r) m = (Inr (), m')
      \<and> mrm_sent sentm m' = mrm_sent sentm m @ [req_command r])
    \<and> sl_user s1 = snd (cb b (sl_user s))
    \<and> (\<exists>s3. sl_handler_connected F (s1\<lparr>sl_rm := (sl_rm s1)\<lparr>sr_transport := Some t2\<rparr>\<rparr>) = (Inr Stay_curr_state, s3)
      \<and> sl_user s3 = snd (cb b (snd (cb b (sl_user s)))))"
proof -
  have q: "packet_type q = Some Cmd" "packet_blocks q = [b]"
    using wire_fields [OF assms(7,14), of w] assms(8,9,15) by (metis sum.inject(2))+
  have cb: "\<forall>e. fst (cb b u) = Inl e \<longrightarrow> is_std_exception e" for u using assms(13) by blast
  have s1: "sl_user s1 = snd (cb b (sl_user s))" "sl_cmd_cb s1 = Some cb"
    using slave_answers_run [OF assms(10,11,16,17) q assms(12) cb [of "sl_user s"]] assms(12,18) by auto
  let ?s2 = "s1\<lparr>sl_rm := (sl_rm s1)\<lparr>sr_transport := Some t2\<rparr>\<rparr>"
  have s2: "sl_reads F ?s2 q t3" "sl_cmd_cb ?s2 = Some cb" "sl_user ?s2 = sl_user s1"
    using assms(19) s1(2) by (simp_all add: sl_reads_def)
  obtain s3 where "sl_handler_connected F ?s2 = (Inr Stay_curr_state, s3)"
    "sl_user s3 = snd (cb b (snd (cb b (sl_user s))))"
    using slave_answers_run [OF assms(10,11) s2(1) assms(20) q s2(2) cb [of "sl_user ?s2"]] s2(3) s1(1) by auto
  moreover obtain m' where "mrm_cmd_timeout_cb E (req_id r) m = (Inr (), m')"
    "mrm_sent sentm m' = mrm_sent sentm m @ [req_command r]"
    using posting_transport.mrm_retry_sends [OF assms(1) refl assms(2-6)] by blast
  ultimately show ?thesis using s1(1) by blast
qed

theorem session_command_repeated_witness:
  "\<exists>q s1 s3. sl_handler_connected ref_slave_app (ref_reading Connected q) = (Inr Stay_curr_state, s1)
     \<and> sl_handler_connected ref_slave_app
         (s1\<lparr>sl_rm := (sl_rm s1)\<lparr>sr_transport := Some (ref_client\<lparr>read_queue := [q]\<rparr>)\<rparr>\<rparr>) = (Inr Stay_curr_state, s3)
     \<and> sl_user s3 = [\<lparr>b_type = 5, b_data = [1]\<rparr>, \<lparr>b_type = 5, b_data = [1]\<rparr>]"
proof -
  obtain m i cmd where m: "mrm_inv ref_master_env m" "mrm_open ref_master_env m" "valid_packet cmd"
    "packet_type cmd = Some Cmd" "packet_blocks cmd = [\<lparr>b_type = 5, b_data = [1]\<rparr>]"
    "mrm_reqs ref_master_env m = {new_request i cmd (9::nat)}" "mr_user m = []"
    by (rule ref_pending)
  let ?r = "new_request i cmd (9::nat)"
  have r: "?r \<in> mrm_reqs ref_master_env m" "req_command ?r = cmd" "req_retry ?r < max_retry"
    by (simp_all add: m(6) new_request_def max_retry_def)
  have c: "valid_packet (req_command ?r)" "packet_type (req_command ?r) = Some Cmd"
    "packet_blocks (req_command ?r) = [\<lparr>b_type = 5, b_data = [1]\<rparr>]" using m(3-5) r(2) by simp_all
  obtain q where q: "packet_of_view (replicate 2048 0) (packet_bytes (req_command ?r) @ []) = Inr q"
    using wire_fields [OF c(1) ref_storage] by metis
  have mem: "storage (se_mem (sa_rm ref_slave_app))" by simp
  have cb: "sl_cmd_cb (ref_reading Connected q) = Some (\<lambda>b u. (Inr (), u @ [b]))" "sl_user (ref_reading Connected q) = []"
    "tr_is_open (se_tr (sa_rm ref_slave_app)) (ref_client\<lparr>read_queue := []\<rparr>)"
    "\<forall>u e. fst ((\<lambda>b u. (Inr (), u @ [b])) \<lparr>b_type = 5, b_data = [1]\<rparr> u) = Inl e \<longrightarrow> is_std_exception e"
    by (simp_all add: ref_reading_def ref_slave_def)
  have rd: "tr_read (se_tr (sa_rm ref_slave_app)) (ref_client\<lparr>read_queue := [q]\<rparr>) = (Some q, ref_client\<lparr>read_queue := []\<rparr>)"
    by (simp add: ref_client_def tc_api_def transport_read_def ref_client_env_def ref_queue_api_def)
  have me: "posting_transport (me_tr ref_master_env) (tc_sent ref_client_env) (tc_received ref_client_env)"
    using ref_posting by simp
  obtain x s1 where run: "sl_handler_connected ref_slave_app (ref_reading Connected q) = (x, s1)" by fastforce
  have "x = Inr Stay_curr_state"
    using slave_answers_run [OF ref_app_posting(2) mem ref_reading_reads cb(3) _ _ cb(1), of "\<lparr>b_type = 5, b_data = [1]\<rparr>"]
      wire_fields [OF c(1) ref_storage, of "[]"] q c(2,3) run
    by (metis (no_types, lifting) Inl_Inr_False cb(4) fst_conv prod.inject sum.inject(2))
  then show ?thesis
    using session_command_repeated [OF me ref_master_laws m(1,2) r(1,3) c ref_app_posting(2) mem cb(1,4) ref_storage q
        ref_reading_reads cb(3) run rd cb(3)] run cb(2) by auto
qed

end
