(* ===== verification/Link_Properties.thy ===== *)
theory Link_Properties
  imports Link_Device Link_Host Session
begin

text \<open>
  Host, device and channel together implement the abstract agreement; the properties of a
  connection that follow.
\<close>

section \<open>The link implements the agreement\<close>

definition link_laws ::
  "('q, 'm, 'tr, 'c, 'cb, 'cb request list, 'p, 'n, 'td) link_env \<Rightarrow> bool" where
  "link_laws L \<longleftrightarrow>
     linked_host (le_host L) (le_sent L) (le_received L)
     \<and> linked_device (le_device L) (le_device_sent L) (le_device_received L)"

text \<open>The simulation relation.\<close>

definition link_rel ::
  "('q, 'm, 'tr, 'c, 'cb, 'cb request list, 'p, 'n, 'td) link_env \<Rightarrow>
   ('q, 'm, 'tr, 'c, 'cb request list) master \<times> ('p, 'n, 'td, block list) slave \<Rightarrow> agreement \<Rightarrow> bool" where
  "link_rel L = (\<lambda>(m, d) a.
     host_keeps (le_host L) (le_sent L) (le_received L) a m
     \<and> device_ok (le_device_sent L) (le_device_received L) a d)"

lemma link_start:
  assumes "link_begun L s"
  shows "link_rel L s \<lparr>ag_issued = {}, ag_executed = [], ag_fulfilled = []\<rparr>"
  using assms
  by (auto simp: link_begun_def link_rel_def host_keeps_def host_ok_def device_ok_def mrm_sends_def
      mrm_carries_def srm_carries_def issued_in_def acks_in_def fulfilled_def elim!: carries_mono split: prod.splits)

lemma carries_io:
  assumes "carries sent received P Q (Some t)" and "set (sent t') \<subseteq> set (sent t)"
    and "\<forall>q\<in>set (received t'). q \<in> set (received t) \<or> (\<exists>p\<in>S. carried p q)"
    and "\<And>p q. p \<in> S \<Longrightarrow> carried p q \<Longrightarrow> Q q"
  shows "carries sent received P Q (Some t')"
  using assms by (auto simp: carries_def list_all_iff)

lemma link_simulates:
  assumes laws: "link_laws L" and inv: "ag_inv a" and rel: "link_rel L s a" and step: "link_step L s s'"
  shows "\<exists>b. (b = a \<or> ag_step a b) \<and> link_rel L s' b"
proof -
  have H: "linked_host (le_host L) (le_sent L) (le_received L)"
    and D: "linked_device (le_device L) (le_device_sent L) (le_device_received L)"
    using laws by (simp_all add: link_laws_def)
  obtain m d where s: "s = (m, d)" by fastforce
  have m: "host_keeps (le_host L) (le_sent L) (le_received L) a m"
    and d: "device_ok (le_device_sent L) (le_device_received L) a d"
    using rel by (simp_all add: link_rel_def s)
  show ?thesis
    using step unfolding s
  proof cases
    case (host m')
    obtain b where b: "host_next a b" "host_keeps (le_host L) (le_sent L) (le_received L) b m'"
      using linked_host.host_simulates [OF H host(2) inv m host(3)] by blast
    have "device_ok (le_device_sent L) (le_device_received L) b d"
      using d b(1) by (auto simp: host_next_def device_ok_def srm_carries_def dest: issued_mono elim!: carries_mono)
    then show ?thesis using b by (auto simp: host(1) link_rel_def host_next_def)
  next
    case (device d')
    from linked_device.device_simulates [OF D device(2) d] show ?thesis
    proof
      assume "device_ok (le_device_sent L) (le_device_received L) a d'"
      then show ?thesis using m by (auto simp: device(1) link_rel_def)
    next
      assume "\<exists>x\<in>ag_issued a. device_ok (le_device_sent L) (le_device_received L)
        (a\<lparr>ag_executed := ag_executed a @ [x]\<rparr>) d'"
      then obtain x where x: "x \<in> ag_issued a" "device_ok (le_device_sent L) (le_device_received L)
        (a\<lparr>ag_executed := ag_executed a @ [x]\<rparr>) d'" by blast
      let ?b = "a\<lparr>ag_executed := ag_executed a @ [x]\<rparr>"
      have "host_keeps (le_host L) (le_sent L) (le_received L) ?b m"
        using m by (auto simp: host_keeps_def host_ok_def mrm_sends_def mrm_carries_def executed_more
            elim!: carries_mono)
      then show ?thesis using x ag_step.execute [OF x(1)] by (intro exI [of _ ?b]) (simp add: device(1) link_rel_def)
    qed
  next
    case (to_host t t')
    have "acks_in (ag_executed a) q" if "p \<in> set (srm_sent (le_device_sent L) (sl_rm d))" "carried p q" for p q
      using d that carried_fields [of p q]
      by (auto simp: device_ok_def srm_carries_def carries_def srm_sent_def list_all_iff device_packet_def
          acks_in_def split: option.splits)
    then have "host_keeps (le_host L) (le_sent L) (le_received L) a (m\<lparr>ms_rm := (ms_rm m)\<lparr>mr_transport := Some t'\<rparr>\<rparr>)"
      using m to_host(2) carries_io [OF _ to_host(3,4)]
      by (auto simp: host_keeps_def host_ok_def host_user_def mrm_sends_def mrm_carries_def mrm_reqs_def)
    then show ?thesis using d by (auto simp: to_host(1) link_rel_def)
  next
    case (to_device t t')
    have "issued_in (ag_issued a) q" if "p \<in> set (mrm_sent (le_sent L) (ms_rm m))" "carried p q" for p q
      using m that carried_fields [of p q]
      by (auto simp: host_keeps_def host_ok_def mrm_sends_def mrm_carries_def carries_def mrm_sent_def
          list_all_iff host_packet_def issued_in_def split: option.splits)
    then have "device_ok (le_device_sent L) (le_device_received L) a (d\<lparr>sl_rm := (sl_rm d)\<lparr>sr_transport := Some t'\<rparr>\<rparr>)"
      using d to_device(2) carries_io [OF _ to_device(3,4)]
      by (auto simp: device_ok_def device_user_def srm_carries_def)
    then show ?thesis using m by (auto simp: to_device(1) link_rel_def)
  qed
qed

text \<open>
  In every state the link reaches, there is a reachable state of the abstract system that is
  related to it.
\<close>

locale agreed_link =
  fixes L :: "('q, 'm, 'tr, 'c, 'cb, 'cb request list, 'p, 'n, 'td) link_env"
  assumes laws: "link_laws L"

sublocale agreed_link \<subseteq>
  link: invariant_system "link_begun L" "link_step L" "\<lambda>s. \<exists>a. reach ag_start ag_step a \<and> link_rel L s a"
proof unfold_locales
  show "\<exists>a. reach ag_start ag_step a \<and> link_rel L s a" if "link_begun L s" for s
    using link_start [OF that] reach_init [of ag_start "\<lparr>ag_issued = {}, ag_executed = [], ag_fulfilled = []\<rparr>"]
    by (auto simp: ag_start_def)
  show "\<exists>b. reach ag_start ag_step b \<and> link_rel L t b"
    if "\<exists>a. reach ag_start ag_step a \<and> link_rel L s a" and "link_step L s t" for s t
    using that link_simulates [OF laws] ag_reach_inv reach_step by metis
qed

context agreed_link
begin

lemma link_agrees: "reach (link_begun L) (link_step L) s \<Longrightarrow> \<exists>a. reach ag_start ag_step a \<and> link_rel L s a"
  by (rule link.reach_inv)

end

lemma link_related:
  assumes "link_laws L" and "reach (link_begun L) (link_step L) s"
  obtains a where "reach ag_start ag_step a" "link_rel L s a"
proof -
  have "agreed_link L" using assms(1) by unfold_locales
  then show thesis using agreed_link.link_agrees [OF _ assms(2)] that by blast
qed

text \<open>What the relation says of the users' logs and of the packets.\<close>

lemma link_rel_logs:
  assumes "link_rel L (m, d) a"
  shows "fulfilled (mr_user (ms_rm m)) = ag_fulfilled a" "sl_user d = map snd (ag_executed a)"
  using assms by (simp_all add: link_rel_def host_keeps_def host_ok_def device_ok_def)

lemma link_rel_packets:
  assumes "link_rel L (m, d) a"
  shows "p \<in> set (mrm_sent (le_sent L) (ms_rm m)) \<Longrightarrow> host_packet p \<and> issued_in (ag_issued a) p"
    and "p \<in> set (srm_sent (le_device_sent L) (sl_rm d)) \<Longrightarrow> device_packet p \<and> acks_in (ag_executed a) p"
    and "r \<in> mrm_reqs (ma_rm (le_host L)) (ms_rm m) \<Longrightarrow> pending_in (ag_issued a) (ag_fulfilled a) (req_command r)"
  using assms
  by (auto simp: link_rel_def host_keeps_def host_ok_def device_ok_def mrm_sends_def mrm_carries_def
      srm_carries_def carries_def mrm_sent_def srm_sent_def list_all_iff split: option.splits)

text \<open>No more reports than executions, and no report twice.\<close>

lemma link_no_false_report:
  assumes "link_laws L" and "reach (link_begun L) (link_step L) (m, d)"
  shows "mset (map snd (fulfilled (mr_user (ms_rm m)))) \<subseteq># mset (sl_user d)"
    and "distinct (map fst (fulfilled (mr_user (ms_rm m))))"
proof -
  obtain a where a: "reach ag_start ag_step a" "link_rel L (m, d) a"
    by (rule link_related [OF assms])
  show "mset (map snd (fulfilled (mr_user (ms_rm m)))) \<subseteq># mset (sl_user d)"
    "distinct (map fst (fulfilled (mr_user (ms_rm m))))"
    using ag_injective(1) [OF ag_reach_inv [OF a(1)]] ag_reach_inv [OF a(1)] link_rel_logs [OF a(2)]
    by (simp_all add: ag_inv_def)
qed

section \<open>A reference run\<close>

text \<open>
  Host and device over open clients, from the start of a connection to a command that is
  executed and reported.
\<close>

type_synonym ref_transport = "(bool, packet list, packet list) tcp_client"

definition ref_link ::
  "(master_timer ref_queue, master_event set, ref_transport, nat request list, nat, nat request list,
    slave_timer ref_queue, slave_event set, ref_transport) link_env" where
  "ref_link =
     \<lparr>le_host = ref_master_app, le_device = ref_slave_app,
      le_sent = tc_sent ref_client_env, le_received = tc_received ref_client_env,
      le_device_sent = tc_sent ref_client_env, le_device_received = tc_received ref_client_env\<rparr>"

definition ref_host :: ref_master where
  "ref_host = ref_master\<lparr>ms_curr := Connected, ms_nb_loop := 1, ms_running := True, ms_rm := ref_rm\<rparr>"

definition ref_device :: ref_slave where
  "ref_device = ref_slave\<lparr>sl_curr := Connected, sl_nb_loop := 1, sl_running := True, sl_rm := ref_slave_rm\<rparr>"

interpretation ref_linked_rm: linked_rm ref_master_env "tc_sent ref_client_env" "tc_received ref_client_env"
  by (intro linked_rm.intro linked_rm_axioms.intro)
    (use posting_transport.axioms(1) [OF ref_posting] in \<open>simp_all add: recording_def\<close>)

interpretation ref_linked_host: linked_host ref_master_app "tc_sent ref_client_env" "tc_received ref_client_env"
  by (intro linked_host.intro) (simp add: ref_linked_rm.linked_rm_axioms)

interpretation ref_linked_device: linked_device ref_slave_app "tc_sent ref_client_env" "tc_received ref_client_env"
  by (intro linked_device.intro linked_device_axioms.intro)
    (use posting_transport.axioms(1) [OF ref_posting] in \<open>simp_all\<close>)

lemma ref_link_laws [simp]: "link_laws ref_link"
  unfolding link_laws_def ref_link_def
  by (simp add: ref_linked_host.linked_host_axioms ref_linked_device.linked_device_axioms)

interpretation ref_agreed: agreed_link ref_link
  by unfold_locales simp

lemma ref_link_begun: "link_begun ref_link (ref_host, ref_device)"
  by (simp add: link_begun_def ref_link_def ref_host_def ref_device_def ref_master_def ref_slave_def ref_slave_rm_def
      mrm_carries_def srm_carries_def carries_def tc_sent_def tc_received_def ref_client_def ref_client_env_def
      ref_queue_api_def host_user_def device_user_def identification_size_def no_identification_def)

text \<open>The host, while one command is pending.\<close>

definition ref_waiting :: "packet \<Rightarrow> ref_master \<Rightarrow> bool" where
  "ref_waiting cmd m \<longleftrightarrow> ms_running m \<and> ms_curr m = Connected \<and> 1 \<le> ms_nb_loop m \<and> mr_packet_id (ms_rm m) = 1
     \<and> mrm_inv ref_master_env (ms_rm m) \<and> (\<exists>i. mrm_reqs ref_master_env (ms_rm m) = {new_request i cmd (9::nat)})
     \<and> mr_user (ms_rm m) = []"

text \<open>The command is sent.\<close>

lemma ref_host_sends:
  obtains m cmd t where "host_move ref_master_app ref_host m" "mr_transport (ms_rm m) = Some t"
    "tc_sent ref_client_env t = [cmd]" "ref_waiting cmd m" "valid_packet cmd" "packet_type cmd = Some Cmd"
    "packet_blocks cmd = [\<lparr>b_type = 5, b_data = [1]\<rparr>]" "packet_id cmd = 1"
proof -
  obtain cmd where cmd: "make_command (me_mem ref_master_env) (mr_packet_id ref_rm + 1) 5 [1] = Inr cmd" "valid_packet cmd"
    "packet_type cmd = Some Cmd" "packet_blocks cmd = [\<lparr>b_type = 5, b_data = [1]\<rparr>]" "packet_id cmd = 1"
    using make_command_ok [of "me_mem ref_master_env" "[1]" "mr_packet_id ref_rm + 1" 5] by auto
  have free: "packet_id cmd \<notin> req_command_id ` mrm_reqs ref_master_env ref_rm" by simp
  have E: "me_tr ref_master_env = tc_api ref_client_env" by simp
  obtain x i where x: "mrm_send_command ref_master_env 5 [1] (9::nat) command_timeout ref_rm = (Inr (), x)"
    "mrm_open ref_master_env x" "mrm_sent (tc_sent ref_client_env) x = mrm_sent (tc_sent ref_client_env) ref_rm @ [cmd]"
    "mrm_reqs ref_master_env x = insert (new_request i cmd (9::nat)) (mrm_reqs ref_master_env ref_rm)"
    using posting_transport.mrm_send_command_posts [OF ref_posting E ref_master_laws ref_rm_inv ref_rm_open cmd(1) free]
    by blast
  have inv: "mrm_inv ref_master_env x" "mr_user x = []"
    using mrm_send_command_run [OF ref_master_laws ref_rm_inv x(1)] by simp_all
  have pid: "mr_packet_id x = 1" using mrm_send_command_frame [OF ref_master_laws x(1)] by simp
  let ?m = "ref_host\<lparr>ms_rm := x\<rparr>"
  have "ms_send_command ref_master_app 5 [1] 9 ref_host = (Inr (), ?m)"
    using x(1) by (simp add: ms_send_command_def run_withE ms_on_rm_run ref_host_def)
  then have move: "host_move ref_master_app ref_host ?m" by (rule host_move.send_command [rotated]) simp
  have sent: "mrm_sent (tc_sent ref_client_env) x = [cmd]"
    using x(3) by (simp add: mrm_sent_def tc_sent_def ref_client_def ref_client_env_def ref_queue_api_def)
  obtain t where t: "mr_transport x = Some t" using x(2) by (auto simp: mrm_open_def split: option.splits)
  have "ref_waiting cmd ?m"
    using inv pid x(4) by (auto simp: ref_waiting_def ref_host_def)
  then show thesis
    by (rule that [OF move, rotated 2]) (use t sent cmd in \<open>simp_all add: mrm_sent_def\<close>)
qed

text \<open>It is delivered, executed and acknowledged.\<close>

lemma ref_link_executes:
  assumes "mrm_sent (tc_sent ref_client_env) (ms_rm m) = [cmd]" and "valid_packet cmd"
    and "packet_type cmd = Some Cmd" and "packet_blocks cmd = [b]"
  obtains d k a where "(link_step ref_link)\<^sup>*\<^sup>* (m, ref_device) (m, d)" "sl_user d = [b]"
    "srm_sent (tc_sent ref_client_env) (sl_rm d) = [k, a]" "valid_packet a" "packet_type a = Some Cmd_ack"
    "packet_blocks a = [\<lparr>b_type = b_type b, b_data = u16_le (packet_id cmd)\<rparr>]"
proof -
  obtain q where q: "packet_of_view (replicate 2048 0) (packet_bytes cmd @ []) = Inr q"
    "packet_type q = Some Cmd" "packet_blocks q = [b]" "packet_id q = packet_id cmd"
    using wire_fields [OF assms(2) ref_storage, of "[]"] assms(3,4) by metis
  then have carried: "carried cmd q" unfolding carried_def using ref_storage by blast
  let ?t = "ref_client\<lparr>read_queue := [q]\<rparr>"
  let ?d = "ref_device\<lparr>sl_rm := (sl_rm ref_device)\<lparr>sr_transport := Some ?t\<rparr>\<rparr>"
  have "link_step ref_link (m, ref_device) (m, ?d)"
    using carried assms(1)
    by (intro link_step.to_device [of _ ref_client])
      (simp_all add: ref_link_def ref_device_def ref_slave_rm_def tc_sent_def tc_received_def
        ref_client_env_def ref_queue_api_def)
  moreover have reading: "?d\<lparr>sl_nb_loop := sl_nb_loop ?d + 1\<rparr> = ref_reading Connected q"
    by (simp add: ref_device_def ref_reading_def ref_slave_def)
  have mem: "storage (se_mem (sa_rm ref_slave_app))" by simp
  have cb: "sl_cmd_cb (ref_reading Connected q) = Some (\<lambda>b u. (Inr (), u @ [b]))" "sl_user (ref_reading Connected q) = []"
    "tr_is_open (se_tr (sa_rm ref_slave_app)) (ref_client\<lparr>read_queue := []\<rparr>)"
    "srm_sent (tc_sent ref_client_env) (sl_rm (ref_reading Connected q)) = []"
    by (simp_all add: ref_reading_def ref_slave_def ref_slave_rm_def srm_sent_def tc_sent_def ref_client_def
        ref_client_env_def ref_queue_api_def tc_api_def tc_is_open_def ref_socket_def)
  have quiet: "\<forall>e. fst ((\<lambda>b u. (Inr (), u @ [b])) b (sl_user (ref_reading Connected q))) = Inl e \<longrightarrow> is_std_exception e"
    by simp
  obtain d k a where d: "sl_handler_connected ref_slave_app (ref_reading Connected q) = (Inr Stay_curr_state, d)"
    "sl_user d = [b]" "valid_packet a"
    "srm_sent (tc_sent ref_client_env) (sl_rm d) = [k, a]" "packet_type a = Some Cmd_ack"
    "packet_blocks a = [\<lparr>b_type = b_type b, b_data = u16_le (packet_id q)\<rparr>]"
    using slave_answers_run [OF ref_app_posting(2) mem ref_reading_reads cb(3) q(2,3) cb(1) quiet] cb(2,4) by auto
  have "device_move ref_slave_app ?d d"
    by (rule device_move.pass [where r = "Inr ()"], simp add: ref_device_def, simp add: ref_device_def,
        unfold reading) (simp add: ref_device_def sl_catch_def run_catchE run_bindE d(1) run_retE)
  then have "link_step ref_link (m, ?d) (m, d)"
    by (intro link_step.device) (simp add: ref_link_def)
  ultimately have "(link_step ref_link)\<^sup>*\<^sup>* (m, ref_device) (m, d)"
    by (meson converse_rtranclp_into_rtranclp r_into_rtranclp)
  then show thesis by (rule that [OF _ d(2,4,3,5)]) (simp add: d(6) q(4))
qed

text \<open>It takes a keep-alive acknowledgement, and reports the command when it takes its acknowledgement.\<close>

lemma ref_waiting_transport:
  "ref_waiting cmd (m\<lparr>ms_rm := (ms_rm m)\<lparr>mr_transport := t\<rparr>\<rparr>) = ref_waiting cmd m"
proof -
  have f: "mrm_frame ((ms_rm m)\<lparr>mr_transport := t\<rparr>) = mrm_frame (ms_rm m)" by (simp add: mrm_frame_def)
  show ?thesis using mrm_frame_inv(1,4) [OF f, of ref_master_env] by (simp add: ref_waiting_def)
qed

lemma ref_host_reads:
  assumes "ref_waiting cmd m" and "mr_transport (ms_rm m) = Some t" and "read_queue t = q # qs"
  defines "n \<equiv> m\<lparr>ms_nb_loop := ms_nb_loop m + 1\<rparr>" and "x \<equiv> (ms_rm m)\<lparr>mr_transport := Some (t\<lparr>read_queue := qs\<rparr>)\<rparr>"
  shows "ms_read ref_master_app n = (Inr (Some q), n\<lparr>ms_rm := x\<rparr>)" "ms_nb_loop n \<noteq> 1"
    "ms_running m" "ms_curr m = Connected" "mr_packet_id x = 1" "mrm_inv ref_master_env x"
    "mrm_reqs ref_master_env x = mrm_reqs ref_master_env (ms_rm m)" "mr_user x = []"
proof -
  have "ms_reads ref_master_app n (Some q) (t\<lparr>read_queue := qs\<rparr>)"
    using assms(2,3) by (simp add: ms_reads_def n_def tc_api_def transport_read_def ref_client_env_def ref_queue_api_def)
  from ms_read_run [OF this] show "ms_read ref_master_app n = (Inr (Some q), n\<lparr>ms_rm := x\<rparr>)"
    by (simp add: n_def x_def)
  have f: "mrm_frame x = mrm_frame (ms_rm m)" by (simp add: x_def mrm_frame_def)
  show "ms_nb_loop n \<noteq> 1" "ms_running m" "ms_curr m = Connected" "mr_packet_id x = 1" "mrm_inv ref_master_env x"
    "mrm_reqs ref_master_env x = mrm_reqs ref_master_env (ms_rm m)" "mr_user x = []"
    using assms(1) mrm_frame_inv(1,4) [OF f, of ref_master_env] by (simp_all add: ref_waiting_def n_def x_def)
qed

lemma ref_host_keepalive:
  assumes m: "ref_waiting cmd m" "mr_transport (ms_rm m) = Some t" "read_queue t = q # qs"
    and q: "packet_type q = Some Ka_ack"
  obtains m' where "host_move ref_master_app m m'" "ref_waiting cmd m'"
    "mr_transport (ms_rm m') = Some (t\<lparr>read_queue := qs\<rparr>)"
proof -
  let ?n = "m\<lparr>ms_nb_loop := ms_nb_loop m + 1\<rparr>" and ?x = "(ms_rm m)\<lparr>mr_transport := Some (t\<lparr>read_queue := qs\<rparr>)\<rparr>"
  note rd = ref_host_reads [OF m]
  obtain res y where run: "mrm_ack_keepalive ref_master_env ?x = (res, y)" by fastforce
  note y = mrm_ack_keepalive_run [OF ref_master_laws rd(6) run]
  have same: "mr_transport y = mr_transport ?x" "mr_packet_id y = mr_packet_id ?x"
    using mrm_inertD(2) [OF mrm_inert_timers(6) run]
      mrm_still_run [OF mrm_still_timers(4) run, of "(mr_user ?x, mr_packet_id ?x)"] by (simp_all add: mrm_still_def)
  let ?m' = "?n\<lparr>ms_rm := y, ms_received_packet_id := packet_id q\<rparr>"
  have "ms_handler_connected ref_master_app ?n = (Inr Stay_curr_state, ?m')"
    using rd(1,2) run y q
    by (simp add: ms_handler_connected_def run_bindE run_withE run_whenE run_retE ms_track_id_run ms_on_rm_run)
  then have "host_move ref_master_app m ?m'"
    using rd(3,4) by (intro host_move.pass [where r = "Inr ()"]) (simp_all add: ms_catch_def run_catchE run_bindE run_retE)
  moreover have "ref_waiting cmd ?m'" using m(1) y same rd by (auto simp: ref_waiting_def)
  ultimately show thesis by (rule that) (simp add: same)
qed

lemma ref_host_report:
  assumes m: "ref_waiting cmd m" "mr_transport (ms_rm m) = Some t" "read_queue t = q # qs"
    and q: "packet_type q = Some Cmd_ack" "acked_id q = Inr (packet_id cmd)"
  obtains m' where "host_move ref_master_app m m'"
    "fulfilled (mr_user (ms_rm m')) = [(packet_id cmd, hd (packet_blocks cmd))]"
proof -
  let ?n = "m\<lparr>ms_nb_loop := ms_nb_loop m + 1\<rparr>" and ?x = "(ms_rm m)\<lparr>mr_transport := Some (t\<lparr>read_queue := qs\<rparr>)\<rparr>"
  note rd = ref_host_reads [OF m]
  obtain i where i: "mrm_reqs ref_master_env (ms_rm m) = {new_request i cmd (9::nat)}"
    using m(1) by (auto simp: ref_waiting_def)
  let ?r = "new_request i cmd (9::nat)"
  obtain res y where run: "mrm_ack_command ref_master_env q ?x = (res, y)" by fastforce
  have r: "?r \<in> mrm_reqs ref_master_env ?x" using rd(7) i by simp
  have acked: "acked_id q = Inr (packet_id (req_command ?r))" using q(2) by (simp add: new_request_def)
  have y: "res = Inr ()" "mr_user y = [?r\<lparr>req_status := Fulfilled, req_ack := Some q\<rparr>]"
    using ack_of_request [OF ref_master_laws rd(6) r acked run refl] rd(8) by simp_all
  let ?m' = "?n\<lparr>ms_rm := y, ms_received_packet_id := packet_id q\<rparr>"
  have "ms_handler_connected ref_master_app ?n = (Inr Stay_curr_state, ?m')"
    using rd(1,2) run y(1) q(1)
    by (simp add: ms_handler_connected_def run_bindE run_withE run_whenE run_retE ms_track_id_run ms_on_rm_run)
  then have "host_move ref_master_app m ?m'"
    using rd(3,4) by (intro host_move.pass [where r = "Inr ()"]) (simp_all add: ms_catch_def run_catchE run_bindE run_retE)
  then show thesis by (rule that) (simp add: y(2) fulfilled_def command_of_def new_request_def)
qed

text \<open>The acknowledgement is delivered, and the command reported.\<close>

lemma ref_link_reports:
  assumes m: "ref_waiting cmd m" "mr_transport (ms_rm m) = Some t"
    and a: "a \<in> set (srm_sent (tc_sent ref_client_env) (sl_rm d))" "valid_packet a" "packet_type a = Some Cmd_ack"
    "packet_blocks a = [\<lparr>b_type = n, b_data = u16_le (packet_id cmd)\<rparr>]"
  obtains m' where "(link_step ref_link)\<^sup>*\<^sup>* (m, d) (m', d)"
    "fulfilled (mr_user (ms_rm m')) = [(packet_id cmd, hd (packet_blocks cmd))]"
proof -
  obtain q where q: "packet_of_view (replicate 2048 0) (packet_bytes a @ []) = Inr q"
    "packet_type q = Some Cmd_ack" "packet_blocks q = [\<lparr>b_type = n, b_data = u16_le (packet_id cmd)\<rparr>]"
    using wire_fields [OF a(2) ref_storage, of "[]"] a(3,4) by metis
  then have carried: "carried a q" unfolding carried_def using ref_storage by blast
  let ?t = "t\<lparr>read_queue := [q]\<rparr>"
  let ?x = "(ms_rm m)\<lparr>mr_transport := Some ?t\<rparr>"
  let ?m = "m\<lparr>ms_rm := ?x\<rparr>"
  have "link_step ref_link (m, d) (?m, d)"
    using carried a(1) m(2)
    by (intro link_step.to_host [of _ t])
      (auto simp: ref_link_def tc_sent_def tc_received_def ref_client_env_def ref_queue_api_def)
  moreover have w: "ref_waiting cmd ?m" using m(1) by (simp add: ref_waiting_transport)
  obtain m' where m': "host_move ref_master_app ?m m'"
    "fulfilled (mr_user (ms_rm m')) = [(packet_id cmd, hd (packet_blocks cmd))]"
    by (rule ref_host_report [OF w, of ?t q "[]"]) (simp_all add: q(2) acked_by [OF q(3)])
  then have "link_step ref_link (?m, d) (m', d)"
    using w by (intro link_step.host) (simp_all add: ref_link_def ref_waiting_def)
  ultimately have "(link_step ref_link)\<^sup>*\<^sup>* (m, d) (m', d)"
    by (meson converse_rtranclp_into_rtranclp r_into_rtranclp)
  then show thesis using m'(2) by (rule that)
qed

lemma ref_link_run:
  obtains m d cmd k a m' where "reach (link_begun ref_link) (link_step ref_link) (m, d)"
    "mrm_sent (tc_sent ref_client_env) (ms_rm m) = [cmd]" "srm_sent (tc_sent ref_client_env) (sl_rm d) = [k, a]"
    "reach (link_begun ref_link) (link_step ref_link) (m', d)" "sl_user d = [\<lparr>b_type = 5, b_data = [1]\<rparr>]"
    "fulfilled (mr_user (ms_rm m')) = [(1, \<lparr>b_type = 5, b_data = [1]\<rparr>)]"
proof -
  obtain m cmd t where m: "host_move ref_master_app ref_host m" "mr_transport (ms_rm m) = Some t"
    "tc_sent ref_client_env t = [cmd]" "ref_waiting cmd m" "valid_packet cmd" "packet_type cmd = Some Cmd"
    "packet_blocks cmd = [\<lparr>b_type = 5, b_data = [1]\<rparr>]" "packet_id cmd = 1"
    by (rule ref_host_sends)
  have sent: "mrm_sent (tc_sent ref_client_env) (ms_rm m) = [cmd]" using m(2,3) by (simp add: mrm_sent_def)
  have sends: "link_step ref_link (ref_host, ref_device) (m, ref_device)"
    using m(1) by (intro link_step.host) (simp_all add: ref_link_def ref_host_def)
  obtain d k a where d: "(link_step ref_link)\<^sup>*\<^sup>* (m, ref_device) (m, d)" "sl_user d = [\<lparr>b_type = 5, b_data = [1]\<rparr>]"
    "srm_sent (tc_sent ref_client_env) (sl_rm d) = [k, a]" "valid_packet a" "packet_type a = Some Cmd_ack"
    "packet_blocks a = [\<lparr>b_type = 5, b_data = u16_le (packet_id cmd)\<rparr>]"
    by (rule ref_link_executes [OF sent m(5-7)]) simp
  have "reach (link_begun ref_link) (link_step ref_link) (ref_host, ref_device)"
    by (rule reach_init) (rule ref_link_begun)
  then have "reach (link_begun ref_link) (link_step ref_link) (m, ref_device)"
    by (rule reach_step) (rule sends)
  then have reach: "reach (link_begun ref_link) (link_step ref_link) (m, d)"
    by (rule reach_steps) (rule d(1))
  have "a \<in> set (srm_sent (tc_sent ref_client_env) (sl_rm d))" by (simp add: d(3))
  then obtain m' where m': "(link_step ref_link)\<^sup>*\<^sup>* (m, d) (m', d)"
    "fulfilled (mr_user (ms_rm m')) = [(packet_id cmd, hd (packet_blocks cmd))]"
    by (rule ref_link_reports [OF m(4,2) _ d(4-6)])
  from that [OF reach sent d(3) reach_steps [OF reach m'(1)] d(2)] m'(2) show thesis
    by (simp add: m(7,8))
qed

section \<open>Properties\<close>







end
