(* ===== verification/Transport_Use.thy ===== *)
theory Transport_Use
  imports Link
begin

text \<open>
  What the moves of the two applications do to the transport they own: nothing but \<^verbatim>\<open>write\<close>
  and \<^verbatim>\<open>read\<close>. Whatever these two keep of a transport, host and device keep.
\<close>

locale used_transport =
  fixes A :: "'tr transport_api" and T :: "'tr \<Rightarrow> bool"
  assumes write_keeps: "T t \<Longrightarrow> T (snd (tr_write A p t))"
    and read_keeps: "T t \<Longrightarrow> T (snd (tr_read A t))"

definition tr_holds :: "('tr \<Rightarrow> bool) \<Rightarrow> 'tr option \<Rightarrow> bool" where
  "tr_holds T tr \<longleftrightarrow> (case tr of None \<Rightarrow> False | Some t \<Rightarrow> T t)"

abbreviation sr_holds :: "('tr \<Rightarrow> bool) \<Rightarrow> ('q, 'tr) slave_rm \<Rightarrow> bool" where
  "sr_holds T \<equiv> (\<lambda>s. tr_holds T (sr_transport s))"

abbreviation sl_holds :: "('tr \<Rightarrow> bool) \<Rightarrow> ('q, 'm, 'tr, 'u) slave \<Rightarrow> bool" where
  "sl_holds T \<equiv> (\<lambda>d. tr_holds T (sr_transport (sl_rm d)))"

abbreviation mr_holds :: "('tr \<Rightarrow> bool) \<Rightarrow> ('q, 'tr, 'c, 'u) master_rm \<Rightarrow> bool" where
  "mr_holds T \<equiv> (\<lambda>s. tr_holds T (mr_transport s))"

abbreviation ms_holds :: "('tr \<Rightarrow> bool) \<Rightarrow> ('q, 'm, 'tr, 'c, 'u) master \<Rightarrow> bool" where
  "ms_holds T \<equiv> (\<lambda>m. tr_holds T (mr_transport (ms_rm m)))"

section \<open>The device\<close>

lemma srm_quiet_holds [hoare]:
  "preserves (sr_holds T) (srm_start R)" "preserves (sr_holds T) srm_stop" "preserves (sr_holds T) srm_tick"
  "preserves (sr_holds T) (srm_start_keepalive_management R t)" "preserves (sr_holds T) (srm_stop_keepalive_management R)"
  "preserves (sr_holds T) (modifyE (srm_arm R))" "preserves (sr_holds T) (modifyE (srm_disarm R))"
  unfolding srm_start_def srm_stop_def srm_tick_def srm_start_keepalive_management_def srm_stop_keepalive_management_def
  by (intro hoare; simp add: srm_clear_def srm_arm_def srm_disarm_def split: prod.split)+

lemma sl_quiet_holds [hoare]:
  "preserves (sl_holds T) (sl_notify F e)" "preserves (sl_holds T) (sl_erase F e)"
  "preserves (sl_holds T) (sl_track_id p)" "preserves (sl_holds T) (sl_on_user f)"
  by (rule preservesI, simp add: sl_notify_def sl_erase_def sl_track_id_def sl_on_user_def prog_run split: prod.split)+

lemma sl_on_rm_holds [hoare]: "preserves (sr_holds T) m \<Longrightarrow> preserves (sl_holds T) (sl_on_rm m)"
  unfolding sl_on_rm_def by (intro preserves_zoomE) (simp add: preserves_def)

lemma sl_catch_holds [hoare]: "preserves (sl_holds T) m \<Longrightarrow> preserves (sl_holds T) (sl_catch m)"
  unfolding sl_catch_def by (intro hoare)

lemma sl_ask_holds [hoare]: "preserves (sl_holds T) (sl_on_transport (\<lambda>t. (Inr (f t), t)))"
  by (rule preservesI) (auto simp: sl_on_transport_def split: option.split)

lemma sl_checks_holds: "(c, check) \<in> set (sl_checks F st) \<Longrightarrow> preserves (sl_holds T) check"
  by (cases st) (auto simp: sl_check_true_def sl_check_transport_closed_def sl_check_hip_received_def
      sl_check_ka_timeout_def sl_check_connected_def sl_goto_if_def intro!: hoare preserves_if)

lemma sl_transition_holds: "preserves (sl_holds T) (sl_transition_handler c)"
  unfolding sl_transition_handler_def by (intro hoare) (auto intro!: hoare split: option.split)

context used_transport
begin

lemma srm_write_holds [hoare]: "se_tr R = A \<Longrightarrow> preserves (sr_holds T) (srm_write R p)"
  by (rule preservesI)
    (auto simp: srm_write_def tr_holds_def split: option.splits prod.splits, metis snd_conv write_keeps)

lemma srm_transmit_holds [hoare]: "se_tr R = A \<Longrightarrow> preserves (sr_holds T) (srm_transmit R mk)"
  unfolding srm_transmit_def by (intro hoare) simp

lemma srm_sends_holds [hoare]:
  assumes "se_tr R = A"
  shows "preserves (sr_holds T) (srm_send_cmd_ack R p)" and "preserves (sr_holds T) (srm_send_dip R i)"
    and "preserves (sr_holds T) (srm_keepalive R)" and "preserves (sr_holds T) (srm_send_loop R bs pl n)"
    and "preserves (sr_holds T) (srm_send_data R bs)"
proof -
  show "preserves (sr_holds T) (srm_send_cmd_ack R p)" "preserves (sr_holds T) (srm_send_dip R i)"
    "preserves (sr_holds T) (srm_keepalive R)"
    unfolding srm_send_cmd_ack_def srm_send_dip_def srm_keepalive_def by (intro hoare assms)+
  have loop: "preserves (sr_holds T) (srm_send_loop R bs pl n)" for bs pl n
    by (induction bs arbitrary: pl n) (auto intro!: hoare assms)
  then show "preserves (sr_holds T) (srm_send_loop R bs pl n)" .
  show "preserves (sr_holds T) (srm_send_data R bs)"
    unfolding srm_send_data_def by (intro hoare loop assms)
qed

lemma sl_read_holds [hoare]: "se_tr (sa_rm F) = A \<Longrightarrow> preserves (sl_holds T) (sl_read F)"
  by (rule preservesI)
    (auto simp: sl_read_def sl_on_transport_def tr_holds_def split: option.splits prod.splits, metis snd_conv read_keeps)

lemma sl_on_cmd_holds [hoare]: "se_tr (sa_rm F) = A \<Longrightarrow> preserves (sl_holds T) (sl_on_cmd F p)"
  unfolding sl_on_cmd_def sl_call_cmd_cb_def
  by (intro hoare) (auto intro!: hoare split: list.split option.split)

lemma sl_handlers_holds:
  assumes "se_tr (sa_rm F) = A"
  shows "preserves (sl_holds T) (sl_handler_connecting F)" "preserves (sl_holds T) (sl_handler_connected F)"
  unfolding sl_handler_connecting_def sl_handler_connected_def
  by (intro hoare assms; auto intro!: hoare assms split: option.split packet_type.split)+

lemma device_uses:
  assumes F: "se_tr (sa_rm F) = A" and "device_move F d d'" and d: "sl_holds T d"
  shows "sl_holds T d'"
  using assms(2)
proof cases
  case (pass r)
  have "preserves (sl_holds T) (bindE (sl_handler F (sl_curr d)) (\<lambda>_. retE ()))"
    using pass(2) sl_handlers_holds [OF F] by (auto intro!: hoare)
  from preservesD [OF sl_catch_holds [OF this], of "d\<lparr>sl_nb_loop := sl_nb_loop d + 1\<rparr>"] pass(3) d
  show ?thesis by simp
next
  case (stay c check)
  then show ?thesis using preservesD [OF sl_checks_holds d] by fastforce
next
  case (goto c check d1 r)
  have "sl_holds T (d1\<lparr>sl_curr := c, sl_nb_loop := 0\<rparr>)"
    using preservesD [OF sl_checks_holds [OF goto(2)] d] goto(3) by simp
  from preservesD [OF sl_catch_holds [OF sl_transition_holds] this, of c] goto(4) show ?thesis by simp
next
  case (timer i t q r)
  then show ?thesis using d by (auto simp: srm_ka_timeout_cb_def sl_timeout_cb_def sl_notify_def run_modifyE)
next
  case (tick r)
  have "preserves (sl_holds T) (sl_on_rm srm_tick)" by (intro hoare)
  from preservesD [OF this d] tick show ?thesis by simp
next
  case (send_data bs r)
  have "preserves (sl_holds T) (sl_send_data F bs)" unfolding sl_send_data_def by (intro hoare F)
  from preservesD [OF this d] send_data show ?thesis by simp
qed

end

section \<open>The host\<close>

lemma mrm_inert_holds: "mrm_inert m \<Longrightarrow> preserves (mr_holds T) m"
  by (rule preservesI) (metis mrm_inertD(2) surjective_pairing)

lemmas mrm_timers_holds [hoare] = mrm_inert_add [THEN mrm_inert_holds] mrm_inert_timers [THEN mrm_inert_holds]

lemma mrm_quiet_holds [hoare]:
  "preserves (mr_holds T) (mrm_make mk)" "preserves (mr_holds T) (mrm_call R q)"
  "preserves (mr_holds T) (mrm_insert R q)" "preserves (mr_holds T) (mrm_ack_command R p)"
  unfolding mrm_make_def mrm_call_def mrm_insert_def mrm_ack_command_eq mrm_finish_def
  by (intro hoare; simp)+ (auto intro!: hoare preserves_zoomE split: option.split prod.split)

lemma ms_quiet_holds [hoare]:
  "preserves (ms_holds T) (ms_notify F e)" "preserves (ms_holds T) (ms_erase F e)" "preserves (ms_holds T) (ms_track_id p)"
  by (rule preservesI, simp add: ms_notify_def ms_erase_def ms_track_id_def prog_run split: prod.split)+

lemma ms_on_rm_holds [hoare]: "preserves (mr_holds T) m \<Longrightarrow> preserves (ms_holds T) (ms_on_rm m)"
  unfolding ms_on_rm_def by (intro preserves_zoomE) (simp add: preserves_def)

lemma ms_on_user_holds [hoare]: "preserves (ms_holds T) (ms_on_user f)"
  unfolding ms_on_user_def by (intro hoare) simp

lemma ms_catch_holds [hoare]: "preserves (ms_holds T) m \<Longrightarrow> preserves (ms_holds T) (ms_catch m)"
  unfolding ms_catch_def by (intro hoare) (auto intro!: hoare split: option.split)

lemma ms_ask_holds [hoare]: "preserves (ms_holds T) (ms_on_transport (\<lambda>t. (Inr (f t), t)))"
  by (rule preservesI) (auto simp: ms_on_transport_def ms_on_rm_def run_zoomE split: option.split)

lemma ms_checks_holds: "(c, check) \<in> set (ms_checks F st) \<Longrightarrow> preserves (ms_holds T) check"
  by (cases st) (auto simp: ms_check_true_def ms_check_connection_requested_def ms_check_transport_closed_def
      ms_check_dip_timeout_def ms_check_connected_def ms_check_ka_timeout_def ms_check_disconnected_def
      ms_goto_if_def intro!: hoare preserves_if)

lemma ms_transition_holds: "preserves (ms_holds T) (ms_transition_handler F p c)"
  unfolding ms_transition_handler_def by (intro hoare) (auto intro!: hoare split: option.split)

context used_transport
begin

lemma mrm_write_holds [hoare]: "me_tr R = A \<Longrightarrow> preserves (mr_holds T) (mrm_write R p)"
  by (rule preservesI)
    (auto simp: mrm_write_def tr_holds_def split: option.splits prod.splits, metis snd_conv write_keeps)

lemma mrm_sends_holds [hoare]:
  assumes "me_tr R = A"
  shows "preserves (mr_holds T) (mrm_transmit R mk)" and "preserves (mr_holds T) (mrm_cmd_timeout_cb R i)"
    and "preserves (mr_holds T) (mrm_ka_mngt_timeout_cb R)" and "preserves (mr_holds T) (mrm_start_keepalive_management R j t)"
    and "preserves (mr_holds T) (mrm_send_command R type data cb t)"
proof -
  show tx: "preserves (mr_holds T) (mrm_transmit R mk)" for mk
    unfolding mrm_transmit_def by (intro hoare assms)
  show "preserves (mr_holds T) (mrm_cmd_timeout_cb R i)"
    unfolding mrm_cmd_timeout_cb_def by (auto intro!: hoare assms split: option.split)
  show "preserves (mr_holds T) (mrm_ka_mngt_timeout_cb R)" "preserves (mr_holds T) (mrm_start_keepalive_management R j t)"
    unfolding mrm_ka_mngt_timeout_cb_def mrm_start_keepalive_management_def by (intro hoare tx; simp)+
  show "preserves (mr_holds T) (mrm_send_command R type data cb t)"
    unfolding mrm_send_command_def mrm_send_command_write_def by (auto intro!: hoare assms split: prod.split)
qed

lemma ms_read_holds [hoare]: "me_tr (ma_rm F) = A \<Longrightarrow> preserves (ms_holds T) (ms_read F)"
  by (rule preservesI)
    (auto simp: ms_read_def ms_on_transport_def ms_on_rm_def run_zoomE tr_holds_def split: option.splits prod.splits,
      metis snd_conv read_keeps)

lemma ms_connected_holds: "me_tr (ma_rm F) = A \<Longrightarrow> preserves (ms_holds T) (ms_handler_connected F)"
  unfolding ms_handler_connected_def
  by (intro hoare) (auto intro!: hoare split: option.split packet_type.split)

lemma host_uses:
  assumes F: "me_tr (ma_rm F) = A" and "host_move F m m'" and m: "ms_holds T m"
  shows "ms_holds T m'"
  using assms(2)
proof cases
  case (pass r)
  have "preserves (ms_holds T) (bindE (ms_handler F (ms_curr m)) (\<lambda>_. retE ()))"
    using pass(2) ms_connected_holds [OF F] by (auto intro!: hoare)
  from preservesD [OF ms_catch_holds [OF this], of "m\<lparr>ms_nb_loop := ms_nb_loop m + 1\<rparr>"] pass(3) m
  show ?thesis by simp
next
  case (stay c check)
  then show ?thesis using preservesD [OF ms_checks_holds m] by fastforce
next
  case (goto c check m1 r)
  have "ms_holds T (m1\<lparr>ms_curr := c, ms_nb_loop := 0\<rparr>)"
    using preservesD [OF ms_checks_holds [OF goto(2)] m] goto(3) by simp
  from preservesD [OF ms_catch_holds [OF ms_transition_holds] this, of F "ms_curr m" c] goto(4) show ?thesis by simp
next
  case (timer i t r)
  have "preserves (ms_holds T) (bindE (ms_on_rm (mrm_fire (ma_rm F) i)) (\<lambda>_. ms_timer F i (t_callback t)))"
    by (cases "t_callback t")
      (auto intro!: hoare F simp: mrm_ka_timeout_cb_def mrm_dip_timeout_cb_def ms_timeout_cb_def)
  from preservesD [OF this m] timer(3) show ?thesis by simp
next
  case (tick r)
  have "preserves (ms_holds T) (ms_on_rm mrm_tick)" by (intro hoare)
  from preservesD [OF this m] tick show ?thesis by simp
next
  case (send_command data type cb r)
  have "preserves (ms_holds T) (ms_send_command F type data cb)" unfolding ms_send_command_def by (intro hoare F)
  from preservesD [OF this m] send_command(2) show ?thesis by simp
next
  case (async_disconnect r)
  have "preserves (ms_holds T) (ms_async_disconnect F)" unfolding ms_async_disconnect_def by (intro hoare)
  from preservesD [OF this m] async_disconnect show ?thesis by simp
qed

end

end
