(* ===== verification/Stream_Io.thy ===== *)
theory Stream_Io
  imports Transport_Use Tcp_Stream
begin

text \<open>
  A TCP transport as one end of a connection: the bytes its reads are completed with are the
  next ones of the stream that the other end has put on the wire. Every packet that reaches
  the read queue is then one the other end has sent.
\<close>

section \<open>The stream\<close>

text \<open>The bytes of the packets \<open>ps\<close>, one behind the other.\<close>

definition stream :: "packet list \<Rightarrow> bytes" where
  "stream ps = concat (map packet_bytes ps)"

lemma stream_append [simp]: "stream (ps @ qs) = stream ps @ stream qs"
  by (simp add: stream_def)

text \<open>
  A transport that has taken \<open>i\<close> bytes off the stream waits for the header of the next packet,
  or for the payload of the packet whose header it has in \<open>rp\<close>.
\<close>

definition awaits_header :: "packet list \<Rightarrow> nat \<Rightarrow> bool" where
  "awaits_header ps i \<longleftrightarrow> (\<exists>ps1 ps2. ps = ps1 @ ps2 \<and> i = length (stream ps1))"

definition awaits_payload :: "packet list \<Rightarrow> nat \<Rightarrow> nat \<Rightarrow> packet \<Rightarrow> bool" where
  "awaits_payload ps i n rp \<longleftrightarrow>
     (\<exists>ps1 p ps2 r. ps = ps1 @ p # ps2 \<and> i = length (stream ps1) + header_size \<and> n = payload_len p
        \<and> storage (p_data r) \<and> rp = fill_header (take header_size (packet_bytes p)) r)"

lemma awaits_more:
  "awaits_header ps i \<Longrightarrow> awaits_header (ps @ qs) i"
  "awaits_payload ps i n rp \<Longrightarrow> awaits_payload (ps @ qs) i n rp"
  unfolding awaits_header_def awaits_payload_def by (metis append_assoc, metis append_assoc append_Cons)

text \<open>What the two reads do: the second one completes a packet of the stream.\<close>

lemma header_taken:
  assumes ps: "list_all valid_packet ps" and at: "awaits_header ps i" and len: "i + header_size \<le> length (stream ps)"
    and r: "storage (p_data r)"
  shows "parse_header (fill_header (take header_size (drop i (stream ps))) r) = Inr ()"
    and "awaits_payload ps (i + header_size) (payload_len (fill_header (take header_size (drop i (stream ps))) r))
      (fill_header (take header_size (drop i (stream ps))) r)"
    and "storage (p_data (fill_header (take header_size (drop i (stream ps))) r))"
proof -
  obtain ps1 ps2 where split: "ps = ps1 @ ps2" "i = length (stream ps1)"
    using at by (auto simp: awaits_header_def)
  have "ps2 \<noteq> []" using len split by (auto simp: stream_def format_sizes)
  then obtain p ps3 where p: "ps2 = p # ps3" by (cases ps2) auto
  have "valid_packet p" using ps split(1) p by simp
  note f = refill [OF this r]
  have "take header_size (drop i (stream ps)) = take header_size (packet_bytes p)"
    using f(1) split p by (simp add: stream_def)
  then show "parse_header (fill_header (take header_size (drop i (stream ps))) r) = Inr ()"
    and "awaits_payload ps (i + header_size) (payload_len (fill_header (take header_size (drop i (stream ps))) r))
      (fill_header (take header_size (drop i (stream ps))) r)"
    and "storage (p_data (fill_header (take header_size (drop i (stream ps))) r))"
    using f(4,5,6) split p r unfolding awaits_payload_def by auto
qed

lemma payload_taken:
  assumes ps: "list_all valid_packet ps" and at: "awaits_payload ps i n rp" and len: "i + n \<le> length (stream ps)"
  defines "q \<equiv> fill_payload n (take n (drop i (stream ps))) rp"
  shows "parse_payload q = Inr ()" and "\<exists>p\<in>set ps. carried p q" and "awaits_header ps (i + n)"
    and "storage (p_data q)" and "header_size + n \<le> max_size"
proof -
  obtain ps1 p ps2 r where at': "ps = ps1 @ p # ps2" "i = length (stream ps1) + header_size" "n = payload_len p"
    "storage (p_data r)" "rp = fill_header (take header_size (packet_bytes p)) r"
    using at by (auto simp: awaits_payload_def)
  have valid: "valid_packet p" using ps at'(1) by simp
  note f = refill [OF valid at'(4)]
  have plen: "length (packet_bytes p) = header_size + n"
    using f(1,2) at'(3) by (metis append_take_drop_id length_append)
  have "take n (drop i (stream ps)) = drop header_size (packet_bytes p)"
    using at'(1,2) plen by (simp add: stream_def)
  then have q: "q = fill_payload n (drop header_size (packet_bytes p)) rp" by (simp add: q_def)
  show "parse_payload q = Inr ()" "storage (p_data q)" "header_size + n \<le> max_size"
    using f(3,10,11) at'(3,5) by (simp_all add: q)
  have bytes: "packet_bytes q = packet_bytes p" and ok: "valid_packet q" using f(7,8) at'(3,5) by (simp_all add: q)
  have "overwrite (p_data q) (packet_bytes q) = p_data q"
    unfolding overwrite_def packet_bytes_def
    by (metis append_take_drop_id drop_all length_take linorder_le_cases min.absorb1 min.absorb2 take_all_iff append_Nil2)
  then have "packet_of_view (p_data q) (packet_bytes p @ []) = Inr q"
    using wire_stored(1) [OF ok, of "p_data q" "[]"] ok by (simp add: bytes valid_packet_def)
  then have "carried p q" using ok unfolding carried_def valid_packet_def by blast
  then show "\<exists>p\<in>set ps. carried p q" using at'(1) by auto
  have "i + n = length (stream (ps1 @ [p]))" using at'(2) plen by (simp add: stream_def)
  then show "awaits_header ps (i + n)"
    unfolding awaits_header_def using at'(1) by (intro exI [of _ "ps1 @ [p]"] exI [of _ ps2]) simp
qed

section \<open>One end of a connection\<close>

text \<open>
  What such an end promises, over the packets \<open>ps\<close> that the other one has put on the wire: \<open>at ps i
  t\<close> says that it has taken \<open>i\<close> bytes. Its own completions keep that, lose at most packets it
  has accepted, and receive only what is carried from \<open>ps\<close>; the wire only grows, and is part
  of what was accepted; its user's calls change none of it.
\<close>

locale stream_end =
  fixes A :: "'tr transport_api" and sent received wire :: "'tr \<Rightarrow> packet list"
    and at :: "packet list \<Rightarrow> nat \<Rightarrow> 'tr \<Rightarrow> bool"
    and io :: "packet list \<Rightarrow> nat \<times> 'tr \<Rightarrow> nat \<times> 'tr \<Rightarrow> bool"
  assumes io_at: "list_all valid_packet ps \<Longrightarrow> at ps i t \<Longrightarrow> io ps (i, t) (j, u) \<Longrightarrow> at ps j u"
    and io_sent: "list_all valid_packet ps \<Longrightarrow> at ps i t \<Longrightarrow> io ps (i, t) (j, u) \<Longrightarrow> set (sent u) \<subseteq> set (sent t)"
    and io_received: "list_all valid_packet ps \<Longrightarrow> at ps i t \<Longrightarrow> io ps (i, t) (j, u) \<Longrightarrow> q \<in> set (received u) \<Longrightarrow>
      q \<in> set (received t) \<or> (\<exists>p\<in>set ps. carried p q)"
    and io_wire: "list_all valid_packet ps \<Longrightarrow> at ps i t \<Longrightarrow> io ps (i, t) (j, u) \<Longrightarrow> \<exists>w. wire u = wire t @ w"
    and at_more: "at ps i t \<Longrightarrow> at (ps @ qs) i t"
    and wire_sent: "set (wire t) \<subseteq> set (sent t)"
    and use_at: "at ps i (snd (tr_write A p t)) = at ps i t" "at ps i (snd (tr_read A t)) = at ps i t"
    and use_wire: "wire (snd (tr_write A p t)) = wire t" "wire (snd (tr_read A t)) = wire t"

sublocale stream_end \<subseteq> user: used_transport A "\<lambda>t. at ps i t \<and> wire t = w" for ps i w
  by unfold_locales (simp_all add: use_at use_wire)

end
