(* ===== verification/Stream_Client.thy ===== *)
theory Stream_Client
  imports Stream_Io
begin

text \<open>The TCP client as one end of a connection.\<close>

section \<open>What leaves the reading alone\<close>

definition tc_reading :: "('k, 'w, 'r) tcp_client \<Rightarrow> 'r \<times> packet \<times> io_op list" where
  "tc_reading s = (read_queue s, tc_read_packet s, tc_reads s)"

lemma tc_reading_frame [simp]:
  "tc_reading (s\<lparr>errc := c\<rparr>) = tc_reading s" "tc_reading (s\<lparr>write_queue := w\<rparr>) = tc_reading s"
  "tc_reading (s\<lparr>tc_write_in_progress := b\<rparr>) = tc_reading s" "tc_reading (s\<lparr>tc_socket := k\<rparr>) = tc_reading s"
  by (simp_all add: tc_reading_def tc_reads_def)

definition tc_undisturbed :: "(('k, 'w, 'r) tcp_client, 'a) stmt \<Rightarrow> bool" where
  "tc_undisturbed m \<longleftrightarrow> (\<forall>x. preserves (\<lambda>s. tc_reading s = x) m)"

lemma tc_undisturbed_run:
  assumes "tc_undisturbed m" and "m s = (r, s')"
  shows "read_queue s' = read_queue s" "tc_read_packet s' = tc_read_packet s" "tc_reads s' = tc_reads s"
proof -
  have "preserves (\<lambda>t. tc_reading t = tc_reading s) m"
    using assms(1) unfolding tc_undisturbed_def by (rule spec)
  from preserves_run [OF this refl assms(2)] show "read_queue s' = read_queue s"
    "tc_read_packet s' = tc_read_packet s" "tc_reads s' = tc_reads s"
    by (simp_all add: tc_reading_def)
qed

lemma tc_undisturbed_ops [hoare]:
  "preserves (\<lambda>s. tc_reading s = x) (tc_set_errc c)" "preserves (\<lambda>s. tc_reading s = x) (tc_on_socket m)"
  "preserves (\<lambda>s. tc_reading s = x) (tc_do_write E)"
  by (rule preservesI, simp add: tc_set_errc_def tc_on_socket_def prog_run tc_do_write_run tc_reading_def tc_reads_def
      split: prod.split option.split)+

lemma tc_undisturbed_close [hoare]: "preserves (\<lambda>s. tc_reading s = x) (tc_close E)"
  unfolding tc_close_def by (intro hoare)

lemma tc_undisturbed_handler:
  "is_read op \<longrightarrow> ec \<noteq> Asio_success \<Longrightarrow> tc_undisturbed (tc_handler E op ec v)"
  unfolding tc_undisturbed_def
  by (cases op; cases ec; simp add: tc_on_post_def tc_on_write_def tc_on_header_def tc_on_payload_def;
      intro allI hoare; auto intro!: hoare split: option.split)

section \<open>The completions\<close>

text \<open>
  A read completes with as many of the next bytes of the stream as it was started for, or it
  fails; any other operation completes as it likes. The handler runs under the loop of \<^verbatim>\<open>run\<close>.
\<close>

inductive tc_served ::
  "('k, 'w, 'r) client_env \<Rightarrow> packet list \<Rightarrow> nat \<times> ('k, 'w, 'r) tcp_client \<Rightarrow> nat \<times> ('k, 'w, 'r) tcp_client \<Rightarrow> bool"
  for E ps where
  header: "tc_pending s = xs @ Read_header # ys \<Longrightarrow> i + header_size \<le> length (stream ps) \<Longrightarrow>
    tc_guard E (tc_handler E Read_header Asio_success (take header_size (drop i (stream ps)))) (s\<lparr>tc_pending := xs @ ys\<rparr>)
      = (r, s') \<Longrightarrow> tc_served E ps (i, s) (i + header_size, s')"
| payload: "tc_pending s = xs @ Read_payload n # ys \<Longrightarrow> i + n \<le> length (stream ps) \<Longrightarrow>
    tc_guard E (tc_handler E (Read_payload n) Asio_success (take n (drop i (stream ps)))) (s\<lparr>tc_pending := xs @ ys\<rparr>)
      = (r, s') \<Longrightarrow> tc_served E ps (i, s) (i + n, s')"
| other: "tc_pending s = xs @ op # ys \<Longrightarrow> is_read op \<longrightarrow> ec \<noteq> Asio_success \<Longrightarrow>
    (\<And>p. op = Post_write p \<Longrightarrow> posted xs = []) \<Longrightarrow>
    tc_guard E (tc_handler E op ec v) (s\<lparr>tc_pending := xs @ ys\<rparr>) = (r, s') \<Longrightarrow> tc_served E ps (i, s) (i, s')"

text \<open>Each of these is a step of the client.\<close>

lemma tc_served_step: "tc_served E ps (i, s) (j, s') \<Longrightarrow> tc_step E s s'"
  by (erule tc_served.cases) (auto intro: tc_step.completion simp del: tc_handler.simps)

text \<open>How far it has come: it waits for a header, for a payload, or its reads have ended.\<close>

definition tc_at :: "packet list \<Rightarrow> nat \<Rightarrow> ('k, 'w, 'r) tcp_client \<Rightarrow> bool" where
  "tc_at ps i s \<longleftrightarrow> tc_inv s \<and>
     (tc_reads s = [] \<or> tc_reads s = [Read_header] \<and> awaits_header ps i
      \<or> (\<exists>n. tc_reads s = [Read_payload n] \<and> awaits_payload ps i n (tc_read_packet s)))"

lemma tc_at_one:
  assumes "tc_at ps i s" and "tc_pending s = xs @ op # ys" and "is_read op"
  shows "filter is_read (xs @ ys) = []" "tc_reads s = [op]"
  using assms by (auto simp: tc_at_def tc_reads_def filter_empty_conv append_eq_Cons_conv filter_eq_Cons_iff)

text \<open>The two reads that succeed.\<close>

lemma tc_header_io:
  assumes laws: "client_laws E" and ps: "list_all valid_packet ps" and at: "tc_at ps i s"
    and pend: "tc_pending s = xs @ Read_header # ys" and len: "i + header_size \<le> length (stream ps)"
    and run: "tc_guard E (tc_handler E Read_header Asio_success (take header_size (drop i (stream ps))))
      (s\<lparr>tc_pending := xs @ ys\<rparr>) = (r, s')"
  shows "tc_at ps (i + header_size) s' \<and> read_queue s' = read_queue s"
proof -
  let ?r = "fill_header (take header_size (drop i (stream ps))) (tc_read_packet s)"
  note one = tc_at_one [OF at pend]
  have "awaits_header ps i" and st: "storage (p_data (tc_read_packet s))"
    using at one(2) by (auto simp: tc_at_def tc_inv_def)
  note t = header_taken [OF ps this(1) len st]
  have s': "s' = s\<lparr>tc_pending := xs @ ys @ [Read_payload (payload_len ?r)], tc_read_packet := ?r, errc := Asio_code Asio_success\<rparr>"
    using run t(1)
    by (auto simp: tc_guard_def tc_on_header_def tc_set_errc_def tc_read_payload_def tc_start_op_def prog_run)
  have "tc_step E s s'" by (rule tc_step.completion [OF pend _ run]) simp
  then have "tc_inv s'" using tc_step_inv [OF laws] at by (simp add: tc_at_def)
  then show ?thesis using one(1) t(2) by (auto simp: tc_at_def s' tc_reads_def)
qed

lemma tc_payload_io:
  assumes laws: "client_laws E" and ps: "list_all valid_packet ps" and at: "tc_at ps i s"
    and pend: "tc_pending s = xs @ Read_payload n # ys" and len: "i + n \<le> length (stream ps)"
    and run: "tc_guard E (tc_handler E (Read_payload n) Asio_success (take n (drop i (stream ps))))
      (s\<lparr>tc_pending := xs @ ys\<rparr>) = (r, s')"
  shows "tc_at ps (i + n) s' \<and> (\<forall>q\<in>set (tc_received E s'). q \<in> set (tc_received E s) \<or> (\<exists>p\<in>set ps. carried p q))"
proof -
  let ?q = "fill_payload n (take n (drop i (stream ps))) (tc_read_packet s)"
  note one = tc_at_one [OF at pend]
  have "awaits_payload ps i n (tc_read_packet s)" using at one(2) by (auto simp: tc_at_def)
  note t = payload_taken [OF ps this len]
  have s': "s' = s\<lparr>tc_pending := xs @ ys @ [Read_header], tc_read_packet := ?q, errc := Asio_code Asio_success,
      read_queue := read_queue s'\<rparr>"
    and "read_queue s' = read_queue s \<or> cq_try_enqueue (ce_read_queue E) (read_queue s) ?q = Some (read_queue s')"
    using run t(1,5)
    by (auto simp: tc_guard_def tc_on_payload_def tc_enqueue_read_def tc_set_errc_def tc_read_header_def
        tc_start_op_def prog_run split: option.splits)
  then have "tc_received E s' = tc_received E s \<or> tc_received E s' = tc_received E s @ [?q]"
    using cq_enqueue_law [of "ce_read_queue E" "read_queue s" ?q "read_queue s'"] laws
    by (auto simp: tc_received_def client_laws_def)
  then have "\<forall>q\<in>set (tc_received E s'). q \<in> set (tc_received E s) \<or> (\<exists>p\<in>set ps. carried p q)"
    using t(2) by auto
  moreover have "tc_step E s s'" by (rule tc_step.completion [OF pend _ run]) simp
  then have "tc_inv s'" using tc_step_inv [OF laws] at by (simp add: tc_at_def)
  moreover have "tc_reads s' = [Read_header]" using one(1) by (subst s') (simp add: tc_reads_def)
  ultimately show ?thesis using t(3) by (simp add: tc_at_def)
qed

text \<open>
  Everything else: no handler finds a packet ill-formed, so an exception that leaves it ends the
  loop and nothing is read on.
\<close>

definition never_malformed :: "('s, unit) stmt \<Rightarrow> bool" where
  "never_malformed m \<longleftrightarrow> (\<forall>s x s'. m s \<noteq> (Inl (Packet_error x), s'))"

lemma never_malformed_prog [hoare]:
  "never_malformed (retE ())" "never_malformed (modifyE g)" "never_malformed (throwE (Transport_error e))"
  "never_malformed (throwE (Asio_error ec))" "never_malformed (throwE Undefined_behaviour)"
  "never_malformed m \<Longrightarrow> (\<And>x. never_malformed (n x)) \<Longrightarrow> never_malformed (bindE m n)"
  "never_malformed m \<Longrightarrow> never_malformed (whenE b m)" "(\<And>s. never_malformed (f s)) \<Longrightarrow> never_malformed (withE f)"
  unfolding never_malformed_def by (auto simp: prog_run split: sum.split prod.split)

lemma tc_never_malformed:
  assumes K: "socket_laws (ce_socket E)" and failed: "is_read op \<longrightarrow> ec \<noteq> Asio_success"
  shows "never_malformed (tc_handler E op ec v)"
proof -
  have close [hoare]: "never_malformed (tc_close E)"
    using tc_close_frame [OF K] by (auto simp: never_malformed_def)
  have ops [hoare]: "never_malformed (tc_set_errc c)" "never_malformed (tc_do_write E)" for c
    by (auto simp: never_malformed_def tc_set_errc_def run_modifyE tc_do_write_run split: option.split)
  show ?thesis
    using failed
    by (cases op; cases ec; simp add: tc_on_post_def tc_on_write_def tc_on_header_def tc_on_payload_def;
        intro conjI impI hoare; auto intro!: hoare split: option.split)
qed

lemma tc_leave_run:
  assumes "tc_guard E h s = (r, s')" and "h s = (q, s1)" and "\<forall>x. q \<noteq> Inl (Packet_error x)"
  shows "tc_reading s' = tc_reading s1"
proof -
  have u: "preserves (\<lambda>t. tc_reading t = tc_reading s1) (bindE (catchE (tc_close E) (\<lambda>_. retE ())) (\<lambda>_. retE Leave))"
    by (intro hoare)
  show ?thesis
  proof (cases "q = Inl Undefined_behaviour \<or> q = Inr ()")
    case True
    then show ?thesis using assms(1,2) by (auto simp: tc_guard_def run_catchE run_bindE run_retE run_throwE)
  next
    case False
    then have "bindE (catchE (tc_close E) (\<lambda>_. retE ())) (\<lambda>_. retE Leave) s1 = (r, s')"
      using assms by (cases q) (auto simp: tc_guard_def run_catchE run_bindE run_retE split: exn.splits)
    from preserves_run [OF u refl this] show ?thesis .
  qed
qed

lemma tc_other_io:
  assumes laws: "client_laws E" and at: "tc_at ps i s" and pend: "tc_pending s = xs @ op # ys"
    and failed: "is_read op \<longrightarrow> ec \<noteq> Asio_success" and fifo: "\<And>p. op = Post_write p \<Longrightarrow> posted xs = []"
    and run: "tc_guard E (tc_handler E op ec v) (s\<lparr>tc_pending := xs @ ys\<rparr>) = (r, s')"
  shows "tc_at ps i s' \<and> read_queue s' = read_queue s"
proof -
  let ?s = "s\<lparr>tc_pending := xs @ ys\<rparr>"
  have K: "socket_laws (ce_socket E)" using laws by (simp add: client_laws_def)
  have "tc_step E s s'" by (rule tc_step.completion [OF pend _ run]) (rule fifo)
  then have inv: "tc_inv s'" using tc_step_inv [OF laws] at by (simp add: tc_at_def)
  obtain q s1 where h: "tc_handler E op ec v ?s = (q, s1)" by fastforce
  have "tc_reading s' = tc_reading s1" using tc_leave_run [OF run h] tc_never_malformed [OF K failed] h by (auto simp: never_malformed_def)
  then have s': "read_queue s' = read_queue s" "tc_read_packet s' = tc_read_packet s" "tc_reads s' = filter is_read (xs @ ys)"
    using tc_undisturbed_run [OF tc_undisturbed_handler [OF failed] h] by (simp_all add: tc_reading_def tc_reads_def)
  have "filter is_read (xs @ ys) = (if is_read op then [] else tc_reads s)"
    using tc_at_one(1) [OF at pend] pend by (simp add: tc_reads_def)
  then show ?thesis using s' inv at by (auto simp: tc_at_def)
qed

section \<open>The end of a connection\<close>

lemma tc_served_order:
  assumes laws: "client_laws E" and at: "tc_at ps i s" and io: "tc_served E ps (i, s) (j, s')"
  shows "\<exists>w. tc_wire s' = tc_wire s @ w" and "set (tc_sent E s') \<subseteq> set (tc_sent E s)"
proof -
  have inv: "tc_inv s" using at by (simp add: tc_at_def)
  have order: "(\<exists>w. tc_wire s' = tc_wire s @ w) \<and> set (tc_sent E s') \<subseteq> set (tc_sent E s)"
    if "tc_pending s = xs @ op # ys" and "\<forall>p. op = Post_write p \<longrightarrow> posted xs = []"
      and "tc_guard E (tc_handler E op ec v) (s\<lparr>tc_pending := xs @ ys\<rparr>) = (r, s')"
    for xs ys op ec v r
  proof -
    note o = tc_guard_order [OF laws inv that]
    moreover have "set (tc_sent E (s\<lparr>tc_pending := xs @ ys\<rparr>)) \<subseteq> set (tc_sent E s)"
      using that(1) by (cases op) (auto simp: tc_sent_def)
    ultimately show ?thesis by auto
  qed
  show "\<exists>w. tc_wire s' = tc_wire s @ w" "set (tc_sent E s') \<subseteq> set (tc_sent E s)"
    using io by (cases; use order in blast)+
qed

lemma tc_served_received:
  assumes laws: "client_laws E" and ps: "list_all valid_packet ps" and at: "tc_at ps i s"
    and io: "tc_served E ps (i, s) (j, s')"
  shows "tc_at ps j s'" and "q \<in> set (tc_received E s') \<Longrightarrow> q \<in> set (tc_received E s) \<or> (\<exists>p\<in>set ps. carried p q)"
proof -
  have "tc_at ps j s' \<and> (q \<in> set (tc_received E s') \<longrightarrow> q \<in> set (tc_received E s) \<or> (\<exists>p\<in>set ps. carried p q))"
    using io
  proof cases
    case (header xs ys r)
    from tc_header_io [OF laws ps at header(2-4)] header(1) show ?thesis by (simp add: tc_received_def)
  next
    case (payload xs n ys r)
    from tc_payload_io [OF laws ps at payload(2-4)] payload(1) show ?thesis by blast
  next
    case (other xs op ys ec v r)
    from tc_other_io [OF laws at other(2-5)] other(1) show ?thesis by (simp add: tc_received_def)
  qed
  then show "tc_at ps j s'" "q \<in> set (tc_received E s') \<Longrightarrow> q \<in> set (tc_received E s) \<or> (\<exists>p\<in>set ps. carried p q)"
    by blast+
qed

lemma tc_stream_end:
  assumes laws: "client_laws E"
  shows "stream_end (tc_api E) (tc_sent E) (tc_received E) tc_wire tc_at (tc_served E)"
proof unfold_locales
  fix ps qs :: "packet list" and i j :: nat and s s' :: "('a, 'b, 'c) tcp_client" and p q :: packet
  show "tc_at (ps @ qs) i s" if "tc_at ps i s"
    using that awaits_more by (auto simp: tc_at_def)
  show "set (tc_wire s) \<subseteq> set (tc_sent E s)" by (simp add: tc_sent_def)
  show "tc_at ps i (snd (tr_write (tc_api E) p s)) = tc_at ps i s" "tc_wire (snd (tr_write (tc_api E) p s)) = tc_wire s"
    by (auto simp: tc_api_def tc_write_run tc_at_def tc_inv_def tc_ops_ok_def reads_ok_def tc_reads_def
        tc_writes_ok_def tc_writes_def)
  show "tc_at ps i (snd (tr_read (tc_api E) s)) = tc_at ps i s" "tc_wire (snd (tr_read (tc_api E) s)) = tc_wire s"
    by (auto simp: tc_api_def transport_read_def tc_at_def tc_inv_def tc_ops_ok_def tc_reads_def
        tc_writes_ok_def tc_writes_def split: option.split)
qed (rule tc_served_received [OF laws] tc_served_order [OF laws]; assumption)+

interpretation ref_client_end: stream_end "tc_api ref_client_env" "tc_sent ref_client_env" "tc_received ref_client_env"
  tc_wire tc_at "tc_served ref_client_env"
  by (rule tc_stream_end) simp

end
