(* ===== verification/Stream_Server.thy ===== *)
theory Stream_Server
  imports Stream_Io
begin

text \<open>The TCP server as one end of a connection.\<close>

section \<open>What leaves the reading alone\<close>

fun is_sv_read :: "server_op \<Rightarrow> bool" where
  "is_sv_read Sv_read_header = True"
| "is_sv_read (Sv_read_payload n) = True"
| "is_sv_read _ = False"

definition ts_reads :: "('k, 'a, 'w, 'r) tcp_server \<Rightarrow> server_op list" where
  "ts_reads s = filter is_sv_read (ts_pending s)"

definition ts_reading :: "('k, 'a, 'w, 'r) tcp_server \<Rightarrow> 'r \<times> packet \<times> server_op list" where
  "ts_reading s = (read_queue s, ts_read_packet s, ts_reads s)"

lemma ts_reading_frame [simp]:
  "ts_reading (s\<lparr>errc := c\<rparr>) = ts_reading s" "ts_reading (s\<lparr>write_queue := w\<rparr>) = ts_reading s"
  "ts_reading (s\<lparr>ts_write_in_progress := b\<rparr>) = ts_reading s" "ts_reading (s\<lparr>ts_socket := k\<rparr>) = ts_reading s"
  by (simp_all add: ts_reading_def ts_reads_def)

lemma ts_undisturbed_ops [hoare]:
  "preserves (\<lambda>s. ts_reading s = x) (ts_set_errc c)" "preserves (\<lambda>s. ts_reading s = x) (ts_on_socket m)"
  "preserves (\<lambda>s. ts_reading s = x) (ts_on_acceptor n)" "preserves (\<lambda>s. ts_reading s = x) (ts_do_write E)"
  "preserves (\<lambda>s. ts_reading s = x) (ts_start_op Accept)"
  by (rule preservesI, simp add: ts_set_errc_def ts_on_socket_def ts_on_acceptor_def prog_run ts_do_write_run
      ts_start_op_def ts_reading_def ts_reads_def split: prod.split option.split)+

lemma ts_undisturbed_close [hoare]:
  "preserves (\<lambda>s. ts_reading s = x) (ts_close E)" "preserves (\<lambda>s. ts_reading s = x) (ts_open E)"
  unfolding ts_close_def ts_open_def by (intro hoare)+

lemma ts_undisturbed_handler:
  "is_sv_read op \<or> op = Accept \<longrightarrow> ec \<noteq> Asio_success \<Longrightarrow> preserves (\<lambda>s. ts_reading s = x) (ts_handler E op ec v)"
  by (cases op; cases ec; simp add: ts_on_accept_def ts_on_post_def ts_on_write_def ts_on_header_def ts_on_payload_def;
      intro allI hoare; auto intro!: hoare split: option.split)

lemma ts_undisturbed_guard:
  "preserves (\<lambda>s. ts_reading s = x) h \<Longrightarrow> preserves (\<lambda>s. ts_reading s = x) (ts_guard E h)"
  unfolding ts_guard_def by (auto intro!: hoare split: exn.split)

section \<open>The completions\<close>

text \<open>
  As for the client; the connection is the one that was accepted, and no other one is while it
  is looked at (an accept may still fail).
\<close>

inductive ts_served ::
  "('k, 'a, 'w, 'r) server_env \<Rightarrow> packet list \<Rightarrow> nat \<times> ('k, 'a, 'w, 'r) tcp_server \<Rightarrow>
   nat \<times> ('k, 'a, 'w, 'r) tcp_server \<Rightarrow> bool"
  for E ps where
  header: "ts_pending s = xs @ Sv_read_header # ys \<Longrightarrow> i + header_size \<le> length (stream ps) \<Longrightarrow>
    ts_guard E (ts_handler E Sv_read_header Asio_success (take header_size (drop i (stream ps)))) (s\<lparr>ts_pending := xs @ ys\<rparr>)
      = (r, s') \<Longrightarrow> ts_served E ps (i, s) (i + header_size, s')"
| payload: "ts_pending s = xs @ Sv_read_payload n # ys \<Longrightarrow> i + n \<le> length (stream ps) \<Longrightarrow>
    ts_guard E (ts_handler E (Sv_read_payload n) Asio_success (take n (drop i (stream ps)))) (s\<lparr>ts_pending := xs @ ys\<rparr>)
      = (r, s') \<Longrightarrow> ts_served E ps (i, s) (i + n, s')"
| other: "ts_pending s = xs @ op # ys \<Longrightarrow> is_sv_read op \<or> op = Accept \<longrightarrow> ec \<noteq> Asio_success \<Longrightarrow>
    (\<And>p. op = Sv_post p \<Longrightarrow> server_posted xs = []) \<Longrightarrow>
    ts_guard E (ts_handler E op ec v) (s\<lparr>ts_pending := xs @ ys\<rparr>) = (r, s') \<Longrightarrow> ts_served E ps (i, s) (i, s')"

lemma ts_served_step: "ts_served E ps (i, s) (j, s') \<Longrightarrow> ts_step E s s'"
  by (erule ts_served.cases) (auto intro: ts_step.completion simp del: ts_handler.simps)

definition ts_at :: "packet list \<Rightarrow> nat \<Rightarrow> ('k, 'a, 'w, 'r) tcp_server \<Rightarrow> bool" where
  "ts_at ps i s \<longleftrightarrow> ts_writes_ok s \<and> storage (p_data (ts_read_packet s)) \<and>
     (ts_reads s = [] \<or> ts_reads s = [Sv_read_header] \<and> awaits_header ps i
      \<or> (\<exists>n. ts_reads s = [Sv_read_payload n] \<and> awaits_payload ps i n (ts_read_packet s)))"

lemma ts_at_one:
  assumes "ts_at ps i s" and "ts_pending s = xs @ op # ys" and "is_sv_read op"
  shows "filter is_sv_read (xs @ ys) = []" "ts_reads s = [op]"
  using assms by (auto simp: ts_at_def ts_reads_def filter_empty_conv append_eq_Cons_conv filter_eq_Cons_iff)

text \<open>The two reads that succeed.\<close>

lemma ts_header_io:
  assumes laws: "server_laws E" and ps: "list_all valid_packet ps" and at: "ts_at ps i s"
    and pend: "ts_pending s = xs @ Sv_read_header # ys" and len: "i + header_size \<le> length (stream ps)"
    and run: "ts_guard E (ts_handler E Sv_read_header Asio_success (take header_size (drop i (stream ps))))
      (s\<lparr>ts_pending := xs @ ys\<rparr>) = (r, s')"
  shows "ts_at ps (i + header_size) s' \<and> read_queue s' = read_queue s"
proof -
  let ?r = "fill_header (take header_size (drop i (stream ps))) (ts_read_packet s)"
  note one = ts_at_one [OF at pend]
  have "awaits_header ps i" and st: "storage (p_data (ts_read_packet s))"
    using at one(2) by (auto simp: ts_at_def)
  note t = header_taken [OF ps this(1) len st]
  have s': "s' = s\<lparr>ts_pending := xs @ ys @ [Sv_read_payload (payload_len ?r)], ts_read_packet := ?r,
      errc := Asio_code Asio_success\<rparr>"
    using run t(1)
    by (auto simp: ts_guard_def ts_on_header_def ts_set_errc_def ts_read_payload_def ts_start_op_def prog_run)
  have "ts_step E s s'" by (rule ts_step.completion [OF pend _ run]) simp
  then have "ts_writes_ok s'" using ts_step_ok [OF laws] at by (simp add: ts_at_def)
  then show ?thesis using one(1) t(2,3) by (auto simp: ts_at_def s' ts_reads_def)
qed

lemma ts_payload_io:
  assumes laws: "server_laws E" and ps: "list_all valid_packet ps" and at: "ts_at ps i s"
    and pend: "ts_pending s = xs @ Sv_read_payload n # ys" and len: "i + n \<le> length (stream ps)"
    and run: "ts_guard E (ts_handler E (Sv_read_payload n) Asio_success (take n (drop i (stream ps))))
      (s\<lparr>ts_pending := xs @ ys\<rparr>) = (r, s')"
  shows "ts_at ps (i + n) s' \<and> (\<forall>q\<in>set (ts_received E s'). q \<in> set (ts_received E s) \<or> (\<exists>p\<in>set ps. carried p q))"
proof -
  let ?q = "fill_payload n (take n (drop i (stream ps))) (ts_read_packet s)"
  note one = ts_at_one [OF at pend]
  have "awaits_payload ps i n (ts_read_packet s)" using at one(2) by (auto simp: ts_at_def)
  note t = payload_taken [OF ps this len]
  have s': "s' = s\<lparr>ts_pending := xs @ ys @ [Sv_read_header], ts_read_packet := ?q, errc := Asio_code Asio_success,
      read_queue := read_queue s'\<rparr>"
    and "read_queue s' = read_queue s \<or> cq_try_enqueue (ve_read_queue E) (read_queue s) ?q = Some (read_queue s')"
    using run t(1,5)
    by (auto simp: ts_guard_def ts_on_payload_def ts_accept_packet_def ts_set_errc_def ts_read_header_def
        ts_start_op_def prog_run split: option.splits)
  then have "ts_received E s' = ts_received E s \<or> ts_received E s' = ts_received E s @ [?q]"
    using cq_enqueue_law [of "ve_read_queue E" "read_queue s" ?q "read_queue s'"] laws
    by (auto simp: ts_received_def server_laws_def)
  then have "\<forall>q\<in>set (ts_received E s'). q \<in> set (ts_received E s) \<or> (\<exists>p\<in>set ps. carried p q)"
    using t(2) by auto
  moreover have "ts_step E s s'" by (rule ts_step.completion [OF pend _ run]) simp
  then have "ts_writes_ok s'" using ts_step_ok [OF laws] at by (simp add: ts_at_def)
  moreover have "ts_reads s' = [Sv_read_header]" "storage (p_data (ts_read_packet s'))"
    using one(1) t(4) by (subst s', simp add: ts_reads_def)+
  ultimately show ?thesis using t(3) by (simp add: ts_at_def)
qed

lemma ts_other_io:
  assumes laws: "server_laws E" and at: "ts_at ps i s" and pend: "ts_pending s = xs @ op # ys"
    and failed: "is_sv_read op \<or> op = Accept \<longrightarrow> ec \<noteq> Asio_success" and fifo: "\<And>p. op = Sv_post p \<Longrightarrow> server_posted xs = []"
    and run: "ts_guard E (ts_handler E op ec v) (s\<lparr>ts_pending := xs @ ys\<rparr>) = (r, s')"
  shows "ts_at ps i s' \<and> read_queue s' = read_queue s"
proof -
  let ?s = "s\<lparr>ts_pending := xs @ ys\<rparr>"
  have "ts_step E s s'" by (rule ts_step.completion [OF pend _ run]) (rule fifo)
  then have ok: "ts_writes_ok s'" using ts_step_ok [OF laws] at by (simp add: ts_at_def)
  have "ts_reading s' = ts_reading ?s"
    by (rule preserves_run [OF ts_undisturbed_guard [OF ts_undisturbed_handler [OF failed]] refl run])
  then have s': "read_queue s' = read_queue s" "ts_read_packet s' = ts_read_packet s" "ts_reads s' = filter is_sv_read (xs @ ys)"
    by (simp_all add: ts_reading_def ts_reads_def)
  have "filter is_sv_read (xs @ ys) = (if is_sv_read op then [] else ts_reads s)"
    using ts_at_one(1) [OF at pend] pend by (simp add: ts_reads_def)
  then show ?thesis using s' ok at by (auto simp: ts_at_def)
qed

section \<open>The end of a connection\<close>

lemma ts_served_order:
  assumes laws: "server_laws E" and at: "ts_at ps i s" and io: "ts_served E ps (i, s) (j, s')"
  shows "\<exists>w. ts_wire s' = ts_wire s @ w" and "set (ts_sent E s') \<subseteq> set (ts_sent E s)"
proof -
  have ok: "ts_writes_ok s" using at by (simp add: ts_at_def)
  have order: "(\<exists>w. ts_wire s' = ts_wire s @ w) \<and> set (ts_sent E s') \<subseteq> set (ts_sent E s)"
    if pend: "ts_pending s = xs @ op # ys" and run: "ts_guard E (ts_handler E op ec v) (s\<lparr>ts_pending := xs @ ys\<rparr>) = (r, s')"
    for xs ys op ec v r
  proof -
    have [simp]: "ts_queued E (s\<lparr>ts_pending := ops\<rparr>) = ts_queued E s" for ops by (simp add: ts_queued_def)
    show ?thesis
      using ts_completion [OF laws ok pend run] pend
      by (cases op) (auto simp: keeps_order_def ts_sent_queued)
  qed
  show "\<exists>w. ts_wire s' = ts_wire s @ w" "set (ts_sent E s') \<subseteq> set (ts_sent E s)"
    using io by (cases; use order in blast)+
qed

lemma ts_served_received:
  assumes laws: "server_laws E" and ps: "list_all valid_packet ps" and at: "ts_at ps i s"
    and io: "ts_served E ps (i, s) (j, s')"
  shows "ts_at ps j s'" and "q \<in> set (ts_received E s') \<Longrightarrow> q \<in> set (ts_received E s) \<or> (\<exists>p\<in>set ps. carried p q)"
proof -
  have "ts_at ps j s' \<and> (q \<in> set (ts_received E s') \<longrightarrow> q \<in> set (ts_received E s) \<or> (\<exists>p\<in>set ps. carried p q))"
    using io
  proof cases
    case (header xs ys r)
    from ts_header_io [OF laws ps at header(2-4)] header(1) show ?thesis by (simp add: ts_received_def)
  next
    case (payload xs n ys r)
    from ts_payload_io [OF laws ps at payload(2-4)] payload(1) show ?thesis by blast
  next
    case (other xs op ys ec v r)
    from ts_other_io [OF laws at other(2-5)] other(1) show ?thesis by (simp add: ts_received_def)
  qed
  then show "ts_at ps j s'" "q \<in> set (ts_received E s') \<Longrightarrow> q \<in> set (ts_received E s) \<or> (\<exists>p\<in>set ps. carried p q)"
    by blast+
qed

lemma ts_stream_end:
  assumes laws: "server_laws E"
  shows "stream_end (ts_api E) (ts_sent E) (ts_received E) ts_wire ts_at (ts_served E)"
proof unfold_locales
  fix ps qs :: "packet list" and i j :: nat and s s' :: "('a, 'b, 'c, 'd) tcp_server" and p q :: packet
  show "ts_at (ps @ qs) i s" if "ts_at ps i s"
    using that awaits_more by (auto simp: ts_at_def)
  show "set (ts_wire s) \<subseteq> set (ts_sent E s)" by (simp add: ts_sent_def)
  show "ts_at ps i (snd (tr_write (ts_api E) p s)) = ts_at ps i s" "ts_wire (snd (tr_write (ts_api E) p s)) = ts_wire s"
    by (auto simp: ts_api_def ts_write_run ts_at_def ts_reads_def ts_writes_ok_def ts_writes_def)
  show "ts_at ps i (snd (tr_read (ts_api E) s)) = ts_at ps i s" "ts_wire (snd (tr_read (ts_api E) s)) = ts_wire s"
    by (auto simp: ts_api_def transport_read_def ts_at_def ts_reads_def ts_writes_ok_def ts_writes_def split: option.split)
qed (rule ts_served_received [OF laws] ts_served_order [OF laws]; assumption)+

interpretation ref_server_end: stream_end "ts_api ref_server_env" "ts_sent ref_server_env" "ts_received ref_server_env"
  ts_wire ts_at "ts_served ref_server_env"
  by (rule ts_stream_end) simp

end
