(* ===== verification/Stack.thy ===== *)
theory Stack
  imports Stream_Client Stream_Server Link_Properties
begin

text \<open>
  The whole of the program between the two users: the host over a TCP client, the device over a
  TCP server, and the two byte streams of one connection. It implements the link of \<^verbatim>\<open>Link\<close>, and
  so the agreement.
\<close>

section \<open>The system\<close>

record ('q, 'm, 'k, 'w, 'r, 'c, 'cb, 'u, 'p, 'n, 'k2, 'a2, 'w2, 'r2) stack_env =
  st_host :: "('q, 'm, ('k, 'w, 'r) tcp_client, 'c, 'cb, 'u) master_app_env"
  st_device :: "('p, 'n, ('k2, 'a2, 'w2, 'r2) tcp_server) slave_app_env"
  st_client :: "('k, 'w, 'r) client_env"
  st_server :: "('k2, 'a2, 'w2, 'r2) server_env"

definition stack_link ::
  "('q, 'm, 'k, 'w, 'r, 'c, 'cb, 'u, 'p, 'n, 'k2, 'a2, 'w2, 'r2) stack_env \<Rightarrow>
   ('q, 'm, ('k, 'w, 'r) tcp_client, 'c, 'cb, 'u, 'p, 'n, ('k2, 'a2, 'w2, 'r2) tcp_server) link_env" where
  "stack_link K =
     \<lparr>le_host = st_host K, le_device = st_device K,
      le_sent = tc_sent (st_client K), le_received = tc_received (st_client K),
      le_device_sent = ts_sent (st_server K), le_device_received = ts_received (st_server K)\<rparr>"

lemma stack_link_fields [simp]:
  "le_host (stack_link K) = st_host K" "le_device (stack_link K) = st_device K"
  "le_sent (stack_link K) = tc_sent (st_client K)" "le_received (stack_link K) = tc_received (st_client K)"
  "le_device_sent (stack_link K) = ts_sent (st_server K)"
  "le_device_received (stack_link K) = ts_received (st_server K)"
  by (simp_all add: stack_link_def)

text \<open>
  A state: host and device, and how many bytes each has taken off the stream of the other. The
  applications move, and the I/O contexts complete what the transports have started: a read with
  the next bytes that the other side has written, however many bytes there are on the way.
\<close>

type_synonym ('m, 'd) stack_state = "('m \<times> 'd) \<times> nat \<times> nat"

inductive stack_step ::
  "('q, 'm, 'k, 'w, 'r, 'c, 'cb, 'u, 'p, 'n, 'k2, 'a2, 'w2, 'r2) stack_env \<Rightarrow>
   (('q, 'm, ('k, 'w, 'r) tcp_client, 'c, 'u) master, ('p, 'n, ('k2, 'a2, 'w2, 'r2) tcp_server, 'v) slave) stack_state \<Rightarrow>
   (('q, 'm, ('k, 'w, 'r) tcp_client, 'c, 'u) master, ('p, 'n, ('k2, 'a2, 'w2, 'r2) tcp_server, 'v) slave) stack_state \<Rightarrow> bool"
  for K where
  host: "host_move (st_host K) m m' \<Longrightarrow> unat (mr_packet_id (ms_rm m)) < 65535 \<Longrightarrow>
    stack_step K ((m, d), i, j) ((m', d), i, j)"
| device: "device_move (st_device K) d d' \<Longrightarrow> stack_step K ((m, d), i, j) ((m, d'), i, j)"
| host_io: "mr_transport (ms_rm m) = Some t \<Longrightarrow>
    tc_served (st_client K) (srm_sent ts_wire (sl_rm d)) (i, t) (i', t') \<Longrightarrow>
    stack_step K ((m, d), i, j) ((m\<lparr>ms_rm := (ms_rm m)\<lparr>mr_transport := Some t'\<rparr>\<rparr>, d), i', j)"
| device_io: "sr_transport (sl_rm d) = Some t \<Longrightarrow>
    ts_served (st_server K) (mrm_sent tc_wire (ms_rm m)) (j, t) (j', t') \<Longrightarrow>
    stack_step K ((m, d), i, j) ((m, d\<lparr>sl_rm := (sl_rm d)\<lparr>sr_transport := Some t'\<rparr>\<rparr>), i, j')"

text \<open>A connection that has just been made: both threads wait for a header and nothing was sent.\<close>

definition stack_begun ::
  "('q, 'm, 'k, 'w, 'r, 'c, 'cb, 'cb request list, 'p, 'n, 'k2, 'a2, 'w2, 'r2) stack_env \<Rightarrow>
   (('q, 'm, ('k, 'w, 'r) tcp_client, 'c, 'cb request list) master,
    ('p, 'n, ('k2, 'a2, 'w2, 'r2) tcp_server, block list) slave) stack_state \<Rightarrow> bool" where
  "stack_begun K = (\<lambda>((m, d), i, j).
     link_begun (stack_link K) (m, d) \<and> i = 0 \<and> j = 0
     \<and> (\<exists>t. mr_transport (ms_rm m) = Some t \<and> tc_begun t \<and> storage (p_data (tc_read_packet t)) \<and> tc_wire t = [])
     \<and> (\<exists>u. sr_transport (sl_rm d) = Some u \<and> ts_pending u = [Sv_read_header] \<and> \<not> ts_write_in_progress u
          \<and> storage (p_data (ts_read_packet u)) \<and> ts_wire u = []))"

definition stack_laws ::
  "('q, 'm, 'k, 'w, 'r, 'c, 'cb, 'cb request list, 'p, 'n, 'k2, 'a2, 'w2, 'r2) stack_env \<Rightarrow> bool" where
  "stack_laws K \<longleftrightarrow> link_laws (stack_link K) \<and> client_laws (st_client K) \<and> server_laws (st_server K)
     \<and> me_tr (ma_rm (st_host K)) = tc_api (st_client K) \<and> se_tr (sa_rm (st_device K)) = ts_api (st_server K)"

section \<open>The stack implements the link\<close>

text \<open>What is known of a state: the link reaches it, and either end is somewhere in the stream of the other.\<close>

definition stack_inv ::
  "('q, 'm, 'k, 'w, 'r, 'c, 'cb, 'cb request list, 'p, 'n, 'k2, 'a2, 'w2, 'r2) stack_env \<Rightarrow>
   (('q, 'm, ('k, 'w, 'r) tcp_client, 'c, 'cb request list) master,
    ('p, 'n, ('k2, 'a2, 'w2, 'r2) tcp_server, block list) slave) stack_state \<Rightarrow> bool" where
  "stack_inv K = (\<lambda>((m, d), i, j).
     reach (link_begun (stack_link K)) (link_step (stack_link K)) (m, d)
     \<and> ms_holds (tc_at (srm_sent ts_wire (sl_rm d)) i) m \<and> sl_holds (ts_at (mrm_sent tc_wire (ms_rm m)) j) d)"

lemma tr_holds_Some [simp]: "tr_holds T (Some t) = T t"
  by (simp add: tr_holds_def)

lemma tr_holdsE:
  assumes "tr_holds T tr" obtains t where "tr = Some t" "T t"
  using assms by (auto simp: tr_holds_def split: option.splits)

lemma stack_start:
  assumes "stack_begun K s"
  shows "stack_inv K s"
proof -
  obtain m d t u where s: "s = ((m, d), 0, 0)" "link_begun (stack_link K) (m, d)"
    "mr_transport (ms_rm m) = Some t" "tc_begun t" "storage (p_data (tc_read_packet t))" "tc_wire t = []"
    "sr_transport (sl_rm d) = Some u" "ts_pending u = [Sv_read_header]" "\<not> ts_write_in_progress u"
    "storage (p_data (ts_read_packet u))" "ts_wire u = []"
    using assms by (auto simp: stack_begun_def)
  have "awaits_header [] 0" by (simp add: awaits_header_def stream_def)
  then have "tc_at [] 0 t" "ts_at [] 0 u"
    using s(4,5,8-10)
    by (auto simp: tc_at_def ts_at_def tc_begun_def tc_inv_def tc_ops_ok_def reads_ok_def tc_writes_ok_def
        tc_writes_def tc_reads_def ts_writes_ok_def ts_writes_def ts_reads_def)
  then show ?thesis
    using s reach_init [of "link_begun (stack_link K)", OF s(2)]
    by (simp add: stack_inv_def srm_sent_def mrm_sent_def)
qed

locale tcp_stack =
  fixes K :: "('q, 'm, 'k, 'w, 'r, 'c, 'cb, 'cb request list, 'p, 'n, 'k2, 'a2, 'w2, 'r2) stack_env"
  assumes stack: "stack_laws K"

sublocale tcp_stack \<subseteq> link: agreed_link "stack_link K"
  by unfold_locales (use stack in \<open>simp add: stack_laws_def\<close>)

sublocale tcp_stack \<subseteq> client: stream_end "tc_api (st_client K)" "tc_sent (st_client K)" "tc_received (st_client K)"
  tc_wire tc_at "tc_served (st_client K)"
  by (rule tc_stream_end) (use stack in \<open>simp add: stack_laws_def\<close>)

sublocale tcp_stack \<subseteq> server: stream_end "ts_api (st_server K)" "ts_sent (st_server K)" "ts_received (st_server K)"
  ts_wire ts_at "ts_served (st_server K)"
  by (rule ts_stream_end) (use stack in \<open>simp add: stack_laws_def\<close>)

context tcp_stack
begin

text \<open>What either side has put on the wire is valid.\<close>

lemma wires_sent:
  "set (mrm_sent tc_wire x) \<subseteq> set (mrm_sent (tc_sent (st_client K)) x)"
  "set (srm_sent ts_wire y) \<subseteq> set (srm_sent (ts_sent (st_server K)) y)"
  by (cases "mr_transport x"; simp add: mrm_sent_def client.wire_sent)
    (cases "sr_transport y"; simp add: srm_sent_def server.wire_sent)

lemma wires_valid:
  assumes "reach (link_begun (stack_link K)) (link_step (stack_link K)) (m, d)"
  shows "list_all valid_packet (mrm_sent tc_wire (ms_rm m))" "list_all valid_packet (srm_sent ts_wire (sl_rm d))"
proof -
  obtain a where a: "link_rel (stack_link K) (m, d) a" using link.link_agrees [OF assms] by blast
  show "list_all valid_packet (mrm_sent tc_wire (ms_rm m))"
    using link_rel_packets(1) [OF a] wires_sent(1) by (fastforce simp: list_all_iff host_packet_def)
  show "list_all valid_packet (srm_sent ts_wire (sl_rm d))"
    using link_rel_packets(2) [OF a] wires_sent(2) by (fastforce simp: list_all_iff device_packet_def)
qed

text \<open>The moves of the applications leave the ends where they are; completions are moves of the channel.\<close>

lemma host_stacked:
  assumes inv: "stack_inv K ((m, d), i, j)" and move: "host_move (st_host K) m m'" "unat (mr_packet_id (ms_rm m)) < 65535"
  shows "stack_inv K ((m', d), i, j)"
proof -
  let ?ps = "srm_sent ts_wire (sl_rm d)"
  obtain t where t: "mr_transport (ms_rm m) = Some t" "tc_at ?ps i t"
    using inv by (auto simp: stack_inv_def elim: tr_holdsE)
  have "me_tr (ma_rm (st_host K)) = tc_api (st_client K)" using stack by (simp add: stack_laws_def)
  from client.user.host_uses [OF this move(1), of ?ps i "tc_wire t"] t
  obtain t' where t': "mr_transport (ms_rm m') = Some t'" "tc_at ?ps i t'" "tc_wire t' = tc_wire t"
    by (auto elim: tr_holdsE)
  have "link_step (stack_link K) (m, d) (m', d)" using move by (intro link_step.host) simp_all
  then show ?thesis
    using inv t t' reach_step [of "link_begun (stack_link K)" "link_step (stack_link K)" "(m, d)" "(m', d)"]
    by (simp add: stack_inv_def mrm_sent_def)
qed

lemma device_stacked:
  assumes inv: "stack_inv K ((m, d), i, j)" and move: "device_move (st_device K) d d'"
  shows "stack_inv K ((m, d'), i, j)"
proof -
  let ?ps = "mrm_sent tc_wire (ms_rm m)"
  obtain t where t: "sr_transport (sl_rm d) = Some t" "ts_at ?ps j t"
    using inv by (auto simp: stack_inv_def elim: tr_holdsE)
  have "se_tr (sa_rm (st_device K)) = ts_api (st_server K)" using stack by (simp add: stack_laws_def)
  from server.user.device_uses [OF this move, of ?ps j "ts_wire t"] t
  obtain t' where t': "sr_transport (sl_rm d') = Some t'" "ts_at ?ps j t'" "ts_wire t' = ts_wire t"
    by (auto elim: tr_holdsE)
  have "link_step (stack_link K) (m, d) (m, d')" using move by (intro link_step.device) simp_all
  then show ?thesis
    using inv t t' reach_step [of "link_begun (stack_link K)" "link_step (stack_link K)" "(m, d)" "(m, d')"]
    by (simp add: stack_inv_def srm_sent_def)
qed

lemma host_io_stacked:
  assumes inv: "stack_inv K ((m, d), i, j)" and t: "mr_transport (ms_rm m) = Some t"
    and io: "tc_served (st_client K) (srm_sent ts_wire (sl_rm d)) (i, t) (i', t')"
  shows "stack_inv K ((m\<lparr>ms_rm := (ms_rm m)\<lparr>mr_transport := Some t'\<rparr>\<rparr>, d), i', j)" (is "stack_inv K ((?m, d), i', j)")
proof -
  let ?ps = "srm_sent ts_wire (sl_rm d)"
  have at: "tc_at ?ps i t" and r: "reach (link_begun (stack_link K)) (link_step (stack_link K)) (m, d)"
    and dev: "sl_holds (ts_at (mrm_sent tc_wire (ms_rm m)) j) d"
    using inv t by (simp_all add: stack_inv_def)
  note ps = wires_valid(2) [OF r]
  have "\<forall>q\<in>set (tc_received (st_client K) t'). q \<in> set (tc_received (st_client K) t)
      \<or> (\<exists>p\<in>set (srm_sent (ts_sent (st_server K)) (sl_rm d)). carried p q)"
    using client.io_received [OF ps at io] wires_sent(2) by blast
  then have "link_step (stack_link K) (m, d) (?m, d)"
    using client.io_sent [OF ps at io] t by (intro link_step.to_host [of m t]) simp_all
  with r have r': "reach (link_begun (stack_link K)) (link_step (stack_link K)) (?m, d)" by (rule reach_step)
  obtain w where "tc_wire t' = tc_wire t @ w" using client.io_wire [OF ps at io] by blast
  with dev have "sl_holds (ts_at (mrm_sent tc_wire (ms_rm ?m)) j) d"
    using server.at_more t by (auto simp: mrm_sent_def tr_holds_def split: option.splits)
  then show ?thesis using r' client.io_at [OF ps at io] by (simp add: stack_inv_def)
qed

lemma device_io_stacked:
  assumes inv: "stack_inv K ((m, d), i, j)" and t: "sr_transport (sl_rm d) = Some t"
    and io: "ts_served (st_server K) (mrm_sent tc_wire (ms_rm m)) (j, t) (j', t')"
  shows "stack_inv K ((m, d\<lparr>sl_rm := (sl_rm d)\<lparr>sr_transport := Some t'\<rparr>\<rparr>), i, j')" (is "stack_inv K ((m, ?d), i, j')")
proof -
  let ?ps = "mrm_sent tc_wire (ms_rm m)"
  have at: "ts_at ?ps j t" and r: "reach (link_begun (stack_link K)) (link_step (stack_link K)) (m, d)"
    and host: "ms_holds (tc_at (srm_sent ts_wire (sl_rm d)) i) m"
    using inv t by (simp_all add: stack_inv_def)
  note ps = wires_valid(1) [OF r]
  have "\<forall>q\<in>set (ts_received (st_server K) t'). q \<in> set (ts_received (st_server K) t)
      \<or> (\<exists>p\<in>set (mrm_sent (tc_sent (st_client K)) (ms_rm m)). carried p q)"
    using server.io_received [OF ps at io] wires_sent(1) by blast
  then have "link_step (stack_link K) (m, d) (m, ?d)"
    using server.io_sent [OF ps at io] t by (intro link_step.to_device [of d t]) simp_all
  with r have r': "reach (link_begun (stack_link K)) (link_step (stack_link K)) (m, ?d)" by (rule reach_step)
  obtain w where "ts_wire t' = ts_wire t @ w" using server.io_wire [OF ps at io] by blast
  with host have "ms_holds (tc_at (srm_sent ts_wire (sl_rm ?d)) i) m"
    using client.at_more t by (auto simp: srm_sent_def tr_holds_def split: option.splits)
  then show ?thesis using r' server.io_at [OF ps at io] by (simp add: stack_inv_def)
qed

end

sublocale tcp_stack \<subseteq> system: invariant_system "stack_begun K" "stack_step K" "stack_inv K"
proof unfold_locales
  show "stack_inv K s" if "stack_begun K s" for s using that by (rule stack_start)
  show "stack_inv K s'" if "stack_inv K s" "stack_step K s s'" for s s'
    using that(2,1)
  proof (cases rule: stack_step.cases)
    case (host m m' d i j)
    then show ?thesis using that(1) host_stacked by simp
  next
    case (device d d' m i j)
    then show ?thesis using that(1) device_stacked by simp
  next
    case (host_io m t d i i' t' j)
    then show ?thesis using that(1) host_io_stacked [OF _ host_io(3,4)] by simp
  next
    case (device_io d t m j j' t' i)
    then show ?thesis using that(1) device_io_stacked [OF _ device_io(3,4)] by simp
  qed
qed

context tcp_stack
begin

lemma stack_reaches: "reach (stack_begun K) (stack_step K) s \<Longrightarrow> stack_inv K s"
  by (rule system.reach_inv)

end

end
