(* ===== verification/Stack_Properties.thy ===== *)
theory Stack_Properties
  imports Stack
begin

text \<open>
  The properties of the whole stack, and a run of it: a command that the host's user issues goes
  through both transports, byte by byte, and is executed by the device's user.
\<close>

section \<open>Bytes that arrive\<close>

text \<open>The reads of \<^verbatim>\<open>Tcp_Stream\<close>, which take their bytes off what is left of the stream, are completions here.\<close>

lemma ts_input_served:
  assumes "ts_input E (drop j (stream ps), t) (w, t')" and "j \<le> length (stream ps)"
  obtains j' where "ts_served E ps (j, t) (j', t')" "w = drop j' (stream ps)" "j' \<le> length (stream ps)"
  using assms(1)
proof cases
  case (header xs ys v)
  have "length (drop j (stream ps)) = header_size + length w" using header(1,3) by simp
  then have len: "j + header_size \<le> length (stream ps)" using assms(2) by simp
  have v: "v = take header_size (drop j (stream ps))" "w = drop header_size (drop j (stream ps))"
    using header(1,3) by (simp_all del: drop_drop)
  then have "w = drop (j + header_size) (stream ps)" by (simp add: add.commute)
  from ts_served.header [OF header(2) len header(4) [unfolded v(1)]] this len show ?thesis by (rule that)
next
  case (payload xs n ys v)
  have "length (drop j (stream ps)) = n + length w" using payload(1,3) by simp
  then have len: "j + n \<le> length (stream ps)" using assms(2) by simp
  have v: "v = take n (drop j (stream ps))" "w = drop n (drop j (stream ps))"
    using payload(1,3) by (simp_all del: drop_drop)
  then have "w = drop (j + n) (stream ps)" by (simp add: add.commute)
  from ts_served.payload [OF payload(2) len payload(4) [unfolded v(1)]] this len show ?thesis by (rule that)
qed

lemma ts_inputs_stacked:
  assumes "(ts_input (st_server K))\<^sup>*\<^sup>* (drop j (stream (mrm_sent tc_wire (ms_rm m))), t) (w, t')"
    and "j \<le> length (stream (mrm_sent tc_wire (ms_rm m)))" and "sr_transport (sl_rm d) = Some t"
  shows "\<exists>j'. (stack_step K)\<^sup>*\<^sup>* ((m, d), i, j) ((m, d\<lparr>sl_rm := (sl_rm d)\<lparr>sr_transport := Some t'\<rparr>\<rparr>), i, j')"
  using assms
proof (induction "(drop j (stream (mrm_sent tc_wire (ms_rm m))), t)" arbitrary: j t d rule: converse_rtranclp_induct)
  case base
  then have "d\<lparr>sl_rm := (sl_rm d)\<lparr>sr_transport := Some t'\<rparr>\<rparr> = d" by (cases d; cases "sl_rm d") simp
  then show ?case by (intro exI [of _ j]) simp
next
  case (step z)
  obtain u t1 where z: "z = (u, t1)" by fastforce
  obtain j1 where j1: "ts_served (st_server K) (mrm_sent tc_wire (ms_rm m)) (j, t) (j1, t1)"
    "u = drop j1 (stream (mrm_sent tc_wire (ms_rm m)))" "j1 \<le> length (stream (mrm_sent tc_wire (ms_rm m)))"
    using ts_input_served step.hyps(1) step.prems(1) unfolding z by metis
  let ?d = "d\<lparr>sl_rm := (sl_rm d)\<lparr>sr_transport := Some t1\<rparr>\<rparr>"
  have "stack_step K ((m, d), i, j) ((m, ?d), i, j1)"
    using step.prems(2) j1(1) by (rule stack_step.device_io)
  moreover obtain j' where "(stack_step K)\<^sup>*\<^sup>* ((m, ?d), i, j1) ((m, ?d\<lparr>sl_rm := (sl_rm ?d)\<lparr>sr_transport := Some t'\<rparr>\<rparr>), i, j')"
    using step.hyps(3) [of j1 t1 ?d] j1(2,3) z by auto
  ultimately show ?case by (intro exI [of _ j']) (simp add: converse_rtranclp_into_rtranclp)
qed

lemma tc_input_served:
  assumes "tc_input E (drop j (stream ps), t) (w, t')" and "j \<le> length (stream ps)"
  obtains j' where "tc_served E ps (j, t) (j', t')" "w = drop j' (stream ps)" "j' \<le> length (stream ps)"
  using assms(1)
proof cases
  case (header xs ys v)
  have "length (drop j (stream ps)) = header_size + length w" using header(1,3) by simp
  then have len: "j + header_size \<le> length (stream ps)" using assms(2) by simp
  have v: "v = take header_size (drop j (stream ps))" "w = drop header_size (drop j (stream ps))"
    using header(1,3) by (simp_all del: drop_drop)
  then have "w = drop (j + header_size) (stream ps)" by (simp add: add.commute)
  from tc_served.header [OF header(2) len header(4) [unfolded v(1)]] this len show ?thesis by (rule that)
next
  case (payload xs n ys v)
  have "length (drop j (stream ps)) = n + length w" using payload(1,3) by simp
  then have len: "j + n \<le> length (stream ps)" using assms(2) by simp
  have v: "v = take n (drop j (stream ps))" "w = drop n (drop j (stream ps))"
    using payload(1,3) by (simp_all del: drop_drop)
  then have "w = drop (j + n) (stream ps)" by (simp add: add.commute)
  from tc_served.payload [OF payload(2) len payload(4) [unfolded v(1)]] this len show ?thesis by (rule that)
qed

lemma tc_inputs_stacked:
  assumes "(tc_input (st_client K))\<^sup>*\<^sup>* (drop j (stream (srm_sent ts_wire (sl_rm d))), t) (w, t')"
    and "j \<le> length (stream (srm_sent ts_wire (sl_rm d)))" and "mr_transport (ms_rm m) = Some t"
  shows "\<exists>j'. (stack_step K)\<^sup>*\<^sup>* ((m, d), j, i) ((m\<lparr>ms_rm := (ms_rm m)\<lparr>mr_transport := Some t'\<rparr>\<rparr>, d), j', i)"
  using assms
proof (induction "(drop j (stream (srm_sent ts_wire (sl_rm d))), t)" arbitrary: j t m rule: converse_rtranclp_induct)
  case base
  then have "m\<lparr>ms_rm := (ms_rm m)\<lparr>mr_transport := Some t'\<rparr>\<rparr> = m" by (cases m; cases "ms_rm m") simp
  then show ?case by (intro exI [of _ j]) simp
next
  case (step z)
  obtain u t1 where z: "z = (u, t1)" by fastforce
  obtain j1 where j1: "tc_served (st_client K) (srm_sent ts_wire (sl_rm d)) (j, t) (j1, t1)"
    "u = drop j1 (stream (srm_sent ts_wire (sl_rm d)))" "j1 \<le> length (stream (srm_sent ts_wire (sl_rm d)))"
    using tc_input_served step.hyps(1) step.prems(1) unfolding z by metis
  let ?m = "m\<lparr>ms_rm := (ms_rm m)\<lparr>mr_transport := Some t1\<rparr>\<rparr>"
  have "stack_step K ((m, d), j, i) ((?m, d), j1, i)"
    using step.prems(2) j1(1) by (rule stack_step.host_io)
  moreover obtain j' where "(stack_step K)\<^sup>*\<^sup>* ((?m, d), j1, i) ((?m\<lparr>ms_rm := (ms_rm ?m)\<lparr>mr_transport := Some t'\<rparr>\<rparr>, d), j', i)"
    using step.hyps(3) [of j1 t1 ?m] j1(2,3) z by auto
  ultimately show ?case by (intro exI [of _ j']) (simp add: converse_rtranclp_into_rtranclp)
qed

text \<open>They leave the connection open, and what they enqueue has the header that was sent.\<close>

lemma ts_guard_loop: "ts_guard E h s = (Inr Loop, s') \<Longrightarrow> s' = snd (h s)"
  by (auto simp: ts_guard_def prog_run split: prod.splits sum.splits exn.splits)

definition ts_kept :: "('k, 'a, 'w, 'r) tcp_server \<Rightarrow> 'k \<times> 'w \<times> packet \<times> bool \<times> packet list" where
  "ts_kept s = (ts_socket s, ts_out s)"

lemma ts_read_keeps:
  "preserves (\<lambda>s. ts_kept s = k) (ts_handler E Sv_read_header Asio_success v)"
  "preserves (\<lambda>s. ts_kept s = k) (ts_handler E (Sv_read_payload n) Asio_success v)"
  by (simp_all add: ts_on_header_def ts_on_payload_def ts_read_payload_def ts_accept_packet_def ts_set_errc_def
      ts_read_header_def ts_start_op_def; intro conjI impI hoare;
      auto intro!: hoare simp: ts_kept_def ts_out_def split: exn.split option.split)+

lemma ts_inputs_keep: "(ts_input E)\<^sup>*\<^sup>* a b \<Longrightarrow> ts_kept (snd b) = ts_kept (snd a)"
proof (induction rule: rtranclp_induct)
  case (step y z)
  have "ts_kept (snd z) = ts_kept (snd y)"
    using step.hyps(2)
  proof cases
    case (header s xs ys v s' w)
    have "ts_kept s' = ts_kept (s\<lparr>ts_pending := xs @ ys\<rparr>)"
      unfolding ts_guard_loop [OF header(5)] by (rule preservesD [OF ts_read_keeps(1) refl])
    then show ?thesis using header(1,2) by (simp add: ts_kept_def ts_out_def)
  next
    case (payload s xs n ys v s' w)
    have "ts_kept s' = ts_kept (s\<lparr>ts_pending := xs @ ys\<rparr>)"
      unfolding ts_guard_loop [OF payload(5)] by (rule preservesD [OF ts_read_keeps(2) refl])
    then show ?thesis using payload(1,2) by (simp add: ts_kept_def ts_out_def)
  qed
  then show ?case using step.IH by simp
qed simp

lemma same_bytes_header:
  assumes "valid_packet p" and "valid_packet q" and "packet_bytes q = packet_bytes p"
  shows "packet_type q = packet_type p" "packet_id q = packet_id p"
proof -
  have "take header_size (p_data r) = take header_size (packet_bytes r)" for r
    by (simp add: packet_bytes_def packet_size_def)
  then have "p_header q = p_header p"
    using valid_packet_views(1) [OF assms(1)] valid_packet_views(1) [OF assms(2)] assms(3) by simp
  then show "packet_type q = packet_type p" "packet_id q = packet_id p"
    by (simp_all add: packet_type_def packet_id_def)
qed

section \<open>Bytes that leave\<close>

text \<open>The client of the reference host after its user's calls, and when the one packet is written.\<close>

definition ref_posts :: "packet list \<Rightarrow> (bool, packet list, packet list) tcp_client" where
  "ref_posts ps = ref_client\<lparr>tc_pending := Read_header # map Post_write ps\<rparr>"

definition ref_wrote :: "packet \<Rightarrow> (bool, packet list, packet list) tcp_client" where
  "ref_wrote p = ref_client\<lparr>errc := Asio_code Asio_success, tc_write_packet := p, tc_wire := [p]\<rparr>"

interpretation ref_user: used_transport "tc_api ref_client_env" "\<lambda>t. \<exists>ps. t = ref_posts ps"
proof unfold_locales
  fix t p assume "\<exists>ps. t = ref_posts ps"
  then obtain ps where t: "t = ref_posts ps" by blast
  have "snd (tr_write (tc_api ref_client_env) p t) = ref_posts (ps @ [p])"
    by (simp add: t tc_api_def tc_write_run tc_is_open_def ref_posts_def ref_client_def ref_client_env_def ref_socket_def)
  then show "\<exists>ps. snd (tr_write (tc_api ref_client_env) p t) = ref_posts ps" by blast
  have "snd (tr_read (tc_api ref_client_env) t) = t"
    by (simp add: t tc_api_def transport_read_def ref_posts_def ref_client_def ref_client_env_def ref_queue_api_def)
  then show "\<exists>ps. snd (tr_read (tc_api ref_client_env) t) = ref_posts ps" using t by auto
qed

lemma ref_writes:
  obtains t where "tc_served ref_client_env ps (i, ref_posts [p]) (i, t)" "tc_served ref_client_env ps (i, t) (i, ref_wrote p)"
proof -
  let ?t = "ref_client\<lparr>tc_pending := [Read_header, Async_write (packet_bytes p)], tc_write_packet := p,
    tc_write_in_progress := True, tc_wire := [p]\<rparr>"
  have "tc_guard ref_client_env (tc_handler ref_client_env (Post_write p) Asio_success [])
      (ref_posts [p]\<lparr>tc_pending := [Read_header] @ []\<rparr>) = (Inr Loop, ?t)"
    by (simp add: tc_guard_def tc_on_post_def prog_run tc_do_write_run ref_posts_def ref_client_def ref_client_env_def
        ref_queue_api_def)
  from tc_served.other [OF _ _ _ this] have 1: "tc_served ref_client_env ps (i, ref_posts [p]) (i, ?t)"
    by (simp add: ref_posts_def)
  have "tc_guard ref_client_env (tc_handler ref_client_env (Async_write (packet_bytes p)) Asio_success [])
      (?t\<lparr>tc_pending := [Read_header] @ []\<rparr>) = (Inr Loop, ref_wrote p)"
    by (simp add: tc_guard_def tc_on_write_def tc_set_errc_def prog_run ref_wrote_def ref_client_def ref_client_env_def
        ref_queue_api_def)
  from tc_served.other [OF _ _ _ this] have "tc_served ref_client_env ps (i, ?t) (i, ref_wrote p)" by simp
  with 1 show thesis by (rule that)
qed

text \<open>The device's server after its pass, and when the two packets are written.\<close>

lemma server_posts:
  "used_transport (ts_api ref_server_env)
     (\<lambda>t. \<exists>ps r. t = u\<lparr>ts_pending := Sv_read_header # map Sv_post ps, read_queue := r\<rparr>)" (is "used_transport _ ?T")
proof unfold_locales
  fix t p assume "?T t"
  then obtain ps r where t: "t = u\<lparr>ts_pending := Sv_read_header # map Sv_post ps, read_queue := r\<rparr>" by blast
  have "snd (tr_write (ts_api ref_server_env) p t) = t
      \<or> snd (tr_write (ts_api ref_server_env) p t)
          = u\<lparr>ts_pending := Sv_read_header # map Sv_post (ps @ [p]), read_queue := r\<rparr>"
    by (simp add: t ts_api_def ts_write_run)
  then show "?T (snd (tr_write (ts_api ref_server_env) p t))" using t by metis
  show "?T (snd (tr_read (ts_api ref_server_env) t))"
    by (auto simp: t ts_api_def transport_read_def split: option.split)
qed

lemma server_writes:
  assumes "ts_out u = ([], x, False, [])"
  shows "\<exists>t. (\<lambda>a b. ts_served ref_server_env ps (j, a) (j, b))\<^sup>*\<^sup>*
      (u\<lparr>ts_pending := Sv_read_header # map Sv_post [p, q], read_queue := r\<rparr>) t \<and> ts_wire t = [p, q]"
proof -
  let ?s = "u\<lparr>read_queue := r\<rparr>"
  let ?t0 = "u\<lparr>ts_pending := Sv_read_header # map Sv_post [p, q], read_queue := r\<rparr>"
  let ?t1 = "?t0\<lparr>ts_pending := [Sv_read_header, Sv_post q, Sv_write (packet_bytes p)], ts_write_packet := p,
    ts_write_in_progress := True, ts_wire := [p]\<rparr>"
  let ?t2 = "?t1\<lparr>ts_pending := [Sv_read_header, Sv_write (packet_bytes p)], write_queue := [q]\<rparr>"
  let ?t3 = "?t2\<lparr>ts_pending := [Sv_read_header, Sv_write (packet_bytes q)], write_queue := [], ts_write_packet := q,
    ts_wire := [p, q], errc := Asio_code Asio_success\<rparr>"
  have u: "write_queue u = []" "ts_wire u = []" "\<not> ts_write_in_progress u" using assms by (auto simp: ts_out_def)
  have "ts_guard ref_server_env (ts_handler ref_server_env (Sv_post p) Asio_success [])
      (?t0\<lparr>ts_pending := [Sv_read_header] @ [Sv_post q]\<rparr>) = (Inr Loop, ?t1)"
    using u by (simp add: ts_guard_def ts_on_post_def prog_run ts_do_write_run ref_server_env_def ref_queue_api_def)
  from ts_served.other [OF _ _ _ this] have 1: "ts_served ref_server_env ps (j, ?t0) (j, ?t1)" by simp
  have "ts_guard ref_server_env (ts_handler ref_server_env (Sv_post q) Asio_success [])
      (?t1\<lparr>ts_pending := [Sv_read_header] @ [Sv_write (packet_bytes p)]\<rparr>) = (Inr Loop, ?t2)"
    using u by (simp add: ts_guard_def ts_on_post_def prog_run ref_server_env_def ref_queue_api_def)
  from ts_served.other [OF _ _ _ this] have 2: "ts_served ref_server_env ps (j, ?t1) (j, ?t2)" by simp
  have "ts_guard ref_server_env (ts_handler ref_server_env (Sv_write (packet_bytes p)) Asio_success [])
      (?t2\<lparr>ts_pending := [Sv_read_header] @ []\<rparr>) = (Inr Loop, ?t3)"
    using u by (simp add: ts_guard_def ts_on_write_def ts_set_errc_def prog_run ts_do_write_run ref_server_env_def
        ref_queue_api_def)
  from ts_served.other [OF _ _ _ this] have 3: "ts_served ref_server_env ps (j, ?t2) (j, ?t3)" by simp
  have "(\<lambda>a b. ts_served ref_server_env ps (j, a) (j, b))\<^sup>*\<^sup>* ?t0 ?t3"
    using 1 2 3 by (meson converse_rtranclp_into_rtranclp r_into_rtranclp)
  then show ?thesis by (intro exI [of _ ?t3]) simp
qed

section \<open>A reference run\<close>

type_synonym ref_server_transport = "(bool, unit, packet list, packet list) tcp_server"

definition ref_server_app :: "(slave_timer ref_queue, slave_event set, ref_server_transport) slave_app_env" where
  "ref_server_app =
     \<lparr>sa_rm = \<lparr>se_mem = replicate 2048 0, se_tq = ref_timeout_queue, se_tr = ts_api ref_server_env\<rparr>,
      sa_evt = ref_event_mngr\<rparr>"

lemma ref_server_app_fields [simp]:
  "se_tr (sa_rm ref_server_app) = ts_api ref_server_env" "storage (se_mem (sa_rm ref_server_app))"
  by (simp_all add: ref_server_app_def storage_def max_size_def)

definition ref_stack where
  "ref_stack = \<lparr>st_host = ref_master_app, st_device = ref_server_app, st_client = ref_client_env, st_server = ref_server_env\<rparr>"

lemma ref_stack_fields [simp]:
  "st_host ref_stack = ref_master_app" "st_device ref_stack = ref_server_app"
  "st_client ref_stack = ref_client_env" "st_server ref_stack = ref_server_env"
  by (simp_all add: ref_stack_def)

definition ref_stack_device :: "(slave_timer ref_queue, slave_event set, ref_server_transport, block list) slave" where
  "ref_stack_device =
     \<lparr>sl_curr = Connected, sl_nb_loop = 1, sl_evt = {},
      sl_rm = \<lparr>sr_timeout_queue = ref_queue_empty, sr_keepalive_id = 0, sr_now = 7, sr_packet_id = 65535,
        sr_keepalive_mngt = True, sr_timeout_keepalive = 30, sr_transport = Some ref_server, sr_running = True\<rparr>,
      sl_slave_id = no_identification, sl_master_id = no_identification, sl_cmd_cb = Some (\<lambda>b u. (Inr (), u @ [b])),
      sl_status_cb = None, sl_received_packet_id = 0, sl_errc = no_error_code, sl_running = True, sl_user = []\<rparr>"

interpretation ref_server_device: linked_device ref_server_app "ts_sent ref_server_env" "ts_received ref_server_env"
  by (intro linked_device.intro linked_device_axioms.intro)
    (use posting_transport.axioms(1) [OF ts_posting [OF ref_server_laws]] in \<open>simp_all\<close>)

lemma ref_stack_laws [simp]: "stack_laws ref_stack"
  by (simp add: stack_laws_def link_laws_def ref_linked_host.linked_host_axioms ref_server_device.linked_device_axioms)

interpretation ref_tcp_stack: tcp_stack ref_stack
  by unfold_locales simp

lemma ref_stack_begun: "stack_begun ref_stack ((ref_host, ref_stack_device), 0, 0)"
proof -
  have "link_begun (stack_link ref_stack) (ref_host, ref_stack_device)"
    using ref_link_begun
    by (simp add: link_begun_def ref_link_def ref_stack_device_def srm_carries_def carries_def ts_sent_def ts_received_def
        ref_server_def ref_server_env_def ref_queue_api_def device_user_def identification_size_def no_identification_def)
  moreover have "mr_transport (ms_rm ref_host) = Some ref_client" by (simp add: ref_host_def ref_rm_def)
  ultimately show ?thesis
    by (simp add: stack_begun_def ref_client_def ref_server_def ref_stack_device_def tc_begun_def storage_def max_size_def)
qed

text \<open>Completions of either transport, one after the other, as steps of the whole.\<close>

lemma device_io_steps:
  assumes "(\<lambda>a b. ts_served (st_server K) (mrm_sent tc_wire (ms_rm m)) (j, a) (j, b))\<^sup>*\<^sup>* t u"
    and "sr_transport (sl_rm d) = Some t"
  shows "(stack_step K)\<^sup>*\<^sup>* ((m, d), i, j) ((m, d\<lparr>sl_rm := (sl_rm d)\<lparr>sr_transport := Some u\<rparr>\<rparr>), i, j)"
  using assms(1)
proof (induction rule: rtranclp_induct)
  case base
  have "d\<lparr>sl_rm := (sl_rm d)\<lparr>sr_transport := Some t\<rparr>\<rparr> = d" using assms(2) by (cases d; cases "sl_rm d") simp
  then show ?case by simp
next
  case (step u v)
  let ?d = "d\<lparr>sl_rm := (sl_rm d)\<lparr>sr_transport := Some u\<rparr>\<rparr>"
  have "stack_step K ((m, ?d), i, j) ((m, ?d\<lparr>sl_rm := (sl_rm ?d)\<lparr>sr_transport := Some v\<rparr>\<rparr>), i, j)"
    by (rule stack_step.device_io [OF _ step.hyps(2)]) simp
  then show ?case using step.IH by (simp add: rtranclp.rtrancl_into_rtrancl)
qed

text \<open>The host's user issues a command, and its bytes go to the wire.\<close>

lemma ref_stack_sends:
  obtains m cmd where "(stack_step ref_stack)\<^sup>*\<^sup>* ((ref_host, d), i, j) ((m, d), i, j)"
    "mr_transport (ms_rm m) = Some (ref_wrote cmd)" "ref_waiting cmd m" "valid_packet cmd" "packet_type cmd = Some Cmd"
    "packet_blocks cmd = [\<lparr>b_type = 5, b_data = [1]\<rparr>]" "packet_id cmd = 1"
proof -
  obtain m cmd t where m: "host_move ref_master_app ref_host m" "mr_transport (ms_rm m) = Some t"
    "tc_sent ref_client_env t = [cmd]" "ref_waiting cmd m" "valid_packet cmd" "packet_type cmd = Some Cmd"
    "packet_blocks cmd = [\<lparr>b_type = 5, b_data = [1]\<rparr>]" "packet_id cmd = 1"
    by (rule ref_host_sends)
  have "\<exists>ps. ref_client = ref_posts ps" by (intro exI [of _ "[]"]) (simp add: ref_posts_def ref_client_def)
  then have "ms_holds (\<lambda>t. \<exists>ps. t = ref_posts ps) ref_host" by (simp add: ref_host_def ref_rm_def)
  from ref_user.host_uses [OF _ m(1) this] m(2) obtain ps where ps: "t = ref_posts ps" by auto
  have "posted (map Post_write ps) = ps" by (induction ps) simp_all
  then have "t = ref_posts [cmd]"
    using m(3) by (simp add: ps tc_sent_def ref_posts_def ref_client_def ref_client_env_def ref_queue_api_def)
  moreover obtain u where u: "tc_served ref_client_env (srm_sent ts_wire (sl_rm d)) (i, ref_posts [cmd]) (i, u)"
    "tc_served ref_client_env (srm_sent ts_wire (sl_rm d)) (i, u) (i, ref_wrote cmd)"
    by (rule ref_writes)
  let ?m = "\<lambda>t. m\<lparr>ms_rm := (ms_rm m)\<lparr>mr_transport := Some t\<rparr>\<rparr>"
  have "stack_step ref_stack ((ref_host, d), i, j) ((m, d), i, j)"
    using m(1) by (intro stack_step.host) (simp_all add: ref_host_def)
  moreover have "stack_step ref_stack ((m, d), i, j) ((?m u, d), i, j)"
    using m(2) u(1) \<open>t = ref_posts [cmd]\<close> by (intro stack_step.host_io) simp_all
  moreover have "stack_step ref_stack ((?m u, d), i, j) ((?m (ref_wrote cmd), d), i, j)"
    using stack_step.host_io [of "?m u" u ref_stack d i i "ref_wrote cmd" j] u(2) by simp
  ultimately have "(stack_step ref_stack)\<^sup>*\<^sup>* ((ref_host, d), i, j) ((?m (ref_wrote cmd), d), i, j)"
    by (meson converse_rtranclp_into_rtranclp r_into_rtranclp)
  then show thesis
    by (rule that [of _ cmd]) (use m(4-8) in \<open>simp_all add: ref_waiting_transport\<close>)
qed

text \<open>The device reads it off the stream and executes it, and its answers go to the wire.\<close>

abbreviation ref_device_over :: "ref_server_transport \<Rightarrow> (slave_timer ref_queue, slave_event set, ref_server_transport, block list) slave" where
  "ref_device_over t \<equiv> ref_stack_device\<lparr>sl_rm := (sl_rm ref_stack_device)\<lparr>sr_transport := Some t\<rparr>\<rparr>"

lemma ref_stack_arrives:
  assumes "mrm_sent tc_wire (ms_rm m) = [cmd]" and "valid_packet cmd"
  obtains t j q where "(stack_step ref_stack)\<^sup>*\<^sup>* ((m, ref_stack_device), i, 0) ((m, ref_device_over t), i, j)"
    "ts_pending t = [Sv_read_header]" "read_queue t = [q]" "ts_socket t" "ts_out t = ([], ts_write_packet ref_server, False, [])"
    "packet_type q = packet_type cmd" "packet_id q = packet_id cmd" "packet_blocks q = packet_blocks cmd"
proof -
  have room: "cq_try_enqueue (ve_read_queue ref_server_env) (read_queue ref_server) x \<noteq> None"
    and R: "queue_laws (ve_read_queue ref_server_env)" for x
    using ref_server_laws by (simp_all add: ref_server_env_def ref_queue_api_def ref_server_def server_laws_def)
  have start: "storage (p_data (ts_read_packet ref_server))" "ts_pending ref_server = [Sv_read_header]"
    "ts_received ref_server_env ref_server = []"
    by (simp_all add: ref_server_def storage_def max_size_def ts_received_def ref_server_env_def ref_queue_api_def)
  obtain t q where t: "(ts_input ref_server_env)\<^sup>*\<^sup>* (packet_bytes cmd @ [], ref_server) ([], t)" "ts_pending t = [Sv_read_header]"
    "ts_received ref_server_env t = [q]" "valid_packet q" "packet_bytes q = packet_bytes cmd" "packet_blocks q = packet_blocks cmd"
    using ts_packet_read [OF assms(2) start(1,2) room R, of "[]"] start(3) by auto
  have s: "drop 0 (stream (mrm_sent tc_wire (ms_rm m))) = packet_bytes cmd @ []" by (simp add: assms(1) stream_def)
  have "sr_transport (sl_rm ref_stack_device) = Some ref_server" by (simp add: ref_stack_device_def)
  from ts_inputs_stacked [of ref_stack, unfolded ref_stack_fields, OF t(1) [folded s] _ this]
  obtain j where "(stack_step ref_stack)\<^sup>*\<^sup>* ((m, ref_stack_device), i, 0) ((m, ref_device_over t), i, j)" by blast
  moreover have "ts_socket t" "ts_out t = ([], ts_write_packet ref_server, False, [])"
    using ts_inputs_keep [OF t(1)] by (simp_all add: ts_kept_def ts_out_def ref_server_def)
  moreover have "read_queue t = [q]" using t(3) by (simp add: ts_received_def ref_server_env_def ref_queue_api_def)
  ultimately show thesis using that t(2,6) same_bytes_header [OF assms(2) t(4,5)] by blast
qed

lemma ref_device_answers:
  assumes t: "ts_pending t = [Sv_read_header]" "read_queue t = [q]" "ts_socket t" "ts_out t = ([], w, False, [])"
    and q: "packet_type q = Some Cmd" "packet_blocks q = [b]"
  obtains d k a r where "device_move ref_server_app (ref_device_over t) d" "sl_user d = [b]"
    "sr_transport (sl_rm d) = Some (t\<lparr>ts_pending := Sv_read_header # map Sv_post [k, a], read_queue := r\<rparr>)"
    "valid_packet k" "valid_packet a" "packet_type k = Some Ka_ack" "packet_type a = Some Cmd_ack"
    "packet_blocks a = [\<lparr>b_type = b_type b, b_data = u16_le (packet_id q)\<rparr>]"
proof -
  let ?d = "ref_device_over t"
  let ?s = "?d\<lparr>sl_nb_loop := sl_nb_loop ?d + 1\<rparr>" and ?t = "t\<lparr>read_queue := []\<rparr>"
  have op: "tr_is_open (se_tr (sa_rm ref_server_app)) ?t"
    using t(3) by (simp add: ts_api_def ts_is_open_def ref_server_env_def ref_socket_def)
  have rd: "sl_reads ref_server_app ?s q ?t"
    using t(2) by (simp add: sl_reads_def ts_api_def transport_read_def ref_server_env_def ref_queue_api_def)
  have none: "srm_sent (ts_sent ref_server_env) (sl_rm ?s) = []"
    using t(1,4) by (simp add: srm_sent_def ts_sent_def ts_out_def ref_server_env_def ref_queue_api_def)
  have cb: "sl_cmd_cb ?s = Some (\<lambda>b u. (Inr (), u @ [b]))" "sl_user ?s = []" by (simp_all add: ref_stack_device_def)
  obtain d k a where d: "sl_handler_connected ref_server_app ?s = (Inr Stay_curr_state, d)" "sl_user d = [b]"
    "srm_sent (ts_sent ref_server_env) (sl_rm d) = [k, a]" "valid_packet k" "valid_packet a" "packet_type k = Some Ka_ack"
    "packet_type a = Some Cmd_ack" "packet_blocks a = [\<lparr>b_type = b_type b, b_data = u16_le (packet_id q)\<rparr>]"
    using slave_answers_run [OF ts_posting [OF ref_server_laws, folded ref_server_app_fields(1)] ref_server_app_fields(2) rd op q cb(1)]
      cb(2) none by auto
  have move: "device_move ref_server_app ?d d"
    by (rule device_move.pass [where r = "Inr ()"])
      (use d(1) in \<open>simp_all add: ref_stack_device_def sl_catch_def run_catchE run_bindE run_retE\<close>)
  let ?T = "\<lambda>x. \<exists>ps r. x = t\<lparr>ts_pending := Sv_read_header # map Sv_post ps, read_queue := r\<rparr>"
  have "t = t\<lparr>ts_pending := Sv_read_header # map Sv_post [], read_queue := read_queue t\<rparr>" using t(1) by simp
  then have "?T t" by blast
  moreover have "sr_transport (sl_rm ?d) = Some t" by simp
  ultimately have "sl_holds ?T ?d" by (simp only: tr_holds_Some)
  from used_transport.device_uses [OF server_posts _ move this] obtain x ps r
    where x: "sr_transport (sl_rm d) = Some x" "x = t\<lparr>ts_pending := Sv_read_header # map Sv_post ps, read_queue := r\<rparr>"
    by (auto elim: tr_holdsE)
  have "server_posted (map Sv_post ps) = ps" by (induction ps) simp_all
  then have "ps = [k, a]"
    using d(3) t(4) by (simp add: x srm_sent_def ts_sent_def ts_out_def ref_server_env_def ref_queue_api_def)
  then show thesis using that move d x by blast
qed

lemma ref_stack_executes:
  assumes "mrm_sent tc_wire (ms_rm m) = [cmd]" and "valid_packet cmd" and "packet_type cmd = Some Cmd"
    and "packet_blocks cmd = [b]"
  obtains d j k a where "(stack_step ref_stack)\<^sup>*\<^sup>* ((m, ref_stack_device), i, 0) ((m, d), i, j)" "sl_user d = [b]"
    "srm_sent ts_wire (sl_rm d) = [k, a]" "valid_packet k" "valid_packet a" "packet_type k = Some Ka_ack"
    "packet_type a = Some Cmd_ack" "packet_blocks a = [\<lparr>b_type = b_type b, b_data = u16_le (packet_id cmd)\<rparr>]"
proof -
  obtain t j q where t: "(stack_step ref_stack)\<^sup>*\<^sup>* ((m, ref_stack_device), i, 0) ((m, ref_device_over t), i, j)"
    "ts_pending t = [Sv_read_header]" "read_queue t = [q]" "ts_socket t" "ts_out t = ([], ts_write_packet ref_server, False, [])"
    "packet_type q = packet_type cmd" "packet_id q = packet_id cmd" "packet_blocks q = packet_blocks cmd"
    by (rule ref_stack_arrives [OF assms(1,2)])
  obtain d k a r where d: "device_move ref_server_app (ref_device_over t) d" "sl_user d = [b]"
    "sr_transport (sl_rm d) = Some (t\<lparr>ts_pending := Sv_read_header # map Sv_post [k, a], read_queue := r\<rparr>)"
    "valid_packet k" "valid_packet a" "packet_type k = Some Ka_ack" "packet_type a = Some Cmd_ack"
    "packet_blocks a = [\<lparr>b_type = b_type b, b_data = u16_le (packet_id q)\<rparr>]"
    by (rule ref_device_answers [OF t(2-5) t(6) [unfolded assms(3)] t(8) [unfolded assms(4)]])
  obtain y where y: "(\<lambda>a b. ts_served ref_server_env (mrm_sent tc_wire (ms_rm m)) (j, a) (j, b))\<^sup>*\<^sup>*
      (t\<lparr>ts_pending := Sv_read_header # map Sv_post [k, a], read_queue := r\<rparr>) y" "ts_wire y = [k, a]"
    using server_writes [OF t(5)] by blast
  let ?e = "d\<lparr>sl_rm := (sl_rm d)\<lparr>sr_transport := Some y\<rparr>\<rparr>"
  have "stack_step ref_stack ((m, ref_device_over t), i, j) ((m, d), i, j)" using d(1) by (intro stack_step.device) simp
  moreover have "(stack_step ref_stack)\<^sup>*\<^sup>* ((m, d), i, j) ((m, ?e), i, j)"
    using device_io_steps [of ref_stack, unfolded ref_stack_fields, OF y(1) d(3)] .
  ultimately have "(stack_step ref_stack)\<^sup>*\<^sup>* ((m, ref_stack_device), i, 0) ((m, ?e), i, j)"
    using t(1) by (meson converse_rtranclp_into_rtranclp rtranclp_trans)
  then show thesis by (rule that) (use d(2,4-8) y(2) t(7) in \<open>simp_all add: srm_sent_def\<close>)
qed

text \<open>The host reads the answers off the other stream, and reports the command.\<close>

lemma ref_stack_reports:
  assumes m: "mr_transport (ms_rm m) = Some (ref_wrote cmd)" "ref_waiting cmd m"
    and d: "srm_sent ts_wire (sl_rm d) = [k, a]" "valid_packet k" "valid_packet a" "packet_type k = Some Ka_ack"
    "packet_type a = Some Cmd_ack" "packet_blocks a = [\<lparr>b_type = n, b_data = u16_le (packet_id cmd)\<rparr>]"
  obtains m' i where "(stack_step ref_stack)\<^sup>*\<^sup>* ((m, d), 0, j) ((m', d), i, j)"
    "fulfilled (mr_user (ms_rm m')) = [(packet_id cmd, hd (packet_blocks cmd))]"
proof -
  have ready: "tc_ready (ref_wrote cmd)" "tc_received ref_client_env (ref_wrote cmd) = []"
    by (simp_all add: tc_ready_def tc_received_def ref_wrote_def ref_client_def ref_client_env_def ref_queue_api_def
        storage_def max_size_def)
  obtain t qs where t: "(tc_input ref_client_env)\<^sup>*\<^sup>* (concat (map packet_bytes [k, a]) @ [], ref_wrote cmd) ([], t)"
    "tc_received ref_client_env t = qs" "list_all valid_packet qs" "map packet_bytes qs = map packet_bytes [k, a]"
    "map packet_blocks qs = map packet_blocks [k, a]"
    using ref_client_stream.read_all [of "[k, a]" "ref_wrote cmd" "[]"] ready d(2,3) by auto
  then obtain q1 q2 where q: "qs = [q1, q2]" "valid_packet q1" "valid_packet q2" "packet_bytes q1 = packet_bytes k"
    "packet_bytes q2 = packet_bytes a" "packet_blocks q2 = packet_blocks a" by (auto simp: map_eq_Cons_conv)
  have types: "packet_type q1 = Some Ka_ack" "packet_type q2 = Some Cmd_ack" "acked_id q2 = Inr (packet_id cmd)"
    using same_bytes_header(1) [OF d(2) q(2,4)] same_bytes_header(1) [OF d(3) q(3,5)] d(4-6) q(6) by (simp_all add: acked_by)
  have queue: "read_queue t = [q1, q2]"
    using t(2) q(1) by (simp add: tc_received_def ref_client_env_def ref_queue_api_def)
  have s: "concat (map packet_bytes [k, a]) @ [] = drop 0 (stream (srm_sent ts_wire (sl_rm d)))"
    by (simp add: d(1) stream_def)
  from tc_inputs_stacked [of ref_stack, unfolded ref_stack_fields, OF t(1) [unfolded s] _ m(1)]
  obtain i where i: "(stack_step ref_stack)\<^sup>*\<^sup>* ((m, d), 0, j) ((m\<lparr>ms_rm := (ms_rm m)\<lparr>mr_transport := Some t\<rparr>\<rparr>, d), i, j)"
    by blast
  let ?m = "m\<lparr>ms_rm := (ms_rm m)\<lparr>mr_transport := Some t\<rparr>\<rparr>"
  have w: "ref_waiting cmd ?m" using m(2) by (simp add: ref_waiting_transport)
  obtain m1 where m1: "host_move ref_master_app ?m m1" "ref_waiting cmd m1"
    "mr_transport (ms_rm m1) = Some (t\<lparr>read_queue := [q2]\<rparr>)"
    by (rule ref_host_keepalive [OF w, of t q1 "[q2]"]) (simp_all add: queue types(1))
  obtain m2 where m2: "host_move ref_master_app m1 m2"
    "fulfilled (mr_user (ms_rm m2)) = [(packet_id cmd, hd (packet_blocks cmd))]"
    by (rule ref_host_report [OF m1(2,3), of q2 "[]"]) (simp_all add: types(2,3))
  have "stack_step ref_stack ((?m, d), i, j) ((m1, d), i, j)" "stack_step ref_stack ((m1, d), i, j) ((m2, d), i, j)"
    using m1(1,2) m2(1) w by (auto intro!: stack_step.host simp: ref_waiting_def)
  with i have "(stack_step ref_stack)\<^sup>*\<^sup>* ((m, d), 0, j) ((m2, d), i, j)" by (meson rtranclp.rtrancl_into_rtrancl)
  then show thesis using m2(2) by (rule that)
qed

lemma ref_stack_run:
  obtains m d i j where "reach (stack_begun ref_stack) (stack_step ref_stack) ((m, d), i, j)"
    "sl_user d = [\<lparr>b_type = 5, b_data = [1]\<rparr>]" "fulfilled (mr_user (ms_rm m)) = [(1, \<lparr>b_type = 5, b_data = [1]\<rparr>)]"
proof -
  obtain m cmd where m: "(stack_step ref_stack)\<^sup>*\<^sup>* ((ref_host, ref_stack_device), 0, 0) ((m, ref_stack_device), 0, 0)"
    "mr_transport (ms_rm m) = Some (ref_wrote cmd)" "ref_waiting cmd m" "valid_packet cmd" "packet_type cmd = Some Cmd"
    "packet_blocks cmd = [\<lparr>b_type = 5, b_data = [1]\<rparr>]" "packet_id cmd = 1"
    by (rule ref_stack_sends)
  have wire: "mrm_sent tc_wire (ms_rm m) = [cmd]" using m(2) by (simp add: mrm_sent_def ref_wrote_def)
  obtain d j k a where d: "(stack_step ref_stack)\<^sup>*\<^sup>* ((m, ref_stack_device), 0, 0) ((m, d), 0, j)"
    "sl_user d = [\<lparr>b_type = 5, b_data = [1]\<rparr>]" "srm_sent ts_wire (sl_rm d) = [k, a]" "valid_packet k" "valid_packet a"
    "packet_type k = Some Ka_ack" "packet_type a = Some Cmd_ack"
    "packet_blocks a = [\<lparr>b_type = b_type \<lparr>b_type = 5, b_data = [1]\<rparr>, b_data = u16_le (packet_id cmd)\<rparr>]"
    by (rule ref_stack_executes [OF wire m(4-6)])
  obtain m' i where m': "(stack_step ref_stack)\<^sup>*\<^sup>* ((m, d), 0, j) ((m', d), i, j)"
    "fulfilled (mr_user (ms_rm m')) = [(packet_id cmd, hd (packet_blocks cmd))]"
    by (rule ref_stack_reports [OF m(2,3) d(3-8)])
  have "reach (stack_begun ref_stack) (stack_step ref_stack) ((ref_host, ref_stack_device), 0, 0)"
    by (rule reach_init) (rule ref_stack_begun)
  then have "reach (stack_begun ref_stack) (stack_step ref_stack) ((m', d), i, j)"
    by (rule reach_steps) (rule rtranclp_trans [OF m(1) rtranclp_trans [OF d(1) m'(1)]])
  then show thesis using d(2) by (rule that) (simp add: m'(2) m(6,7))
qed

section \<open>Properties\<close>

text \<open>
  C9: Over TCP, with bytes instead of packets, the link is what is left: whatever the order in
  which the applications move and the I/O contexts complete operations, and however the bytes are
  cut into reads that succeed or fail, the two applications are in a state that the link reaches.
  Either transport stands at the end of a packet of the other's stream, or behind its header with
  just the read of its payload outstanding: no packet is ever split, joined or read twice.
\<close>

theorem stack_refines_link:
  assumes "stack_laws K" and "reach (stack_begun K) (stack_step K) ((m, d), i, j)"
  shows "reach (link_begun (stack_link K)) (link_step (stack_link K)) (m, d)
    \<and> (\<exists>t. mr_transport (ms_rm m) = Some t \<and> tc_at (srm_sent ts_wire (sl_rm d)) i t)
    \<and> (\<exists>u. sr_transport (sl_rm d) = Some u \<and> ts_at (mrm_sent tc_wire (ms_rm m)) j u)"
proof -
  have "tcp_stack K" using assms(1) by unfold_locales
  from tcp_stack.stack_reaches [OF this assms(2)] show ?thesis
    by (auto simp: stack_inv_def elim!: tr_holdsE)
qed

theorem stack_refines_link_witness:
  "\<exists>m d. reach (link_begun (stack_link ref_stack)) (link_step (stack_link ref_stack)) (m, d)
     \<and> fulfilled (mr_user (ms_rm m)) = [(1, \<lparr>b_type = 5, b_data = [1]\<rparr>)] \<and> sl_user d = [\<lparr>b_type = 5, b_data = [1]\<rparr>]"
proof -
  obtain m d i j where run: "reach (stack_begun ref_stack) (stack_step ref_stack) ((m, d), i, j)"
    "sl_user d = [\<lparr>b_type = 5, b_data = [1]\<rparr>]" "fulfilled (mr_user (ms_rm m)) = [(1, \<lparr>b_type = 5, b_data = [1]\<rparr>)]"
    by (rule ref_stack_run)
  from stack_refines_link [OF ref_stack_laws run(1)] run(2,3) show ?thesis by blast
qed



end
