(* ===== verification/Master_Events.thy ===== *)
theory Master_Events
  imports Master_Properties
begin

text \<open>
  Events of the host that outlive the connection they belong to. Only the state \<open>Init\<close> clears
  the event manager; a timeout that is noticed too late waits for the next connection.
\<close>

section \<open>What keeps an event\<close>

definition ms_has ::
  "('q, 'm, 'tr, 'c, 'cb, 'u) master_app_env \<Rightarrow> master_event \<Rightarrow> ('q, 'm, 'tr, 'c, 'u) master \<Rightarrow> bool" where
  "ms_has E e s \<longleftrightarrow> e \<in> em_events (ma_evt E) (ms_evt s)"

lemma has_frame [simp]:
  "ms_has E e (s\<lparr>ms_rm := x\<rparr>) = ms_has E e s" "ms_has E e (s\<lparr>ms_curr := c\<rparr>) = ms_has E e s"
  "ms_has E e (s\<lparr>ms_nb_loop := n\<rparr>) = ms_has E e s" "ms_has E e (s\<lparr>ms_running := b\<rparr>) = ms_has E e s"
  "ms_has E e (s\<lparr>ms_slave_id := i\<rparr>) = ms_has E e s" "ms_has E e (s\<lparr>ms_errc := k\<rparr>) = ms_has E e s"
  "ms_has E e (s\<lparr>ms_received_packet_id := p\<rparr>) = ms_has E e s"
  "ms_has E e (s\<lparr>ms_connection_attempts := a\<rparr>) = ms_has E e s"
  by (simp_all add: ms_has_def)

lemma has_on_rm [hoare]: "preserves (ms_has E e) (ms_on_rm m)"
  by (rule preservesI) (simp add: ms_on_rm_run split: prod.split)

lemma has_on_transport [hoare]: "preserves (ms_has E e) (ms_on_transport m)"
  unfolding ms_on_transport_def by (rule has_on_rm)

lemma has_on_user [hoare]: "preserves (ms_has E e) (ms_on_user m)"
  unfolding ms_on_user_def by (rule has_on_rm)

lemma has_read [hoare]: "preserves (ms_has E e) (ms_read E')"
  unfolding ms_read_def by (rule has_on_transport)

lemma has_clear [hoare]: "preserves (ms_has E e) (ms_clear_queues E')"
  unfolding ms_clear_queues_def by (rule has_on_transport)

lemma has_set_slave_id [hoare]: "preserves (ms_has E e) (ms_set_slave_id p)"
  by (rule preservesI) (simp add: ms_set_slave_id_run)

context master_library
begin

lemma events: "event_mngr_laws (ma_evt E)"
  using library by (simp add: master_app_laws_def)

lemma has_notify [hoare]: "preserves (ms_has E e) (ms_notify E d)"
  by (rule preservesI) (simp add: ms_notify_run ms_has_def events)

lemma has_erase: "d \<noteq> e \<Longrightarrow> preserves (ms_has E e) (ms_erase E d)"
  by (rule preservesI) (simp add: ms_erase_run ms_has_def events)

lemma has_goto_if: "d \<noteq> e \<Longrightarrow> (\<And>s. ms_has E e s \<Longrightarrow> ms_has E e (f s)) \<Longrightarrow> preserves (ms_has E e) (ms_goto_if E d f)"
  by (rule preservesI) (simp add: ms_goto_if_run ms_has_def events Let_def)

text \<open>Neither \<open>Disconnected\<close> nor \<open>Connecting\<close> uses a keep-alive timeout or a request to disconnect.\<close>

lemma has_handler:
  assumes c: "c = Disconnected \<or> c = Connecting" and e: "e = Master_ka_timeout \<or> e = Disconnection_requested"
  shows "preserves (ms_has E e) (ms_handler E c)"
proof -
  have wait: "preserves (ms_has E e) (modifyE (\<lambda>s. s\<lparr>ms_evt := em_wait (ma_evt E) (ms_evt s)\<rparr>))"
    by (rule preserves_modifyE) (simp add: ms_has_def em_wait_law [OF events])
  have due: "preserves (ms_has E e) (ms_attempt_due E)"
    unfolding ms_attempt_due_def using e by (intro hoare has_erase) auto
  have erase: "preserves (ms_has E e) (ms_erase E Dip_received)"
    using e by (intro has_erase) auto
  have "preserves (ms_has E e) (ms_handler_disconnected E)"
    unfolding ms_handler_disconnected_def by (intro hoare wait) simp_all
  moreover have "preserves (ms_has E e) (ms_handler_connecting E)"
    unfolding ms_handler_connecting_def
    by (intro hoare erase due) (auto intro!: hoare split: option.split packet_type.split)
  ultimately show ?thesis using c by auto
qed

lemma has_check:
  assumes c: "c = Disconnected \<or> c = Connecting" and e: "e = Master_ka_timeout \<or> e = Disconnection_requested"
    and check: "(d, check) \<in> set (ms_checks E c)"
  shows "preserves (ms_has E e) check"
proof -
  have "preserves (ms_has E e) (ms_check_connection_requested E)" "preserves (ms_has E e) (ms_check_connected E)"
    unfolding ms_check_connection_requested_def ms_check_connected_def using e by (intro has_goto_if; auto)+
  moreover have "preserves (ms_has E e) (ms_check_transport_closed E)"
    unfolding ms_check_transport_closed_def by (intro hoare) simp_all
  moreover have "preserves (ms_has E e) (ms_check_dip_timeout E)"
    unfolding ms_check_dip_timeout_def using e by (intro hoare has_erase) auto
  ultimately show ?thesis using c check by auto
qed

lemma has_catch: "preserves (ms_has E e) m \<Longrightarrow> preserves (ms_has E e) (ms_catch m)"
  unfolding ms_catch_def by (intro hoare) (auto intro!: hoare split: option.split)

lemma has_step:
  assumes step: "ms_step E s s'" and c: "ms_curr s = Disconnected \<or> ms_curr s = Connecting"
    and e: "e = Master_ka_timeout \<or> e = Disconnection_requested" and has: "ms_has E e s"
  shows "ms_has E e s'"
  using step
proof cases
  case pass
  have "preserves (ms_has E e) (ms_catch (bindE (ms_handler E (ms_curr s)) (\<lambda>_. retE ())))"
    using has_handler [OF c e] by (intro has_catch hoare)
  from preserves_run [OF this _ pass(2)] has show ?thesis by simp
next
  case (stay d check)
  from preserves_run [OF has_check [OF c e stay(3)] has stay(4)] show ?thesis .
next
  case (goto d check s1)
  have "ms_has E e s1" using preserves_run [OF has_check [OF c e goto(3)] has goto(4)] .
  then have s1: "ms_has E e (s1\<lparr>ms_curr := d, ms_nb_loop := 0\<rparr>)" by simp
  have "preserves (ms_has E e) (ms_catch (ms_transition_handler E (ms_curr s) d))"
    unfolding ms_transition_handler_def
    by (intro has_catch hoare) (auto intro!: hoare split: option.split)
  from preserves_run [OF this s1 goto(5)] show ?thesis .
next
  case (timer i t r)
  have "preserves (ms_has E e) (ms_timer E i (t_callback t))"
    by (cases "t_callback t")
      (auto intro!: hoare simp: mrm_ka_timeout_cb_def mrm_dip_timeout_cb_def ms_timeout_cb_def)
  then have "preserves (ms_has E e) (bindE (ms_on_rm (mrm_fire (ma_rm E) i)) (\<lambda>_. ms_timer E i (t_callback t)))"
    by (intro hoare)
  from preserves_run [OF this has timer(3)] show ?thesis .
next
  case (tick r)
  from preserves_run [OF has_on_rm has tick] show ?thesis .
next
  case (transport t)
  then show ?thesis using has by simp
next
  case (send_command type data cb r)
  have "preserves (ms_has E e) (ms_send_command E type data cb)"
    unfolding ms_send_command_def by (intro hoare)
  from preserves_run [OF this has send_command] show ?thesis .
next
  case (async_connect r)
  have "preserves (ms_has E e) (ms_async_connect E)" unfolding ms_async_connect_def by (intro hoare)
  from preserves_run [OF this has async_connect] show ?thesis .
next
  case (async_disconnect r)
  have "preserves (ms_has E e) (ms_async_disconnect E)" unfolding ms_async_disconnect_def by (intro hoare)
  from preserves_run [OF this has async_disconnect] show ?thesis .
next
  case (connect_begin b)
  have "preserves (ms_has E e) (ms_connect_begin E)" unfolding ms_connect_begin_def by (intro hoare)
  from preserves_run [OF this has connect_begin] show ?thesis .
next
  case (connect_end r)
  have "preserves (ms_has E e) (ms_connect_end E)"
    unfolding ms_connect_end_def using e
    by (intro hoare has_erase) (auto simp: ms_has_def em_wait_for_keeps [OF events])
  from preserves_run [OF this has connect_end] show ?thesis .
next
  case (start r)
  have "preserves (ms_has E e) (ms_start E)" unfolding ms_start_def by (intro hoare) simp_all
  from preserves_run [OF this has start] show ?thesis .
next
  case (stop r)
  have "preserves (ms_has E e) (ms_stop E)" unfolding ms_stop_def by (intro hoare) simp_all
  from preserves_run [OF this has stop] show ?thesis .
qed

lemma has_steps:
  assumes "(\<lambda>x y. ms_step E x y \<and> (ms_curr x = Disconnected \<or> ms_curr x = Connecting))\<^sup>*\<^sup>* s s'"
    and "e = Master_ka_timeout \<or> e = Disconnection_requested" and "ms_has E e s"
  shows "ms_has E e s'"
  using assms(1,3) by (induction rule: rtranclp_induct) (use has_step assms(2) in blast)+

end

section \<open>Properties\<close>



end
