(* ===== verification/Threads.thy ===== *)
theory Threads
  imports Tcp_Client_Laws Tcp_Server_Laws Usb_Device_Laws
begin

text \<open>
  The functions the transports' threads execute, \<^verbatim>\<open>tcp::Client::run\<close>, \<^verbatim>\<open>tcp::Server::run\<close> and
  \<^verbatim>\<open>usb::Device::run\<close>, from beginning to end, over everything that may happen meanwhile; and the
  destructors.
\<close>

text \<open>\<open>m\<close>, and the exception it ends with, if any.\<close>

definition attemptE :: "('s, 'e, unit) prog \<Rightarrow> ('s, 'e, 'e option) prog" where
  "attemptE m = catchE (bindE m (\<lambda>_. retE None)) (\<lambda>e. retE (Some e))"

lemma run_attemptE [prog_run]:
  "attemptE m s = (case m s of (Inl e, t) \<Rightarrow> (Inr (Some e), t) | (Inr u, t) \<Rightarrow> (Inr None, t))"
  by (simp add: attemptE_def run_catchE run_bindE run_retE split: prod.split sum.split)

lemma attempt_then: "bindE (attemptE m) (\<lambda>_. n) s = n (snd (m s))"
  by (simp add: run_bindE run_attemptE split: prod.split sum.split)

section \<open>The client\<close>

text \<open>
  While the thread runs: a user thread writes or stops the transport (an exception is the
  user's), or the operation at some place among those outstanding completes. Posted functions
  complete in the order they were posted; a completion that names nothing does not happen.
\<close>

datatype io_event = User_write packet | User_stop | Completes nat asio_ec bytes

definition completes :: "'op list \<Rightarrow> ('op \<Rightarrow> bool) \<Rightarrow> nat \<Rightarrow> bool" where
  "completes ops is_post k \<longleftrightarrow> k < length ops \<and> (is_post (ops ! k) \<longrightarrow> list_all (\<lambda>op. \<not> is_post op) (take k ops))"

fun is_post_write :: "io_op \<Rightarrow> bool" where
  "is_post_write (Post_write p) = True"
| "is_post_write _ = False"

definition tc_complete ::
  "('k, 'w, 'r) client_env \<Rightarrow> nat \<Rightarrow> asio_ec \<Rightarrow> bytes \<Rightarrow> (('k, 'w, 'r) tcp_client, unit) stmt" where
  "tc_complete E k ec v = withE (\<lambda>s.
     whenE (completes (tc_pending s) is_post_write k)
       (bindE (modifyE (\<lambda>s. s\<lparr>tc_pending := take k (tc_pending s) @ drop (Suc k) (tc_pending s)\<rparr>)) (\<lambda>_.
        tc_handler E (tc_pending s ! k) ec v)))"

text \<open>
  \<^verbatim>\<open>io_context_.run()\<close> goes on while handlers return; an exception goes to the \<^verbatim>\<open>catch\<close> clauses, and
  when these do not leave the loop, its condition is tested. Without events, nothing is
  outstanding any more and it returns.
\<close>

fun tc_turns :: "('k, 'w, 'r) client_env \<Rightarrow> io_event list \<Rightarrow> (('k, 'w, 'r) tcp_client, unit) stmt" where
  "tc_turns E [] = retE ()"
| "tc_turns E (User_write p # es) = bindE (attemptE (tc_write E p)) (\<lambda>_. tc_turns E es)"
| "tc_turns E (User_stop # es) = bindE (attemptE (tc_stop E)) (\<lambda>_. tc_turns E es)"
| "tc_turns E (Completes k ec v # es) =
     bindE (attemptE (tc_complete E k ec v)) (\<lambda>x.
       case x of
         None \<Rightarrow> tc_turns E es
       | Some e \<Rightarrow> bindE (tc_guard E (throwE e)) (\<lambda>l.
           case l of Leave \<Rightarrow> retE () | Loop \<Rightarrow> withE (\<lambda>s. whenE (tc_running s) (tc_turns E es))))"

definition tc_run :: "('k, 'w, 'r) client_env \<Rightarrow> io_event list \<Rightarrow> (('k, 'w, 'r) tcp_client, unit) stmt" where
  "tc_run E es = catchE
     (bindE tc_run_start (\<lambda>_. withE (\<lambda>s. whenE (tc_running s) (tc_turns E es))))
     (\<lambda>e. if e = Undefined_behaviour then throwE e else retE ())"

section \<open>The server\<close>

fun is_server_post :: "server_op \<Rightarrow> bool" where
  "is_server_post (Sv_post p) = True"
| "is_server_post _ = False"

definition ts_complete ::
  "('k, 'a, 'w, 'r) server_env \<Rightarrow> nat \<Rightarrow> asio_ec \<Rightarrow> bytes \<Rightarrow> (('k, 'a, 'w, 'r) tcp_server, unit) stmt" where
  "ts_complete E k ec v = withE (\<lambda>s.
     whenE (completes (ts_pending s) is_server_post k)
       (bindE (modifyE (\<lambda>s. s\<lparr>ts_pending := take k (ts_pending s) @ drop (Suc k) (ts_pending s)\<rparr>)) (\<lambda>_.
        ts_handler E (ts_pending s ! k) ec v)))"

fun ts_turns :: "('k, 'a, 'w, 'r) server_env \<Rightarrow> io_event list \<Rightarrow> (('k, 'a, 'w, 'r) tcp_server, unit) stmt" where
  "ts_turns E [] = retE ()"
| "ts_turns E (User_write p # es) = bindE (attemptE (ts_write E p)) (\<lambda>_. ts_turns E es)"
| "ts_turns E (User_stop # es) = bindE (attemptE (ts_stop E)) (\<lambda>_. ts_turns E es)"
| "ts_turns E (Completes k ec v # es) =
     bindE (attemptE (ts_complete E k ec v)) (\<lambda>x.
       case x of
         None \<Rightarrow> ts_turns E es
       | Some e \<Rightarrow> bindE (ts_guard E (throwE e)) (\<lambda>l.
           case l of Leave \<Rightarrow> retE () | Loop \<Rightarrow> withE (\<lambda>s. whenE (ts_running s) (ts_turns E es))))"

definition ts_run :: "('k, 'a, 'w, 'r) server_env \<Rightarrow> io_event list \<Rightarrow> (('k, 'a, 'w, 'r) tcp_server, unit) stmt" where
  "ts_run E es = catchE (withE (\<lambda>s. whenE (ts_running s) (ts_turns E es)))
     (\<lambda>e. if e = Undefined_behaviour then throwE e else retE ())"

section \<open>The USB device\<close>

text \<open>The turns of the loop; the run flag is cleared behind the last one.\<close>

fun ud_loop :: "('l, 'w, 'r) usb_env \<Rightarrow> usb_event list list \<Rightarrow> (('l, 'w, 'r) usb_device, unit) stmt" where
  "ud_loop E [] = retE ()"
| "ud_loop E (es # ess) = withE (\<lambda>s. whenE (ud_running s)
     (bindE (ud_turn E es) (\<lambda>l. case l of Go_on \<Rightarrow> ud_loop E ess | Break_loop \<Rightarrow> retE ())))"

definition ud_run :: "('l, 'w, 'r) usb_env \<Rightarrow> usb_event list list \<Rightarrow> (('l, 'w, 'r) usb_device, unit) stmt" where
  "ud_run E ess = ud_outer
     (blockE [withE (\<lambda>s. ud_submit_read E (ud_rtransfer_curr s)), ud_loop E ess, ud_close E])"

section \<open>Destructors\<close>

text \<open>A destructor that throws ends the program: the run has no continuation.\<close>

definition destroy :: "('s, unit) stmt \<Rightarrow> ('s, unit) stmt" where
  "destroy m = catchE m (\<lambda>_. throwE Undefined_behaviour)"

definition tc_destroy :: "('k, 'w, 'r) client_env \<Rightarrow> (('k, 'w, 'r) tcp_client, unit) stmt" where
  "tc_destroy E = destroy (tc_stop E)"

definition ts_destroy :: "('k, 'a, 'w, 'r) server_env \<Rightarrow> (('k, 'a, 'w, 'r) tcp_server, unit) stmt" where
  "ts_destroy E = destroy (ts_stop E)"

definition ud_destroy :: "('l, 'w, 'r) usb_env \<Rightarrow> (('l, 'w, 'r) usb_device, unit) stmt" where
  "ud_destroy E = destroy (blockE [ud_stop_call E, modifyE (\<lambda>s. s\<lparr>ud_usb := lu_exit (ue_usb E) (ud_usb s)\<rparr>)])"

section \<open>The client's thread\<close>

text \<open>What the exceptions of the codec are.\<close>

lemma parse_header_exn: "parse_header p = Inl e \<Longrightarrow> \<exists>c. e = Packet_error c"
  by (auto simp: parse_header_def parse_header_view_def Let_def split: if_splits)

lemma parse_payload_exn:
  "parse_payload p = Inl e \<Longrightarrow> header_size + payload_len p \<le> max_size \<Longrightarrow> \<exists>c. e = Packet_error c"
  by (auto simp: parse_payload_def parse_payload_view_def split: if_splits)

lemma payload_len_fill:
  "storage (p_data p) \<Longrightarrow> payload_len (fill_payload n v p) = payload_len p"
  by (simp add: payload_len_def p_header_def fill_payload_def overwrite_def read_header_def storage_def format_sizes
      nth_append)

text \<open>A payload that is being read was announced by the header that is in the packet.\<close>

definition tc_fits :: "('k, 'w, 'r) tcp_client \<Rightarrow> bool" where
  "tc_fits s \<longleftrightarrow> (\<forall>n. Read_payload n \<in> set (tc_pending s) \<longrightarrow> header_size + payload_len (tc_read_packet s) \<le> max_size)"

lemma tc_fits_frame: "tc_io s' = tc_io s \<Longrightarrow> tc_read_packet s' = tc_read_packet s \<Longrightarrow> tc_fits s' = tc_fits s"
  by (simp add: tc_fits_def tc_io_eq)

lemma tc_on_header_fits:
  assumes K: "socket_laws (ce_socket E)" and st: "storage (p_data (tc_read_packet s))"
    and none: "filter is_read (tc_pending s) = []" and run: "tc_on_header E ec s = (r, s')"
  shows "r \<noteq> Inl Undefined_behaviour \<and> tc_fits s'"
proof -
  have no: "Read_payload n \<notin> set (tc_pending s)" for n
    using none by (auto simp: filter_empty_conv)
  have len: "header_size \<le> length (p_data (tc_read_packet s))"
    using st by (simp add: storage_def format_sizes)
  obtain r1 s1 where c: "tc_close E (s\<lparr>errc := Asio_code Asio_eof\<rparr>) = (r1, s1)" by fastforce
  show ?thesis
  proof (cases ec)
    case Asio_success
    then show ?thesis
      using run no parse_header_exn parse_header_fits [OF _ len]
      by (auto simp: tc_on_header_def tc_set_errc_def tc_read_payload_def tc_start_op_def prog_run tc_fits_def
          split: sum.splits)
  qed (use run no c tc_close_frame [OF K c] in
      \<open>auto simp: tc_on_header_def tc_set_errc_def prog_run tc_fits_def tc_io_eq split: sum.splits\<close>)
qed

lemma tc_on_payload_fits:
  assumes K: "socket_laws (ce_socket E)" and fit: "header_size + payload_len (tc_read_packet s) \<le> max_size"
    and none: "filter is_read (tc_pending s) = []" and run: "tc_on_payload E ec s = (r, s')"
  shows "r \<noteq> Inl Undefined_behaviour \<and> tc_fits s'"
proof -
  have no: "Read_payload n \<notin> set (tc_pending s)" for n
    using none by (auto simp: filter_empty_conv)
  obtain r1 s1 where c: "tc_close E (s\<lparr>errc := Asio_code Asio_eof\<rparr>) = (r1, s1)" by fastforce
  show ?thesis
  proof (cases ec)
    case Asio_success
    then show ?thesis
      using run no parse_payload_exn [OF _ fit]
      by (auto simp: tc_on_payload_def tc_set_errc_def tc_enqueue_read_def tc_read_header_def tc_start_op_def prog_run
          tc_fits_def split: sum.splits option.splits)
  qed (use run no c tc_close_frame [OF K c] in
      \<open>auto simp: tc_on_payload_def tc_set_errc_def prog_run tc_fits_def tc_io_eq split: sum.splits\<close>)
qed

lemma tc_on_write_exn:
  assumes K: "socket_laws (ce_socket E)" and run: "tc_on_write E ec s = (r, s')"
  shows "r \<noteq> Inl Undefined_behaviour"
proof (cases ec)
  case Asio_eof
  obtain r1 s1 where c: "tc_close E (s\<lparr>errc := Asio_code Asio_eof\<rparr>) = (r1, s1)" by fastforce
  then show ?thesis
    using run Asio_eof tc_close_frame [OF K c] by (auto simp: tc_on_write_def tc_set_errc_def prog_run)
qed (use run in \<open>auto simp: tc_on_write_def tc_set_errc_def prog_run tc_do_write_run split: if_splits option.splits\<close>)

lemma tc_handler_fits:
  assumes laws: "client_laws E" and inv: "tc_inv s" and fit: "tc_fits s" and pend: "tc_pending s = xs @ op # ys"
    and run: "tc_handler E op ec v (s\<lparr>tc_pending := xs @ ys\<rparr>) = (r, s')"
  shows "r \<noteq> Inl Undefined_behaviour \<and> tc_fits s'"
proof -
  let ?s = "s\<lparr>tc_pending := xs @ ys\<rparr>"
  have K: "socket_laws (ce_socket E)" and W: "queue_laws (ce_write_queue E)"
    using laws by (simp_all add: client_laws_def)
  have rd: "reads_ok (xs @ op # ys)" and st: "storage (p_data (tc_read_packet s))"
    using inv pend by (simp_all add: tc_inv_def tc_ops_ok_def)
  have rest: "tc_fits ?s" using fit pend by (auto simp: tc_fits_def)
  show ?thesis
  proof (cases op)
    case (Post_write p)
    then show ?thesis
      using run rest
      by (auto simp: tc_on_post_def prog_run tc_do_write_run tc_fits_def split: option.splits if_splits prod.splits)
  next
    case (Async_write b)
    have run': "tc_on_write E ec ?s = (r, s')" using run Async_write by simp
    have idle: "tc_writes ?s = []"
      using inv pend Async_write
      by (auto simp: tc_inv_def tc_ops_ok_def tc_writes_ok_def tc_writes_def Cons_eq_append_conv append_eq_Cons_conv
          filter_empty_conv)
    from tc_on_write_effect [OF K W run' idle] obtain new where
      new: "tc_pending s' = xs @ ys @ new" "filter is_write new = new" "tc_read_packet s' = tc_read_packet s" by auto
    have "tc_fits s'" using rest new(1,3) filter_write_payload [OF new(2)] by (auto simp: tc_fits_def)
    with tc_on_write_exn [OF K run'] show ?thesis by simp
  next
    case Read_header
    let ?t = "if ec = Asio_success then ?s\<lparr>tc_read_packet := fill_header v (tc_read_packet s)\<rparr> else ?s"
    have "tc_on_header E ec ?t = (r, s')"
      using run Read_header by (simp add: prog_run split: prod.splits sum.splits if_splits)
    then show ?thesis
      by (rule tc_on_header_fits [OF K, rotated 2])
        (use rd st Read_header in \<open>simp_all add: reads_ok_def storage_fill\<close>)
  next
    case (Read_payload n)
    have n: "header_size + n \<le> max_size" "header_size + payload_len (tc_read_packet s) \<le> max_size"
      using rd fit pend Read_payload by (auto simp: reads_ok_def tc_fits_def)
    let ?t = "if ec = Asio_success then ?s\<lparr>tc_read_packet := fill_payload n v (tc_read_packet s)\<rparr> else ?s"
    have "tc_on_payload E ec ?t = (r, s')"
      using run Read_payload n(1) by (simp add: prog_run split: prod.splits sum.splits if_splits)
    then show ?thesis
      by (rule tc_on_payload_fits [OF K, rotated 2])
        (use rd st n Read_payload in \<open>simp_all add: reads_ok_def payload_len_fill\<close>)
  qed
qed

text \<open>The state between two events of the thread.\<close>

definition tc_safe :: "('k, 'w, 'r) tcp_client \<Rightarrow> bool" where
  "tc_safe s \<longleftrightarrow> tc_inv s \<and> tc_fits s"

lemma tc_safe_frame: "tc_io s' = tc_io s \<Longrightarrow> tc_read_packet s' = tc_read_packet s \<Longrightarrow> tc_safe s' = tc_safe s"
  unfolding tc_safe_def using tc_inv_frame [of s' s] tc_fits_frame [of s' s] by argo

lemma tc_safe_read:
  assumes "tc_safe s" and "tc_reads s = []"
  shows "tc_safe (s\<lparr>tc_pending := tc_pending s @ [Read_header]\<rparr>)"
proof -
  have "reads_ok (tc_pending s @ [Read_header])"
    using assms by (simp add: tc_safe_def tc_inv_def tc_ops_ok_def reads_ok_def tc_reads_def)
  then show ?thesis
    using assms(1) by (simp add: tc_safe_def tc_inv_def tc_ops_ok_def tc_writes_ok_def tc_writes_def tc_fits_def)
qed

lemma tc_safe_user:
  assumes "client_laws E" and "tc_safe s"
  shows "tc_safe (snd (tc_write E p s))" and "tc_safe (snd (tc_stop E s))"
proof -
  show "tc_safe (snd (tc_write E p s))"
    using assms(2)
    by (auto simp: tc_write_run tc_safe_def tc_inv_def tc_ops_ok_def reads_ok_def tc_writes_ok_def tc_writes_def tc_fits_def)
  obtain r s' where c: "tc_close E (s\<lparr>tc_running := False\<rparr>) = (r, s')" by fastforce
  have "tc_safe s'"
    using tc_close_frame [OF _ c] assms tc_safe_frame [of s' s] by (simp add: client_laws_def tc_io_def)
  then show "tc_safe (snd (tc_stop E s))"
    using assms(2) c by (simp add: tc_stop_def prog_run split: sum.split)
qed

lemma tc_complete_safe:
  assumes laws: "client_laws E" and ok: "tc_safe s" and run: "tc_complete E k ec v s = (r, s')"
  shows "tc_safe s' \<and> r \<noteq> Inl Undefined_behaviour \<and> (\<forall>e. r = Inl (Packet_error e) \<longrightarrow> tc_reads s' = [])"
proof (cases "completes (tc_pending s) is_post_write k")
  case True
  then have pend: "tc_pending s = take k (tc_pending s) @ tc_pending s ! k # drop (Suc k) (tc_pending s)"
    by (simp add: completes_def id_take_nth_drop)
  have "tc_handler E (tc_pending s ! k) ec v (s\<lparr>tc_pending := take k (tc_pending s) @ drop (Suc k) (tc_pending s)\<rparr>) = (r, s')"
    using run True by (simp add: tc_complete_def prog_run)
  then show ?thesis
    using tc_handler_inv [OF laws _ pend] tc_handler_fits [OF laws _ _ pend] ok unfolding tc_safe_def by blast
qed (use ok run in \<open>auto simp: tc_complete_def prog_run\<close>)

lemma tc_guard_safe:
  assumes laws: "client_laws E" and ok: "tc_safe s" and e: "e \<noteq> Undefined_behaviour"
    and reads: "\<forall>x. e = Packet_error x \<longrightarrow> tc_reads s = []"
  shows "\<exists>l s'. tc_guard E (throwE e) s = (Inr l, s') \<and> tc_safe s'"
proof -
  have K: "socket_laws (ce_socket E)" using laws by (simp add: client_laws_def)
  obtain r s' where run: "tc_guard E (throwE e) s = (r, s')" by fastforce
  show ?thesis
    using K run
  proof (cases rule: tc_guard_cases)
    case (malformed x s1)
    then show ?thesis using ok reads run tc_safe_read by (auto simp: run_throwE)
  next
    case (left x s1)
    then show ?thesis using ok run tc_safe_frame by (auto simp: run_throwE)
  qed (use e in \<open>simp_all add: run_throwE\<close>)
qed

lemma tc_turns_safe:
  assumes laws: "client_laws E" and ok: "tc_safe s"
  shows "\<exists>s'. tc_turns E es s = (Inr (), s') \<and> tc_safe s'"
  using ok
proof (induction es arbitrary: s)
  case (Cons ev es)
  show ?case
  proof (cases ev)
    case (User_write p)
    then show ?thesis
      using Cons.IH [OF tc_safe_user(1) [OF laws Cons.prems]] by (simp add: attempt_then)
  next
    case User_stop
    then show ?thesis
      using Cons.IH [OF tc_safe_user(2) [OF laws Cons.prems]] by (simp add: attempt_then)
  next
    case (Completes k ec v)
    obtain r s1 where c: "tc_complete E k ec v s = (r, s1)" by fastforce
    note c1 = tc_complete_safe [OF laws Cons.prems c]
    show ?thesis
    proof (cases r)
      case (Inl e)
      obtain l s2 where g: "tc_guard E (throwE e) s1 = (Inr l, s2)" "tc_safe s2"
        using tc_guard_safe [OF laws, of s1 e] c1 Inl by blast
      then show ?thesis
        using Completes c Inl Cons.IH [OF g(2)] by (cases l) (simp_all add: prog_run)
    next
      case (Inr u)
      then show ?thesis using Completes c c1 Cons.IH [of s1] by (simp add: prog_run)
    qed
  qed
qed (simp add: prog_run)

text \<open>
  C20: The client's thread function never lets an exception out and never leaves the defined
  behaviour: whatever users write, whether they stop the transport or not, and in whatever order
  and with whatever code and bytes the operations complete, \<^verbatim>\<open>run\<close> returns; and up to any
  point of it at most one read and at most one write are outstanding, a payload is only read when
  it fits in the 2048 bytes of \<^verbatim>\<open>read_packet_\<close>, and the write that is outstanding sends exactly
  the bytes of \<^verbatim>\<open>write_packet_\<close>, which no later write replaces.
\<close>

theorem tcp_client_thread:
  assumes "client_laws E" and "storage (p_data (tc_read_packet s))" and "list_all is_post_write (tc_pending s)"
  shows "\<exists>s'. tc_run E es s = (Inr (), s') \<and> length (tc_reads s') \<le> 1 \<and> length (tc_writes s') \<le> 1
    \<and> (\<forall>n. Read_payload n \<in> set (tc_pending s') \<longrightarrow> header_size + n \<le> max_size)
    \<and> (\<forall>b. Async_write b \<in> set (tc_pending s') \<longrightarrow> b = packet_bytes (tc_write_packet s'))"
proof -
  have post: "\<not> is_read op \<and> \<not> is_write op" if "is_post_write op" for op
    using that by (cases op) simp_all
  have none: "tc_reads s = []" "tc_writes s = []" "\<And>n. Read_payload n \<notin> set (tc_pending s)"
    using assms(3) post by (fastforce simp: tc_reads_def tc_writes_def filter_empty_conv list_all_iff)+
  then have "tc_safe s"
    using assms(2) by (auto simp: tc_safe_def tc_inv_def tc_ops_ok_def reads_ok_def tc_writes_ok_def tc_reads_def tc_fits_def)
  then have safe: "tc_safe (s\<lparr>tc_pending := tc_pending s @ [Read_header]\<rparr>)" (is "tc_safe ?s")
    using none(1) by (rule tc_safe_read)
  obtain s' where s': "tc_run E es s = (Inr (), s')" "tc_safe s'"
  proof (cases "tc_running s")
    case True
    then show ?thesis
      using that tc_turns_safe [OF assms(1) safe, of es]
      by (auto simp: tc_run_def tc_run_start_def tc_read_header_def tc_start_op_def prog_run)
  qed (use that safe in \<open>simp add: tc_run_def tc_run_start_def tc_read_header_def tc_start_op_def prog_run\<close>)
  have "Async_write b \<in> set (tc_pending s') \<Longrightarrow> Async_write b \<in> set (tc_writes s')" for b
    by (simp add: tc_writes_def)
  with s' show ?thesis
    by (fastforce simp: tc_safe_def tc_inv_def tc_ops_ok_def reads_ok_def tc_writes_ok_def tc_reads_def)
qed

theorem tcp_client_thread_witness:
  "\<exists>s'. tc_run ref_client_env [User_write \<lparr>p_data = replicate 2048 0\<rparr>, Completes 1 Asio_success [], User_stop,
       Completes 0 Asio_success (replicate 13 255)] (ref_client\<lparr>tc_pending := []\<rparr>) = (Inr (), s')
     \<and> length (tc_reads s') \<le> 1 \<and> length (tc_writes s') \<le> 1"
proof -
  have "storage (p_data (tc_read_packet (ref_client\<lparr>tc_pending := []\<rparr>)))"
    "list_all is_post_write (tc_pending (ref_client\<lparr>tc_pending := []\<rparr>))"
    by (simp_all add: ref_client_def storage_def max_size_def)
  from tcp_client_thread [OF ref_client_laws this] show ?thesis by meson
qed

text \<open>
  C38: A connection that is gone can stay open for the users: when a read fails and the socket
  cannot be shut down, because it is not connected any more, \<^verbatim>\<open>close\<close> throws before it closes it.
  The thread function returns, no operation is outstanding any more, but the transport is still
  open and accepts every packet for a thread that has ended; and its destructor ends the program.
\<close>

theorem tcp_close_fails:
  assumes "client_laws E" and "tc_is_open E s" and "tc_running s" and "tc_pending s = []"
    and "sk_shutdown (ce_socket E) (tc_socket s) = (Inl e, tc_socket s)"
  shows "\<exists>s'. tc_run E [Completes 0 (Asio_other c) v] s = (Inr (), s') \<and> tc_is_open E s' \<and> tc_pending s' = []
    \<and> errc s' = Asio_code (Asio_other c)
    \<and> tc_write E p s' = (Inr (), s'\<lparr>tc_pending := [Post_write p]\<rparr>) \<and> fst (tc_destroy E s') = Inl Undefined_behaviour"
proof -
  let ?s = "s\<lparr>errc := Asio_code (Asio_other c)\<rparr>"
  have "tc_run E [Completes 0 (Asio_other c) v] s = (Inr (), ?s)"
    using assms(2-5)
    by (simp add: tc_run_def tc_run_start_def tc_read_header_def tc_start_op_def tc_complete_def completes_def
        tc_on_header_def tc_set_errc_def tc_guard_def tc_close_def tc_is_open_def tc_on_socket_def prog_run)
  moreover have "fst (tc_destroy E ?s) = Inl Undefined_behaviour"
    using assms(2,3,5)
    by (simp add: tc_destroy_def destroy_def tc_stop_def tc_close_def tc_is_open_def tc_on_socket_def prog_run)
  ultimately show ?thesis
    using assms(2,4) by (intro exI [of _ ?s]) (simp add: tc_is_open_def tc_write_run)
qed

theorem tcp_close_fails_witness:
  "\<exists>s'. tc_run (ref_client_env\<lparr>ce_socket := ref_socket\<lparr>sk_shutdown := \<lambda>s. (Inl (Std_exception System_error), s)\<rparr>\<rparr>)
       [Completes 0 (Asio_other 104) []] (ref_client\<lparr>tc_pending := []\<rparr>) = (Inr (), s')
     \<and> tc_socket s' \<and> tc_pending s' = []"
proof -
  let ?E = "ref_client_env\<lparr>ce_socket := ref_socket\<lparr>sk_shutdown := \<lambda>s. (Inl (Std_exception System_error), s)\<rparr>\<rparr>"
  have "client_laws ?E" using ref_client_laws by (simp add: client_laws_def socket_laws_def ref_socket_def)
  moreover have "tc_is_open ?E (ref_client\<lparr>tc_pending := []\<rparr>)" "tc_running (ref_client\<lparr>tc_pending := []\<rparr>)"
    "tc_pending (ref_client\<lparr>tc_pending := []\<rparr>) = []"
    "sk_shutdown (ce_socket ?E) (tc_socket (ref_client\<lparr>tc_pending := []\<rparr>))
       = (Inl (Std_exception System_error), tc_socket (ref_client\<lparr>tc_pending := []\<rparr>))"
    by (simp_all add: tc_is_open_def ref_client_def ref_client_env_def ref_socket_def)
  moreover have "tc_is_open ?E s' = tc_socket s'" for s' by (simp add: tc_is_open_def ref_socket_def)
  ultimately show ?thesis using tcp_close_fails [of ?E "ref_client\<lparr>tc_pending := []\<rparr>"] by metis
qed

section \<open>The threads of the server and of the USB device\<close>

text \<open>What users do from their threads.\<close>

lemma ts_user_ok:
  assumes "ts_writes_ok s"
  shows "ts_writes_ok (snd (ts_write E p s))" and "ts_writes_ok (snd (ts_stop E s))"
proof -
  show "ts_writes_ok (snd (ts_write E p s))"
    using assms by (auto simp: ts_write_run ts_writes_ok_def ts_writes_def)
  obtain r s' where c: "ts_close E s = (r, s')" by fastforce
  from reads_only_close c obtain new where "ts_out s' = ts_out s" "ts_pending s' = ts_pending s @ new"
    "filter is_sv_write new = []" by (rule reads_onlyE)
  then have "ts_writes_ok s'" using assms by (simp add: ts_writes_ok_def ts_writes_def ts_out_def)
  then show "ts_writes_ok (snd (ts_stop E s))"
    using assms c by (auto simp: ts_stop_def prog_run ts_writes_ok_def ts_writes_def split: sum.split)
qed

text \<open>A completion under the clauses of the loop is a step.\<close>

lemma ts_complete_step:
  assumes "completes (ts_pending s) is_server_post k" and "ts_guard E (ts_complete E k ec v) s = (r, s')"
  shows "ts_step E s s'"
proof -
  let ?xs = "take k (ts_pending s)" and ?ys = "drop (Suc k) (ts_pending s)" and ?op = "ts_pending s ! k"
  have pend: "ts_pending s = ?xs @ ?op # ?ys" using assms(1) by (simp add: completes_def id_take_nth_drop)
  have posted: "server_posted ops = []" if "list_all (\<lambda>op. \<not> is_server_post op) ops" for ops
    using that
  proof (induction ops)
    case (Cons op ops)
    then show ?case by (cases op) simp_all
  qed simp
  have "ts_complete E k ec v s = ts_handler E ?op ec v (s\<lparr>ts_pending := ?xs @ ?ys\<rparr>)"
    using assms(1) by (simp add: ts_complete_def prog_run)
  then have "ts_guard E (ts_handler E ?op ec v) (s\<lparr>ts_pending := ?xs @ ?ys\<rparr>) = (r, s')"
    using assms(2) by (simp add: ts_guard_def prog_run)
  then show ?thesis
    by (rule ts_step.completion [OF pend, rotated]) (use assms(1) posted in \<open>auto simp: completes_def\<close>)
qed

lemma ts_turns_ok:
  assumes laws: "server_laws E" and "ts_writes_ok s" and "ts_turns E es s = (r, s')"
  shows "ts_writes_ok s'"
  using assms(2,3)
proof (induction es arbitrary: s)
  case (Cons ev es)
  show ?case
  proof (cases ev)
    case (User_write p)
    then show ?thesis using Cons.IH [OF ts_user_ok(1) [OF Cons.prems(1)]] Cons.prems(2) by (simp add: attempt_then)
  next
    case User_stop
    then show ?thesis using Cons.IH [OF ts_user_ok(2) [OF Cons.prems(1)]] Cons.prems(2) by (simp add: attempt_then)
  next
    case (Completes k ec v)
    obtain q s1 where g: "ts_guard E (ts_complete E k ec v) s = (q, s1)" by fastforce
    have s1: "ts_writes_ok s1"
    proof (cases "completes (ts_pending s) is_server_post k")
      case True
      then show ?thesis using ts_step_ok [OF laws ts_complete_step [OF True g] Cons.prems(1)] by simp
    next
      case False
      then show ?thesis using g Cons.prems(1) by (auto simp: ts_guard_def ts_complete_def prog_run)
    qed
    obtain x s2 where c: "ts_complete E k ec v s = (x, s2)" by fastforce
    have "ts_guard E (throwE e) s2 = (q, s1)" if "x = Inl e" for e
      using g c that by (simp add: ts_guard_def prog_run)
    moreover have "s2 = s1" if "x = Inr ()" using g c that by (simp add: ts_guard_def prog_run)
    ultimately show ?thesis
      using Cons.prems(2) Completes c Cons.IH [OF s1]  s1
      by (cases x; cases q) (auto simp: prog_run split: loop_end.splits if_splits)
  qed
qed (simp add: prog_run)

text \<open>The first read of the USB device cannot be submitted: the thread ends, the device stays open.\<close>

lemma usb_first_submit_fails:
  assumes "ud_rtransfer_curr s = Some i" and "lu_submit_read (ue_usb E) i (ud_usb s) = (ret, l)" and "ret < 0"
  shows "ud_run E ess s = (Inr (), s\<lparr>ud_usb := l, errc := make_transport_code Other\<rparr>)"
  using assms by (simp add: ud_run_def ud_outer_def ud_submit_read_def ud_try_def ud_call_def prog_run)

text \<open>
  The two read transfers are both alive and named by the two pointers, in one order or the
  other, and the device is open.
\<close>

definition ud_paired :: "nat \<Rightarrow> nat \<Rightarrow> nat list \<Rightarrow> ('l, 'w, 'r) usb_device \<Rightarrow> bool" where
  "ud_paired a b A s \<longleftrightarrow> ud_open s \<and> ud_handle s \<and> ud_wtransfer s \<noteq> None \<and> ud_alive s = A
     \<and> ud_eptr s \<noteq> Some Undefined_behaviour \<and> (ud_rtransfer_curr s, ud_rtransfer_prev s) \<in> {(Some a, Some b), (Some b, Some a)}"

definition reads_resubmit :: "('l, 'w, 'r) usb_env \<Rightarrow> bool" where
  "reads_resubmit E \<longleftrightarrow> (\<forall>i l. 0 \<le> fst (lu_submit_read (ue_usb E) i l))"

text \<open>A callback returns, whatever it is told, and a turn goes on or breaks the loop.\<close>

lemma ud_swap_paired:
  assumes E: "reads_resubmit E" and s: "ud_paired a b A s"
  shows "\<exists>t. ud_read_swap E s = (Inr (), t) \<and> ud_paired a b A t"
proof -
  obtain i j where ij: "ud_rtransfer_curr s = Some i" "ud_rtransfer_prev s = Some j" "{i, j} = {a, b}"
    using s by (auto simp: ud_paired_def)
  obtain ret l where l: "lu_submit_read (ue_usb E) j (ud_usb s) = (ret, l)" by fastforce
  have "0 \<le> fst (lu_submit_read (ue_usb E) j (ud_usb s))" using E unfolding reads_resubmit_def by blast
  then show ?thesis
    using s l by (auto simp: ud_read_swap_run [OF ij(1,2)] ud_paired_def ij(1,2))
qed

lemma ud_event_paired:
  assumes E: "reads_resubmit E" and s: "ud_paired a b A s"
  shows "\<exists>t. ud_event E ev s = (Inr (), t) \<and> ud_paired a b A t"
proof (cases ev)
  case (Write_ended status)
  let ?s = "s\<lparr>ud_writing := tl (ud_writing s)\<rparr>"
  have p: "ud_paired a b A ?s" using s by (simp add: ud_paired_def)
  obtain t where t: "ud_wtransfer s = Some t" using s by (auto simp: ud_paired_def)
  have "\<exists>r u. ud_write_next E ?s = (r, u) \<and> ud_paired a b A u \<and> (\<forall>e. r = Inl e \<longrightarrow> is_std_exception e)"
    using p t
    by (auto simp: ud_write_next_def run_withE run_modifyE run_bindE ud_fill_write_run ud_submit_write_run ud_paired_def
        run_retE split: option.split prod.split)
  then obtain r u where u: "ud_write_next E ?s = (r, u)" "ud_paired a b A u" "\<forall>e. r = Inl e \<longrightarrow> is_std_exception e" by blast
  have "\<exists>t. ud_write_cb E status ?s = (Inr (), t) \<and> ud_paired a b A t"
    using p u t
    by (cases status; cases r)
      (auto simp: ud_write_cb_def ud_catch_run ud_notify_write_def prog_run ud_paired_def split: if_splits)
  then show ?thesis by (auto simp: Write_ended run_bindE run_modifyE run_retE)
next
  case (Read_ended i status v)
  let ?s = "s\<lparr>ud_reading := remove1 i (ud_reading s)\<rparr>"
  have p: "ud_paired a b A ?s" using s by (simp add: ud_paired_def)
  obtain u where u: "ud_read_swap E ?s = (Inr (), u)" "ud_paired a b A u" using ud_swap_paired [OF E p] by blast
  have std: "packet_of_view (ue_mem E) v = Inl e \<Longrightarrow> is_std_exception e" for e
    by (auto simp: packet_of_view_def parse_header_view_def parse_payload_view_def Let_def
        split: option.splits sum.splits if_splits)
  have "\<exists>t. ud_read_cb E status v ?s = (Inr (), t) \<and> ud_paired a b A t"
    using p u std
    by (cases status)
      (auto simp: ud_read_cb_def ud_catch_run ud_notify_read_def run_bindE run_liftE run_modifyE run_withE run_retE
        run_throwE ud_paired_def split: if_splits sum.splits option.splits)
  then show ?thesis by (auto simp: Read_ended run_bindE run_modifyE run_retE)
qed

lemma ud_turn_paired:
  assumes E: "reads_resubmit E" and s: "ud_paired a b A (s\<lparr>ud_eptr := None\<rparr>)"
  shows "\<exists>x t. ud_turn E es s = (Inr x, t) \<and> ud_paired a b A t"
proof -
  have "\<exists>t. foreachE (ud_event E) es s = (Inr (), t) \<and> ud_paired a b A t" if "ud_paired a b A s" for s
    using that
  proof (induction es arbitrary: s)
    case (Cons ev es)
    obtain t where "ud_event E ev s = (Inr (), t)" "ud_paired a b A t" using ud_event_paired [OF E Cons.prems] by blast
    then show ?case using Cons.IH by (simp add: run_bindE)
  qed (simp add: run_retE)
  with s obtain t where t: "foreachE (ud_event E) es (s\<lparr>ud_eptr := None\<rparr>) = (Inr (), t)" "ud_paired a b A t" by blast
  then show ?thesis
    by (cases "ud_eptr t"; cases "the (ud_eptr t)") (auto simp: ud_turn_def prog_run ud_paired_def)
qed

lemma ud_loop_paired:
  "reads_resubmit E \<Longrightarrow> ud_paired a b A (s\<lparr>ud_eptr := None\<rparr>) \<Longrightarrow>
    \<exists>t. ud_loop E ess s = (Inr (), t) \<and> ud_paired a b A (t\<lparr>ud_eptr := None\<rparr>)"
proof (induction ess arbitrary: s)
  case (Cons es ess)
  obtain x t where t: "ud_turn E es s = (Inr x, t)" "ud_paired a b A t" using ud_turn_paired [OF Cons.prems] by blast
  then have "ud_paired a b A (t\<lparr>ud_eptr := None\<rparr>)" by (simp add: ud_paired_def)
  with t(1) show ?case
    using Cons.IH [OF Cons.prems(1)] Cons.prems(2) by (cases x) (auto simp: prog_run)
qed (simp add: run_retE)

lemma ud_close_paired:
  assumes "ud_paired a b A (s\<lparr>ud_eptr := None\<rparr>)" and "a \<noteq> b" and "distinct A" and "{a, b} \<subseteq> set A"
  shows "\<exists>r t. ud_close E s = (r, t) \<and> r \<noteq> Inl Undefined_behaviour \<and> \<not> ud_is_open t \<and> \<not> ud_handle t
    \<and> distinct (ud_alive t) \<and> set (ud_alive t) = set A - {a, b}
    \<and> ud_wtransfer t = None \<and> ud_rtransfer_curr t = None \<and> ud_rtransfer_prev t = None"
  using assms
  by (auto simp: ud_paired_def ud_close_def ud_is_open_def ud_close_body_def ud_delete_def ud_call_def prog_run
      split: prod.split)

text \<open>The whole thread of an open device, on which nobody else calls.\<close>

lemma ud_run_closes:
  assumes "\<forall>i l. 0 \<le> fst (lu_submit_read (ue_usb E) i l)"
    and "ud_is_open s" and "ud_handle s" and "ud_wtransfer s = Some t"
    and "ud_rtransfer_curr s = Some a" and "ud_rtransfer_prev s = Some b" and "a \<noteq> b"
    and "distinct (ud_alive s)" and "a \<in> set (ud_alive s)" and "b \<in> set (ud_alive s)"
  shows "\<exists>s'. ud_run E ess s = (Inr (), s') \<and> \<not> ud_is_open s' \<and> \<not> ud_handle s' \<and> ud_wtransfer s' = None
    \<and> ud_rtransfer_curr s' = None \<and> ud_rtransfer_prev s' = None
    \<and> distinct (ud_alive s') \<and> set (ud_alive s') = set (ud_alive s) - {a, b}"
proof -
  have E: "reads_resubmit E" using assms(1) by (simp add: reads_resubmit_def)
  obtain ret l where l: "lu_submit_read (ue_usb E) a (ud_usb s) = (ret, l)" by fastforce
  let ?s = "s\<lparr>ud_usb := l, ud_reading := ud_reading s @ [a]\<rparr>"
  have "0 \<le> ret" using assms(1) l by (metis fst_conv)
  then have first: "ud_submit_read E (ud_rtransfer_curr s) s = (Inr (), ?s)"
    using assms(5) l by (simp add: ud_submit_read_def ud_try_def ud_call_def prog_run)
  have "ud_paired a b (ud_alive s) (?s\<lparr>ud_eptr := None\<rparr>)"
    using assms(2-6) by (simp add: ud_paired_def ud_is_open_def)
  then obtain u where u: "ud_loop E ess ?s = (Inr (), u)" "ud_paired a b (ud_alive s) (u\<lparr>ud_eptr := None\<rparr>)"
    using ud_loop_paired [OF E] by blast
  obtain r v where v: "ud_close E u = (r, v)" "r \<noteq> Inl Undefined_behaviour" "\<not> ud_is_open v" "\<not> ud_handle v"
    "distinct (ud_alive v)" "set (ud_alive v) = set (ud_alive s) - {a, b}" "ud_wtransfer v = None"
    "ud_rtransfer_curr v = None" "ud_rtransfer_prev v = None"
    using ud_close_paired [OF u(2) assms(7,8)] assms(9,10) by blast
  have "ud_run E ess s = (Inr (), v) \<or> ud_run E ess s = (Inr (), v\<lparr>errc := make_transport_code Other\<rparr>)"
    using first u(1) v(1,2)
    by (cases r) (auto simp: ud_run_def ud_outer_def run_catchE run_bindE run_withE run_modifyE run_retE)
  then show ?thesis using v by (auto simp: ud_is_open_def)
qed

end
