(* ===== verification/Life_Cycle.thy ===== *)
theory Life_Cycle
  imports Slave_Laws Master_Properties Threads
begin

text \<open>
  The first states the invariants start from are the states the code makes: what a constructor
  leaves, and for the transports what \<^verbatim>\<open>start\<close> and the beginning of \<^verbatim>\<open>run\<close> make of it.
\<close>

section \<open>The applications\<close>

lemma slave_constructed:
  assumes "tq_timers (se_tq (sa_rm E)) q = Map.empty"
  shows "sl_made E (sl_new m (srm_new q tr i t) ident pid u)"
  using assms by (simp add: sl_made_def sl_new_def srm_new_def srm_timers_def)

lemma master_constructed:
  assumes "tq_timers (me_tq (ma_rm E)) q = Map.empty" and "mi_elems (me_set (ma_rm E)) c = {}"
  shows "ms_made E (ms_new m (mrm_new c q tr i j t u) ident pid n)"
  using assms by (simp add: ms_made_def ms_new_def mrm_new_def mrm_begun_def mrm_views)

text \<open>The destructors of the two applications; a stopped one has nothing to do.\<close>

definition sl_destroy :: "('q, 'm, 'tr) slave_app_env \<Rightarrow> (('q, 'm, 'tr, 'u) slave, unit) stmt" where
  "sl_destroy E = destroy (sl_stop E)"

definition ms_destroy ::
  "('q, 'm, 'tr, 'c, 'cb, 'u) master_app_env \<Rightarrow> (('q, 'm, 'tr, 'c, 'u) master, unit) stmt" where
  "ms_destroy E = destroy (ms_stop E)"

lemma destroy_stopped:
  "\<not> sl_running s \<Longrightarrow> sl_destroy E s = (Inr (), s)"
  "\<not> ms_running m \<Longrightarrow> ms_destroy F m = (Inr (), m)"
  by (simp_all add: sl_destroy_def ms_destroy_def destroy_def sl_stop_def ms_stop_def prog_run)

section \<open>The transports\<close>

lemma client_started:
  assumes "tc_start E (tc_new k w r a b) = (Inr (), s)"
  shows "tc_begun s \<and> tc_running s"
  using assms
  by (auto simp: tc_start_def tc_new_def prog_run tc_open_def tc_on_socket_def tc_run_start_def
      tc_read_header_def tc_start_op_def tc_begun_def split: if_splits prod.splits sum.splits)

lemma server_started:
  assumes "\<not> sk_is_open (ve_socket E) k" and "ts_start E (ts_new k a w r x y) = (Inr (), s)"
  shows "ts_begun s \<and> ts_running s"
  using assms
  by (auto simp: ts_start_def ts_new_def prog_run ts_open_def ts_is_open_def ts_start_op_def ts_begun_def)

text \<open>\<^verbatim>\<open>open\<close> on a device that is closed, when it returns.\<close>

lemma usb_opened:
  assumes new: "ud_new E l w r = Inr s" and run: "ud_start E s = (Inr (), t)"
  shows "ud_open t \<and> ud_handle t \<and> ud_running t \<and> ud_writing t = [] \<and> ud_reading t = [] \<and> write_queue t = w
    \<and> (\<exists>x. ud_wtransfer t = Some x \<and> \<not> wt_in_progress x)
    \<and> ud_rtransfer_curr t = Some 0 \<and> ud_rtransfer_prev t = Some 1 \<and> ud_alive t = [1, 0] \<and> errc t = no_error_code"
proof -
  have s: "s = \<lparr>errc = no_error_code, write_queue = w, read_queue = r, ud_usb = ud_usb s, ud_handle = False,
      ud_rtransfer_curr = None, ud_rtransfer_prev = None, ud_wtransfer = None, ud_open = False,
      ud_running = False, ud_eptr = None, ud_alive = [], ud_next = 0, ud_cancelled = [], ud_reading = [], ud_writing = [], ud_wire = []\<rparr>"
    using new by (auto simp: ud_new_def split: prod.splits if_splits)
  have "ud_start E \<lparr>errc = no_error_code, write_queue = w, read_queue = r, ud_usb = ud_usb s, ud_handle = False,
      ud_rtransfer_curr = None, ud_rtransfer_prev = None, ud_wtransfer = None, ud_open = False,
      ud_running = False, ud_eptr = None, ud_alive = [], ud_next = 0, ud_cancelled = [], ud_reading = [], ud_writing = [], ud_wire = []\<rparr>
      = (Inr (), t)"
    using run s by metis
  then show ?thesis
    by (auto simp: ud_start_def ud_open_device_def ud_try_def ud_call_def ud_new_wtransfer_def ud_new_rtransfer_def
        ud_new_transfer_def ud_fill_read_def prog_run split: prod.splits if_splits)
qed

lemma usb_started:
  assumes "ud_new E l w r = Inr s" and "ud_start E s = (Inr (), t)"
    and "ud_run_begin E t = (Inr (), t')" and "errc t' = no_error_code" and "cq_items (ue_write_queue E) w = []"
  shows "ud_begun E t'"
proof -
  note o = usb_opened [OF assms(1,2)]
  have "ud_submit_read E (Some 0) t = (Inr (), t') \<or> errc t' = make_transport_code Other"
    using assms(3) o by (auto simp: ud_run_begin_def ud_outer_def prog_run split: sum.splits prod.splits if_splits)
  then have "ud_submit_read E (Some 0) t = (Inr (), t')"
    using assms(4) by (auto simp: make_transport_code_def no_error_code_def)
  then show ?thesis
    using o assms(5)
    by (auto simp: ud_submit_read_def ud_try_def ud_call_def prog_run ud_begun_def split: prod.splits if_splits)
qed

section \<open>From the constructor to the end of the thread\<close>


definition ref_reading_env :: "(int, packet list, packet list) usb_env" where
  "ref_reading_env = ref_usb_env\<lparr>ue_usb := ref_libusb\<lparr>lu_submit_read := (\<lambda>i l. (0, l))\<rparr>\<rparr>"


end
