(* ===== verification/Printing.thy ===== *)
theory Printing
  imports Packet Errors
begin

text \<open>
  What the library prints: the \<^verbatim>\<open>operator<<\<close> of identifications (\<^verbatim>\<open>src/application.h\<close>) and packets
  (\<^verbatim>\<open>src/packet.cpp\<close>), the names of the error categories, and where the log lines of libusb go
  (\<^verbatim>\<open>src/usb_async.cpp\<close>). The formatting library is a parameter: how it writes a number in
  decimal and, with the prefix, in hexadecimal digits.
\<close>

record fmt_api =
  fmt_dec :: "nat \<Rightarrow> string"
  fmt_hex :: "nat \<Rightarrow> string"

abbreviation newline :: char where "newline \<equiv> CHR 0x0A"
abbreviation tab :: char where "tab \<equiv> CHR 0x09"

text \<open>The characters of a \<^verbatim>\<open>std::string\<close>.\<close>

definition chars :: "bytes \<Rightarrow> string" where
  "chars bs = map (\<lambda>b. char_of (unat b)) bs"

section \<open>Identifications\<close>

definition show_identification :: "identification \<Rightarrow> string" where
  "show_identification i =
     ''identification :'' @ newline #
     tab # ''name: '' @ chars (id_name i) @ newline #
     tab # ''serial number: '' @ chars (id_serial_number i) @ newline #
     tab # ''hardware version: '' @ chars (id_hw_version i) @ newline #
     tab # ''software version: '' @ chars (id_sw_version i)"

section \<open>Packets\<close>

text \<open>\<^verbatim>\<open>fmt::join\<close> over the bytes of a block.\<close>

fun join_bytes :: "fmt_api \<Rightarrow> bytes \<Rightarrow> string" where
  "join_bytes F [] = []"
| "join_bytes F [b] = fmt_hex F (unat b)"
| "join_bytes F (b # c # bs) = fmt_hex F (unat b) @ ''|'' @ join_bytes F (c # bs)"

fun show_blocks :: "fmt_api \<Rightarrow> nat \<Rightarrow> block list \<Rightarrow> string" where
  "show_blocks F i [] = []"
| "show_blocks F i (b # bs) =
     tab # ''block '' @ fmt_dec F i @ '': type '' @ fmt_hex F (unat (b_type b)) @ '', len ''
       @ fmt_dec F (length (b_data b)) @ '' -> '' @ join_bytes F (b_data b) @ newline #
     show_blocks F (i + 1) bs"

definition show_packet :: "fmt_api \<Rightarrow> packet \<Rightarrow> string" where
  "show_packet F p =
     newline # ''packet '' @ fmt_dec F (unat (packet_id p)) @ '': type=''
       @ fmt_hex F (unat (h_type (p_header p))) @ '', with '' @ fmt_dec F (unat (nb_block p))
       @ '' block(s) (prot ver:'' @ fmt_dec F (unat (packet_version p)) @ '')'' @ newline #
     show_blocks F 0 (packet_blocks p)"

section \<open>Names and levels\<close>

text \<open>\<^verbatim>\<open>ErrorCategory::name()\<close>; the system category is not the library's.\<close>

fun category_name :: "category \<Rightarrow> string option" where
  "category_name Packet_category = Some ''packet''"
| "category_name Appli_category = Some ''application''"
| "category_name Transport_category = Some ''transport''"
| "category_name Usb_category = Some ''usb''"
| "category_name System_category = None"

text \<open>\<^verbatim>\<open>log_cb\<close>: the line it writes, if the logger is registered and the level is one it knows.\<close>

datatype usb_log_level = Log_none | Log_error | Log_warning | Log_info | Log_debug | Log_other

datatype log_line = Error_line string | Warn_line string | Info_line string | Debug_line string

definition ud_log_cb :: "bool \<Rightarrow> usb_log_level \<Rightarrow> string \<Rightarrow> log_line option" where
  "ud_log_cb registered level str =
     (if \<not> registered then None
      else case level of
          Log_error \<Rightarrow> Some (Error_line str)
        | Log_warning \<Rightarrow> Some (Warn_line str)
        | Log_info \<Rightarrow> Some (Info_line str)
        | Log_debug \<Rightarrow> Some (Debug_line str)
        | Log_none \<Rightarrow> None
        | Log_other \<Rightarrow> None)"

section \<open>What the text tells\<close>

lemma chars_inj: "chars a = chars b \<longleftrightarrow> a = b"
proof -
  have "inj (\<lambda>b :: u8. char_of (unat b))"
  proof (rule injI)
    fix a b :: u8 assume "(char_of (unat a) :: char) = char_of (unat b)"
    then have "of_char (char_of (unat a) :: char) = (of_char (char_of (unat b) :: char) :: nat)" by simp
    then have "unat a = unat b" using unat_u8_less by (simp add: of_char_of)
    then show "a = b" by (rule unsigned_word_eqI)
  qed
  then show ?thesis by (simp add: chars_def inj_map_eq_map)
qed

lemma split_line: "newline \<notin> set a \<Longrightarrow> newline \<notin> set b \<Longrightarrow> a @ newline # x = b @ newline # y \<longleftrightarrow> a = b \<and> x = y"
proof (induction a arbitrary: b)
  case Nil
  then show ?case by (cases b) auto
next
  case (Cons c a)
  then show ?case by (cases b) auto
qed

text \<open>Identifications without line breaks in their first three fields print differently.\<close>

lemma show_identification_inj:
  assumes "newline \<notin> set (chars (id_name i) @ chars (id_serial_number i) @ chars (id_hw_version i))"
    and "newline \<notin> set (chars (id_name j) @ chars (id_serial_number j) @ chars (id_hw_version j))"
  shows "show_identification i = show_identification j \<longleftrightarrow> i = j"
  using assms by (cases i; cases j) (auto simp: show_identification_def split_line chars_inj)

text \<open>A packet prints an empty line, a line of its own and a line for each block.\<close>

lemma show_packet_lines:
  assumes "\<And>n. newline \<notin> set (fmt_dec F n) \<and> newline \<notin> set (fmt_hex F n)"
  shows "length (filter ((=) newline) (show_packet F p)) = 2 + length (packet_blocks p)"
proof -
  have none: "filter ((=) newline) (fmt_dec F n) = []" "filter ((=) newline) (fmt_hex F n) = []" for n
    using assms by (auto simp: filter_empty_conv)
  have "filter ((=) newline) (join_bytes F bs) = []" for bs
    by (induction bs rule: induct_list012) (simp_all add: none)
  then have "length (filter ((=) newline) (show_blocks F i bs)) = length bs" for i bs
    by (induction bs arbitrary: i) (simp_all add: none)
  then show ?thesis by (simp add: show_packet_def none)
qed

end
