(* ===== verification/Delivery.thy ===== *)
theory Delivery
  imports Stack_Properties
begin

text \<open>
  Two conversations of a connection that is up: the data the device's user sends, followed
  through its packets and the bytes of the TCP stream to the callback of the host's user; and a
  keep-alive with its acknowledgement.
\<close>

section \<open>Data at the host\<close>

text \<open>
  \<open>n\<close> passes of the handler of \<open>Connected\<close>, each under the \<^verbatim>\<open>try\<close> of \<^verbatim>\<open>Master::run\<close>.
\<close>

definition ms_passes ::
  "('q, 'm, 'tr, 'c, 'cb, 'u) master_app_env \<Rightarrow> nat \<Rightarrow> (('q, 'm, 'tr, 'c, 'u) master, unit) stmt" where
  "ms_passes E n =
     foreachE (\<lambda>_. ms_catch (bindE (ms_handler_connected E) (\<lambda>_. retE ()))) (replicate n ())"

text \<open>A data packet goes to the callback once, whatever exception the callback throws.\<close>

lemma ms_pass_data:
  assumes reads: "ms_reads E m (Some q) t'" and q: "packet_type q = Some Data"
    and m: "ms_nb_loop m \<noteq> 1" "ms_data_cb m = Some cb"
    and cb: "fst (cb q (mr_user (ms_rm m))) \<noteq> Inl Undefined_behaviour"
  shows "\<exists>m1. ms_catch (bindE (ms_handler_connected E) (\<lambda>_. retE ())) m = (Inr (), m1)
    \<and> mr_user (ms_rm m1) = snd (cb q (mr_user (ms_rm m))) \<and> mr_transport (ms_rm m1) = Some t'
    \<and> ms_nb_loop m1 = ms_nb_loop m \<and> ms_data_cb m1 = Some cb"
proof -
  obtain r u where u: "cb q (mr_user (ms_rm m)) = (r, u)" by fastforce
  let ?m = "m\<lparr>ms_rm := (ms_rm m)\<lparr>mr_transport := Some t', mr_user := u\<rparr>, ms_received_packet_id := packet_id q\<rparr>"
  have "ms_handler_connected E m = (case r of Inl e \<Rightarrow> (Inl e, ?m) | Inr _ \<Rightarrow> (Inr Stay_curr_state, ?m))"
    using m q u
    by (cases r) (simp_all add: ms_handler_connected_def prog_run ms_read_run [OF reads] ms_track_id_run
        ms_on_user_def ms_on_rm_run)
  then show ?thesis
    using cb u m by (cases r) (auto simp: ms_catch_def prog_run split: option.split)
qed

context transport_contract
begin

lemma ms_passes_data:
  assumes E: "me_tr (ma_rm E) = A" and cb: "\<And>p u. fst (cb p u) \<noteq> Inl Undefined_behaviour"
  shows "list_all (\<lambda>q. packet_type q = Some Data) qs \<Longrightarrow> received t = qs \<Longrightarrow> mr_transport (ms_rm m) = Some t \<Longrightarrow>
    ms_nb_loop m \<noteq> 1 \<Longrightarrow> ms_data_cb m = Some cb \<Longrightarrow>
    \<exists>m'. ms_passes E (length qs) m = (Inr (), m')
      \<and> mr_user (ms_rm m') = fold (\<lambda>q u. snd (cb q u)) qs (mr_user (ms_rm m))"
proof (induction qs arbitrary: t m)
  case Nil
  then show ?case by (simp add: ms_passes_def prog_run)
next
  case (Cons q qs)
  obtain t1 where t1: "tr_read A t = (Some q, t1)" "received t1 = qs"
    using read_some [of t] read_none [of t] Cons.prems(2) by (cases "tr_read A t"; cases "fst (tr_read A t)") auto
  then have "ms_reads E m (Some q) t1" using Cons.prems(3) E by (simp add: ms_reads_def)
  then obtain m1 where m1: "ms_catch (bindE (ms_handler_connected E) (\<lambda>_. retE ())) m = (Inr (), m1)"
    "mr_user (ms_rm m1) = snd (cb q (mr_user (ms_rm m)))" "mr_transport (ms_rm m1) = Some t1"
    "ms_nb_loop m1 = ms_nb_loop m" "ms_data_cb m1 = Some cb"
    using ms_pass_data [of E m q t1 cb] Cons.prems cb by auto
  obtain m' where "ms_passes E (length qs) m1 = (Inr (), m')"
    "mr_user (ms_rm m') = fold (\<lambda>q u. snd (cb q u)) qs (mr_user (ms_rm m1))"
    using Cons.IH [of t1 m1] Cons.prems t1(2) m1 by auto
  then show ?case using m1(1,2) by (simp add: ms_passes_def prog_run)
qed

end

text \<open>There are at most as many packets as blocks.\<close>

lemma chunking_length: "chunking bs css \<Longrightarrow> length css \<le> length bs"
proof -
  have "\<forall>cs\<in>set css. cs \<noteq> [] \<Longrightarrow> length css \<le> length (concat css)"
  proof (induction css)
    case (Cons c css)
    then show ?case by (cases c) auto
  qed simp
  then show "chunking bs css \<Longrightarrow> length css \<le> length bs" by (auto simp: chunking_def)
qed

text \<open>What arrives of data packets is data packets.\<close>

lemma same_bytes_data:
  assumes "list_all valid_packet ps" and "list_all valid_packet qs" and "map packet_bytes qs = map packet_bytes ps"
    and "list_all (\<lambda>p. packet_type p = Some Data) ps"
  shows "list_all (\<lambda>q. packet_type q = Some Data) qs"
  unfolding list_all_length
proof (intro allI impI)
  fix i assume i: "i < length qs"
  then have len: "i < length ps" using assms(3) by (metis length_map)
  have "packet_bytes (qs ! i) = packet_bytes (ps ! i)"
    using assms(3) i len by (metis nth_map)
  then show "packet_type (qs ! i) = Some Data"
    using same_bytes_header(1) [of "ps ! i" "qs ! i"] assms(1,2,4) i len by (simp add: list_all_length)
qed

text \<open>
  C4: Data goes from user to user: blocks that fit are accepted by \<^verbatim>\<open>send_data\<close> of a connected
  device; the bytes of the packets it sends, one behind the other in the TCP stream, are taken
  apart by the client of the host; and as many passes of the connected host as there are packets
  call the data callback of its user with them, in order and once each, whatever the callback
  throws. The blocks of these packets, one packet after the other, are the blocks that were sent.
\<close>

theorem data_delivered:
  assumes "posting_transport (se_tr (sa_rm F)) sent rcvd" and "storage (se_mem (sa_rm F))"
    and "sl_curr d = Connected" and "srm_open (sa_rm F) (sl_rm d)"
    and "\<forall>b\<in>set bs. block_size b \<le> max_pl_size" and "length bs < 256"
    and "client_laws C" and "holds_up_to (ce_read_queue C) n" and "me_tr (ma_rm E) = tc_api C"
    and "tc_pending t = [Read_header]" and "storage (p_data (tc_read_packet t))"
    and "tc_received C t = []" and "length bs \<le> n"
    and "ms_nb_loop m \<noteq> 1" and "ms_data_cb m = Some cb" and "\<forall>p u. fst (cb p u) \<noteq> Inl Undefined_behaviour"
  shows "\<exists>d' ps t' qs m'. sl_send_data F bs d = (Inr (), d')
    \<and> srm_sent sent (sl_rm d') = srm_sent sent (sl_rm d) @ ps
    \<and> (tc_input C)\<^sup>*\<^sup>* (concat (map packet_bytes ps) @ w, t) (w, t') \<and> tc_received C t' = qs
    \<and> ms_passes E (length ps) (m\<lparr>ms_rm := (ms_rm m)\<lparr>mr_transport := Some t'\<rparr>\<rparr>) = (Inr (), m')
    \<and> mr_user (ms_rm m') = fold (\<lambda>q u. snd (cb q u)) qs (mr_user (ms_rm m))
    \<and> concat (map packet_blocks qs) = bs"
proof -
  obtain x where x: "srm_send_data (sa_rm F) bs (sl_rm d) = (Inr (), x)"
    using posting_transport.srm_send_data_posts [OF assms(1) refl assms(2,5,6,4)] by blast
  then have send: "sl_send_data F bs d = (Inr (), d\<lparr>sl_rm := x\<rparr>)"
    using assms(3) by (simp add: sl_send_data_def prog_run sl_on_rm_run)
  obtain css where css: "emits sent (sl_rm d) x css" "chunking bs css"
    using transport_contract.srm_send_data_emits [OF posting_transport.axioms(1) [OF assms(1)] refl assms(2) x] by blast
  then obtain ps where ps: "srm_sent sent x = srm_sent sent (sl_rm d) @ ps" "map packet_blocks ps = css"
    "list_all valid_packet ps" "list_all (\<lambda>p. packet_type p = Some Data) ps"
    by (auto simp: emits_def list_all_iff)
  have room: "length (tc_received C t) + length ps \<le> n"
    using chunking_length [OF css(2)] ps(2) assms(12,13) by (metis add_0 le_trans length_map list.size(3))
  obtain t' qs where read: "(tc_input C)\<^sup>*\<^sup>* (concat (map packet_bytes ps) @ w, t) (w, t')" "tc_received C t' = qs"
    "list_all valid_packet qs" "map packet_bytes qs = map packet_bytes ps" "map packet_blocks qs = map packet_blocks ps"
    using packet_reader.read_all [OF tc_packet_reader [OF assms(7,8)] ps(3) _ room, of w] assms(10-12)
    unfolding tc_ready_def by (metis append_Nil)
  have data: "list_all (\<lambda>q. packet_type q = Some Data) qs"
    by (rule same_bytes_data [OF ps(3) read(3,4) ps(4)])
  let ?m = "m\<lparr>ms_rm := (ms_rm m)\<lparr>mr_transport := Some t'\<rparr>\<rparr>"
  have len: "length qs = length ps" using read(4) by (metis length_map)
  obtain m' where "ms_passes E (length ps) ?m = (Inr (), m')"
    "mr_user (ms_rm m') = fold (\<lambda>q u. snd (cb q u)) qs (mr_user (ms_rm m))"
    using transport_contract.ms_passes_data [OF posting_transport.axioms(1) [OF tc_posting [OF assms(7)]] assms(9)
        _ data read(2), of cb ?m] assms(14-16) len by auto
  moreover have "concat (map packet_blocks qs) = bs"
    using css(2) read(5) ps(2) by (simp add: chunking_def)
  ultimately show ?thesis
    using send ps(1) read(1,2)
    by (intro exI [of _ "d\<lparr>sl_rm := x\<rparr>"] exI [of _ ps] exI [of _ t'] exI [of _ qs] exI [of _ m']) simp
qed

text \<open>
  A host on the reference objects whose user collects the blocks of the data that arrives.
\<close>

type_synonym ref_collector =
  "(master_timer ref_queue, master_event set, (bool, packet list, packet list) tcp_client, nat request list,
    block list) master"

definition ref_collector_app ::
  "(master_timer ref_queue, master_event set, (bool, packet list, packet list) tcp_client, nat request list, nat,
    block list) master_app_env" where
  "ref_collector_app =
     \<lparr>ma_rm = \<lparr>me_mem = replicate 2048 0, me_tq = ref_timeout_queue, me_tr = tc_api ref_client_env,
        me_set = ref_multi_index req_id req_command_id, me_call = (\<lambda>cb r u. (Inr (), u))\<rparr>,
      ma_evt = ref_event_mngr\<rparr>"

definition ref_collector :: ref_collector where
  "ref_collector =
     \<lparr>ms_curr = Connected, ms_nb_loop = 2, ms_evt = {},
      ms_rm = \<lparr>mr_requests = [], mr_timeout_queue = ref_queue_empty, mr_keepalive_mngt_id = 0, mr_dip_id = 0,
        mr_ka_ids = [], mr_keepalive_mngt = False, mr_now = 0, mr_packet_id = 1, mr_timeout_keepalive = 0,
        mr_transport = Some ref_client, mr_running = True, mr_user = []\<rparr>,
      ms_master_id = no_identification, ms_slave_id = no_identification, ms_received_packet_id = 1,
      ms_connection_attempts = 1, ms_data_cb = Some (\<lambda>p u. (Inl (Std_exception Out_of_range), u @ packet_blocks p)),
      ms_status_cb = None, ms_errc = no_error_code, ms_running = True\<rparr>"

lemma fold_collect: "fold (\<lambda>q u. u @ packet_blocks q) qs u = u @ concat (map packet_blocks qs)"
  by (induction qs arbitrary: u) simp_all

theorem data_delivered_witness:
  "\<exists>d' ps t' m'. sl_send_data ref_slave_app two_blocks (ref_slave\<lparr>sl_curr := Connected\<rparr>) = (Inr (), d')
     \<and> srm_sent (tc_sent ref_client_env) (sl_rm d') = ps
     \<and> (tc_input ref_client_env)\<^sup>*\<^sup>* (concat (map packet_bytes ps) @ [], ref_client) ([], t')
     \<and> ms_passes ref_collector_app (length ps)
          (ref_collector\<lparr>ms_rm := (ms_rm ref_collector)\<lparr>mr_transport := Some t'\<rparr>\<rparr>) = (Inr (), m')
     \<and> mr_user (ms_rm m') = two_blocks"
proof -
  let ?d = "ref_slave\<lparr>sl_curr := Connected\<rparr>"
  have d: "sl_curr ?d = Connected" "srm_open (sa_rm ref_slave_app) (sl_rm ?d)" "storage (se_mem (sa_rm ref_slave_app))"
    "srm_sent (tc_sent ref_client_env) (sl_rm ?d) = []"
    by (simp_all add: ref_slave_def srm_open_def ref_slave_rm_def srm_sent_def tc_sent_def ref_client_def
        ref_client_env_def ref_queue_api_def tc_api_def tc_is_open_def ref_socket_def)
  have room: "holds_up_to (ce_read_queue ref_client_env) 100" by (simp add: ref_client_env_def)
  have t: "me_tr (ma_rm ref_collector_app) = tc_api ref_client_env"
    "tc_pending ref_client = [Read_header]" "storage (p_data (tc_read_packet ref_client))"
    "tc_received ref_client_env ref_client = []"
    by (simp_all add: ref_client_env_def ref_collector_app_def ref_client_def storage_def format_sizes tc_received_def
        ref_queue_api_def)
  let ?cb = "\<lambda>p u. (Inl (Std_exception Out_of_range) :: exn + unit, u @ packet_blocks p)"
  have m: "ms_nb_loop ref_collector \<noteq> 1" "ms_data_cb ref_collector = Some ?cb" "mr_user (ms_rm ref_collector) = []"
    "\<forall>p u. fst (?cb p u) \<noteq> Inl Undefined_behaviour"
    by (simp_all add: ref_collector_def)
  have b: "\<forall>b\<in>set two_blocks. block_size b \<le> max_pl_size" "length two_blocks < 256" "length two_blocks \<le> 100"
    using two_blocks_sizes by simp_all
  obtain d' ps t' qs m' where r: "sl_send_data ref_slave_app two_blocks ?d = (Inr (), d')"
    "srm_sent (tc_sent ref_client_env) (sl_rm d') = srm_sent (tc_sent ref_client_env) (sl_rm ?d) @ ps"
    "(tc_input ref_client_env)\<^sup>*\<^sup>* (concat (map packet_bytes ps) @ [], ref_client) ([], t')"
    "ms_passes ref_collector_app (length ps)
       (ref_collector\<lparr>ms_rm := (ms_rm ref_collector)\<lparr>mr_transport := Some t'\<rparr>\<rparr>) = (Inr (), m')"
    "mr_user (ms_rm m') = fold (\<lambda>q u. snd (?cb q u)) qs (mr_user (ms_rm ref_collector))"
    "concat (map packet_blocks qs) = two_blocks"
    using data_delivered [OF ref_app_posting(2) d(3,1,2) b(1,2) ref_client_laws room t b(3) m(1,2,4), of "[]"] by blast
  have "mr_user (ms_rm m') = two_blocks" using r(5,6) m(3) by (simp add: fold_collect)
  moreover have "srm_sent (tc_sent ref_client_env) (sl_rm d') = ps" using r(2) d(4) by simp
  ultimately show ?thesis using r(1,3,4) by blast
qed

section \<open>A keep-alive and its acknowledgement\<close>

context posting_transport
begin

lemma mrm_ka_mngt_sends:
  assumes E: "me_tr E = A" and laws: "master_laws E" and inv: "mrm_inv E x" and mem: "storage (me_mem E)"
    and op: "mrm_open E x"
  shows "\<exists>x' k i. mrm_ka_mngt_timeout_cb E x = (Inr (), x') \<and> mrm_inv E x'
    \<and> mrm_sent sent x' = mrm_sent sent x @ [k] \<and> valid_packet k \<and> packet_type k = Some Ka
    \<and> mrm_timers E x i = None \<and> mrm_timers E x' = (mrm_timers E x)(i \<mapsto>
        \<lparr>t_callback = Ka_timer, t_start = mr_now x, t_period = mr_timeout_keepalive x, t_repeating = False\<rparr>)"
proof -
  obtain t where t: "mr_transport x = Some t" "tr_is_open A t"
    using op E by (auto simp: mrm_open_def split: option.splits)
  obtain k where k: "make_keepalive (me_mem E) (mr_packet_id x + 1) = Inr k" "valid_packet k" "packet_type k = Some Ka"
    using make_keepalive_ok [OF mem] by blast
  obtain t1 where t1: "mrm_transmit E (make_keepalive (me_mem E)) x
      = (Inr (), x\<lparr>mr_packet_id := mr_packet_id x + 1, mr_transport := Some t1\<rparr>)" "sent t1 = sent t @ [k]"
    using mrm_transmit_posts [where mk = "make_keepalive (me_mem E)", OF E t k(1)] by blast
  let ?x = "x\<lparr>mr_packet_id := mr_packet_id x + 1, mr_transport := Some t1\<rparr>"
  obtain r x2 where add: "mrm_add_timer E (mr_timeout_keepalive ?x) Ka_timer ?x = (r, x2)" by fastforce
  obtain i q where i: "r = Inr i" "x2 = ?x\<lparr>mr_timeout_queue := q\<rparr>" "i \<notin> mrm_used E ?x"
    "mrm_timers E x2 = (mrm_timers E ?x)(i \<mapsto>
        \<lparr>t_callback = Ka_timer, t_start = mr_now ?x, t_period = mr_timeout_keepalive ?x, t_repeating = False\<rparr>)"
    using mrm_add_timer_run [OF laws add] by auto
  let ?x' = "x2\<lparr>mr_ka_ids := mr_ka_ids x2 @ [i]\<rparr>"
  have run: "mrm_ka_mngt_timeout_cb E x = (Inr (), ?x')"
    using t1(1) add i(1) by (simp add: mrm_ka_mngt_timeout_cb_def prog_run)
  have "mrm_timers E x i = None"
    using i(3) rm_view_fresh(1) [OF inv [unfolded mrm_inv_def]] by (simp add: mrm_views)
  then show ?thesis
    using run mrm_ka_mngt_run [OF laws inv run] t1(2) t(1) k(2,3) i(2,4)
    by (intro exI [of _ ?x'] exI [of _ k] exI [of _ i]) (simp add: mrm_views mrm_sent_def)
qed

end

text \<open>The device's pass: the timeout starts again, and the acknowledgement goes out.\<close>

lemma slave_keepalive_pass:
  assumes post: "posting_transport (se_tr (sa_rm F)) sent received" and laws: "slave_app_laws F"
    and mem: "storage (se_mem (sa_rm F))" and reads: "sl_reads F s p t'" and op: "tr_is_open (se_tr (sa_rm F)) t'"
    and p: "packet_type p = Some Ka" and ka: "sr_keepalive_mngt (sl_rm s)" "srm_one_timer (sa_rm F) (sl_rm s)"
  shows "\<exists>s' a. sl_handler_connected F s = (Inr Stay_curr_state, s')
    \<and> srm_sent sent (sl_rm s') = srm_sent sent (sl_rm s) @ [a] \<and> valid_packet a \<and> packet_type a = Some Ka_ack
    \<and> srm_timers (sa_rm F) (sl_rm s') = [sr_keepalive_id (sl_rm s') \<mapsto>
        \<lparr>t_callback = Slave_ka_timer, t_start = sr_now (sl_rm s), t_period = sr_timeout_keepalive (sl_rm s),
         t_repeating = False\<rparr>]"
proof -
  let ?R = "sa_rm F" and ?x = "(sl_rm s)\<lparr>sr_transport := Some t'\<rparr>"
  obtain t where t: "sr_transport (sl_rm s) = Some t" "tr_read (se_tr ?R) t = (Some p, t')"
    using reads by (auto simp: sl_reads_def)
  have "sent t' = sent t"
    using transport_contract.read_frame(1) [OF posting_transport.axioms(1) [OF post], of t] t(2) by simp
  then have x: "srm_open ?R ?x" "srm_sent sent ?x = srm_sent sent (sl_rm s)"
    using op t(1) by (simp_all add: srm_open_def srm_sent_def)
  obtain y a where a: "srm_keepalive ?R ?x = (Inr (), y)" "srm_sent sent y = srm_sent sent ?x @ [a]" "valid_packet a"
    "packet_type a = Some Ka_ack"
    using posting_transport.srm_keepalive_sends [OF post refl mem x(1)] by blast
  have "srm_one_timer ?R ?x" using ka(2) by (simp add: srm_one_timer_def srm_timers_def)
  moreover have "timeout_queue_laws (se_tq ?R)" using laws by (simp add: slave_app_laws_def)
  ultimately have timers: "srm_timers ?R y = [sr_keepalive_id y \<mapsto>
      \<lparr>t_callback = Slave_ka_timer, t_start = sr_now (sl_rm s), t_period = sr_timeout_keepalive (sl_rm s),
       t_repeating = False\<rparr>]"
    using slave_keepalive_restarts [of ?R ?x] ka(1) a(1) by simp
  let ?s = "s\<lparr>sl_rm := y, sl_received_packet_id := packet_id p\<rparr>"
  have "sl_handler_connected F s = (Inr Stay_curr_state, ?s)"
    using a(1) p by (simp add: sl_handler_connected_def run_bindE sl_read_run [OF reads] sl_track_id_run run_retE
      sl_on_rm_run)
  then show ?thesis using a x(2) timers by (intro exI [of _ ?s] exI [of _ a]) simp
qed

text \<open>The host's pass: no keep-alive timeout is left, and nothing else is called off.\<close>

lemma master_ka_ack_pass:
  assumes laws: "master_laws (ma_rm E)" and inv: "mrm_inv (ma_rm E) (ms_rm m)" and reads: "ms_reads E m (Some q) t'"
    and q: "packet_type q = Some Ka_ack" and m: "ms_nb_loop m \<noteq> 1"
  shows "\<exists>m'. ms_handler_connected E m = (Inr Stay_curr_state, m') \<and> no_ka_timer (ma_rm E) (ms_rm m')
    \<and> (\<forall>i t. mrm_timers (ma_rm E) (ms_rm m) i = Some t \<and> t_callback t \<noteq> Ka_timer \<longrightarrow>
        mrm_timers (ma_rm E) (ms_rm m') i = Some t)"
proof -
  let ?R = "ma_rm E" and ?x = "(ms_rm m)\<lparr>mr_transport := Some t'\<rparr>"
  have x: "mrm_inv ?R ?x" "mrm_timers ?R ?x = mrm_timers ?R (ms_rm m)"
    using inv by (simp_all add: mrm_inv_def mrm_views)
  obtain r y where run: "mrm_ack_keepalive ?R ?x = (r, y)" by fastforce
  note y = mrm_ack_keepalive_run [OF laws x(1) run]
  let ?m = "m\<lparr>ms_rm := y, ms_received_packet_id := packet_id q\<rparr>"
  have "ms_handler_connected E m = (Inr Stay_curr_state, ?m)"
    using m q run y
    by (simp add: ms_handler_connected_def prog_run ms_read_run [OF reads] ms_track_id_run ms_on_rm_run)
  moreover have "t_callback t \<noteq> Ka_timer \<Longrightarrow> mrm_timers ?R (ms_rm m) i = Some t \<Longrightarrow> mrm_timers ?R y i = Some t" for i t
    using y rm_view_D(7) [OF x(1) [unfolded mrm_inv_def]] x(2) by auto
  ultimately show ?thesis using y by (intro exI [of _ ?m]) auto
qed



end
