(* ===== verification/Wire_Format.thy ===== *)
theory Wire_Format
  imports Packet_Laws
begin

text \<open>
  The format of a packet on the wire, written down byte by byte and without the functions of
  class \<^verbatim>\<open>Packet\<close>: numbers, sums over natural numbers, a list of blocks. The constructor and the
  checks that the transports run accept this format, all of it and nothing else.
\<close>

section \<open>The reference format\<close>

text \<open>Two bytes, the low one first.\<close>

definition two_bytes :: "nat \<Rightarrow> bytes" where
  "two_bytes n = [of_nat (n mod 256), of_nat (n div 256)]"

text \<open>The sum of the bytes, weighted by their distance from the end, and the plain one, modulo 256.\<close>

definition checksum :: "bytes \<Rightarrow> bytes" where
  "checksum v =
     [of_nat (\<Sum>i<length v. (length v - i) * unat (v ! i)), of_nat (\<Sum>i<length v. unat (v ! i))]"

definition frame_block :: "block \<Rightarrow> bytes" where
  "frame_block b = two_bytes (unat (b_type b)) @ two_bytes (length (b_data b)) @ b_data b"

text \<open>
  A packet with an identifier, a type and blocks; \<open>rest\<close> are bytes behind the last block, which
  the sender's length field counts.
\<close>

definition frame_body :: "block list \<Rightarrow> bytes \<Rightarrow> bytes" where
  "frame_body bs rest = concat (map frame_block bs) @ rest"

definition frame :: "u16 \<Rightarrow> packet_type \<Rightarrow> block list \<Rightarrow> bytes \<Rightarrow> bytes" where
  "frame i t bs rest =
     (let body = frame_body bs rest;
          head = [0xFE, 0xCA, 0x01] @ two_bytes (length body) @ two_bytes (unat i)
                   @ [type_code t, of_nat (length bs)] @ checksum body
      in head @ checksum head @ body)"

text \<open>The number of blocks is one byte, the body has at most 2035, and \<open>rest\<close> does not hold another block.\<close>

definition no_block :: "bytes \<Rightarrow> bool" where
  "no_block rest \<longleftrightarrow> length rest < 4 \<or> length rest < 4 + (unat (rest ! 2) + 256 * unat (rest ! 3))"

definition frame_ok :: "block list \<Rightarrow> bytes \<Rightarrow> bool" where
  "frame_ok bs rest \<longleftrightarrow> length bs < 256 \<and> length (frame_body bs rest) \<le> 2035 \<and> no_block rest"

text \<open>No start of packet begins in the first \<open>n\<close> bytes.\<close>

definition no_start :: "nat \<Rightarrow> bytes \<Rightarrow> bool" where
  "no_start n v \<longleftrightarrow> (\<forall>i<n. take 2 (drop i v) \<noteq> [0xFE, 0xCA])"

text \<open>A command with one block of type 5 and the data 1, 2 under the identifier 7; a keep-alive.\<close>

lemma frame_examples:
  "frame 7 Cmd [\<lparr>b_type = 5, b_data = [1, 2]\<rparr>] [] =
     [0xFE, 0xCA, 1, 6, 0, 7, 0, 3, 1, 42, 10, 158, 14, 5, 0, 2, 0, 1, 2]"
  "frame 7 Ka [] [] = [0xFE, 0xCA, 1, 0, 0, 7, 0, 2, 0, 0, 0, 9, 210]"
  by code_simp+

section \<open>The pieces\<close>

lemma two_bytes_u16: "two_bytes (unat w) = u16_le w"
proof -
  have "(of_nat (unat w mod 256) :: u8) = ucast w"
    by (simp add: word_unat_eq_iff unsigned_ucast_eq unat_of_nat take_bit_eq_mod)
  moreover have "(of_nat (unat w div 256) :: u8) = ucast (drop_bit 8 w)"
    by (simp add: word_unat_eq_iff unsigned_ucast_eq unat_of_nat drop_bit_eq_div unat_div_distrib take_bit_eq_mod)
  ultimately show ?thesis by (simp add: two_bytes_def u16_le_def)
qed

lemma two_bytes_of_nat: "n < 65536 \<Longrightarrow> two_bytes n = u16_le (of_nat n)"
  using two_bytes_u16 [of "of_nat n"] by (simp add: unat_of_nat)

lemma unat_le_u16: "unat (le_u16 a b) = unat a + 256 * unat b"
proof -
  have "two_bytes (unat (le_u16 a b)) = [a, b]" by (simp add: two_bytes_u16 u16_le_def)
  then have ab: "a = of_nat (unat (le_u16 a b) mod 256)" "b = of_nat (unat (le_u16 a b) div 256)"
    by (simp_all only: two_bytes_def list.inject)
  have "unat a = unat (le_u16 a b) mod 256" by (subst ab(1)) (simp add: unat_of_nat)
  moreover have "unat b = unat (le_u16 a b) div 256"
    using unat_u16_less [of "le_u16 a b"] by (subst ab(2)) (simp add: unat_of_nat)
  ultimately show ?thesis by simp
qed

lemma sums_Cons:
  "(\<Sum>i<length (c # v). unat ((c # v) ! i)) = unat c + (\<Sum>i<length v. unat (v ! i))"
  "(\<Sum>i<length (c # v). (length (c # v) - i) * unat ((c # v) ! i))
     = Suc (length v) * unat c + (\<Sum>i<length v. (length v - i) * unat (v ! i))"
  by (simp_all add: sum.lessThan_Suc_shift del: sum.lessThan_Suc)

lemma sum_list_unat: "(sum_list v :: u8) = of_nat (\<Sum>i<length v. unat (v ! i))"
proof (induction v)
  case (Cons c v)
  then show ?case by (simp only: sums_Cons of_nat_add sum_list.Cons) simp
qed simp

lemma weighted_sum_unat: "weighted_sum v = of_nat (\<Sum>i<length v. (length v - i) * unat (v ! i))"
proof (induction v)
  case (Cons c v)
  then show ?case by (simp only: sums_Cons of_nat_add of_nat_mult weighted_sum.simps) simp
qed simp

lemma checksum_crc: "checksum v = u16_le (compute_crc v)"
  by (simp add: checksum_def compute_crc_sums u16_le_def sum_list_unat weighted_sum_unat)

lemma frame_block_make: "fits b \<Longrightarrow> frame_block b = make_block b"
  by (simp add: frame_block_def make_block_def two_bytes_u16 two_bytes_of_nat fits_def)

lemma no_block_iff: "no_block rest \<longleftrightarrow> blocks rest = []"
  by (subst blocks.simps) (auto simp: no_block_def bheader_size_def read_bheader_def unat_le_u16 Let_def)

lemma frame_ok_fits: "frame_ok bs rest \<Longrightarrow> list_all fits bs"
proof -
  have "length (concat (map frame_block bs)) < 65536 \<Longrightarrow> list_all fits bs"
    by (induction bs) (auto simp: fits_def frame_block_def)
  then show "frame_ok bs rest \<Longrightarrow> list_all fits bs" by (simp add: frame_ok_def frame_body_def)
qed

lemma frame_body_make: "list_all fits bs \<Longrightarrow> frame_body bs rest = concat (map make_block bs) @ rest"
  by (induction bs) (simp_all add: frame_body_def frame_block_make)

lemma frame_make:
  assumes "frame_ok bs rest"
  shows "frame i t bs rest = make_header i t (of_nat (length bs)) (frame_body bs rest) @ frame_body bs rest"
proof -
  let ?body = "frame_body bs rest" and ?h = "made_header i t (of_nat (length bs)) (frame_body bs rest)"
  let ?head = "[0xFE, 0xCA, 0x01] @ two_bytes (length ?body) @ two_bytes (unat i)
    @ [type_code t, of_nat (length bs)] @ checksum ?body"
  have len: "length ?body < 65536" using assms by (simp add: frame_ok_def)
  have sop: "u16_le sop @ [ver] = [0xFE, 0xCA, 0x01]" by (simp add: sop_def ver_def u16_le_def)
  have bytes: "header_bytes ?h = ?head @ u16_le (h_h_crc ?h)"
    using sop by (simp add: header_bytes_def two_bytes_u16 two_bytes_of_nat [OF len] checksum_crc)
  have cut: "length xs = n \<Longrightarrow> take n (xs @ ys) = xs" for n and xs ys :: bytes by simp
  have "length ?head = header_size - 2"
    by (simp add: two_bytes_def checksum_def header_size_def)
  then have "take (header_size - 2) (?head @ u16_le (h_h_crc ?h)) = ?head" by (rule cut)
  then have "h_h_crc ?h = compute_crc ?head"
    using made_header_crc [of i t "of_nat (length bs)" ?body] unfolding bytes by (simp only:)
  then show ?thesis
    unfolding frame_def Let_def make_header_bytes bytes checksum_crc [of ?head] by (simp only: append_assoc)
qed

lemma frame_blocks: "frame_ok bs rest \<Longrightarrow> blocks (frame_body bs rest) = bs"
  using frame_ok_fits [of bs rest] blocks_concat [of bs rest]
  by (simp add: frame_body_make frame_ok_def no_block_iff)

section \<open>What is accepted\<close>

text \<open>The checks of the header and of the payload behind it, at the beginning of a buffer.\<close>

definition accepts_at :: "bytes \<Rightarrow> header \<Rightarrow> bool" where
  "accepts_at x h \<longleftrightarrow> parse_header_view (take header_size x) = Inr h
     \<and> header_size + unat (h_len h) \<le> length x
     \<and> parse_payload_view (take (unat (h_len h)) (drop header_size x)) h = Inr ()"

lemma frame_accepted:
  assumes "frame_ok bs rest"
  shows "accepts_at (frame i t bs rest @ w) (made_header i t (of_nat (length bs)) (frame_body bs rest))"
proof -
  have len: "length (frame_body bs rest) \<le> max_pl_size" "length bs < 256"
    using assms by (simp_all add: frame_ok_def format_sizes)
  then show ?thesis
    using frame_blocks [OF assms]
    by (simp add: accepts_at_def frame_make [OF assms] parse_make_header parse_payload_view_def format_sizes
        unat_of_nat)
qed

lemma accepted_frame:
  assumes "accepts_at x h"
  shows "\<exists>i t bs rest w. frame_ok bs rest \<and> x = frame i t bs rest @ w"
proof -
  let ?pl = "take (unat (h_len h)) (drop header_size x)"
  have hd: "parse_header_view (take header_size x) = Inr h" and len: "header_size + unat (h_len h) \<le> length x"
    and pl: "parse_payload_view ?pl h = Inr ()"
    using assms by (simp_all add: accepts_at_def)
  note H = parse_header_view_InrD [OF hd] and P = parse_payload_view_InrD [OF pl]
  obtain t where t: "h_type h = type_code t" using H(5) type_of_code_SomeD by (metis not_Some_eq)
  obtain rest where rest: "?pl = concat (map make_block (blocks ?pl)) @ rest" using blocks_prefix by blast
  have body: "frame_body (blocks ?pl) rest = ?pl" using rest by (simp add: frame_body_make [OF blocks_fit])
  have "blocks ?pl = blocks ?pl @ blocks rest"
    using blocks_concat [OF blocks_fit, of ?pl rest] rest by simp
  then have "no_block rest" by (simp add: no_block_iff)
  moreover have "unat (h_n_block h) < 256" using unsigned_less [of "h_n_block h"] by simp
  then have "length (blocks ?pl) < 256" using P(3) by simp
  moreover have "length (frame_body (blocks ?pl) rest) \<le> 2035"
    using H(6) P(1) unfolding body by (simp add: format_sizes)
  ultimately have ok: "frame_ok (blocks ?pl) rest" by (simp add: frame_ok_def)
  have "h_len h = of_nat (length ?pl)" "h_n_block h = of_nat (length (blocks ?pl))"
    unfolding P(1,3) [symmetric] by simp_all
  then have fields: "h = (made_header (h_id h) t (of_nat (length (blocks ?pl))) ?pl)\<lparr>h_h_crc := h_h_crc h\<rparr>"
    using H(3,4) P(2) t by (cases h) (simp add: made_header_def Let_def)
  let ?g = "made_header (h_id h) t (of_nat (length (blocks ?pl))) ?pl"
  have x: "take header_size x = header_bytes h" using hdr.enc_dec [of "take header_size x"] H(1,2) by simp
  have "take (header_size - 2) (header_bytes h) = take (header_size - 2) (header_bytes ?g)"
    by (subst fields) (rule header_crc_bytes)
  then have "h_h_crc h = h_h_crc ?g" using H(7) made_header_crc by (simp only: x)
  then have "h = ?g" using fields by (metis header.surjective header.update_convs(8))
  then have "take header_size x = make_header (h_id h) t (of_nat (length (blocks ?pl))) ?pl"
    using x by (simp only: make_header_bytes)
  then have "x = frame (h_id h) t (blocks ?pl) rest @ drop (header_size + unat (h_len h)) x"
    using append_take_drop_id [of header_size x] append_take_drop_id [of "unat (h_len h)" "drop header_size x"]
    by (simp add: frame_make [OF ok] body add.commute)
  with ok show ?thesis by blast
qed

lemma find_bytes_first:
  "pat \<noteq> [] \<Longrightarrow> find_bytes pat v = Some n \<longleftrightarrow>
     take (length pat) (drop n v) = pat \<and> (\<forall>i<n. take (length pat) (drop i v) \<noteq> pat)"
proof (induction v arbitrary: n)
  case (Cons c v)
  show ?case
  proof (cases n)
    case (Suc m)
    then show ?thesis using Cons.IH [of m] Cons.prems by (auto simp: All_less_Suc2)
  qed (use Cons.prems in auto)
qed auto

lemma no_start_find:
  "find_bytes (u16_le sop) v = Some n \<longleftrightarrow> take 2 (drop n v) = [0xFE, 0xCA] \<and> no_start n v"
proof -
  have "u16_le sop = [0xFE, 0xCA]" by (simp add: sop_def u16_le_def)
  then show ?thesis by (simp add: find_bytes_first no_start_def numeral_2_eq_2)
qed

lemma frame_start: "take 2 (frame i t bs rest @ w) = [0xFE, 0xCA]"
  by (simp add: frame_def Let_def numeral_2_eq_2)

lemma packet_of_view_accepts:
  "(\<exists>p. packet_of_view mem v = Inr p) \<longleftrightarrow>
     (\<exists>n h. find_bytes (u16_le sop) v = Some n \<and> n \<le> length v \<and> accepts_at (drop n v) h)" (is "?l = ?r")
proof
  assume ?l
  then obtain p where "packet_of_view mem v = Inr p" by blast
  then obtain n h where "find_bytes (u16_le sop) v = Some n" "parse_header_view (take header_size (drop n v)) = Inr h"
    "n + header_size + unat (h_len h) \<le> length v"
    "parse_payload_view (take (unat (h_len h)) (drop (n + header_size) v)) h = Inr ()"
    by (rule packet_of_view_InrE)
  then show ?r by (intro exI [of _ n] exI [of _ h]) (simp add: accepts_at_def add.commute)
next
  assume ?r
  then obtain n h where n: "find_bytes (u16_le sop) v = Some n" "n \<le> length v" "accepts_at (drop n v) h" by blast
  then show ?l by (auto simp: packet_of_view_def accepts_at_def add.commute split: sum.split)
qed

lemma packet_of_view_frames:
  "(\<exists>p. packet_of_view mem v = Inr p) \<longleftrightarrow>
     (\<exists>g i t bs rest w. frame_ok bs rest \<and> v = g @ frame i t bs rest @ w \<and> no_start (length g) v)" (is "?l = ?r")
proof
  assume ?l
  then obtain n h where n: "find_bytes (u16_le sop) v = Some n" "n \<le> length v" "accepts_at (drop n v) h"
    by (auto simp: packet_of_view_accepts)
  obtain i t bs rest w where "frame_ok bs rest" "drop n v = frame i t bs rest @ w"
    using accepted_frame [OF n(3)] by blast
  moreover have "v = take n v @ drop n v" "no_start (length (take n v)) v"
    using n(1,2) by (simp_all add: no_start_find min_absorb2)
  ultimately show ?r by metis
next
  assume ?r
  then obtain g i t bs rest w where v: "frame_ok bs rest" "v = g @ frame i t bs rest @ w" "no_start (length g) v"
    by blast
  then have "find_bytes (u16_le sop) v = Some (length g)" using frame_start by (simp add: no_start_find del: take_append)
  then show ?l
    using frame_accepted [OF v(1), of i t w] v(2) unfolding packet_of_view_accepts
    by (intro exI [of _ "length g"]) auto
qed

lemma valid_packet_frames:
  "valid_packet p \<longleftrightarrow> storage (p_data p)
     \<and> (\<exists>i t bs rest w. frame_ok bs rest \<and> p_data p = frame i t bs rest @ w)" (is "?l = ?r")
proof
  assume v: ?l
  note V = valid_packet_views [OF v]
  have "accepts_at (p_data p) (p_header p)"
    using V by (simp add: accepts_at_def payload_def packet_size_def payload_len_def)
  then show ?r using accepted_frame v by (auto simp: valid_packet_def)
next
  assume ?r
  then obtain i t bs rest w where p: "storage (p_data p)" "frame_ok bs rest" "p_data p = frame i t bs rest @ w" by blast
  have acc: "accepts_at (p_data p) (made_header i t (of_nat (length bs)) (frame_body bs rest))" (is "accepts_at _ ?h")
    using frame_accepted [OF p(2)] by (simp add: p(3))
  then have "p_header p = ?h"
    using parse_header_view_read [of "p_data p"] p(1) by (auto simp: accepts_at_def p_header_def storage_def format_sizes)
  then show ?l
    using acc p(1) by (auto simp: accepts_at_def valid_packet_def parse_header_def parse_payload_def payload_def
        payload_len_def storage_def)
qed

text \<open>
  C2: The parsers accept exactly the reference format. A buffer is accepted by the constructor
  when, and only when, a frame stands at the first place where a start of packet is found; and
  the storage that a transport has read into passes the transport's two checks when, and only
  when, it begins with a frame. A frame is the start marker, the version, the length, identifier,
  type and number of its blocks, two checksums, and the blocks; what the length field counts
  behind the last block is not an error as long as it is not another block.
\<close>

theorem parsers_accept_frames:
  "((\<exists>p. packet_of_view mem v = Inr p) \<longleftrightarrow>
     (\<exists>g i t bs rest w. frame_ok bs rest \<and> v = g @ frame i t bs rest @ w \<and> no_start (length g) v))
   \<and> (valid_packet p \<longleftrightarrow> storage (p_data p)
     \<and> (\<exists>i t bs rest w. frame_ok bs rest \<and> p_data p = frame i t bs rest @ w))"
  by (intro conjI packet_of_view_frames valid_packet_frames)

end
