(* ===== verification/Handshake.thy ===== *)
theory Handshake
  imports Link_Properties Tcp_Stream
begin

text \<open>
  How a connection comes about. Host and device take whole turns, the device finds what the host
  has sent and the host what the device has sent; one request to connect leads to a connection in
  which either side knows the other.
\<close>

section \<open>Turns\<close>

text \<open>
  One turn of the loop of \<^verbatim>\<open>run\<close>. \<^verbatim>\<open>wakeup\<close> belongs to libcommon; of the orders in which the steps
  \<open>ms_step\<close> and \<open>sl_step\<close> let it take the functions of the table, a turn is the one that begins
  with the handler of the state and goes through its row until one says where to go.
\<close>

fun ms_first ::
  "('q, 'm, 'tr, 'c, 'cb, 'u) master_app_env \<Rightarrow> app_state \<Rightarrow>
   (app_state \<times> (('q, 'm, 'tr, 'c, 'u) master, transition_status) stmt) list \<Rightarrow>
   (('q, 'm, 'tr, 'c, 'u) master, unit) stmt" where
  "ms_first E p [] = retE ()"
| "ms_first E p ((c, check) # cs) =
     bindE check (\<lambda>t. case t of
         Stay_curr_state \<Rightarrow> ms_first E p cs
       | Goto_next_state \<Rightarrow>
           bindE (modifyE (\<lambda>s. s\<lparr>ms_curr := c, ms_nb_loop := 0\<rparr>)) (\<lambda>_. ms_transition_handler E p c))"

definition ms_turn ::
  "('q, 'm, 'tr, 'c, 'cb, 'u) master_app_env \<Rightarrow> (('q, 'm, 'tr, 'c, 'u) master, unit) stmt" where
  "ms_turn E = ms_catch
     (bindE (modifyE (\<lambda>s. s\<lparr>ms_nb_loop := ms_nb_loop s + 1\<rparr>)) (\<lambda>_. withE (\<lambda>s.
        bindE (ms_handler E (ms_curr s)) (\<lambda>_. ms_first E (ms_curr s) (ms_checks E (ms_curr s))))))"

fun sl_first ::
  "(app_state \<times> (('q, 'm, 'tr, 'u) slave, transition_status) stmt) list \<Rightarrow>
   (('q, 'm, 'tr, 'u) slave, unit) stmt" where
  "sl_first [] = retE ()"
| "sl_first ((c, check) # cs) =
     bindE check (\<lambda>t. case t of
         Stay_curr_state \<Rightarrow> sl_first cs
       | Goto_next_state \<Rightarrow>
           bindE (modifyE (\<lambda>s. s\<lparr>sl_curr := c, sl_nb_loop := 0\<rparr>)) (\<lambda>_. sl_transition_handler c))"

definition sl_turn ::
  "('q, 'm, 'tr) slave_app_env \<Rightarrow> (('q, 'm, 'tr, 'u) slave, unit) stmt" where
  "sl_turn F = sl_catch
     (bindE (modifyE (\<lambda>s. s\<lparr>sl_nb_loop := sl_nb_loop s + 1\<rparr>)) (\<lambda>_. withE (\<lambda>s.
        bindE (sl_handler F (sl_curr s)) (\<lambda>_. sl_first (sl_checks F (sl_curr s))))))"

text \<open>
  Every turn that returns is a sequence of those steps: what is known of them holds of turns.
\<close>

lemma always_framed [simp]: "framed (\<lambda>_. True)"
  by (simp add: framed_def)

lemma host_rm_control: "preserves (ms_with (\<lambda>_. True) x) (ms_on_rm m)"
  by (rule with_on_rm) (simp add: preserves_def)

lemma host_handler_control: "preserves (ms_with (\<lambda>_. True) x) (ms_handler E c)"
  by (cases c)
    (auto simp: ms_handler_init_def ms_handler_disconnected_def ms_handler_connecting_def ms_handler_connected_def
       ms_attempt_due_def ms_set_slave_id_def ms_track_id_def
       intro!: hoare with_modify host_rm_control with_on_user with_read with_clear_queues preserves_if
       split: option.split packet_type.split)

lemma host_check_throws: "(c, check) \<in> set (ms_checks E d) \<Longrightarrow> check s = (Inl e, s') \<Longrightarrow> e = Undefined_behaviour"
  by (cases d)
    (auto simp: ms_check_true_def ms_check_connection_requested_def ms_check_connected_def ms_check_disconnected_def
       ms_check_dip_timeout_def ms_check_ka_timeout_def ms_check_transport_closed_def ms_goto_if_run ms_on_transport_def
       ms_on_rm_run ms_erase_run prog_run Let_def split: if_splits option.splits)

lemma host_rest_steps:
  "ms_running s \<Longrightarrow> 0 < ms_nb_loop s \<Longrightarrow> ms_curr s = p \<Longrightarrow> set cs \<subseteq> set (ms_checks E p) \<Longrightarrow>
    ms_catch (ms_first E p cs) s = (Inr (), s') \<Longrightarrow> (ms_step E)\<^sup>*\<^sup>* s s'"
proof (induction cs arbitrary: s)
  case Nil
  then show ?case by (simp add: ms_catch_def prog_run)
next
  case (Cons x cs)
  obtain c check where x: "x = (c, check)" by fastforce
  obtain r s1 where r: "check s = (r, s1)" by fastforce
  have member: "(c, check) \<in> set (ms_checks E (ms_curr s))" using Cons.prems(3,4) x by simp
  have "ms_with (\<lambda>_. True) (ms_curr s, ms_nb_loop s, ms_running s) s1"
    using preserves_run [OF ms_checks_keep [OF member always_framed] _ r] by (simp add: ms_with_def)
  then have s1: "ms_running s1" "0 < ms_nb_loop s1" "ms_curr s1 = p" using Cons.prems(1-3) by (simp_all add: ms_with_def)
  show ?case
  proof (cases r)
    case (Inl e)
    then have "e = Undefined_behaviour" using host_check_throws [OF member] r by simp
    then show ?thesis using Cons.prems(5) r Inl x by (simp add: ms_catch_def prog_run)
  next
    case (Inr t)
    show ?thesis
    proof (cases t)
      case Stay_curr_state
      then have "ms_step E s s1" using ms_step.stay [OF Cons.prems(1,2) member] r Inr by simp
      moreover have "ms_catch (ms_first E p cs) s1 = (Inr (), s')"
        using Cons.prems(5) r Inr Stay_curr_state x by (simp add: ms_catch_def prog_run)
      ultimately show ?thesis using Cons.IH [OF s1] Cons.prems(4) by (simp add: converse_rtranclp_into_rtranclp)
    next
      case Goto_next_state
      then have "ms_catch (ms_transition_handler E (ms_curr s) c) (s1\<lparr>ms_curr := c, ms_nb_loop := 0\<rparr>) = (Inr (), s')"
        using Cons.prems(3,5) r Inr x by (simp add: ms_catch_def prog_run)
      then show ?thesis using ms_step.goto [OF Cons.prems(1,2) member _] r Inr Goto_next_state by blast
    qed
  qed
qed

lemma host_turn_steps:
  assumes "ms_running m" and "ms_turn E m = (Inr (), m')"
  shows "(ms_step E)\<^sup>*\<^sup>* m m'"
proof -
  let ?m = "m\<lparr>ms_nb_loop := ms_nb_loop m + 1\<rparr>"
  obtain r m1 where r: "ms_handler E (ms_curr m) ?m = (r, m1)" by fastforce
  show ?thesis
  proof (cases r)
    case (Inl e)
    then have "ms_catch (bindE (ms_handler E (ms_curr m)) (\<lambda>_. retE ())) ?m = (Inr (), m')"
      using assms(2) r by (simp add: ms_turn_def ms_catch_def prog_run)
    then show ?thesis using ms_step.pass [OF assms(1)] by blast
  next
    case (Inr x)
    then have pass: "ms_step E m m1"
      using ms_step.pass [OF assms(1), of E m1] r by (simp add: ms_catch_def prog_run)
    have rest: "ms_catch (ms_first E (ms_curr m) (ms_checks E (ms_curr m))) m1 = (Inr (), m')"
      using assms(2) r Inr by (simp add: ms_turn_def ms_catch_def prog_run)
    have "ms_with (\<lambda>_. True) (ms_curr m, ms_nb_loop m + 1, ms_running m) m1"
      using preserves_run [OF host_handler_control _ r] by (simp add: ms_with_def)
    then have "(ms_step E)\<^sup>*\<^sup>* m1 m'" using host_rest_steps [OF _ _ _ _ rest] assms(1) by (simp add: ms_with_def)
    with pass show ?thesis by (rule converse_rtranclp_into_rtranclp)
  qed
qed

definition device_control :: "app_state \<times> nat \<times> bool \<Rightarrow> ('q, 'm, 'tr, 'u) slave \<Rightarrow> bool" where
  "device_control x d \<longleftrightarrow> (sl_curr d, sl_nb_loop d, sl_running d) = x"

lemma device_control_calls [hoare]:
  "preserves (device_control x) (sl_on_rm m)" "preserves (device_control x) (sl_on_user u)"
  "preserves (device_control x) (sl_on_transport w)" "preserves (device_control x) (sl_notify F e)"
  "preserves (device_control x) (sl_erase F e)"
  by (rule preservesI; simp add: device_control_def sl_on_rm_run sl_on_user_def run_zoomE sl_on_transport_def
      sl_notify_run sl_erase_run split: prod.split option.split)+

lemma device_control_modify:
  "(\<And>d. (sl_curr (f d), sl_nb_loop (f d), sl_running (f d)) = (sl_curr d, sl_nb_loop d, sl_running d)) \<Longrightarrow>
     preserves (device_control x) (modifyE f)"
  by (rule preserves_modifyE) (simp add: device_control_def)

lemma device_handler_control: "preserves (device_control x) (sl_handler F c)"
  by (cases c)
    (auto simp: sl_handler_init_def sl_handler_disconnected_def sl_handler_connecting_def sl_handler_connected_def
       sl_read_def sl_clear_queues_def sl_set_master_id_def sl_track_id_def sl_on_cmd_def sl_call_cmd_cb_def
       intro!: hoare device_control_modify preserves_if split: option.split packet_type.split list.split)

lemma device_check_control: "(c, check) \<in> set (sl_checks F b) \<Longrightarrow> preserves (device_control x) check"
  by (cases b)
    (auto simp: sl_check_true_def sl_check_hip_received_def sl_check_connected_def sl_check_ka_timeout_def
       sl_check_transport_closed_def sl_goto_if_def intro!: hoare device_control_modify preserves_if)

lemma device_check_throws: "(c, check) \<in> set (sl_checks F b) \<Longrightarrow> check d = (Inl e, d') \<Longrightarrow> e = Undefined_behaviour"
  by (cases b)
    (auto simp: sl_check_true_def sl_check_hip_received_def sl_check_connected_def sl_check_ka_timeout_def
       sl_check_transport_closed_def sl_goto_if_run sl_on_transport_def prog_run split: if_splits option.splits prod.splits)

lemma device_rest_steps:
  "sl_running d \<Longrightarrow> 0 < sl_nb_loop d \<Longrightarrow> sl_curr d = b \<Longrightarrow> set cs \<subseteq> set (sl_checks F b) \<Longrightarrow>
    sl_catch (sl_first cs) d = (Inr (), d') \<Longrightarrow> (sl_step F)\<^sup>*\<^sup>* d d'"
proof (induction cs arbitrary: d)
  case Nil
  then show ?case by (simp add: sl_catch_def prog_run)
next
  case (Cons x cs)
  obtain c check where x: "x = (c, check)" by fastforce
  obtain r d1 where r: "check d = (r, d1)" by fastforce
  have member: "(c, check) \<in> set (sl_checks F (sl_curr d))" using Cons.prems(3,4) x by simp
  have "device_control (sl_curr d, sl_nb_loop d, sl_running d) d1"
    using preserves_run [OF device_check_control [OF member] _ r] by (simp add: device_control_def)
  then have d1: "sl_running d1" "0 < sl_nb_loop d1" "sl_curr d1 = b"
    using Cons.prems(1-3) by (simp_all add: device_control_def)
  show ?case
  proof (cases r)
    case (Inl e)
    then have "e = Undefined_behaviour" using device_check_throws [OF member] r by simp
    then show ?thesis using Cons.prems(5) r Inl x by (simp add: sl_catch_def prog_run)
  next
    case (Inr t)
    show ?thesis
    proof (cases t)
      case Stay_curr_state
      then have "sl_step F d d1" using sl_step.stay [OF Cons.prems(1,2) member] r Inr by simp
      moreover have "sl_catch (sl_first cs) d1 = (Inr (), d')"
        using Cons.prems(5) r Inr Stay_curr_state x by (simp add: sl_catch_def prog_run)
      ultimately show ?thesis using Cons.IH [OF d1] Cons.prems(4) by (simp add: converse_rtranclp_into_rtranclp)
    next
      case Goto_next_state
      then have "sl_catch (sl_transition_handler c) (d1\<lparr>sl_curr := c, sl_nb_loop := 0\<rparr>) = (Inr (), d')"
        using Cons.prems(5) r Inr x by (simp add: sl_catch_def prog_run)
      then show ?thesis using sl_step.goto [OF Cons.prems(1,2) member _] r Inr Goto_next_state by blast
    qed
  qed
qed

lemma device_turn_steps:
  assumes "sl_running d" and "sl_turn F d = (Inr (), d')"
  shows "(sl_step F)\<^sup>*\<^sup>* d d'"
proof -
  let ?d = "d\<lparr>sl_nb_loop := sl_nb_loop d + 1\<rparr>"
  obtain r d1 where r: "sl_handler F (sl_curr d) ?d = (r, d1)" by fastforce
  show ?thesis
  proof (cases r)
    case (Inl e)
    then have "sl_catch (bindE (sl_handler F (sl_curr d)) (\<lambda>_. retE ())) ?d = (Inr (), d')"
      using assms(2) r by (simp add: sl_turn_def sl_catch_def prog_run)
    then show ?thesis using sl_step.pass [OF assms(1)] by blast
  next
    case (Inr x)
    then have pass: "sl_step F d d1"
      using sl_step.pass [OF assms(1), of F "Inr ()" d1] r by (simp add: sl_catch_def prog_run)
    have rest: "sl_catch (sl_first (sl_checks F (sl_curr d))) d1 = (Inr (), d')"
      using assms(2) r Inr by (simp add: sl_turn_def sl_catch_def prog_run)
    have "device_control (sl_curr d, sl_nb_loop d + 1, sl_running d) d1"
      using preserves_run [OF device_handler_control _ r] by (simp add: device_control_def)
    then have "(sl_step F)\<^sup>*\<^sup>* d1 d'"
      using device_rest_steps [OF _ _ _ _ rest] assms(1) by (simp add: device_control_def)
    with pass show ?thesis by (rule converse_rtranclp_into_rtranclp)
  qed
qed

text \<open>A transport gets one packet to read; nothing else of it changes.\<close>

definition delivers ::
  "'tr transport_api \<Rightarrow> ('tr \<Rightarrow> packet list) \<Rightarrow> ('tr \<Rightarrow> packet list) \<Rightarrow> packet \<Rightarrow> 'tr \<Rightarrow> 'tr \<Rightarrow> bool" where
  "delivers A sent received q t t' \<longleftrightarrow>
     sent t' = sent t \<and> received t' = received t @ [q] \<and> tr_is_open A t' = tr_is_open A t"

inductive meet_step ::
  "('q, 'm, 'tr, 'c, 'cb, 'u, 'p, 'n, 'td) link_env \<Rightarrow>
   ('q, 'm, 'tr, 'c, 'u) master \<times> ('p, 'n, 'td, 'v) slave \<Rightarrow>
   ('q, 'm, 'tr, 'c, 'u) master \<times> ('p, 'n, 'td, 'v) slave \<Rightarrow> bool" for L where
  host: "ms_running m \<Longrightarrow> ms_turn (le_host L) m = (Inr (), m') \<Longrightarrow> meet_step L (m, d) (m', d)"
| device: "sl_running d \<Longrightarrow> sl_turn (le_device L) d = (Inr (), d') \<Longrightarrow> meet_step L (m, d) (m, d')"
| to_host: "p \<in> set (srm_sent (le_device_sent L) (sl_rm d)) \<Longrightarrow> carried p q \<Longrightarrow>
    mr_transport (ms_rm m) = Some t \<Longrightarrow>
    delivers (me_tr (ma_rm (le_host L))) (le_sent L) (le_received L) q t t' \<Longrightarrow>
    meet_step L (m, d) (m\<lparr>ms_rm := (ms_rm m)\<lparr>mr_transport := Some t'\<rparr>\<rparr>, d)"
| to_device: "p \<in> set (mrm_sent (le_sent L) (ms_rm m)) \<Longrightarrow> carried p q \<Longrightarrow>
    sr_transport (sl_rm d) = Some t \<Longrightarrow>
    delivers (se_tr (sa_rm (le_device L))) (le_device_sent L) (le_device_received L) q t t' \<Longrightarrow>
    meet_step L (m, d) (m, d\<lparr>sl_rm := (sl_rm d)\<lparr>sr_transport := Some t'\<rparr>\<rparr>)"

section \<open>The host's turns\<close>

text \<open>
  Where the host stands: its state and pass, the events other than the one that only wakes up
  \<^verbatim>\<open>connect\<close>, what it can read from its open transport, and a status callback that has defined
  behaviour.
\<close>

definition host_polite :: "('q, 'm, 'tr, 'c, 'u) master \<Rightarrow> bool" where
  "host_polite m \<longleftrightarrow>
     (case ms_status_cb m of None \<Rightarrow> True | Some cb \<Rightarrow> \<forall>c e u. fst (cb c e u) \<noteq> Inl Undefined_behaviour)"

definition host_at ::
  "('q, 'm, 'tr, 'c, 'cb, 'u) master_app_env \<Rightarrow> ('tr \<Rightarrow> packet list) \<Rightarrow> app_state \<Rightarrow> nat \<Rightarrow>
   packet list \<Rightarrow> ('q, 'm, 'tr, 'c, 'u) master \<Rightarrow> bool" where
  "host_at E received c n qs m \<longleftrightarrow> ms_running m \<and> ms_curr m = c \<and> ms_nb_loop m = n \<and> host_polite m
     \<and> em_events (ma_evt E) (ms_evt m) \<subseteq> {Connection_attempt}
     \<and> (\<exists>t. mr_transport (ms_rm m) = Some t \<and> tr_is_open (me_tr (ma_rm E)) t \<and> received t = qs)"

lemma ms_turn_run:
  assumes "ms_handler E (ms_curr m) (m\<lparr>ms_nb_loop := ms_nb_loop m + 1\<rparr>) = (Inr x, m1)"
  shows "ms_turn E m = ms_catch (ms_first E (ms_curr m) (ms_checks E (ms_curr m))) m1"
  using assms by (simp add: ms_turn_def ms_catch_def prog_run)

lemma ms_transition_run:
  assumes laws: "master_app_laws E" and polite: "host_polite m"
  obtains e u v where "ms_catch (ms_transition_handler E p c) m
      = (Inr (), m\<lparr>ms_rm := (ms_rm m)\<lparr>mr_user := u\<rparr>, ms_errc := e, ms_evt := v\<rparr>)"
    "em_events (ma_evt E) v \<subseteq> insert Connection_attempt (em_events (ma_evt E) (ms_evt m))"
proof -
  have M: "event_mngr_laws (ma_evt E)" using laws by (simp add: master_app_laws_def)
  define v where "v = (if p = Connecting then em_notify (ma_evt E) (ms_evt m) Connection_attempt else ms_evt m)"
  have v: "em_events (ma_evt E) v \<subseteq> insert Connection_attempt (em_events (ma_evt E) (ms_evt m))"
    using M by (auto simp: v_def)
  have rest: "blockE [modifyE (\<lambda>s. s\<lparr>ms_errc := no_error_code\<rparr>), whenE (p = Connecting) (ms_notify E Connection_attempt)] x
      = (Inr (), x\<lparr>ms_errc := no_error_code, ms_evt := v\<rparr>)" if "ms_evt x = ms_evt m" for x
    using that by (cases "p = Connecting") (simp_all add: prog_run ms_notify_run v_def)
  show thesis
  proof (cases "ms_status_cb m")
    case None
    have "ms_catch (ms_transition_handler E p c) m = (Inr (), m\<lparr>ms_errc := no_error_code, ms_evt := v\<rparr>)"
      using None rest [of m] by (simp add: ms_transition_handler_def ms_catch_def run_catchE run_bindE run_withE run_retE)
    also have "\<dots> = (Inr (), m\<lparr>ms_rm := (ms_rm m)\<lparr>mr_user := mr_user (ms_rm m)\<rparr>, ms_errc := no_error_code, ms_evt := v\<rparr>)"
      by simp
    finally show thesis using v by (rule that)
  next
    case (Some cb)
    obtain r u where u: "cb c (ms_errc m) (mr_user (ms_rm m)) = (r, u)" by fastforce
    have "fst (cb c (ms_errc m) (mr_user (ms_rm m))) \<noteq> Inl Undefined_behaviour"
      using polite Some by (simp add: host_polite_def)
    then have r: "r \<noteq> Inl Undefined_behaviour" by (simp add: u)
    let ?m = "m\<lparr>ms_rm := (ms_rm m)\<lparr>mr_user := u\<rparr>\<rparr>"
    have call: "ms_on_user (cb c (ms_errc m)) m = (r, ?m)"
      using u by (simp add: ms_on_user_def ms_on_rm_run run_zoomE)
    show thesis
    proof (cases r)
      case (Inl e)
      have "ms_catch (ms_transition_handler E p c) m
          = (Inr (), ?m\<lparr>ms_errc := (case exn_code e of Some c \<Rightarrow> c | None \<Rightarrow> ms_errc m)\<rparr>)"
        using Some call Inl r
        by (simp add: ms_transition_handler_def ms_catch_def run_catchE run_bindE run_withE prog_run split: option.split)
      also have "\<dots> = (Inr (), ?m\<lparr>ms_errc := (case exn_code e of Some c \<Rightarrow> c | None \<Rightarrow> ms_errc m), ms_evt := ms_evt m\<rparr>)"
        by simp
      finally show thesis by (rule that) auto
    next
      case (Inr z)
      have "ms_catch (ms_transition_handler E p c) m = (Inr (), ?m\<lparr>ms_errc := no_error_code, ms_evt := v\<rparr>)"
        using Some call Inr rest [of ?m]
        by (simp add: ms_transition_handler_def ms_catch_def run_catchE run_bindE run_withE)
      then show thesis using v by (rule that)
    qed
  qed
qed

text \<open>A turn that stays, and a turn that goes on.\<close>

lemma host_stays:
  assumes "ms_handler E c (m\<lparr>ms_nb_loop := ms_nb_loop m + 1\<rparr>) = (Inr x, m1)" and "ms_curr m = c"
    and "ms_first E c (ms_checks E c) m1 = (Inr (), m2)"
  shows "ms_turn E m = (Inr (), m2)"
  using ms_turn_run [of E m x m1] assms by (simp add: ms_catch_def prog_run)

lemma host_goes:
  assumes laws: "master_app_laws E" and h: "ms_handler E p (m\<lparr>ms_nb_loop := ms_nb_loop m + 1\<rparr>) = (Inr x, m1)"
    and p: "ms_curr m = p"
    and first: "ms_first E p (ms_checks E p) m1 = ms_transition_handler E p c (m2\<lparr>ms_curr := c, ms_nb_loop := 0\<rparr>)"
    and at: "host_at E received b n qs m2"
  obtains m' u where "ms_turn E m = (Inr (), m')" "host_at E received c 0 qs m'"
    "ms_rm m' = (ms_rm m2)\<lparr>mr_user := u\<rparr>" "ms_master_id m' = ms_master_id m2" "ms_slave_id m' = ms_slave_id m2"
proof -
  let ?m = "m2\<lparr>ms_curr := c, ms_nb_loop := 0\<rparr>"
  have "host_polite ?m" using at by (simp add: host_at_def host_polite_def)
  then obtain e u v where t: "ms_catch (ms_transition_handler E p c) ?m
      = (Inr (), ?m\<lparr>ms_rm := (ms_rm ?m)\<lparr>mr_user := u\<rparr>, ms_errc := e, ms_evt := v\<rparr>)"
    "em_events (ma_evt E) v \<subseteq> insert Connection_attempt (em_events (ma_evt E) (ms_evt ?m))"
    by (rule ms_transition_run [OF laws])
  let ?m' = "?m\<lparr>ms_rm := (ms_rm ?m)\<lparr>mr_user := u\<rparr>, ms_errc := e, ms_evt := v\<rparr>"
  have "ms_turn E m = ms_catch (ms_first E p (ms_checks E p)) m1" using ms_turn_run [of E m x m1] h p by simp
  also have "\<dots> = ms_catch (ms_transition_handler E p c) ?m"
    using first by (simp add: ms_catch_def run_catchE)
  finally have "ms_turn E m = (Inr (), ?m')" using t(1) by simp
  moreover have "host_at E received c 0 qs ?m'" using at t(2) by (auto simp: host_at_def host_polite_def)
  ultimately show thesis by (rule that) simp_all
qed

text \<open>The user has asked for a connection: the host goes to \<open>Connecting\<close>, its manager stopped.\<close>

lemma host_requests:
  assumes laws: "master_app_laws E" and m: "ms_running m" "ms_curr m = Disconnected" "host_polite m"
    and off: "ms_nb_loop m = 0 \<or> \<not> mr_running (ms_rm m)"
    and evts: "em_events (ma_evt E) (em_wait (ma_evt E) (ms_evt m)) - {Connection_attempt} = {Connection_requested}"
    and t: "mr_transport (ms_rm m) = Some t" "tr_is_open (me_tr (ma_rm E)) t"
  obtains m' where "ms_turn E m = (Inr (), m')" "host_at E received Connecting 0 (received t) m'"
    "\<not> mr_running (ms_rm m')" "ms_master_id m' = ms_master_id m"
proof -
  have M: "event_mngr_laws (ma_evt E)" using laws by (simp add: master_app_laws_def)
  let ?v = "em_wait (ma_evt E) (ms_evt m)" and ?n = "ms_nb_loop m + 1"
  obtain x i where h: "ms_handler_disconnected E (m\<lparr>ms_nb_loop := ?n\<rparr>)
      = (Inr Stay_curr_state, m\<lparr>ms_nb_loop := ?n, ms_slave_id := i, ms_rm := x, ms_evt := ?v\<rparr>)"
    "\<not> mr_running x" "mr_transport x = Some t"
  proof (cases "ms_nb_loop m = 0 \<and> mr_running (ms_rm m)")
    case True
    then show thesis
      using that [of "(ms_rm m)\<lparr>mr_running := False\<rparr>" no_identification] t(1)
      by (simp add: ms_handler_disconnected_def prog_run ms_on_rm_run mrm_stop_def)
  next
    case False
    then show thesis
      using that [of "ms_rm m" "if ms_nb_loop m = 0 then no_identification else ms_slave_id m"] t(1) off
      by (auto simp: ms_handler_disconnected_def prog_run ms_on_rm_run mrm_stop_def)
  qed
  let ?w = "snd (em_erase (ma_evt E) ?v Connection_requested)"
  let ?m2 = "m\<lparr>ms_nb_loop := ?n, ms_slave_id := i, ms_rm := x, ms_evt := ?w\<rparr>"
  have "Connection_requested \<in> em_events (ma_evt E) ?v" using evts by blast
  then have first: "ms_first E Disconnected (ms_checks E Disconnected)
      (m\<lparr>ms_nb_loop := ?n, ms_slave_id := i, ms_rm := x, ms_evt := ?v\<rparr>)
      = ms_transition_handler E Disconnected Connecting (?m2\<lparr>ms_curr := Connecting, ms_nb_loop := 0\<rparr>)"
    using M by (simp add: ms_check_connection_requested_def run_bindE ms_goto_if_run run_modifyE)
  have "em_events (ma_evt E) ?w \<subseteq> {Connection_attempt}" using M evts by auto
  then have at: "host_at E received Disconnected ?n (received t) ?m2"
    using m h(3) t(2) by (simp add: host_at_def host_polite_def)
  have "ms_handler E Disconnected (m\<lparr>ms_nb_loop := ?n\<rparr>)
      = (Inr Stay_curr_state, m\<lparr>ms_nb_loop := ?n, ms_slave_id := i, ms_rm := x, ms_evt := ?v\<rparr>)"
    using h(1) by simp
  from host_goes [OF laws this m(2) first at] obtain m' u where m': "ms_turn E m = (Inr (), m')"
    "host_at E received Connecting 0 (received t) m'" "ms_rm m' = (ms_rm ?m2)\<lparr>mr_user := u\<rparr>"
    "ms_master_id m' = ms_master_id ?m2" by blast
  show thesis by (rule that [OF m'(1,2)]) (simp_all add: m'(3,4) h(2))
qed

text \<open>In a turn on an open transport without the events that are asked for, the host stays.\<close>

lemma host_waits:
  assumes laws: "master_app_laws E" and m: "ms_curr m = c" "c = Connecting \<or> c = Connected"
    and h: "ms_handler E c (m\<lparr>ms_nb_loop := ms_nb_loop m + 1\<rparr>) = (Inr x, m1)"
    and at: "host_at E received c n qs m1"
  obtains v where "ms_turn E m = (Inr (), m1\<lparr>ms_evt := v\<rparr>)" "host_at E received c n qs (m1\<lparr>ms_evt := v\<rparr>)"
proof -
  have M: "event_mngr_laws (ma_evt E)" using laws by (simp add: master_app_laws_def)
  obtain t where t: "mr_transport (ms_rm m1) = Some t" "tr_is_open (me_tr (ma_rm E)) t"
    using at by (auto simp: host_at_def)
  have no: "e \<notin> em_events (ma_evt E) (ms_evt m1)" if "e \<noteq> Connection_attempt" for e
    using at that by (auto simp: host_at_def)
  have closed: "ms_check_transport_closed E m1 = (Inr Stay_curr_state, m1)"
    using t by (cases m1; cases "ms_rm m1")
      (simp add: ms_check_transport_closed_def ms_on_transport_def ms_on_rm_run prog_run)
  obtain v where v: "ms_first E c (ms_checks E c) m1 = (Inr (), m1\<lparr>ms_evt := v\<rparr>)"
    "em_events (ma_evt E) v = em_events (ma_evt E) (ms_evt m1)"
  proof (cases "c = Connecting")
    case True
    then show thesis
      using that [of "snd (em_erase (ma_evt E) (ms_evt m1) Dip_received)"] M no closed
      by (simp add: run_bindE ms_check_dip_timeout_def ms_check_connected_def ms_goto_if_run prog_run Let_def)
  next
    case False
    then show thesis
      using that [of "snd (em_erase (ma_evt E) (snd (em_erase (ma_evt E) (ms_evt m1) Master_ka_timeout))
          Disconnection_requested)"] M no closed m(2)
      by (simp add: run_bindE ms_check_ka_timeout_def ms_check_disconnected_def ms_goto_if_run prog_run Let_def)
  qed
  then show thesis
    using that host_stays [OF h m(1) v(1)] at by (simp add: host_at_def host_polite_def)
qed

text \<open>The first turn of \<open>Connecting\<close>: the queues are emptied and one identification goes out.\<close>

lemma host_attempts:
  assumes post: "posting_transport (me_tr (ma_rm E)) sent received" and laws: "master_app_laws E"
    and mem: "storage (me_mem (ma_rm E))" and size: "identification_size (ms_master_id m) \<le> 2019"
    and at: "host_at E received Connecting 0 qs m" and off: "\<not> mr_running (ms_rm m)"
  obtains m' hip where "ms_turn E m = (Inr (), m')" "host_at E received Connecting 1 [] m'"
    "hip \<in> set (mrm_sent sent (ms_rm m'))" "valid_packet hip" "packet_type hip = Some Hip"
    "packet_blocks hip = identification_blocks (ms_master_id m)" "ms_connection_attempts m' = 1"
proof -
  let ?R = "ma_rm E"
  have M: "event_mngr_laws (ma_evt E)" and L: "master_laws ?R" using laws by (simp_all add: master_app_laws_def)
  have con: "transport_contract (me_tr ?R) sent received" using post by (rule posting_transport.axioms(1))
  obtain t where t: "mr_transport (ms_rm m) = Some t" "tr_is_open (me_tr ?R) t"
    and m: "ms_curr m = Connecting" "ms_nb_loop m = 0" "em_events (ma_evt E) (ms_evt m) \<subseteq> {Connection_attempt}"
    using at by (auto simp: host_at_def)
  obtain t1 where t1: "tr_clear_queues (me_tr ?R) t = Some t1" "received t1 = []" "tr_is_open (me_tr ?R) t1"
    using transport_contract.clear_empties [OF con, of t] t(2) by auto
  let ?x = "(mrm_clear ?R ((ms_rm m)\<lparr>mr_transport := Some t1\<rparr>))\<lparr>mr_keepalive_mngt := False, mr_running := True\<rparr>"
  let ?v = "snd (em_erase (ma_evt E) (ms_evt m) Dip_received)"
  let ?m = "m\<lparr>ms_nb_loop := 1, ms_rm := ?x, ms_evt := ?v, ms_connection_attempts := 1\<rparr>"
  have clear: "ms_clear_queues E s = (Inr (), s\<lparr>ms_rm := (ms_rm m)\<lparr>mr_transport := Some t1\<rparr>\<rparr>)"
    if "ms_rm s = ms_rm m" for s
    using that t(1) t1(1) by (simp add: ms_clear_queues_def ms_on_transport_def ms_on_rm_run)
  have start: "mrm_start ?R ((ms_rm m)\<lparr>mr_transport := Some t1\<rparr>) = (Inr (), ?x)"
    using off by (simp add: mrm_start_def prog_run)
  have x: "mr_transport ?x = Some t1" by (simp add: mrm_clear_def)
  obtain hip where hip: "make_hip (me_mem ?R) (mr_packet_id ?x + 1) (ms_master_id m) = Inr hip" "valid_packet hip"
    "packet_type hip = Some Hip" "packet_blocks hip = identification_blocks (ms_master_id m)"
    using make_hip_ok [OF mem size] by blast
  obtain y t2 where send: "mrm_send_hip ?R (ms_master_id m) connecting_timeout ?x = (Inr (), y)"
    "mr_transport y = Some t2" "sent t2 = sent t1 @ [hip]" "tr_is_open (me_tr ?R) t2" "received t2 = []"
    using posting_transport.mrm_send_hip_posts [OF post refl L x t1(3) hip(1), of connecting_timeout] t1(2) by auto
  have "tr_read (me_tr ?R) t2 = (None, t2)" by (rule posting_transport.reads_nothing [OF post]) (rule send(5))
  then have "ms_reads E (?m\<lparr>ms_rm := y\<rparr>) None t2" using send(2) by (simp add: ms_reads_def)
  moreover have "y\<lparr>mr_transport := Some t2\<rparr> = y" using send(2) by simp
  ultimately have read: "ms_read E (?m\<lparr>ms_rm := y\<rparr>) = (Inr None, ?m\<lparr>ms_rm := y\<rparr>)"
    using ms_read_run [of E "?m\<lparr>ms_rm := y\<rparr>" None t2] by simp
  have h: "ms_handler E Connecting (m\<lparr>ms_nb_loop := ms_nb_loop m + 1\<rparr>) = (Inr Stay_curr_state, ?m\<lparr>ms_rm := y\<rparr>)"
    using m(2) send(1) read start
    by (simp add: ms_handler_connecting_def run_bindE run_withE run_whenE run_modifyE run_retE retE_def clear
        ms_on_rm_run ms_erase_run ms_attempt_due_def)
  have at': "host_at E received Connecting 1 [] (?m\<lparr>ms_rm := y\<rparr>)"
    using at m(3) M send(2,4,5) by (auto simp: host_at_def host_polite_def)
  obtain v where "ms_turn E m = (Inr (), ?m\<lparr>ms_rm := y, ms_evt := v\<rparr>)"
    "host_at E received Connecting 1 [] (?m\<lparr>ms_rm := y, ms_evt := v\<rparr>)"
    by (rule host_waits [OF laws m(1) disjI1 [OF refl] h at'])
  then show thesis using that [OF _ _ _ hip(2-4)] send(2,3) by (simp add: mrm_sent_def)
qed

text \<open>The turn in which the host finds the identification of the device: it goes to \<open>Connected\<close>.\<close>

lemma host_learns:
  assumes post: "posting_transport (me_tr (ma_rm E)) sent received" and laws: "master_app_laws E"
    and at: "host_at E received Connecting (Suc n) [q] m" and tried: "ms_connection_attempts m = 1"
    and q: "packet_type q = Some Dip" "packet_blocks q = identification_blocks i"
  obtains m' where "ms_turn E m = (Inr (), m')" "host_at E received Connected 0 [] m'" "ms_slave_id m' = i"
proof -
  let ?R = "ma_rm E"
  have M: "event_mngr_laws (ma_evt E)" using laws by (simp add: master_app_laws_def)
  have con: "transport_contract (me_tr ?R) sent received" using post by (rule posting_transport.axioms(1))
  obtain t where t: "mr_transport (ms_rm m) = Some t" "tr_is_open (me_tr ?R) t" "received t = [q]"
    and m: "ms_curr m = Connecting" "ms_nb_loop m = Suc n" "em_events (ma_evt E) (ms_evt m) \<subseteq> {Connection_attempt}"
    using at by (auto simp: host_at_def)
  obtain t1 where t1: "tr_read (me_tr ?R) t = (Some q, t1)" "received t1 = []" "tr_is_open (me_tr ?R) t1"
    using transport_contract.read_some [OF con, of t] transport_contract.read_none [OF con, of t]
      transport_contract.read_frame(2) [OF con, of t] t(2,3)
    by (cases "tr_read (me_tr ?R) t"; cases "fst (tr_read (me_tr ?R) t)") auto
  let ?v = "snd (em_erase (ma_evt E) (ms_evt m) Dip_timeout_event)"
  let ?m = "m\<lparr>ms_nb_loop := Suc (Suc n), ms_evt := ?v\<rparr>"
  have due: "ms_attempt_due E (m\<lparr>ms_nb_loop := Suc (Suc n)\<rparr>) = (Inr False, ?m)"
    using tried M m(3) by (auto simp: ms_attempt_due_def prog_run ms_erase_run)
  have rd: "ms_reads E ?m (Some q) t1" using t(1) t1(1) by (simp add: ms_reads_def)
  obtain x where x: "mrm_ack_dip ?R ((ms_rm m)\<lparr>mr_transport := Some t1\<rparr>) = (Inr (), x)" "mr_transport x = Some t1"
    by (simp add: mrm_ack_dip_def mrm_erase_timer_def prog_run)
  let ?w = "em_notify (ma_evt E) ?v Dip_received"
  let ?m1 = "?m\<lparr>ms_rm := x, ms_received_packet_id := packet_id q, ms_slave_id := i, ms_evt := ?w\<rparr>"
  have h: "ms_handler E Connecting (m\<lparr>ms_nb_loop := ms_nb_loop m + 1\<rparr>) = (Inr Stay_curr_state, ?m1)"
    using m(2) due x(1) q
    by (simp add: ms_handler_connecting_def run_bindE run_withE run_whenE run_modifyE ms_read_run [OF rd]
        ms_set_slave_id_run set_id_identification ms_on_rm_run ms_notify_run run_retE retE_def)
  let ?u = "snd (em_erase (ma_evt E) ?w Dip_received)"
  let ?m2 = "?m1\<lparr>ms_evt := ?u\<rparr>"
  have closed: "ms_check_transport_closed E ?m1 = (Inr Stay_curr_state, ?m1)"
    using x(2) t1(3) by (simp add: ms_check_transport_closed_def ms_on_transport_def ms_on_rm_run prog_run)
  have none: "Dip_timeout_event \<notin> em_events (ma_evt E) ?w" using M by simp
  have first: "ms_first E Connecting (ms_checks E Connecting) ?m1
      = ms_transition_handler E Connecting Connected (?m2\<lparr>ms_curr := Connected, ms_nb_loop := 0\<rparr>)"
    using M closed none
    by (simp add: run_bindE ms_check_dip_timeout_def ms_check_connected_def ms_goto_if_run prog_run Let_def)
  have "host_at E received Connecting (Suc (Suc n)) [] ?m2"
    using at m(3) M x(2) t1(2,3) by (auto simp: host_at_def host_polite_def)
  from host_goes [OF laws h m(1) first this] obtain m' where "ms_turn E m = (Inr (), m')"
    "host_at E received Connected 0 [] m'" "ms_slave_id m' = ms_slave_id ?m2" by blast
  then show thesis using that by simp
qed

text \<open>The first turn of \<open>Connected\<close>: keep-alives are on and the first one goes out.\<close>

lemma host_keeps_alive:
  assumes post: "posting_transport (me_tr (ma_rm E)) sent received" and laws: "master_app_laws E"
    and mem: "storage (me_mem (ma_rm E))" and at: "host_at E received Connected 0 [] m"
  obtains m' k where "ms_turn E m = (Inr (), m')" "host_at E received Connected 1 [] m'"
    "k \<in> set (mrm_sent sent (ms_rm m'))" "valid_packet k" "packet_type k = Some Ka"
    "mr_keepalive_mngt (ms_rm m')" "ms_slave_id m' = ms_slave_id m"
proof -
  let ?R = "ma_rm E"
  have L: "master_laws ?R" using laws by (simp add: master_app_laws_def)
  obtain t where t: "mr_transport (ms_rm m) = Some t" "tr_is_open (me_tr ?R) t" "received t = []"
    and m: "ms_curr m = Connected" "ms_nb_loop m = 0"
    using at by (auto simp: host_at_def)
  let ?x = "(ms_rm m)\<lparr>mr_keepalive_mngt := True\<rparr>"
  obtain r x1 where arm: "mrm_add_repeating ?R (ticks keepalive_interval) Ka_mngt_timer ?x = (r, x1)" by fastforce
  obtain i q where x1: "r = Inr i" "x1 = ?x\<lparr>mr_timeout_queue := q\<rparr>"
    using mrm_add_repeating_run [OF L arm] by auto
  let ?y = "x1\<lparr>mr_keepalive_mngt_id := i\<rparr>"
  obtain k where k: "make_keepalive (me_mem ?R) (mr_packet_id ?y + 1) = Inr k" "valid_packet k" "packet_type k = Some Ka"
    using make_keepalive_ok [OF mem] by blast
  have y: "mr_transport ?y = Some t" using t(1) x1(2) by simp
  obtain t1 where t1: "mrm_transmit ?R (make_keepalive (me_mem ?R)) ?y
      = (Inr (), ?y\<lparr>mr_packet_id := mr_packet_id ?y + 1, mr_transport := Some t1\<rparr>)"
    "sent t1 = sent t @ [k]" "tr_is_open (me_tr ?R) t1" "received t1 = received t"
    using posting_transport.mrm_transmit_posts [where mk = "make_keepalive (me_mem ?R)", OF post refl y t(2) k(1)] by blast
  let ?z = "?y\<lparr>mr_packet_id := mr_packet_id ?y + 1, mr_transport := Some t1, mr_timeout_keepalive := ticks keepalive_timeout\<rparr>"
  obtain r' x2 where add: "mrm_add_timer ?R (ticks keepalive_timeout) Ka_timer ?z = (r', x2)" by fastforce
  obtain j p where x2: "r' = Inr j" "x2 = ?z\<lparr>mr_timeout_queue := p\<rparr>"
    using mrm_add_timer_run [OF L add] by auto
  let ?w = "x2\<lparr>mr_ka_ids := [j]\<rparr>"
  have run: "mrm_start_keepalive_management ?R keepalive_interval keepalive_timeout (ms_rm m) = (Inr (), ?w)"
    using arm x1(1) t1(1) add x2(1)
    by (simp add: mrm_start_keepalive_management_def mrm_arm_ka_mngt_def run_bindE run_withE run_modifyE retE_def)
  have w: "mr_transport ?w = Some t1" "mr_keepalive_mngt ?w" by (simp_all add: x2(2) x1(2))
  let ?m = "m\<lparr>ms_nb_loop := 1, ms_rm := ?w\<rparr>"
  have "tr_read (me_tr ?R) t1 = (None, t1)"
    by (rule posting_transport.reads_nothing [OF post]) (simp add: t1(4) t(3))
  then have "ms_reads E ?m None t1" using w(1) by (simp add: ms_reads_def)
  moreover have "?w\<lparr>mr_transport := Some t1\<rparr> = ?w" using w(1) by simp
  ultimately have "ms_read E ?m = (Inr None, ?m)" using ms_read_run [of E ?m None t1] by simp
  then have h: "ms_handler E Connected (m\<lparr>ms_nb_loop := ms_nb_loop m + 1\<rparr>) = (Inr Stay_curr_state, ?m)"
    using m(2) run by (simp add: ms_handler_connected_def run_bindE run_withE run_whenE run_retE ms_on_rm_run)
  have at': "host_at E received Connected 1 [] ?m"
    using at w(1) t1(3,4) t(3) by (simp add: host_at_def host_polite_def)
  obtain v where "ms_turn E m = (Inr (), ?m\<lparr>ms_evt := v\<rparr>)" "host_at E received Connected 1 [] (?m\<lparr>ms_evt := v\<rparr>)"
    by (rule host_waits [OF laws m(1) disjI2 [OF refl] h at'])
  then show thesis using that [OF _ _ _ k(2,3)] w t1(2) by (simp add: mrm_sent_def)
qed

section \<open>The device's turns\<close>

definition device_polite :: "('q, 'm, 'tr, 'u) slave \<Rightarrow> bool" where
  "device_polite d \<longleftrightarrow>
     (case sl_status_cb d of None \<Rightarrow> True | Some cb \<Rightarrow> \<forall>c e u. fst (cb c e u) \<noteq> Inl Undefined_behaviour)"

definition device_at ::
  "('q, 'm, 'tr) slave_app_env \<Rightarrow> ('tr \<Rightarrow> packet list) \<Rightarrow> app_state \<Rightarrow> nat \<Rightarrow>
   packet list \<Rightarrow> ('q, 'm, 'tr, 'u) slave \<Rightarrow> bool" where
  "device_at F received c n qs d \<longleftrightarrow> sl_running d \<and> sl_curr d = c \<and> sl_nb_loop d = n \<and> device_polite d
     \<and> em_events (sa_evt F) (sl_evt d) = {}
     \<and> (\<exists>t. sr_transport (sl_rm d) = Some t \<and> tr_is_open (se_tr (sa_rm F)) t \<and> received t = qs)"

lemma sl_turn_run:
  assumes "sl_handler F (sl_curr d) (d\<lparr>sl_nb_loop := sl_nb_loop d + 1\<rparr>) = (Inr x, d1)"
  shows "sl_turn F d = sl_catch (sl_first (sl_checks F (sl_curr d))) d1"
  using assms by (simp add: sl_turn_def sl_catch_def prog_run)

lemma sl_transition_run:
  assumes polite: "device_polite d"
  obtains e u where "sl_catch (sl_transition_handler c) d = (Inr (), d\<lparr>sl_user := u, sl_errc := e\<rparr>)"
proof (cases "sl_status_cb d")
  case None
  have "sl_catch (sl_transition_handler c) d = (Inr (), d\<lparr>sl_errc := no_error_code\<rparr>)"
    using None by (simp add: sl_transition_handler_def sl_catch_def prog_run)
  also have "\<dots> = (Inr (), d\<lparr>sl_user := sl_user d, sl_errc := no_error_code\<rparr>)" by simp
  finally show thesis by (rule that)
next
  case (Some cb)
  obtain r u where u: "cb c (sl_errc d) (sl_user d) = (r, u)" by fastforce
  have "fst (cb c (sl_errc d) (sl_user d)) \<noteq> Inl Undefined_behaviour"
    using polite Some by (simp add: device_polite_def)
  then have r: "r \<noteq> Inl Undefined_behaviour" by (simp add: u)
  have call: "sl_on_user (cb c (sl_errc d)) d = (r, d\<lparr>sl_user := u\<rparr>)"
    using u by (simp add: sl_on_user_def run_zoomE)
  show thesis
  proof (cases r)
    case (Inl e)
    have "sl_catch (sl_transition_handler c) d = (Inr (), d\<lparr>sl_user := u\<rparr>)"
      using Some call Inl r by (simp add: sl_transition_handler_def sl_catch_def prog_run)
    also have "\<dots> = (Inr (), d\<lparr>sl_user := u, sl_errc := sl_errc d\<rparr>)" by simp
    finally show thesis by (rule that)
  next
    case (Inr z)
    have "sl_catch (sl_transition_handler c) d = (Inr (), d\<lparr>sl_user := u, sl_errc := no_error_code\<rparr>)"
      using Some call Inr by (simp add: sl_transition_handler_def sl_catch_def prog_run)
    then show thesis by (rule that)
  qed
qed

lemma device_goes:
  assumes h: "sl_handler F p (d\<lparr>sl_nb_loop := sl_nb_loop d + 1\<rparr>) = (Inr x, d1)" and p: "sl_curr d = p"
    and first: "sl_first (sl_checks F p) d1 = sl_transition_handler c (d2\<lparr>sl_curr := c, sl_nb_loop := 0\<rparr>)"
    and at: "device_at F received b n qs d2"
  obtains d' where "sl_turn F d = (Inr (), d')" "device_at F received c 0 qs d'"
    "sl_rm d' = sl_rm d2" "sl_master_id d' = sl_master_id d2" "sl_slave_id d' = sl_slave_id d2"
proof -
  let ?d = "d2\<lparr>sl_curr := c, sl_nb_loop := 0\<rparr>"
  have "device_polite ?d" using at by (simp add: device_at_def device_polite_def)
  then obtain e u where t: "sl_catch (sl_transition_handler c) ?d = (Inr (), ?d\<lparr>sl_user := u, sl_errc := e\<rparr>)"
    by (rule sl_transition_run)
  let ?d' = "?d\<lparr>sl_user := u, sl_errc := e\<rparr>"
  have "sl_turn F d = sl_catch (sl_first (sl_checks F p)) d1" using sl_turn_run [of F d x d1] h p by simp
  also have "\<dots> = sl_catch (sl_transition_handler c) ?d" using first by (simp add: sl_catch_def run_catchE)
  finally have "sl_turn F d = (Inr (), ?d')" using t by simp
  moreover have "device_at F received c 0 qs ?d'" using at by (simp add: device_at_def device_polite_def)
  ultimately show thesis by (rule that) simp_all
qed

text \<open>The first check of every row: on an open transport it takes over the error code and stays.\<close>

lemma device_open_stays:
  assumes "sr_transport (sl_rm d) = Some t" and "tr_is_open (se_tr (sa_rm F)) t"
  shows "sl_check_transport_closed F d
    = (Inr Stay_curr_state, d\<lparr>sl_errc := tr_error_code (se_tr (sa_rm F)) t\<rparr>)"
  using assms by (simp add: sl_check_transport_closed_def sl_on_transport_def prog_run)

text \<open>An event that is not there is not erased, and one that is leads on.\<close>

lemma sl_goto_if_event:
  assumes "slave_app_laws F"
  shows "sl_goto_if (sl_erase F e) act d = (let d1 = d\<lparr>sl_evt := snd (em_erase (sa_evt F) (sl_evt d) e)\<rparr>
      in if e \<in> em_events (sa_evt F) (sl_evt d) then bindE act (\<lambda>_. retE Goto_next_state) d1
         else (Inr Stay_curr_state, d1))"
proof -
  have "event_mngr_laws (sa_evt F)" using assms by (simp add: slave_app_laws_def)
  then have "fst (em_erase (sa_evt F) (sl_evt d) e) = (e \<in> em_events (sa_evt F) (sl_evt d))" by simp
  then show ?thesis by (cases "em_erase (sa_evt F) (sl_evt d) e") (simp add: sl_goto_if_run Let_def)
qed

text \<open>The device at the head of its queue.\<close>

lemma device_at_reads:
  assumes post: "posting_transport (se_tr (sa_rm F)) sent received" and at: "device_at F received c n [q] d"
  obtains t t' where "sr_transport (sl_rm d) = Some t" "tr_read (se_tr (sa_rm F)) t = (Some q, t')"
    "received t' = []" "tr_is_open (se_tr (sa_rm F)) t'"
proof -
  have con: "transport_contract (se_tr (sa_rm F)) sent received" using post by (rule posting_transport.axioms(1))
  obtain t where t: "sr_transport (sl_rm d) = Some t" "tr_is_open (se_tr (sa_rm F)) t" "received t = [q]"
    using at by (auto simp: device_at_def)
  obtain t' where "tr_read (se_tr (sa_rm F)) t = (Some q, t')" "received t' = []" "tr_is_open (se_tr (sa_rm F)) t'"
    using transport_contract.read_some [OF con, of t] transport_contract.read_none [OF con, of t]
      transport_contract.read_frame(2) [OF con, of t] t(2,3)
    by (cases "tr_read (se_tr (sa_rm F)) t"; cases "fst (tr_read (se_tr (sa_rm F)) t)") auto
  then show thesis by (rule that [OF t(1)])
qed

text \<open>The turn in which a disconnected device finds the identification of the host.\<close>

lemma device_learns:
  assumes post: "posting_transport (se_tr (sa_rm F)) sent received" and laws: "slave_app_laws F"
    and at: "device_at F received Disconnected (Suc n) [q] d" and off: "\<not> sr_running (sl_rm d)"
    and q: "packet_type q = Some Hip" "packet_blocks q = identification_blocks i"
  obtains d' where "sl_turn F d = (Inr (), d')" "device_at F received Connecting 0 [] d'"
    "sl_master_id d' = i" "sl_slave_id d' = sl_slave_id d" "\<not> sr_running (sl_rm d')"
proof -
  have M: "event_mngr_laws (sa_evt F)" using laws by (simp add: slave_app_laws_def)
  obtain t t' where t: "sr_transport (sl_rm d) = Some t" "tr_read (se_tr (sa_rm F)) t = (Some q, t')"
    "received t' = []" "tr_is_open (se_tr (sa_rm F)) t'"
    by (rule device_at_reads [OF post at])
  have d: "sl_curr d = Disconnected" "sl_nb_loop d = Suc n" "em_events (sa_evt F) (sl_evt d) = {}"
    using at by (simp_all add: device_at_def)
  let ?d0 = "d\<lparr>sl_nb_loop := Suc (Suc n)\<rparr>"
  have rd: "sl_reads F ?d0 q t'" using t(1,2) by (simp add: sl_reads_def)
  let ?x = "(sl_rm d)\<lparr>sr_transport := Some t'\<rparr>" and ?v = "em_notify (sa_evt F) (sl_evt d) Hip_received"
  let ?d1 = "?d0\<lparr>sl_rm := ?x, sl_received_packet_id := packet_id q, sl_master_id := i, sl_evt := ?v\<rparr>"
  have h: "sl_handler F Disconnected (d\<lparr>sl_nb_loop := sl_nb_loop d + 1\<rparr>) = (Inr Stay_curr_state, ?d1)"
    using d(2) q by (simp add: sl_handler_disconnected_def run_bindE run_withE run_whenE run_modifyE run_retE retE_def
        sl_read_run [OF rd] sl_set_master_id_run set_id_identification sl_notify_run)
  have op: "sl_check_transport_closed F ?d1
      = (Inr Stay_curr_state, ?d1\<lparr>sl_errc := tr_error_code (se_tr (sa_rm F)) t'\<rparr>)"
    by (rule device_open_stays) (simp_all add: t(4))
  let ?d2 = "?d1\<lparr>sl_errc := tr_error_code (se_tr (sa_rm F)) t',
    sl_evt := snd (em_erase (sa_evt F) ?v Hip_received)\<rparr>"
  have first: "sl_first (sl_checks F Disconnected) ?d1
      = sl_transition_handler Connecting (?d2\<lparr>sl_curr := Connecting, sl_nb_loop := 0\<rparr>)"
    using M by (simp add: run_bindE op sl_check_hip_received_def sl_goto_if_event [OF laws] run_retE run_modifyE Let_def)
  have "device_at F received Disconnected (Suc (Suc n)) [] ?d2"
    using at d(3) M t(3,4) by (simp add: device_at_def device_polite_def)
  from device_goes [OF h d(1) first this] obtain d' where "sl_turn F d = (Inr (), d')"
    "device_at F received Connecting 0 [] d'" "sl_rm d' = sl_rm ?d2" "sl_master_id d' = sl_master_id ?d2"
    "sl_slave_id d' = sl_slave_id ?d2" by blast
  then show thesis using that off by simp
qed

text \<open>The first turn of \<open>Connecting\<close>: the device answers with its own identification.\<close>

lemma device_answers:
  assumes post: "posting_transport (se_tr (sa_rm F)) sent received" and laws: "slave_app_laws F"
    and mem: "storage (se_mem (sa_rm F))" and size: "identification_size (sl_slave_id d) \<le> 2019"
    and at: "device_at F received Connecting 0 [] d" and off: "\<not> sr_running (sl_rm d)"
  obtains d' dip where "sl_turn F d = (Inr (), d')" "device_at F received Connecting 1 [] d'"
    "dip \<in> set (srm_sent sent (sl_rm d'))" "valid_packet dip" "packet_type dip = Some Dip"
    "packet_blocks dip = identification_blocks (sl_slave_id d)"
    "sl_master_id d' = sl_master_id d" "sr_keepalive_mngt (sl_rm d')"
proof -
  have M: "event_mngr_laws (sa_evt F)" using laws by (simp add: slave_app_laws_def)
  obtain t where t: "sr_transport (sl_rm d) = Some t" "tr_is_open (se_tr (sa_rm F)) t" "received t = []"
    and d: "sl_curr d = Connecting" "sl_nb_loop d = 0" "em_events (sa_evt F) (sl_evt d) = {}"
    using at by (auto simp: device_at_def)
  let ?d0 = "d\<lparr>sl_nb_loop := 1\<rparr>"
  have "identification_size (sl_slave_id ?d0) \<le> 2019" "sl_nb_loop ?d0 = 1" "\<not> sr_running (sl_rm ?d0)"
    "sr_transport (sl_rm ?d0) = Some t" using size off t(1) by simp_all
  from slave_identifies_run [OF post laws mem this t(2,3)] obtain d1 dip t1 where
    h1: "sl_handler_connecting F ?d0 = (Inr Stay_curr_state, d1)"
      "srm_sent sent (sl_rm d1) = srm_sent sent (sl_rm ?d0) @ [dip]"
    and dip: "valid_packet dip" "packet_type dip = Some Dip" "packet_blocks dip = identification_blocks (sl_slave_id ?d0)"
    and d1: "d1 = ?d0\<lparr>sl_rm := sl_rm d1\<rparr>" "sr_keepalive_mngt (sl_rm d1)" "sr_transport (sl_rm d1) = Some t1"
      "tr_is_open (se_tr (sa_rm F)) t1" "received t1 = []"
    by (elim exE conjE) (rule that; assumption)
  define x where "x = sl_rm d1"
  have x: "d1 = ?d0\<lparr>sl_rm := x\<rparr>" "sr_transport x = Some t1" unfolding x_def by (rule d1)+
  have op: "sl_check_transport_closed F d1
      = (Inr Stay_curr_state, d1\<lparr>sl_errc := tr_error_code (se_tr (sa_rm F)) t1\<rparr>)"
    by (rule device_open_stays) (simp_all add: d1(3,4))
  let ?u = "snd (em_erase (sa_evt F) (sl_evt d) Slave_ka_timeout)"
  let ?d2 = "d1\<lparr>sl_errc := tr_error_code (se_tr (sa_rm F)) t1,
    sl_evt := snd (em_erase (sa_evt F) ?u First_ka_received)\<rparr>"
  have "sl_evt d1 = sl_evt d" by (simp add: x(1))
  then have "sl_first (sl_checks F Connecting) d1 = (Inr (), ?d2)"
    using M d(3) by (simp add: run_bindE op sl_check_ka_timeout_def sl_check_connected_def
        sl_goto_if_event [OF laws] run_retE Let_def)
  then have "sl_turn F d = (Inr (), ?d2)"
    using sl_turn_run [of F d Stay_curr_state d1] h1(1) d(1,2) by (simp add: sl_catch_def prog_run)
  moreover have "device_at F received Connecting 1 [] ?d2"
    using at M d(3) d1(4,5) x(2) by (simp add: device_at_def device_polite_def x(1))
  moreover have "dip \<in> set (srm_sent sent (sl_rm ?d2))" using h1(2) by simp
  moreover have "sl_master_id ?d2 = sl_master_id d" "sr_keepalive_mngt (sl_rm ?d2)"
    using d1(2) by (simp_all add: x(1))
  moreover have "packet_blocks dip = identification_blocks (sl_slave_id d)" using dip(3) by simp
  ultimately show thesis using that dip(1,2) by blast
qed

text \<open>An acknowledged keep-alive leaves what is to be read, and the management, as they are.\<close>

lemma keepalive_acknowledged:
  assumes post: "posting_transport (se_tr R) sent received" and mem: "storage (se_mem R)"
    and t: "sr_transport x = Some t" "tr_is_open (se_tr R) t"
  obtains y t1 where "srm_keepalive R x = (Inr (), y)" "sr_transport y = Some t1" "tr_is_open (se_tr R) t1"
    "received t1 = received t" "sr_keepalive_mngt y = sr_keepalive_mngt x"
proof -
  have con: "transport_contract (se_tr R) sent received" using post by (rule posting_transport.axioms(1))
  let ?x = "if sr_keepalive_mngt x then srm_arm R (srm_disarm R x) else x"
  have x: "sr_transport ?x = Some t" "sr_keepalive_mngt ?x = sr_keepalive_mngt x" using t(1) by simp_all
  obtain a where a: "make_keepalive_ack (se_mem R) (sr_packet_id ?x + 1) = Inr a"
    using make_keepalive_ack_ok [OF mem] by blast
  obtain t1 where w: "tr_write (se_tr R) a t = (Inr (), t1)"
    using posting_transport.write_accepts [OF post t(2), of a] by (cases "tr_write (se_tr R) a t") auto
  let ?y = "?x\<lparr>sr_packet_id := sr_packet_id ?x + 1, sr_transport := Some t1\<rparr>"
  have "srm_transmit R (make_keepalive_ack (se_mem R)) ?x = (Inr (), ?y)"
    using x(1) t(2) a w unfolding srm_transmit_def srm_open_def srm_write_def by (simp add: prog_run del: if_split)
  moreover have "srm_open R ?x" using x(1) t(2) by (simp add: srm_open_def del: if_split)
  ultimately have "srm_keepalive R x = (Inr (), ?y)"
    by (cases "sr_keepalive_mngt x") (simp_all add: srm_keepalive_def run_bindE run_withE run_whenE run_modifyE retE_def)
  moreover have "received t1 = received t" "tr_is_open (se_tr R) t1"
    using transport_contract.write_received [OF con, of a t] transport_contract.write_open [OF con, of a t] w t(2) by simp_all
  ultimately show thesis using that x(2) by simp
qed

text \<open>The turn in which the device finds the first keep-alive: it is connected.\<close>

lemma device_connects:
  assumes post: "posting_transport (se_tr (sa_rm F)) sent received" and laws: "slave_app_laws F"
    and mem: "storage (se_mem (sa_rm F))" and at: "device_at F received Connecting (Suc n) [q] d"
    and q: "packet_type q = Some Ka"
  obtains d' where "sl_turn F d = (Inr (), d')" "device_at F received Connected 0 [] d'"
    "sl_master_id d' = sl_master_id d" "sr_keepalive_mngt (sl_rm d') = sr_keepalive_mngt (sl_rm d)"
proof -
  have M: "event_mngr_laws (sa_evt F)" using laws by (simp add: slave_app_laws_def)
  obtain t t' where t: "sr_transport (sl_rm d) = Some t" "tr_read (se_tr (sa_rm F)) t = (Some q, t')"
    "received t' = []" "tr_is_open (se_tr (sa_rm F)) t'"
    by (rule device_at_reads [OF post at])
  have d: "sl_curr d = Connecting" "sl_nb_loop d = Suc n" "em_events (sa_evt F) (sl_evt d) = {}"
    using at by (simp_all add: device_at_def)
  let ?d0 = "d\<lparr>sl_nb_loop := Suc (Suc n)\<rparr>"
  have rd: "sl_reads F ?d0 q t'" using t(1,2) by (simp add: sl_reads_def)
  let ?x = "(sl_rm d)\<lparr>sr_transport := Some t'\<rparr>" and ?v = "em_notify (sa_evt F) (sl_evt d) First_ka_received"
  have "sr_transport ?x = Some t'" by simp
  then obtain y t1 where y: "srm_keepalive (sa_rm F) ?x = (Inr (), y)" "sr_transport y = Some t1"
    "tr_is_open (se_tr (sa_rm F)) t1" "received t1 = received t'" "sr_keepalive_mngt y = sr_keepalive_mngt ?x"
    by (rule keepalive_acknowledged [OF post mem _ t(4)])
  let ?d1 = "?d0\<lparr>sl_rm := y, sl_received_packet_id := packet_id q, sl_evt := ?v\<rparr>"
  have h: "sl_handler F Connecting (d\<lparr>sl_nb_loop := sl_nb_loop d + 1\<rparr>) = (Inr Stay_curr_state, ?d1)"
    using d(2) q y(1) by (simp add: sl_handler_connecting_def run_bindE run_withE run_whenE run_modifyE run_retE retE_def
        sl_read_run [OF rd] sl_track_id_run sl_on_rm_run sl_notify_run)
  have op: "sl_check_transport_closed F ?d1
      = (Inr Stay_curr_state, ?d1\<lparr>sl_errc := tr_error_code (se_tr (sa_rm F)) t1\<rparr>)"
    by (rule device_open_stays) (simp_all add: y(2,3))
  let ?u = "snd (em_erase (sa_evt F) ?v Slave_ka_timeout)"
  let ?d2 = "?d1\<lparr>sl_errc := tr_error_code (se_tr (sa_rm F)) t1,
    sl_evt := snd (em_erase (sa_evt F) ?u First_ka_received)\<rparr>"
  have first: "sl_first (sl_checks F Connecting) ?d1
      = sl_transition_handler Connected (?d2\<lparr>sl_curr := Connected, sl_nb_loop := 0\<rparr>)"
    using M d(3) by (simp add: run_bindE op sl_check_ka_timeout_def sl_check_connected_def
        sl_goto_if_event [OF laws] run_retE run_modifyE Let_def)
  have "device_at F received Connecting (Suc (Suc n)) [] ?d2"
    using at d(3) M y(2-4) t(3) by (simp add: device_at_def device_polite_def)
  from device_goes [OF h d(1) first this] obtain d' where "sl_turn F d = (Inr (), d')"
    "device_at F received Connected 0 [] d'" "sl_rm d' = sl_rm ?d2" "sl_master_id d' = sl_master_id ?d2" by blast
  then show thesis using that y(5) by simp
qed

section \<open>A meeting\<close>

text \<open>
  A transport with nothing to read takes a packet that arrives; both TCP transports do, when their
  queue has room for one.
\<close>

definition takes_packets ::
  "'tr transport_api \<Rightarrow> ('tr \<Rightarrow> packet list) \<Rightarrow> ('tr \<Rightarrow> packet list) \<Rightarrow> bool" where
  "takes_packets A sent received \<longleftrightarrow> (\<forall>t q. received t = [] \<longrightarrow> (\<exists>t'. delivers A sent received q t t'))"

lemma queue_takes:
  assumes "queue_laws Q" and "holds_up_to Q n" and "0 < n" and none: "cq_items Q r = []"
  shows "\<exists>r'. cq_try_enqueue Q r q = Some r' \<and> cq_items Q r' = [q]"
proof -
  have "cq_try_enqueue Q r q \<noteq> None" using assms(2,3) none by (simp add: holds_up_to_def)
  then show ?thesis using cq_enqueue_law [OF assms(1)] none by fastforce
qed

lemma tc_takes:
  assumes "client_laws C" and "holds_up_to (ce_read_queue C) n" and "0 < n"
  shows "takes_packets (tc_api C) (tc_sent C) (tc_received C)"
  unfolding takes_packets_def
proof (intro allI impI)
  fix t q assume none: "tc_received C t = []"
  have "queue_laws (ce_read_queue C)" using assms(1) by (simp add: client_laws_def)
  then obtain r where "cq_try_enqueue (ce_read_queue C) (read_queue t) q = Some r" "cq_items (ce_read_queue C) r = [q]"
    using queue_takes [OF _ assms(2,3)] none unfolding tc_received_def by blast
  then show "\<exists>t'. delivers (tc_api C) (tc_sent C) (tc_received C) q t t'"
    using none by (intro exI [of _ "t\<lparr>read_queue := r\<rparr>"])
      (simp add: delivers_def tc_sent_def tc_received_def tc_api_def tc_is_open_def)
qed

lemma ts_takes:
  assumes "server_laws V" and "holds_up_to (ve_read_queue V) n" and "0 < n"
  shows "takes_packets (ts_api V) (ts_sent V) (ts_received V)"
  unfolding takes_packets_def
proof (intro allI impI)
  fix t q assume none: "ts_received V t = []"
  have "queue_laws (ve_read_queue V)" using assms(1) by (simp add: server_laws_def)
  then obtain r where "cq_try_enqueue (ve_read_queue V) (read_queue t) q = Some r" "cq_items (ve_read_queue V) r = [q]"
    using queue_takes [OF _ assms(2,3)] none unfolding ts_received_def by blast
  then show "\<exists>t'. delivers (ts_api V) (ts_sent V) (ts_received V) q t t'"
    using none by (intro exI [of _ "t\<lparr>read_queue := r\<rparr>"])
      (simp add: delivers_def ts_sent_def ts_received_def ts_api_def ts_is_open_def)
qed

text \<open>What both sides rely on, and how the two stand when the host's user has asked for a connection.\<close>

definition meets :: "('q, 'm, 'tr, 'c, 'cb, 'u, 'p, 'n, 'td) link_env \<Rightarrow> bool" where
  "meets L \<longleftrightarrow> master_app_laws (le_host L) \<and> slave_app_laws (le_device L)
     \<and> posting_transport (me_tr (ma_rm (le_host L))) (le_sent L) (le_received L)
     \<and> posting_transport (se_tr (sa_rm (le_device L))) (le_device_sent L) (le_device_received L)
     \<and> takes_packets (me_tr (ma_rm (le_host L))) (le_sent L) (le_received L)
     \<and> takes_packets (se_tr (sa_rm (le_device L))) (le_device_sent L) (le_device_received L)
     \<and> storage (me_mem (ma_rm (le_host L))) \<and> storage (se_mem (sa_rm (le_device L)))"

definition meeting_begun ::
  "('q, 'm, 'tr, 'c, 'cb, 'u, 'p, 'n, 'td) link_env \<Rightarrow>
   ('q, 'm, 'tr, 'c, 'u) master \<Rightarrow> ('p, 'n, 'td, 'v) slave \<Rightarrow> bool" where
  "meeting_begun L m d \<longleftrightarrow> ms_running m \<and> ms_curr m = Disconnected \<and> host_polite m
     \<and> (ms_nb_loop m = 0 \<or> \<not> mr_running (ms_rm m)) \<and> mrm_open (ma_rm (le_host L)) (ms_rm m)
     \<and> em_events (ma_evt (le_host L)) (em_wait (ma_evt (le_host L)) (ms_evt m)) - {Connection_attempt}
         = {Connection_requested}
     \<and> identification_size (ms_master_id m) \<le> 2019
     \<and> device_at (le_device L) (le_device_received L) Disconnected (sl_nb_loop d) [] d
     \<and> 0 < sl_nb_loop d \<and> \<not> sr_running (sl_rm d) \<and> identification_size (sl_slave_id d) \<le> 2019"

lemma some_carried: "valid_packet p \<Longrightarrow> \<exists>q. carried p q"
  unfolding carried_def by (metis wire_fields ref_storage)

locale meeting =
  fixes L :: "('q, 'm, 'tr, 'c, 'cb, 'u, 'p, 'n, 'td) link_env"
  assumes meets: "meets L"
begin

lemma laws:
  "master_app_laws (le_host L)" "slave_app_laws (le_device L)"
  "posting_transport (me_tr (ma_rm (le_host L))) (le_sent L) (le_received L)"
  "posting_transport (se_tr (sa_rm (le_device L))) (le_device_sent L) (le_device_received L)"
  "takes_packets (me_tr (ma_rm (le_host L))) (le_sent L) (le_received L)"
  "takes_packets (se_tr (sa_rm (le_device L))) (le_device_sent L) (le_device_received L)"
  "storage (me_mem (ma_rm (le_host L)))" "storage (se_mem (sa_rm (le_device L)))"
  using meets by (simp_all add: meets_def)

text \<open>What one side has sent arrives at the other, which stands where it stood.\<close>

lemma arrives_at_device:
  assumes p: "p \<in> set (mrm_sent (le_sent L) (ms_rm m))" "valid_packet p"
    and at: "device_at (le_device L) (le_device_received L) c n [] d"
  obtains x q where "meet_step L (m, d) (m, d\<lparr>sl_rm := x\<rparr>)"
    "device_at (le_device L) (le_device_received L) c n [q] (d\<lparr>sl_rm := x\<rparr>)"
    "packet_type q = packet_type p" "packet_blocks q = packet_blocks p"
    "sr_running x = sr_running (sl_rm d)" "sr_keepalive_mngt x = sr_keepalive_mngt (sl_rm d)"
proof -
  obtain t where t: "sr_transport (sl_rm d) = Some t" "tr_is_open (se_tr (sa_rm (le_device L))) t"
    "le_device_received L t = []"
    using at by (auto simp: device_at_def)
  obtain q where q: "carried p q" using some_carried [OF p(2)] by blast
  obtain t' where t': "delivers (se_tr (sa_rm (le_device L))) (le_device_sent L) (le_device_received L) q t t'"
    using laws(6) t(3) by (auto simp: takes_packets_def)
  show thesis
    by (rule that [OF meet_step.to_device [OF p(1) q t(1) t'] _ carried_fields(1,3) [OF p(2) q]])
      (use at t t' in \<open>simp_all add: device_at_def device_polite_def delivers_def\<close>)
qed

lemma arrives_at_host:
  assumes p: "p \<in> set (srm_sent (le_device_sent L) (sl_rm d))" "valid_packet p"
    and at: "host_at (le_host L) (le_received L) c n [] m"
  obtains x q where "meet_step L (m, d) (m\<lparr>ms_rm := x\<rparr>, d)"
    "host_at (le_host L) (le_received L) c n [q] (m\<lparr>ms_rm := x\<rparr>)"
    "packet_type q = packet_type p" "packet_blocks q = packet_blocks p"
proof -
  obtain t where t: "mr_transport (ms_rm m) = Some t" "tr_is_open (me_tr (ma_rm (le_host L))) t"
    "le_received L t = []"
    using at by (auto simp: host_at_def)
  obtain q where q: "carried p q" using some_carried [OF p(2)] by blast
  obtain t' where t': "delivers (me_tr (ma_rm (le_host L))) (le_sent L) (le_received L) q t t'"
    using laws(5) t(3) by (auto simp: takes_packets_def)
  show thesis
    by (rule that [OF meet_step.to_host [OF p(1) q t(1) t'] _ carried_fields(1,3) [OF p(2) q]])
      (use at t t' in \<open>simp add: host_at_def host_polite_def delivers_def\<close>)
qed

text \<open>The host's first two turns and the arrival of its identification: the device knows the host.\<close>

lemma host_introduces_itself:
  assumes "meeting_begun L m d"
  obtains m2 d2 where "(meet_step L)\<^sup>*\<^sup>* (m, d) (m2, d2)"
    "host_at (le_host L) (le_received L) Connecting 1 [] m2" "ms_connection_attempts m2 = 1"
    "device_at (le_device L) (le_device_received L) Connecting 0 [] d2" "\<not> sr_running (sl_rm d2)"
    "sl_master_id d2 = ms_master_id m" "sl_slave_id d2 = sl_slave_id d"
proof -
  have m: "ms_running m" "ms_curr m = Disconnected" "host_polite m" "ms_nb_loop m = 0 \<or> \<not> mr_running (ms_rm m)"
    "em_events (ma_evt (le_host L)) (em_wait (ma_evt (le_host L)) (ms_evt m)) - {Connection_attempt} = {Connection_requested}"
    and size: "identification_size (ms_master_id m) \<le> 2019"
    and d: "device_at (le_device L) (le_device_received L) Disconnected (sl_nb_loop d) [] d" "\<not> sr_running (sl_rm d)"
    using assms by (simp_all add: meeting_begun_def)
  obtain n where n: "sl_nb_loop d = Suc n" using assms by (auto simp: meeting_begun_def gr0_conv_Suc)
  obtain t where t: "mr_transport (ms_rm m) = Some t" "tr_is_open (me_tr (ma_rm (le_host L))) t"
    using assms by (auto simp: meeting_begun_def mrm_open_def split: option.splits)
  obtain m1 where m1: "ms_turn (le_host L) m = (Inr (), m1)"
    "host_at (le_host L) (le_received L) Connecting 0 (le_received L t) m1"
    "\<not> mr_running (ms_rm m1)" "ms_master_id m1 = ms_master_id m"
    by (rule host_requests [OF laws(1) m t])
  have size1: "identification_size (ms_master_id m1) \<le> 2019" using size m1(4) by simp
  obtain m2 hip where m2: "ms_turn (le_host L) m1 = (Inr (), m2)"
    "host_at (le_host L) (le_received L) Connecting 1 [] m2" "hip \<in> set (mrm_sent (le_sent L) (ms_rm m2))"
    "valid_packet hip" "packet_type hip = Some Hip" "packet_blocks hip = identification_blocks (ms_master_id m1)"
    "ms_connection_attempts m2 = 1"
    by (rule host_attempts [OF laws(3,1,7) size1 m1(2,3)])
  obtain x q where x: "meet_step L (m2, d) (m2, d\<lparr>sl_rm := x\<rparr>)"
    "device_at (le_device L) (le_device_received L) Disconnected (Suc n) [q] (d\<lparr>sl_rm := x\<rparr>)"
    "packet_type q = packet_type hip" "packet_blocks q = packet_blocks hip" "sr_running x = sr_running (sl_rm d)"
    by (rule arrives_at_device [OF m2(3,4) d(1) [unfolded n]])
  have q: "packet_type q = Some Hip" "packet_blocks q = identification_blocks (ms_master_id m)"
    "\<not> sr_running (sl_rm (d\<lparr>sl_rm := x\<rparr>))"
    using x(3-5) m2(5,6) m1(4) d(2) by simp_all
  obtain d2 where d2: "sl_turn (le_device L) (d\<lparr>sl_rm := x\<rparr>) = (Inr (), d2)"
    "device_at (le_device L) (le_device_received L) Connecting 0 [] d2" "sl_master_id d2 = ms_master_id m"
    "sl_slave_id d2 = sl_slave_id (d\<lparr>sl_rm := x\<rparr>)" "\<not> sr_running (sl_rm d2)"
    by (rule device_learns [OF laws(4,2) x(2) q(3,1,2)])
  have "meet_step L (m, d) (m1, d)" by (rule meet_step.host [OF m(1) m1(1)])
  moreover have "meet_step L (m1, d) (m2, d)"
    by (rule meet_step.host [OF _ m2(1)]) (use m1(2) in \<open>simp add: host_at_def\<close>)
  moreover note x(1)
  moreover have "meet_step L (m2, d\<lparr>sl_rm := x\<rparr>) (m2, d2)"
    by (rule meet_step.device [OF _ d2(1)]) (use x(2) in \<open>simp add: device_at_def\<close>)
  ultimately have "(meet_step L)\<^sup>*\<^sup>* (m, d) (m2, d2)"
    by (meson converse_rtranclp_into_rtranclp rtranclp.rtrancl_refl)
  then show thesis by (rule that [OF _ m2(2,7) d2(2,5,3)]) (simp add: d2(4))
qed

text \<open>The rest: the device answers, the host goes to \<open>Connected\<close> and its keep-alive brings the device there.\<close>

lemma connects:
  assumes "meeting_begun L m d"
  obtains m' d' where "(meet_step L)\<^sup>*\<^sup>* (m, d) (m', d')" "ms_curr m' = Connected" "sl_curr d' = Connected"
    "ms_slave_id m' = sl_slave_id d" "sl_master_id d' = ms_master_id m"
    "mr_keepalive_mngt (ms_rm m')" "sr_keepalive_mngt (sl_rm d')"
proof -
  obtain m2 d2 where two: "(meet_step L)\<^sup>*\<^sup>* (m, d) (m2, d2)"
    "host_at (le_host L) (le_received L) Connecting 1 [] m2" "ms_connection_attempts m2 = 1"
    "device_at (le_device L) (le_device_received L) Connecting 0 [] d2" "\<not> sr_running (sl_rm d2)"
    "sl_master_id d2 = ms_master_id m" "sl_slave_id d2 = sl_slave_id d"
    by (rule host_introduces_itself [OF assms])
  have size: "identification_size (sl_slave_id d2) \<le> 2019" using assms two(7) by (simp add: meeting_begun_def)
  obtain d3 dip where d3: "sl_turn (le_device L) d2 = (Inr (), d3)"
    "device_at (le_device L) (le_device_received L) Connecting 1 [] d3"
    "dip \<in> set (srm_sent (le_device_sent L) (sl_rm d3))" "valid_packet dip" "packet_type dip = Some Dip"
    "packet_blocks dip = identification_blocks (sl_slave_id d2)" "sl_master_id d3 = sl_master_id d2"
    "sr_keepalive_mngt (sl_rm d3)"
    by (rule device_answers [OF laws(4,2,8) size two(4,5)])
  obtain x q where x: "meet_step L (m2, d3) (m2\<lparr>ms_rm := x\<rparr>, d3)"
    "host_at (le_host L) (le_received L) Connecting 1 [q] (m2\<lparr>ms_rm := x\<rparr>)"
    "packet_type q = packet_type dip" "packet_blocks q = packet_blocks dip"
    by (rule arrives_at_host [OF d3(3,4) two(2)])
  have q: "ms_connection_attempts (m2\<lparr>ms_rm := x\<rparr>) = 1" "packet_type q = Some Dip"
    "packet_blocks q = identification_blocks (sl_slave_id d)"
    using x(3,4) d3(5,6) two(3,7) by simp_all
  obtain m4 where m4: "ms_turn (le_host L) (m2\<lparr>ms_rm := x\<rparr>) = (Inr (), m4)"
    "host_at (le_host L) (le_received L) Connected 0 [] m4" "ms_slave_id m4 = sl_slave_id d"
    by (rule host_learns [OF laws(3,1) x(2) [unfolded One_nat_def] q])
  obtain m5 k where m5: "ms_turn (le_host L) m4 = (Inr (), m5)"
    "host_at (le_host L) (le_received L) Connected 1 [] m5" "k \<in> set (mrm_sent (le_sent L) (ms_rm m5))"
    "valid_packet k" "packet_type k = Some Ka" "mr_keepalive_mngt (ms_rm m5)" "ms_slave_id m5 = ms_slave_id m4"
    by (rule host_keeps_alive [OF laws(3,1,7) m4(2)])
  obtain y p where y: "meet_step L (m5, d3) (m5, d3\<lparr>sl_rm := y\<rparr>)"
    "device_at (le_device L) (le_device_received L) Connecting 1 [p] (d3\<lparr>sl_rm := y\<rparr>)"
    "packet_type p = packet_type k" "sr_keepalive_mngt y = sr_keepalive_mngt (sl_rm d3)"
    by (rule arrives_at_device [OF m5(3,4) d3(2)])
  have p: "packet_type p = Some Ka" using y(3) m5(5) by simp
  obtain d6 where d6: "sl_turn (le_device L) (d3\<lparr>sl_rm := y\<rparr>) = (Inr (), d6)"
    "device_at (le_device L) (le_device_received L) Connected 0 [] d6"
    "sl_master_id d6 = sl_master_id (d3\<lparr>sl_rm := y\<rparr>)"
    "sr_keepalive_mngt (sl_rm d6) = sr_keepalive_mngt (sl_rm (d3\<lparr>sl_rm := y\<rparr>))"
    by (rule device_connects [OF laws(4,2,8) y(2) [unfolded One_nat_def] p])
  have "meet_step L (m2, d2) (m2, d3)"
    by (rule meet_step.device [OF _ d3(1)]) (use two(4) in \<open>simp add: device_at_def\<close>)
  moreover note x(1)
  moreover have "meet_step L (m2\<lparr>ms_rm := x\<rparr>, d3) (m4, d3)"
    by (rule meet_step.host [OF _ m4(1)]) (use x(2) in \<open>simp add: host_at_def\<close>)
  moreover have "meet_step L (m4, d3) (m5, d3)"
    by (rule meet_step.host [OF _ m5(1)]) (use m4(2) in \<open>simp add: host_at_def\<close>)
  moreover note y(1)
  moreover have "meet_step L (m5, d3\<lparr>sl_rm := y\<rparr>) (m5, d6)"
    by (rule meet_step.device [OF _ d6(1)]) (use y(2) in \<open>simp add: device_at_def\<close>)
  ultimately have "(meet_step L)\<^sup>*\<^sup>* (m2, d2) (m5, d6)"
    by (meson converse_rtranclp_into_rtranclp rtranclp.rtrancl_refl)
  then have "(meet_step L)\<^sup>*\<^sup>* (m, d) (m5, d6)" using two(1) by (rule rtranclp_trans [rotated])
  then show thesis
    by (rule that) (use m5(2,6,7) m4(3) d6(2-4) d3(7,8) y(4) two(6) in \<open>simp_all add: host_at_def device_at_def\<close>)
qed

end

section \<open>Properties\<close>

text \<open>A meeting on the reference objects, over two clients.\<close>

definition ref_asking :: ref_master where
  "ref_asking = ref_master\<lparr>ms_curr := Disconnected, ms_evt := {Connection_requested}, ms_running := True\<rparr>"

definition ref_listening :: ref_slave where
  "ref_listening = ref_slave\<lparr>sl_curr := Disconnected, sl_nb_loop := 1, sl_running := True, sl_slave_id := ref_ident\<rparr>"

lemma ref_meets: "meets ref_link"
proof -
  have "holds_up_to (ce_read_queue ref_client_env) 100" by (simp add: ref_client_env_def)
  then have "takes_packets (tc_api ref_client_env) (tc_sent ref_client_env) (tc_received ref_client_env)"
    by (rule tc_takes [OF ref_client_laws]) simp
  then show ?thesis using ref_app_posting by (simp add: meets_def ref_link_def)
qed

interpretation ref_meeting: meeting ref_link
  by unfold_locales (rule ref_meets)

lemma ref_meeting_begun: "meeting_begun ref_link ref_asking ref_listening"
  using ref_ident_size
  by (simp add: meeting_begun_def ref_link_def ref_asking_def ref_listening_def ref_master_def ref_slave_def
      host_polite_def device_polite_def device_at_def mrm_open_def ref_slave_rm_def ref_event_mngr_def)

text \<open>
  C5: A request to connect leads to a connection. A disconnected host whose user has asked for a
  connection and a disconnected device, both running over open transports that accept what is
  written and take what arrives, can always get there, whatever their manager and status callbacks
  were left in: there is a run of whole turns of both threads, in which only what one side has
  sent arrives at the other, and behind which both are in \<open>Connected\<close>, each holds exactly the
  identification of the other, and both manage their keep-alives.
\<close>

theorem session_connects:
  assumes "meets L" and "meeting_begun L m d"
  shows "\<exists>m' d'. (meet_step L)\<^sup>*\<^sup>* (m, d) (m', d') \<and> ms_curr m' = Connected \<and> sl_curr d' = Connected
    \<and> ms_slave_id m' = sl_slave_id d \<and> sl_master_id d' = ms_master_id m
    \<and> mr_keepalive_mngt (ms_rm m') \<and> sr_keepalive_mngt (sl_rm d')"
proof -
  have "meeting L" using assms(1) by unfold_locales
  then show ?thesis using meeting.connects [OF _ assms(2)] by metis
qed

theorem session_connects_witness:
  "\<exists>m' d'. (meet_step ref_link)\<^sup>*\<^sup>* (ref_asking, ref_listening) (m', d') \<and> ms_curr m' = Connected
     \<and> sl_curr d' = Connected \<and> ms_slave_id m' = ref_ident \<and> sl_master_id d' = ref_master_ident"
  using session_connects [OF ref_meets ref_meeting_begun]
  by (auto simp: ref_asking_def ref_listening_def ref_master_def)

end
